(* ===== verification/Prelude.thy ===== *)
theory Prelude
  imports Main "HOL-Library.Word"
begin

unbundle bit_operations_syntax

text \<open>
  The shared vocabulary of the development: the C integer types as machine words, the
  set/clear convention of the Amiga custom registers, byte order, and the generic lemmas on
  words, functions used as arrays and lists that the components share.

  A C array is a function from its index (a \<open>nat\<close>) to its elements; a store at index
  \<open>i\<close> is a function update, and the bounds of the array are part of the properties.
\<close>

section \<open>Types\<close>

type_synonym u8 = "8 word"
type_synonym u16 = "16 word"
type_synonym u32 = "32 word"
type_synonym u64 = "64 word"

text \<open>Collections of rewrite rules: the bit-level facts, and the frame facts of the components.\<close>

named_theorems bits "bit-level facts on masks, shifts and conversions"
named_theorems frame "which parts of a state an operation leaves alone"

section \<open>Set/clear registers\<close>

text \<open>
  DMACON, INTENA, INTREQ and ADKCON: bit 15 of the written word selects whether the
  other fifteen bits are set or cleared in the register.
\<close>

definition setclr16 :: "u16 \<Rightarrow> u16 \<Rightarrow> u16" where
  "setclr16 reg value =
     (if value AND 0x8000 \<noteq> 0 then reg OR (value AND 0x7fff)
      else reg AND NOT (value AND 0x7fff))"

text \<open>The simplifier turns a bit of a word numeral into the bit of the integer numeral.\<close>

lemma bit_int_mask: "c = (2 ^ k - 1 :: int) \<Longrightarrow> bit c n \<longleftrightarrow> n < k"
  by (simp only: mask_eq_exp_minus_1 [symmetric] bit_mask_iff) simp

lemma bit_int_exp: "c = (2 ^ k :: int) \<Longrightarrow> bit c n \<longleftrightarrow> n = k"
  by (simp only: bit_exp_iff) auto

lemma bit_int_neg_exp: "c = - (2 ^ k :: int) \<Longrightarrow> bit c n \<longleftrightarrow> k \<le> n"
proof -
  have "- (2 ^ k :: int) = NOT (mask k)"
    by (simp add: mask_eq_exp_minus_1 not_int_def)
  then show "c = - (2 ^ k :: int) \<Longrightarrow> bit c n \<longleftrightarrow> k \<le> n"
    by (simp only: bit_not_iff_eq bit_mask_iff) auto
qed

lemma bit_exps_int [bits]:
  "bit (1 :: int) n \<longleftrightarrow> n = 0"
  "bit (2 :: int) n \<longleftrightarrow> n = 1"
  "bit (4 :: int) n \<longleftrightarrow> n = 2"
  "bit (8 :: int) n \<longleftrightarrow> n = 3"
  "bit (16 :: int) n \<longleftrightarrow> n = 4"
  "bit (32 :: int) n \<longleftrightarrow> n = 5"
  "bit (64 :: int) n \<longleftrightarrow> n = 6"
  "bit (128 :: int) n \<longleftrightarrow> n = 7"
  "bit (256 :: int) n \<longleftrightarrow> n = 8"
  "bit (512 :: int) n \<longleftrightarrow> n = 9"
  "bit (1024 :: int) n \<longleftrightarrow> n = 10"
  "bit (2048 :: int) n \<longleftrightarrow> n = 11"
  "bit (4096 :: int) n \<longleftrightarrow> n = 12"
  "bit (8192 :: int) n \<longleftrightarrow> n = 13"
  "bit (16384 :: int) n \<longleftrightarrow> n = 14"
  "bit (32768 :: int) n \<longleftrightarrow> n = 15"
  "bit (65536 :: int) n \<longleftrightarrow> n = 16"
  "bit (131072 :: int) n \<longleftrightarrow> n = 17"
  "bit (262144 :: int) n \<longleftrightarrow> n = 18"
  "bit (524288 :: int) n \<longleftrightarrow> n = 19"
  "bit (1048576 :: int) n \<longleftrightarrow> n = 20"
  "bit (2097152 :: int) n \<longleftrightarrow> n = 21"
  "bit (4194304 :: int) n \<longleftrightarrow> n = 22"
  "bit (8388608 :: int) n \<longleftrightarrow> n = 23"
  "bit (16777216 :: int) n \<longleftrightarrow> n = 24"
  "bit (33554432 :: int) n \<longleftrightarrow> n = 25"
  "bit (67108864 :: int) n \<longleftrightarrow> n = 26"
  "bit (134217728 :: int) n \<longleftrightarrow> n = 27"
  "bit (268435456 :: int) n \<longleftrightarrow> n = 28"
  "bit (536870912 :: int) n \<longleftrightarrow> n = 29"
  "bit (1073741824 :: int) n \<longleftrightarrow> n = 30"
  "bit (2147483648 :: int) n \<longleftrightarrow> n = 31"
  "bit (4294967296 :: int) n \<longleftrightarrow> n = 32"
  "bit (9223372036854775808 :: int) n \<longleftrightarrow> n = 63"
  by (rule bit_int_exp; simp)+

lemma bit_masks_int [bits]:
  "bit (3 :: int) n \<longleftrightarrow> n < 2"
  "bit (7 :: int) n \<longleftrightarrow> n < 3"
  "bit (15 :: int) n \<longleftrightarrow> n < 4"
  "bit (31 :: int) n \<longleftrightarrow> n < 5"
  "bit (63 :: int) n \<longleftrightarrow> n < 6"
  "bit (127 :: int) n \<longleftrightarrow> n < 7"
  "bit (255 :: int) n \<longleftrightarrow> n < 8"
  "bit (511 :: int) n \<longleftrightarrow> n < 9"
  "bit (1023 :: int) n \<longleftrightarrow> n < 10"
  "bit (2047 :: int) n \<longleftrightarrow> n < 11"
  "bit (4095 :: int) n \<longleftrightarrow> n < 12"
  "bit (8191 :: int) n \<longleftrightarrow> n < 13"
  "bit (16383 :: int) n \<longleftrightarrow> n < 14"
  "bit (32767 :: int) n \<longleftrightarrow> n < 15"
  "bit (65535 :: int) n \<longleftrightarrow> n < 16"
  "bit (131071 :: int) n \<longleftrightarrow> n < 17"
  "bit (262143 :: int) n \<longleftrightarrow> n < 18"
  "bit (524287 :: int) n \<longleftrightarrow> n < 19"
  "bit (1048575 :: int) n \<longleftrightarrow> n < 20"
  "bit (2097151 :: int) n \<longleftrightarrow> n < 21"
  "bit (4194303 :: int) n \<longleftrightarrow> n < 22"
  "bit (8388607 :: int) n \<longleftrightarrow> n < 23"
  "bit (16777215 :: int) n \<longleftrightarrow> n < 24"
  "bit (33554431 :: int) n \<longleftrightarrow> n < 25"
  "bit (67108863 :: int) n \<longleftrightarrow> n < 26"
  "bit (134217727 :: int) n \<longleftrightarrow> n < 27"
  "bit (268435455 :: int) n \<longleftrightarrow> n < 28"
  "bit (536870911 :: int) n \<longleftrightarrow> n < 29"
  "bit (1073741823 :: int) n \<longleftrightarrow> n < 30"
  "bit (2147483647 :: int) n \<longleftrightarrow> n < 31"
  "bit (4294967295 :: int) n \<longleftrightarrow> n < 32"
  by (rule bit_int_mask; simp)+

lemma bit_int_field: "c = ((2 ^ k - 1) * 2 ^ j :: int) \<Longrightarrow> bit c n \<longleftrightarrow> j \<le> n \<and> n < j + k"
proof -
  assume "c = (2 ^ k - 1) * 2 ^ j"
  then have "c = push_bit j (mask k)"
    by (simp only: push_bit_eq_mult mask_eq_exp_minus_1)
  then show ?thesis
    by (simp only: bit_push_bit_iff bit_mask_iff) auto
qed

lemma bit_neg_8000_int [bits]: "bit (- 0x8000 :: int) n \<longleftrightarrow> 15 \<le> n"
  by (rule bit_int_neg_exp) simp

lemma bit_setclr16 [bits]:
  "bit (setclr16 reg value) n \<longleftrightarrow>
     (if n < 15 \<and> bit value n then value AND 0x8000 \<noteq> 0 else bit reg n)"
proof (cases "n < 16")
  case True
  then show ?thesis
    by (auto simp: setclr16_def bit_or_iff bit_and_iff bit_not_iff_eq bits)
next
  case False
  then have "\<not> bit w n" for w :: u16
    using bit_imp_le_length [of w n] by auto
  then show ?thesis by simp
qed

text \<open>Restoring a register whose bit 15 is clear from a zero register gives it back.\<close>

lemma setclr16_restore:
  assumes "\<not> bit r 15"
  shows "setclr16 0 (0x8000 OR r) = r"
proof (rule bit_word_eqI)
  fix n assume "n < LENGTH(16)"
  then have "n < 15 \<or> n = 15" by auto
  moreover have "(0x8000 OR r) AND 0x8000 \<noteq> 0"
  proof -
    have "bit ((0x8000 OR r) AND 0x8000) 15"
      by (simp add: bit_and_iff bit_or_iff)
    then show ?thesis by force
  qed
  ultimately show "bit (setclr16 0 (0x8000 OR r)) n = bit r n"
    using assms by (auto simp: bit_setclr16 bit_or_iff bits)
qed

lemma setclr16_bit15: "\<not> bit reg 15 \<Longrightarrow> \<not> bit (setclr16 reg value) 15"
  by (simp add: bit_setclr16)

section \<open>Byte order\<close>

text \<open>
  The firmware runs on a big-endian AArch64 core, so the accessors \<open>LE16\<close> and
  \<open>LE32\<close> swap bytes.
\<close>

definition LE32 :: "u32 \<Rightarrow> u32" where
  "LE32 x = push_bit 24 (x AND 0xff) OR push_bit 8 (x AND 0xff00)
            OR (drop_bit 8 x AND 0xff00) OR (drop_bit 24 x AND 0xff)"

definition LE16 :: "u16 \<Rightarrow> u16" where
  "LE16 x = push_bit 8 x OR drop_bit 8 x"

section \<open>Words\<close>

lemma unat_less_pow: "unat (w :: 'a::len word) < 2 ^ LENGTH('a)"
  by (rule unsigned_less)

lemma unat_mask_less [bits]: "unat ((w :: 'a::len word) AND mask n) < 2 ^ n"
proof -
  have "unat (w AND mask n) = take_bit n (unat w)"
    by (simp add: take_bit_eq_mask [symmetric] unsigned_take_bit_eq)
  then show ?thesis by simp
qed

lemma unat_and_mask_eq:
  fixes x :: "'a::len word"
  assumes "c = mask k" and "d = 2 ^ k"
  shows "unat (x AND c) = unat x mod d"
proof -
  have "unat (x AND c) = unat (take_bit k x)"
    by (simp only: assms take_bit_eq_mask)
  also have "\<dots> = take_bit k (unat x)"
    by (rule unsigned_take_bit_eq)
  also have "\<dots> = unat x mod d"
    by (simp only: take_bit_eq_mod assms)
  finally show ?thesis .
qed

lemma unat_and_masks:
  fixes x :: "'a::len word"
  shows
    "unat (x AND 1) = unat x mod 2"
    and "unat (x AND 3) = unat x mod 4"
    and "unat (x AND 7) = unat x mod 8"
    and "unat (x AND 15) = unat x mod 16"
    and "unat (x AND 31) = unat x mod 32"
    and "unat (x AND 63) = unat x mod 64"
    and "unat (x AND 127) = unat x mod 128"
    and "unat (x AND 255) = unat x mod 256"
    and "unat (x AND 511) = unat x mod 512"
    and "unat (x AND 4095) = unat x mod 4096"
    and "unat (x AND 8191) = unat x mod 8192"
    and "unat (x AND 16383) = unat x mod 16384"
    and "unat (x AND 32767) = unat x mod 32768"
    and "unat (x AND 65535) = unat x mod 65536"
    and "unat (x AND 16777215) = unat x mod 16777216"
    and "unat (x AND 4294967295) = unat x mod 4294967296"
proof -
  show "unat (x AND 1) = unat x mod 2"
    by (rule unat_and_mask_eq [where k = 1]) (simp_all add: mask_eq_exp_minus_1)
  show "unat (x AND 3) = unat x mod 4"
    by (rule unat_and_mask_eq [where k = 2]) (simp_all add: mask_eq_exp_minus_1)
  show "unat (x AND 7) = unat x mod 8"
    by (rule unat_and_mask_eq [where k = 3]) (simp_all add: mask_eq_exp_minus_1)
  show "unat (x AND 15) = unat x mod 16"
    by (rule unat_and_mask_eq [where k = 4]) (simp_all add: mask_eq_exp_minus_1)
  show "unat (x AND 31) = unat x mod 32"
    by (rule unat_and_mask_eq [where k = 5]) (simp_all add: mask_eq_exp_minus_1)
  show "unat (x AND 63) = unat x mod 64"
    by (rule unat_and_mask_eq [where k = 6]) (simp_all add: mask_eq_exp_minus_1)
  show "unat (x AND 127) = unat x mod 128"
    by (rule unat_and_mask_eq [where k = 7]) (simp_all add: mask_eq_exp_minus_1)
  show "unat (x AND 255) = unat x mod 256"
    by (rule unat_and_mask_eq [where k = 8]) (simp_all add: mask_eq_exp_minus_1)
  show "unat (x AND 511) = unat x mod 512"
    by (rule unat_and_mask_eq [where k = 9]) (simp_all add: mask_eq_exp_minus_1)
  show "unat (x AND 4095) = unat x mod 4096"
    by (rule unat_and_mask_eq [where k = 12]) (simp_all add: mask_eq_exp_minus_1)
  show "unat (x AND 8191) = unat x mod 8192"
    by (rule unat_and_mask_eq [where k = 13]) (simp_all add: mask_eq_exp_minus_1)
  show "unat (x AND 16383) = unat x mod 16384"
    by (rule unat_and_mask_eq [where k = 14]) (simp_all add: mask_eq_exp_minus_1)
  show "unat (x AND 32767) = unat x mod 32768"
    by (rule unat_and_mask_eq [where k = 15]) (simp_all add: mask_eq_exp_minus_1)
  show "unat (x AND 65535) = unat x mod 65536"
    by (rule unat_and_mask_eq [where k = 16]) (simp_all add: mask_eq_exp_minus_1)
  show "unat (x AND 16777215) = unat x mod 16777216"
    by (rule unat_and_mask_eq [where k = 24]) (simp_all add: mask_eq_exp_minus_1)
  show "unat (x AND 4294967295) = unat x mod 4294967296"
    by (rule unat_and_mask_eq [where k = 32]) (simp_all add: mask_eq_exp_minus_1)
qed

lemma unat_and_le [bits]: "unat ((a :: 'a::len word) AND b) \<le> unat b"
  by (metis word_and_le1 word_le_nat_alt)

lemma unat_word_diff_eq:
  fixes a b :: "'a::len word"
  assumes "a = b + word_of_nat n" and "n < 2 ^ LENGTH('a)"
  shows "unat (a - b) = n"
  using assms by (simp add: unat_of_nat)

lemma unat_ucast_up:
  fixes w :: "'a::len word"
  assumes "LENGTH('a) \<le> LENGTH('b::len)"
  shows "unat (ucast w :: 'b word) = unat w"
proof -
  have "unat w < 2 ^ LENGTH('b)"
    using assms unat_less_pow [of w] by (meson le_trans less_le_trans one_le_numeral power_increasing)
  then show ?thesis
    by (simp add: unsigned_ucast_eq take_bit_nat_eq_self)
qed

lemma unat_ucasts [simp]:
  "unat (ucast (a :: u8) :: u16) = unat a" "unat (ucast (a :: u8) :: u32) = unat a"
  "unat (ucast (a :: u8) :: u64) = unat a" "unat (ucast (b :: u16) :: u32) = unat b"
  "unat (ucast (b :: u16) :: u64) = unat b" "unat (ucast (c :: u32) :: u64) = unat c"
  by (simp_all add: unat_ucast_up)

lemma unat_add_small:
  fixes a b :: "'a::len word"
  shows "unat a + unat b < 2 ^ LENGTH('a) \<Longrightarrow> unat (a + b) = unat a + unat b"
  by (simp add: unat_word_ariths)

lemma unat_mult_small:
  fixes a b :: "'a::len word"
  shows "unat a * unat b < 2 ^ LENGTH('a) \<Longrightarrow> unat (a * b) = unat a * unat b"
  by (simp add: unat_word_ariths)

section \<open>Functions as arrays, lists\<close>

lemma fun_upd_range_same: "i \<noteq> j \<Longrightarrow> (f(i := x)) j = f j"
  by simp

lemma map_upt_cong: "(\<And>i. a \<le> i \<Longrightarrow> i < b \<Longrightarrow> f i = g i) \<Longrightarrow> map f [a..<b] = map g [a..<b]"
  by simp

end
