(* ===== verification/Probe.thy ===== *)
theory Probe
  imports Prelude
begin

text \<open>
  The diagnostic register bank of \<open>source/src/raspi/paula/paula_probe.c\<close> and
  \<open>source/include/paula_probe.h\<close>: 128 words of metrics, the mixer mailbox in words
  96 to 100, and the two bus handlers that expose the bank to the Amiga at
  \<open>PAULA_PROBE_BASE\<close>. The bank is a function from word index to word.
\<close>

section \<open>Constants of paula_probe.h\<close>

abbreviation (input) PAULA_PROBE_BASE :: u64 where "PAULA_PROBE_BASE \<equiv> 0xDEADB000"
abbreviation (input) PAULA_PROBE_MAGIC :: u32 where "PAULA_PROBE_MAGIC \<equiv> 0x5041554c"
abbreviation (input) PAULA_PROBE_VERSION :: u32 where "PAULA_PROBE_VERSION \<equiv> 1"
abbreviation (input) PAULA_PROBE_WORDS :: nat where "PAULA_PROBE_WORDS \<equiv> 128"

abbreviation (input) PP_MAGIC :: nat where "PP_MAGIC \<equiv> 0"
abbreviation (input) PP_VERSION :: nat where "PP_VERSION \<equiv> 1"
abbreviation (input) PP_WORDS :: nat where "PP_WORDS \<equiv> 2"
abbreviation (input) PP_FLAGS :: nat where "PP_FLAGS \<equiv> 3"
abbreviation (input) PP_PCM_FRAMES :: nat where "PP_PCM_FRAMES \<equiv> 4"
abbreviation (input) PP_CAPTURED :: nat where "PP_CAPTURED \<equiv> 5"
abbreviation (input) PP_DROPPED :: nat where "PP_DROPPED \<equiv> 6"
abbreviation (input) PP_CONSUMED :: nat where "PP_CONSUMED \<equiv> 7"
abbreviation (input) PP_PENDING :: nat where "PP_PENDING \<equiv> 8"
abbreviation (input) PP_LAST_ADDR :: nat where "PP_LAST_ADDR \<equiv> 9"
abbreviation (input) PP_LAST_VALUE :: nat where "PP_LAST_VALUE \<equiv> 10"
abbreviation (input) PP_LAST_TICKS_LO :: nat where "PP_LAST_TICKS_LO \<equiv> 11"
abbreviation (input) PP_LAST_TICKS_HI :: nat where "PP_LAST_TICKS_HI \<equiv> 12"
abbreviation (input) PP_CACHE_MISSES :: nat where "PP_CACHE_MISSES \<equiv> 13"
abbreviation (input) PP_CACHE_READY :: nat where "PP_CACHE_READY \<equiv> 14"
abbreviation (input) PP_CACHE_PENDING :: nat where "PP_CACHE_PENDING \<equiv> 15"
abbreviation (input) PP_CACHE_FETCHES :: nat where "PP_CACHE_FETCHES \<equiv> 16"
abbreviation (input) PP_CACHE_INVALIDATIONS :: nat where "PP_CACHE_INVALIDATIONS \<equiv> 17"
abbreviation (input) PP_CACHE_INVALID_ADDR :: nat where "PP_CACHE_INVALID_ADDR \<equiv> 18"
abbreviation (input) PP_APPLIED :: nat where "PP_APPLIED \<equiv> 19"
abbreviation (input) PP_IGNORED :: nat where "PP_IGNORED \<equiv> 20"
abbreviation (input) PP_AUDDAT_WRITES :: nat where "PP_AUDDAT_WRITES \<equiv> 21"
abbreviation (input) PP_DMACON :: nat where "PP_DMACON \<equiv> 22"
abbreviation (input) PP_INTENA :: nat where "PP_INTENA \<equiv> 23"
abbreviation (input) PP_INTREQ :: nat where "PP_INTREQ \<equiv> 24"
abbreviation (input) PP_ADKCON :: nat where "PP_ADKCON \<equiv> 25"
abbreviation (input) PP_NONZERO_FRAMES :: nat where "PP_NONZERO_FRAMES \<equiv> 26"
abbreviation (input) PP_PEAK_LEFT :: nat where "PP_PEAK_LEFT \<equiv> 27"
abbreviation (input) PP_PEAK_RIGHT :: nat where "PP_PEAK_RIGHT \<equiv> 28"
abbreviation (input) PP_MAI_CTL :: nat where "PP_MAI_CTL \<equiv> 29"
abbreviation (input) PP_MAI_ERROR :: nat where "PP_MAI_ERROR \<equiv> 30"
abbreviation (input) PP_SAMPLE_RATE :: nat where "PP_SAMPLE_RATE \<equiv> 31"
abbreviation (input) PP_COUNTER_FREQ :: nat where "PP_COUNTER_FREQ \<equiv> 32"
abbreviation (input) PP_RENDER_FRAMES :: nat where "PP_RENDER_FRAMES \<equiv> 33"
abbreviation (input) PP_SAMPLE_READS :: nat where "PP_SAMPLE_READS \<equiv> 34"
abbreviation (input) PP_VIRTUAL_IRQS :: nat where "PP_VIRTUAL_IRQS \<equiv> 35"
abbreviation (input) PP_CACHE_REQUESTS :: nat where "PP_CACHE_REQUESTS \<equiv> 36"
abbreviation (input) PP_CAPTURE_LOCK_DROPS :: nat where "PP_CAPTURE_LOCK_DROPS \<equiv> 37"
abbreviation (input) PP_CAPTURE_FULL_DROPS :: nat where "PP_CAPTURE_FULL_DROPS \<equiv> 38"
abbreviation (input) PP_CACHE_STALE :: nat where "PP_CACHE_STALE \<equiv> 39"
abbreviation (input) PP_RESYNCS :: nat where "PP_RESYNCS \<equiv> 40"
abbreviation (input) PP_RESYNC_SKIPPED :: nat where "PP_RESYNC_SKIPPED \<equiv> 41"
abbreviation (input) PP_REPLAY_LAG_US :: nat where "PP_REPLAY_LAG_US \<equiv> 42"
abbreviation (input) PP_REPLAY_SILENT_FRAMES :: nat where "PP_REPLAY_SILENT_FRAMES \<equiv> 43"
abbreviation (input) PP_SNAPSHOT_RETRIES :: nat where "PP_SNAPSHOT_RETRIES \<equiv> 44"
abbreviation (input) PP_CACHE_ZERO_RETURNS :: nat where "PP_CACHE_ZERO_RETURNS \<equiv> 45"
abbreviation (input) PP_CACHE_MISS_READY :: nat where "PP_CACHE_MISS_READY \<equiv> 46"
abbreviation (input) PP_CACHE_WAIT_FRAMES :: nat where "PP_CACHE_WAIT_FRAMES \<equiv> 47"
abbreviation (input) PP_CACHE_WAIT_RECOVERIES :: nat where "PP_CACHE_WAIT_RECOVERIES \<equiv> 48"
abbreviation (input) PP_CACHE_PREFETCH_PAGES :: nat where "PP_CACHE_PREFETCH_PAGES \<equiv> 49"
abbreviation (input) PP_CHANNEL_BASE :: nat where "PP_CHANNEL_BASE \<equiv> 64"
abbreviation (input) PP_CHANNEL_STRIDE :: nat where "PP_CHANNEL_STRIDE \<equiv> 8"
abbreviation (input) PP_CH_LOC :: nat where "PP_CH_LOC \<equiv> 0"
abbreviation (input) PP_CH_LEN :: nat where "PP_CH_LEN \<equiv> 1"
abbreviation (input) PP_CH_PER :: nat where "PP_CH_PER \<equiv> 2"
abbreviation (input) PP_CH_VOL :: nat where "PP_CH_VOL \<equiv> 3"
abbreviation (input) PP_CH_DAT :: nat where "PP_CH_DAT \<equiv> 4"
abbreviation (input) PP_CH_FLAGS :: nat where "PP_CH_FLAGS \<equiv> 5"
abbreviation (input) PP_CH_WRITES :: nat where "PP_CH_WRITES \<equiv> 6"

abbreviation (input) PM_MAGIC :: nat where "PM_MAGIC \<equiv> 96"
abbreviation (input) PM_VERSION :: nat where "PM_VERSION \<equiv> 97"
abbreviation (input) PM_REQUEST :: nat where "PM_REQUEST \<equiv> 98"
abbreviation (input) PM_APPLIED :: nat where "PM_APPLIED \<equiv> 99"
abbreviation (input) PM_DEFAULTS :: nat where "PM_DEFAULTS \<equiv> 100"
abbreviation (input) PAULA_MIXER_MAGIC :: u32 where "PAULA_MIXER_MAGIC \<equiv> 0x504d4958"
abbreviation (input) PAULA_MIXER_VERSION :: u32 where "PAULA_MIXER_VERSION \<equiv> 2"
abbreviation (input) PM_VALID :: u32 where "PM_VALID \<equiv> 0x80000000"
abbreviation (input) PM_ALLOWED :: u32 where "PM_ALLOWED \<equiv> 0x8007ffff"

abbreviation (input) PP_FLAG_ARMED :: u32 where "PP_FLAG_ARMED \<equiv> 1"
abbreviation (input) PP_FLAG_HDMI_READY :: u32 where "PP_FLAG_HDMI_READY \<equiv> 2"
abbreviation (input) PP_FLAG_RENDERING :: u32 where "PP_FLAG_RENDERING \<equiv> 4"
abbreviation (input) PP_FLAG_CAPTURE_FAILED :: u32 where "PP_FLAG_CAPTURE_FAILED \<equiv> 8"
abbreviation (input) PP_FLAG_MAI_FAILED :: u32 where "PP_FLAG_MAI_FAILED \<equiv> 16"
abbreviation (input) PP_FLAG_CACHE_WORKER :: u32 where "PP_FLAG_CACHE_WORKER \<equiv> 32"

definition PM_DEFAULT :: u32 where
  "PM_DEFAULT = PM_VALID OR 100 OR push_bit 7 100"

section \<open>The mixer settings word\<close>

definition paula_mixer_pack :: "u32 \<Rightarrow> u32 \<Rightarrow> u32 \<Rightarrow> u32 \<Rightarrow> u32" where
  "paula_mixer_pack master stereo linear mute =
     PM_VALID OR (master AND 127) OR push_bit 7 (stereo AND 127) OR
     push_bit 14 (linear AND 1) OR push_bit 15 (mute AND 15)"

definition paula_mixer_valid :: "u32 \<Rightarrow> bool" where
  "paula_mixer_valid word \<longleftrightarrow>
     word AND NOT PM_ALLOWED = 0 \<and> word AND PM_VALID \<noteq> 0 \<and>
     word AND 127 \<le> 100 \<and> drop_bit 7 word AND 127 \<le> 100"

section \<open>The register bank\<close>

type_synonym metrics = "nat \<Rightarrow> u32"

definition paula_probe_init :: "metrics \<Rightarrow> metrics" where
  "paula_probe_init m =
     (\<lambda>i. if i < PAULA_PROBE_WORDS then 0 else m i)(PM_REQUEST := PM_DEFAULT, PM_APPLIED := 0)"

definition paula_probe_set :: "nat \<Rightarrow> u32 \<Rightarrow> metrics \<Rightarrow> metrics" where
  "paula_probe_set index value m =
     (if 3 \<le> index \<and> index < PM_MAGIC \<or> index = PM_APPLIED then m(index := value) else m)"

definition paula_probe_add :: "nat \<Rightarrow> u32 \<Rightarrow> metrics \<Rightarrow> metrics" where
  "paula_probe_add index value m =
     (if 3 \<le> index \<and> index < PM_MAGIC then m(index := m index + value) else m)"

definition paula_probe_flag :: "u32 \<Rightarrow> bool \<Rightarrow> metrics \<Rightarrow> metrics" where
  "paula_probe_flag msk enabled m =
     (if enabled then m(PP_FLAGS := m PP_FLAGS OR msk)
      else m(PP_FLAGS := m PP_FLAGS AND NOT msk))"

definition paula_probe_get :: "metrics \<Rightarrow> nat \<Rightarrow> u32" where
  "paula_probe_get m index =
     (if index = PM_MAGIC then PAULA_MIXER_MAGIC
      else if index = PM_VERSION then PAULA_MIXER_VERSION
      else if index = PM_DEFAULTS then PM_DEFAULT
      else if index = PP_MAGIC then PAULA_PROBE_MAGIC
      else if index = PP_VERSION then PAULA_PROBE_VERSION
      else if index = PP_WORDS then of_nat PAULA_PROBE_WORDS
      else if PAULA_PROBE_WORDS \<le> index then 0
      else m index)"

text \<open>
  The read handler stores through two pointers that may be null. \<open>has_value\<close> and
  \<open>has_value2\<close> say whether the caller passed them; the result holds the words stored
  (\<open>None\<close>: nothing stored) beside the handled flag.
\<close>

definition paula_probe_bus_read ::
    "metrics \<Rightarrow> bool \<Rightarrow> bool \<Rightarrow> nat \<Rightarrow> u64 \<Rightarrow> bool \<times> u64 option \<times> u64 option" where
  "paula_probe_bus_read m has_value has_value2 sz address =
     (if address < PAULA_PROBE_BASE \<or>
         address \<ge> PAULA_PROBE_BASE + of_nat PAULA_PROBE_WORDS * 4
      then (False, None, None)
      else
        let offset = ucast (address - PAULA_PROBE_BASE) :: u32;
            value2 = (if has_value2 then Some 0 else None)
        in if \<not> has_value then (True, None, value2)
           else if sz \<noteq> 4 \<or> offset AND 3 \<noteq> 0 then (True, Some 0, value2)
           else (True, Some (ucast (paula_probe_get m (unat (drop_bit 2 offset)))), value2))"

definition paula_probe_bus_write ::
    "u64 \<Rightarrow> nat \<Rightarrow> u64 \<Rightarrow> metrics \<Rightarrow> bool \<times> metrics" where
  "paula_probe_bus_write value sz address m =
     (if address < PAULA_PROBE_BASE \<or>
         address \<ge> PAULA_PROBE_BASE + of_nat PAULA_PROBE_WORDS * 4
      then (False, m)
      else if sz = 4 \<and> address = PAULA_PROBE_BASE + of_nat PM_REQUEST * 4 \<and>
              paula_mixer_valid (ucast value)
      then (True, m(PM_REQUEST := ucast value))
      else (True, m))"

section \<open>Lemmas\<close>

lemma pack_fields [bits]:
  "paula_mixer_pack m s l u AND 127 = m AND 127"
  "drop_bit 7 (paula_mixer_pack m s l u) AND 127 = s AND 127"
  "drop_bit 14 (paula_mixer_pack m s l u) AND 1 = l AND 1"
  "drop_bit 15 (paula_mixer_pack m s l u) AND 15 = u AND 15"
  by (rule bit_word_eqI; auto simp: paula_mixer_pack_def bit_simps bits)+

lemma bit_field_masks:
  "bit (0x8007ffff :: int) n \<longleftrightarrow> n < 19 \<or> n = 31"
  "bit (0x3f80 :: int) n \<longleftrightarrow> 7 \<le> n \<and> n < 14"
  "bit (0x4000 :: int) n \<longleftrightarrow> n = 14"
  "bit (0x78000 :: int) n \<longleftrightarrow> 15 \<le> n \<and> n < 19"
proof -
  have "(0x8007ffff :: int) = 0x7ffff OR 0x80000000" by simp
  then show "bit (0x8007ffff :: int) n \<longleftrightarrow> n < 19 \<or> n = 31"
    by (simp only: bit_or_iff bits)
qed (use bit_int_field [of "0x3f80" 7 7] bit_int_field [of "0x78000" 4 15]
      bit_int_exp [of "0x4000" 14] in simp_all)

lemma pack_allowed [bits]:
  "paula_mixer_pack m s l u AND NOT PM_ALLOWED = 0"
  "paula_mixer_pack m s l u AND PM_VALID \<noteq> 0"
proof -
  show "paula_mixer_pack m s l u AND NOT PM_ALLOWED = 0"
    by (rule bit_word_eqI) (auto simp: paula_mixer_pack_def bit_simps bits bit_field_masks)
  have "bit (paula_mixer_pack m s l u AND PM_VALID) 31"
    by (simp add: paula_mixer_pack_def bit_simps bits)
  then show "paula_mixer_pack m s l u AND PM_VALID \<noteq> 0"
    by force
qed

lemma and_mask_small:
  fixes x :: u32
  shows "x \<le> 100 \<Longrightarrow> x AND 127 = x" and "x \<le> 1 \<Longrightarrow> x AND 1 = x" and "x \<le> 15 \<Longrightarrow> x AND 15 = x"
  by (simp_all add: word_unat_eq_iff unat_and_masks word_le_nat_alt)

lemma mixer_valid_default [simp]: "paula_mixer_valid PM_DEFAULT"
  by (simp add: paula_mixer_valid_def PM_DEFAULT_def)

lemma probe_get_set:
  "3 \<le> i \<and> i < PM_MAGIC \<or> i = PM_APPLIED \<Longrightarrow> paula_probe_get (paula_probe_set i v m) i = v"
  by (auto simp: paula_probe_get_def paula_probe_set_def)

lemma probe_get_set_other [simp]:
  "i \<noteq> j \<Longrightarrow> paula_probe_get (paula_probe_set i v m) j = paula_probe_get m j"
  by (auto simp: paula_probe_get_def paula_probe_set_def)

lemma probe_get_add_other [simp]:
  "i \<noteq> j \<Longrightarrow> paula_probe_get (paula_probe_add i v m) j = paula_probe_get m j"
  by (auto simp: paula_probe_get_def paula_probe_add_def)

lemma probe_get_flag_other [simp]:
  "j \<noteq> PP_FLAGS \<Longrightarrow> paula_probe_get (paula_probe_flag k e m) j = paula_probe_get m j"
  by (auto simp: paula_probe_get_def paula_probe_flag_def)

text \<open>No firmware-side update reaches the request word: only the Amiga writes it.\<close>

lemma probe_request_frame [frame]:
  "paula_probe_set i v m PM_REQUEST = m PM_REQUEST"
  "paula_probe_add i v m PM_REQUEST = m PM_REQUEST"
  "paula_probe_flag k e m PM_REQUEST = m PM_REQUEST"
  by (auto simp: paula_probe_set_def paula_probe_add_def paula_probe_flag_def)

section \<open>The settings word: fields and validity\<close>

lemma bits_beyond: "\<not> bit (w :: u32) n" if "32 \<le> n"
  using bit_imp_le_length [of w n] that by auto

lemma allowed_bits:
  fixes w :: u32
  assumes "w AND NOT PM_ALLOWED = 0" and "bit w n"
  shows "n < 19 \<or> n = 31"
proof (rule ccontr)
  assume "\<not> ?thesis"
  then have "bit (w AND NOT PM_ALLOWED) n"
    using assms(2) bits_beyond [of n w] by (cases "n < 32") (auto simp: bit_simps bits bit_field_masks)
  then show False using assms(1) by simp
qed

lemma valid_bit31:
  fixes w :: u32
  assumes "w AND PM_VALID \<noteq> 0"
  shows "bit w 31"
proof (rule ccontr)
  assume "\<not> bit w 31"
  then have "w AND PM_VALID = 0"
    by (intro bit_word_eqI) (auto simp: bit_simps bits)
  with assms show False by simp
qed

lemma valid_is_pack:
  assumes "paula_mixer_valid w"
  shows "w = paula_mixer_pack (w AND 127) (drop_bit 7 w AND 127) (drop_bit 14 w AND 1) (drop_bit 15 w AND 15)"
proof (rule bit_word_eqI)
  fix n assume "n < LENGTH(32)"
  then show "bit w n = bit (paula_mixer_pack (w AND 127) (drop_bit 7 w AND 127) (drop_bit 14 w AND 1)
      (drop_bit 15 w AND 15)) n"
    using assms allowed_bits [of w n] valid_bit31 [of w]
    by (cases "n < 7"; cases "n < 14"; cases "n = 14"; cases "n < 19")
       (auto simp: paula_mixer_valid_def paula_mixer_pack_def bit_simps bits bit_field_masks)
qed

lemma pack_valid:
  "m \<le> 100 \<Longrightarrow> s \<le> 100 \<Longrightarrow> paula_mixer_valid (paula_mixer_pack m s l u)"
  unfolding paula_mixer_valid_def using pack_allowed [of m s l u]
  by (simp only: pack_fields and_mask_small) simp

text \<open>
  Packing settings in range gives a word the bank accepts and from which the firmware
  reads back the same four fields, and the accepted words are exactly the packed ones.
\<close>

theorem mixer_word_roundtrip:
  "(master \<le> 100 \<and> stereo \<le> 100 \<and> linear \<le> 1 \<and> mute \<le> 15 \<longrightarrow>
      (let w = paula_mixer_pack master stereo linear mute in
       paula_mixer_valid w \<and> w AND 127 = master \<and> drop_bit 7 w AND 127 = stereo \<and>
       drop_bit 14 w AND 1 = linear \<and> drop_bit 15 w AND 15 = mute)) \<and>
   (paula_mixer_valid word \<longleftrightarrow>
      (\<exists>m s l u. m \<le> 100 \<and> s \<le> 100 \<and> word = paula_mixer_pack m s l u))"
proof
  show "master \<le> 100 \<and> stereo \<le> 100 \<and> linear \<le> 1 \<and> mute \<le> 15 \<longrightarrow>
      (let w = paula_mixer_pack master stereo linear mute in
       paula_mixer_valid w \<and> w AND 127 = master \<and> drop_bit 7 w AND 127 = stereo \<and>
       drop_bit 14 w AND 1 = linear \<and> drop_bit 15 w AND 15 = mute)"
    by (simp add: Let_def pack_valid pack_fields and_mask_small)
  have "paula_mixer_valid word"
    if "m \<le> 100" "s \<le> 100" "word = paula_mixer_pack m s l u" for m s l u
    using that by (simp add: pack_valid)
  then show "paula_mixer_valid word \<longleftrightarrow>
      (\<exists>m s l u. m \<le> 100 \<and> s \<le> 100 \<and> word = paula_mixer_pack m s l u)"
    using valid_is_pack [of word] by (auto simp: paula_mixer_valid_def)
qed

theorem mixer_word_roundtrip_witness:
  "paula_mixer_valid (paula_mixer_pack 80 50 1 5) \<and>
   drop_bit 15 (paula_mixer_pack 80 50 1 5) AND 15 = 5"
  using mixer_word_roundtrip [of 80 50 1 5 0] by (simp add: Let_def)

section \<open>What the Amiga and the firmware can do to the bank\<close>

datatype probe_op =
  PSet nat u32
| PAdd nat u32
| PFlag u32 bool
| PBusWrite u64 nat u64

fun probe_step :: "probe_op \<Rightarrow> metrics \<Rightarrow> metrics" where
  "probe_step (PSet i v) m = paula_probe_set i v m"
| "probe_step (PAdd i v) m = paula_probe_add i v m"
| "probe_step (PFlag k e) m = paula_probe_flag k e m"
| "probe_step (PBusWrite v n a) m = snd (paula_probe_bus_write v n a m)"

lemma request_stays_valid:
  "paula_mixer_valid (m PM_REQUEST) \<Longrightarrow> paula_mixer_valid (probe_step a m PM_REQUEST)"
  by (cases a) (auto simp: frame paula_probe_bus_write_def)

lemma request_valid_fold:
  "paula_mixer_valid (m PM_REQUEST) \<Longrightarrow> paula_mixer_valid (fold probe_step ops m PM_REQUEST)"
  by (induction ops arbitrary: m) (simp_all add: request_stays_valid)

text \<open>
  C11: after initialisation, whatever the firmware stores and whatever words of whatever size
  the Amiga writes, the settings request is a valid settings word and the identity words of
  the bank read as the constants of the protocol.
\<close>

theorem mixer_request_always_valid:
  "let m' = fold probe_step ops (paula_probe_init m) in
   paula_mixer_valid (paula_probe_get m' PM_REQUEST) \<and>
   paula_probe_get m' PP_MAGIC = PAULA_PROBE_MAGIC \<and> paula_probe_get m' PP_VERSION = PAULA_PROBE_VERSION \<and>
   paula_probe_get m' PM_MAGIC = PAULA_MIXER_MAGIC \<and> paula_probe_get m' PM_VERSION = PAULA_MIXER_VERSION \<and>
   paula_probe_get m' PM_DEFAULTS = PM_DEFAULT"
  using request_valid_fold [of "paula_probe_init m" ops]
  by (simp add: Let_def paula_probe_get_def paula_probe_init_def)

text \<open>
  The register window. Reads and writes are taken by the bank exactly inside its 512
  bytes; a write changes the bank only if it is an aligned longword write of a valid
  settings word to the request register, which then reads back; every other register keeps
  its value under every Amiga write.
\<close>

theorem probe_window:
  "let (handled, m') = paula_probe_bus_write value sz address m;
       inside = (PAULA_PROBE_BASE \<le> address \<and> address < PAULA_PROBE_BASE + 512);
       accepted = (sz = 4 \<and> address = PAULA_PROBE_BASE + 392 \<and> paula_mixer_valid (ucast value))
   in handled = inside \<and> fst (paula_probe_bus_read m True True sz' address) = inside \<and>
      m' = (if accepted then m(PM_REQUEST := ucast value) else m) \<and>
      paula_probe_bus_read m' True h2 4 (PAULA_PROBE_BASE + 392)
        = (True, Some (ucast (if accepted then ucast value else m PM_REQUEST)),
           if h2 then Some 0 else None)"
proof (cases "sz = 4 \<and> address = PAULA_PROBE_BASE + 392 \<and> paula_mixer_valid (ucast value)")
  case True
  then show ?thesis
    by (simp add: paula_probe_bus_write_def paula_probe_bus_read_def paula_probe_get_def Let_def)
next
  case False
  then show ?thesis
    by (auto simp: paula_probe_bus_write_def paula_probe_bus_read_def paula_probe_get_def Let_def)
qed

end
