(* ===== verification/Ring.thy ===== *)
theory Ring
  imports Prelude
begin

text \<open>
  Ring buffers with free-running 32-bit counters, the structure shared by the event ring and
  the page request ring of \<open>source/src/raspi/paula/paula_mirror.c\<close> and the write buffer of
  \<open>source/src/pistorm/ps_classic_protocol.c\<close>. The counters wrap around at \<open>2 ^ 32\<close>;
  the capacity \<open>2 ^ k\<close> divides that, so the slot of a counter is the counter modulo the
  capacity before and after the wrap. The locale \<open>bounded_fifo\<close> is the interface a
  consumer of such a ring relies on.
\<close>

section \<open>Contents of a ring\<close>

definition ring_contents :: "(nat \<Rightarrow> 'a) \<Rightarrow> nat \<Rightarrow> u32 \<Rightarrow> u32 \<Rightarrow> 'a list" where
  "ring_contents arr k head tail =
     map (\<lambda>i. arr (unat (tail + word_of_nat i) mod 2 ^ k)) [0..<unat (head - tail)]"

lemma length_ring_contents [simp]: "length (ring_contents arr k head tail) = unat (head - tail)"
  by (simp add: ring_contents_def)

lemma ring_contents_nth:
  "i < unat (head - tail) \<Longrightarrow>
     ring_contents arr k head tail ! i = arr (unat (tail + word_of_nat i) mod 2 ^ k)"
  by (simp add: ring_contents_def)

lemma ring_contents_empty: "ring_contents arr k head tail = [] \<longleftrightarrow> head = tail"
  by (metis length_0_conv length_ring_contents right_minus_eq unsigned_eq_0_iff)

lemma ring_slot:
  fixes t :: u32
  assumes "k < 32"
  shows "unat (t + word_of_nat i) mod 2 ^ k = (unat t + i) mod 2 ^ k"
proof -
  have "(2::nat) ^ k dvd 2 ^ 32"
    by (rule le_imp_power_dvd) (use assms in simp)
  then show ?thesis
    by (simp add: unat_word_ariths unat_of_nat mod_mod_cancel mod_add_eq)
       (metis mod_add_right_eq mod_mod_cancel)
qed

lemma ring_contents_cong:
  assumes "k < 32"
    and "\<And>i. i < unat (head - tail) \<Longrightarrow> arr ((unat tail + i) mod 2 ^ k) = brr ((unat tail + i) mod 2 ^ k)"
  shows "ring_contents arr k head tail = ring_contents brr k head tail"
  using assms by (simp add: ring_contents_def ring_slot)

lemma ring_push:
  assumes k: "k < 32" and room: "unat (head - tail) < 2 ^ k"
  shows "ring_contents (arr(unat head mod 2 ^ k := x)) k (head + 1) tail
           = ring_contents arr k head tail @ [x]"
proof -
  let ?n = "unat (head - tail)"
  have lt: "2 ^ k < (2 ^ 32 :: nat)"
    by (rule power_strict_increasing) (use k in simp_all)
  have len: "unat (head + 1 - tail) = Suc ?n"
  proof -
    have eq: "head + 1 - tail = (head - tail) + 1" by simp
    have "?n + unat (1 :: u32) < 2 ^ LENGTH(32)"
      using room lt by simp
    then have "unat ((head - tail) + 1) = ?n + unat (1 :: u32)"
      by (simp only: unat_add_lem)
    then show ?thesis
      by (simp only: eq) simp
  qed
  have head: "unat head mod 2 ^ k = (unat tail + ?n) mod 2 ^ k"
    using ring_slot [OF k, of tail ?n] by simp
  have other: "(unat tail + i) mod 2 ^ k \<noteq> (unat tail + ?n) mod 2 ^ k" if "i < ?n" for i
  proof
    assume "(unat tail + i) mod 2 ^ k = (unat tail + ?n) mod 2 ^ k"
    then have "2 ^ k dvd (unat tail + ?n) - (unat tail + i)"
      by (metis mod_eq_dvd_iff_nat add_left_mono less_imp_le that)
    then have "2 ^ k dvd ?n - i" by simp
    with that room show False
      by (meson diff_le_self dvd_imp_le le_trans linorder_not_le zero_less_diff)
  qed
  show ?thesis
    unfolding ring_contents_def len
    by (simp add: ring_slot [OF k] head other)
qed

lemma ring_pop_length:
  fixes head tail :: u32
  assumes "head \<noteq> tail"
  shows "unat (head - (tail + 1)) = unat (head - tail) - 1"
proof -
  have "head - tail \<noteq> 0" using assms by simp
  then have "unat (head - tail - 1) = unat (head - tail) - 1"
    by (rule unat_minus_one)
  then show ?thesis by (simp add: algebra_simps)
qed

lemma ring_pop:
  assumes k: "k < 32" and ne: "head \<noteq> tail"
  shows "ring_contents arr k head tail
           = arr (unat tail mod 2 ^ k) # ring_contents arr k head (tail + 1)"
proof -
  let ?n = "unat (head - tail)"
  have pos: "0 < ?n"
    using ne by (simp add: unat_gt_0)
  have len: "unat (head - (tail + 1)) = ?n - 1"
    by (rule ring_pop_length [OF ne])
  have "[0..<?n] = 0 # map Suc [0..<?n - 1]"
    using pos by (metis Suc_pred' map_Suc_upt upt_conv_Cons)
  then show ?thesis
    unfolding ring_contents_def len
    by (simp add: comp_def add.assoc)
qed

section \<open>The interface of a bounded queue\<close>

text \<open>
  \<open>put\<close> takes a request \<open>x\<close> of the producer, stored as \<open>item x\<close>;
  \<open>accepts\<close> says which requests are stored at all.
\<close>

locale bounded_fifo =
  fixes put :: "'x \<Rightarrow> 's \<Rightarrow> 's"
    and item :: "'x \<Rightarrow> 'a"
    and accepts :: "'x \<Rightarrow> bool"
    and peek :: "'s \<Rightarrow> 'a option"
    and pop :: "'s \<Rightarrow> 's"
    and queue :: "'s \<Rightarrow> 'a list"
    and cap :: nat
    and invar :: "'s \<Rightarrow> bool"
  assumes queue_put: "invar s \<Longrightarrow> accepts x \<Longrightarrow> length (queue s) < cap \<Longrightarrow> queue (put x s) = queue s @ [item x]"
    and invar_put: "invar s \<Longrightarrow> accepts x \<Longrightarrow> length (queue s) < cap \<Longrightarrow> invar (put x s)"
    and peek_queue: "invar s \<Longrightarrow> peek s = (case queue s of [] \<Rightarrow> None | x # _ \<Rightarrow> Some x)"
    and queue_pop: "invar s \<Longrightarrow> queue s \<noteq> [] \<Longrightarrow> queue (pop s) = tl (queue s)"
    and invar_pop: "invar s \<Longrightarrow> queue s \<noteq> [] \<Longrightarrow> invar (pop s)"
begin

primrec drain :: "nat \<Rightarrow> 's \<Rightarrow> 'a list \<times> 's" where
  "drain 0 s = ([], s)"
| "drain (Suc n) s =
     (case peek s of None \<Rightarrow> ([], s)
      | Some x \<Rightarrow> (let (xs, t) = drain n (pop s) in (x # xs, t)))"

lemma drain_take:
  "invar s \<Longrightarrow> fst (drain n s) = take n (queue s) \<and> queue (snd (drain n s)) = drop n (queue s)
     \<and> invar (snd (drain n s))"
proof (induction n arbitrary: s)
  case 0
  then show ?case by simp
next
  case (Suc n)
  show ?case
  proof (cases "queue s")
    case Nil
    with Suc.prems show ?thesis by (simp add: peek_queue)
  next
    case (Cons x xs)
    with Suc.prems Suc.IH [of "pop s"] show ?thesis
      by (simp add: peek_queue queue_pop invar_pop split_beta)
  qed
qed

lemma queue_put_all:
  assumes "invar s" and "\<And>x. x \<in> set xs \<Longrightarrow> accepts x" and "length (queue s) + length xs \<le> cap"
  shows "queue (fold put xs s) = queue s @ map item xs \<and> invar (fold put xs s)"
  using assms
proof (induction xs arbitrary: s)
  case Nil
  then show ?case by simp
next
  case (Cons x xs)
  then have "queue (put x s) = queue s @ [item x]" and "invar (put x s)"
    by (simp_all add: queue_put invar_put)
  with Cons show ?case by simp
qed

text \<open>A burst that fits is delivered whole and in order.\<close>

lemma burst_delivered:
  assumes "invar s" and "queue s = []" and "\<And>x. x \<in> set xs \<Longrightarrow> accepts x" and "length xs \<le> cap"
  shows "fst (drain (length xs) (fold put xs s)) = map item xs"
  using queue_put_all [of s xs] drain_take [of "fold put xs s" "length xs"] assms by simp

end

end
