(* ===== verification/Mirror.thy ===== *)
theory Mirror
  imports Probe Ring
begin

text \<open>
  The state and the register event ring of \<open>source/src/raspi/paula/paula_mirror.c\<close>:
  the record \<open>mirror\<close> holds the module's static variables (and the metrics bank its
  functions update), \<open>paula_mirror_capture\<close> is the producer that the bus writes of CPU0
  call, \<open>paula_mirror_peek\<close>, \<open>paula_mirror_pop\<close> and
  \<open>paula_mirror_snapshot_take\<close> are the consumer's operations on CPU1. The lemmas show
  that the ring is a bounded FIFO (an interpretation of \<open>bounded_fifo\<close>), count every
  captured write exactly once, and relate the latest-register shadow to the history of
  writes.
\<close>

section \<open>State\<close>

abbreviation (input) PAULA_MIRROR_CHIP_LIMIT :: u32 where "PAULA_MIRROR_CHIP_LIMIT \<equiv> 0x200000"
abbreviation (input) PAULA_MIRROR_PAGE_SIZE :: u32 where "PAULA_MIRROR_PAGE_SIZE \<equiv> 256"
abbreviation (input) PAULA_MIRROR_EVENT_CAPACITY :: u32 where "PAULA_MIRROR_EVENT_CAPACITY \<equiv> 8192"
abbreviation (input) PAGE_COUNT :: u32 where "PAGE_COUNT \<equiv> 8192"
abbreviation (input) PAGE_MASK :: u32 where "PAGE_MASK \<equiv> 255"
abbreviation (input) REQUEST_CAPACITY :: u32 where "REQUEST_CAPACITY \<equiv> 8192"

record paula_mirror_event =
  ev_ticks :: u64
  ev_address :: u32
  ev_value :: u16
  ev_width :: u8
  ev_reserved :: u8

record paula_mirror_snapshot =
  sn_reg :: "nat \<Rightarrow> nat \<Rightarrow> u16"
  sn_seen :: "nat \<Rightarrow> u8"
  sn_dma :: u16
  sn_intena :: u16
  sn_intreq :: u16
  sn_adkcon :: u16
  sn_seen_global :: u32
  sn_ticks :: u64
  sn_skipped :: u32
  sn_dropped :: u32

definition snapshot_zero :: paula_mirror_snapshot where
  "snapshot_zero = \<lparr>sn_reg = (\<lambda>_ _. 0), sn_seen = (\<lambda>_. 0), sn_dma = 0, sn_intena = 0,
     sn_intreq = 0, sn_adkcon = 0, sn_seen_global = 0, sn_ticks = 0, sn_skipped = 0,
     sn_dropped = 0\<rparr>"

record mirror =
  pm_events :: "nat \<Rightarrow> paula_mirror_event"
  pm_event_head :: u32
  pm_event_tail :: u32
  pm_event_lock :: u32
  pm_enabled :: u32
  pm_captured :: u32
  pm_dropped :: u32
  pm_latest :: paula_mirror_snapshot
  pm_shadow :: "nat \<Rightarrow> u8"
  pm_page_meta :: "nat \<Rightarrow> u64"
  pm_page_miss_seen :: "nat \<Rightarrow> u8"
  pm_render_miss :: u32
  pm_requests :: "nat \<Rightarrow> u16"
  pm_request_head :: u32
  pm_request_tail :: u32
  pm_misses :: u32
  pm_pages_ready :: u32
  pm_invalid_addresses :: u32
  pm_metrics :: metrics

text \<open>The static variables before \<open>paula_mirror_enable\<close>: C zero-initialises them.\<close>

definition mirror_bss :: mirror where
  "mirror_bss = \<lparr>pm_events = (\<lambda>_. \<lparr>ev_ticks = 0, ev_address = 0, ev_value = 0, ev_width = 0,
     ev_reserved = 0\<rparr>), pm_event_head = 0, pm_event_tail = 0, pm_event_lock = 0, pm_enabled = 0,
     pm_captured = 0, pm_dropped = 0, pm_latest = snapshot_zero, pm_shadow = (\<lambda>_. 0),
     pm_page_meta = (\<lambda>_. 0), pm_page_miss_seen = (\<lambda>_. 0), pm_render_miss = 0,
     pm_requests = (\<lambda>_. 0), pm_request_head = 0, pm_request_tail = 0, pm_misses = 0,
     pm_pages_ready = 0, pm_invalid_addresses = 0, pm_metrics = paula_probe_init (\<lambda>_. 0)\<rparr>"

section \<open>The latest-register shadow\<close>

definition mirror_shadow_word :: "u32 \<Rightarrow> u16 \<Rightarrow> paula_mirror_snapshot \<Rightarrow> paula_mirror_snapshot" where
  "mirror_shadow_word address value latest =
     (let r = address AND 0xffe in
      if r = 0x096 then latest\<lparr>sn_dma := setclr16 (sn_dma latest) value,
                               sn_seen_global := sn_seen_global latest OR 1\<rparr>
      else if r = 0x09a then latest\<lparr>sn_intena := setclr16 (sn_intena latest) value,
                                    sn_seen_global := sn_seen_global latest OR 2\<rparr>
      else if r = 0x09c then latest\<lparr>sn_intreq := setclr16 (sn_intreq latest) value,
                                    sn_seen_global := sn_seen_global latest OR 4\<rparr>
      else if r = 0x09e then latest\<lparr>sn_adkcon := setclr16 (sn_adkcon latest) value,
                                    sn_seen_global := sn_seen_global latest OR 8\<rparr>
      else if r < 0x0a0 \<or> r > 0x0da then latest
      else
        let ch = drop_bit 4 (r - 0x0a0);
            reg = (r - 0x0a0) AND 15
        in if ch \<ge> 4 \<or> reg AND 1 \<noteq> 0 \<or> reg > 10 then latest
           else
             let index = unat (drop_bit 1 reg); c = unat ch
             in latest\<lparr>sn_reg := (sn_reg latest)(c := (sn_reg latest c)(index := value)),
                       sn_seen := (sn_seen latest)(c := sn_seen latest c OR push_bit index 1)\<rparr>)"

definition is_audio_register :: "u32 \<Rightarrow> bool" where
  "is_audio_register address \<longleftrightarrow>
     (let r = address AND 0xfff in
      r \<ge> 0xa0 \<and> r \<le> 0xdb \<or> r \<ge> 0x96 \<and> r \<le> 0x97 \<or> r \<ge> 0x9a \<and> r \<le> 0x9f)"

definition paula_mirror_enable :: "'a mirror_scheme \<Rightarrow> 'a mirror_scheme" where
  "paula_mirror_enable s =
     s\<lparr>pm_enabled := 1,
       pm_event_head := 0, pm_event_tail := 0, pm_event_lock := 0,
       pm_request_head := 0, pm_request_tail := 0,
       pm_captured := 0, pm_dropped := 0, pm_misses := 0, pm_pages_ready := 0,
       pm_invalid_addresses := 0,
       pm_latest := snapshot_zero,
       pm_page_meta := (\<lambda>i. if i < unat PAGE_COUNT then 0 else pm_page_meta s i),
       pm_page_miss_seen := (\<lambda>i. if i < unat PAGE_COUNT then 0 else pm_page_miss_seen s i),
       pm_metrics := paula_probe_flag PP_FLAG_ARMED True (pm_metrics s)\<rparr>"

section \<open>Producer\<close>

text \<open>
  The word a bus write presents to Paula: a byte write drives both byte lanes.
\<close>

definition presented_word :: "u32 \<Rightarrow> u32 \<Rightarrow> u16" where
  "presented_word value width =
     (if width = 1 then ucast ((value AND 255) * 0x0101) else ucast value)"

definition capture_dropped :: "nat \<Rightarrow> 'a mirror_scheme \<Rightarrow> 'a mirror_scheme" where
  "capture_dropped why s =
     s\<lparr>pm_dropped := pm_dropped s + 1,
       pm_metrics := paula_probe_add why 1 (paula_probe_add PP_DROPPED 1 (pm_metrics s))\<rparr>"

text \<open>\<open>now1\<close> and \<open>now2\<close> are the two readings of the virtual counter.\<close>

definition paula_mirror_capture ::
    "u64 \<Rightarrow> u64 \<Rightarrow> u32 \<Rightarrow> u32 \<Rightarrow> u32 \<Rightarrow> 'a mirror_scheme \<Rightarrow> 'a mirror_scheme" where
  "paula_mirror_capture now1 now2 addr value width s =
     (let address = addr AND 0xffffff in
      if address AND 0xfff000 \<noteq> 0xdff000 \<or> \<not> is_audio_register address \<or> pm_enabled s = 0
      then s
      else if pm_event_lock s \<noteq> 0
      then capture_dropped PP_CAPTURE_LOCK_DROPS (s\<lparr>pm_event_lock := 1\<rparr>)
      else
        let s1 = s\<lparr>pm_event_lock := 1,
                   pm_latest := (mirror_shadow_word address (presented_word value width)
                                   (pm_latest s))\<lparr>sn_ticks := now1\<rparr>\<rparr>;
            w = pm_event_head s1;
            r = pm_event_tail s1;
            s2 = (if w - r \<ge> PAULA_MIRROR_EVENT_CAPACITY
                  then capture_dropped PP_CAPTURE_FULL_DROPS s1
                  else
                    let e = \<lparr>ev_ticks = now2, ev_address = address, ev_value = ucast value,
                             ev_width = ucast width, ev_reserved = 0\<rparr>;
                        m = pm_metrics s1;
                        m = paula_probe_add PP_CAPTURED 1 m;
                        m = paula_probe_set PP_LAST_ADDR address m;
                        m = paula_probe_set PP_LAST_VALUE
                              (ucast (ucast value :: u16) OR push_bit 16 (width AND 255)) m;
                        m = paula_probe_set PP_LAST_TICKS_LO (ucast now2) m;
                        m = paula_probe_set PP_LAST_TICKS_HI (ucast (drop_bit 32 now2)) m;
                        m = paula_probe_set PP_PENDING (w + 1 - r) m
                    in s1\<lparr>pm_events := (pm_events s1)
                            (unat (w AND (PAULA_MIRROR_EVENT_CAPACITY - 1)) := e),
                          pm_event_head := w + 1,
                          pm_captured := pm_captured s1 + 1,
                          pm_metrics := m\<rparr>)
        in s2\<lparr>pm_event_lock := 0\<rparr>)"

section \<open>Consumer\<close>

definition paula_mirror_peek :: "'a mirror_scheme \<Rightarrow> paula_mirror_event option" where
  "paula_mirror_peek s =
     (let r = pm_event_tail s in
      if r = pm_event_head s then None
      else Some (pm_events s (unat (r AND (PAULA_MIRROR_EVENT_CAPACITY - 1)))))"

definition paula_mirror_pop :: "'a mirror_scheme \<Rightarrow> 'a mirror_scheme" where
  "paula_mirror_pop s =
     (let r = pm_event_tail s in
      if r \<noteq> pm_event_head s
      then s\<lparr>pm_event_tail := r + 1,
             pm_metrics := paula_probe_set PP_PENDING (pm_event_head s - (r + 1))
                             (paula_probe_add PP_CONSUMED 1 (pm_metrics s))\<rparr>
      else s)"

definition paula_mirror_pending :: "'a mirror_scheme \<Rightarrow> u32" where
  "paula_mirror_pending s = pm_event_head s - pm_event_tail s"

text \<open>
  The snapshot: \<open>None\<close> (the C function returns 0) when the mirror is off or the producer
  holds the lock; otherwise the copy of the latest registers and the emptied queue.
\<close>

definition paula_mirror_snapshot_take ::
    "'a mirror_scheme \<Rightarrow> paula_mirror_snapshot option \<times> 'a mirror_scheme" where
  "paula_mirror_snapshot_take s =
     (if pm_enabled s = 0 then (None, s)
      else if pm_event_lock s \<noteq> 0 then (None, s\<lparr>pm_event_lock := 1\<rparr>)
      else
        let h = pm_event_head s;
            t = pm_event_tail s;
            snapshot = (pm_latest s)\<lparr>sn_skipped := h - t, sn_dropped := pm_dropped s\<rparr>
        in (Some snapshot,
            s\<lparr>pm_event_tail := h,
              pm_metrics := paula_probe_set PP_PENDING 0
                              (paula_probe_add PP_CONSUMED (sn_skipped snapshot) (pm_metrics s)),
              pm_event_lock := 0\<rparr>))"

section \<open>The event ring as a queue\<close>

definition event_queue :: "'a mirror_scheme \<Rightarrow> paula_mirror_event list" where
  "event_queue s = ring_contents (pm_events s) 13 (pm_event_head s) (pm_event_tail s)"

text \<open>The producer is idle, the mirror is on and the ring is within its capacity.\<close>

definition event_ring_inv :: "'a mirror_scheme \<Rightarrow> bool" where
  "event_ring_inv s \<longleftrightarrow>
     pm_enabled s \<noteq> 0 \<and> pm_event_lock s = 0 \<and> paula_mirror_pending s \<le> PAULA_MIRROR_EVENT_CAPACITY"

lemma length_event_queue: "length (event_queue s) = unat (paula_mirror_pending s)"
  by (simp add: event_queue_def paula_mirror_pending_def)

text \<open>A bus write as the producer sees it, and the event it becomes.\<close>

record bus_write =
  bw_now1 :: u64
  bw_now2 :: u64
  bw_addr :: u32
  bw_value :: u32
  bw_width :: u32

definition capture_write :: "bus_write \<Rightarrow> 'a mirror_scheme \<Rightarrow> 'a mirror_scheme" where
  "capture_write b = paula_mirror_capture (bw_now1 b) (bw_now2 b) (bw_addr b) (bw_value b) (bw_width b)"

definition captures :: "bus_write \<Rightarrow> bool" where
  "captures b \<longleftrightarrow>
     (let address = bw_addr b AND 0xffffff in
      address AND 0xfff000 = 0xdff000 \<and> is_audio_register address)"

definition event_of :: "bus_write \<Rightarrow> paula_mirror_event" where
  "event_of b = \<lparr>ev_ticks = bw_now2 b, ev_address = bw_addr b AND 0xffffff,
     ev_value = ucast (bw_value b), ev_width = ucast (bw_width b), ev_reserved = 0\<rparr>"

lemma slot_8191: "unat (w AND 0x1fff :: u32) = unat w mod 2 ^ 13"
  by (simp add: unat_and_masks)

lemmas ring_push_13 = ring_push [of 13, simplified]
lemmas ring_pop_13 = ring_pop [of 13, simplified]

lemma capture_idle:
  "\<not> captures b \<Longrightarrow> capture_write b s = s"
  by (auto simp: capture_write_def captures_def paula_mirror_capture_def Let_def)

lemma capture_room:
  assumes "captures b" and "event_ring_inv s" and "paula_mirror_pending s < PAULA_MIRROR_EVENT_CAPACITY"
  shows "pm_events (capture_write b s)
           = (pm_events s)(unat (pm_event_head s) mod 2 ^ 13 := event_of b)"
    and "pm_event_head (capture_write b s) = pm_event_head s + 1"
    and "pm_event_tail (capture_write b s) = pm_event_tail s"
    and "pm_captured (capture_write b s) = pm_captured s + 1"
    and "pm_dropped (capture_write b s) = pm_dropped s"
    and "pm_enabled (capture_write b s) = pm_enabled s"
    and "pm_event_lock (capture_write b s) = 0"
  using assms(1,2) assms(3) [unfolded not_le [symmetric]]
  by (simp_all add: capture_write_def captures_def event_ring_inv_def paula_mirror_capture_def
      paula_mirror_pending_def event_of_def slot_8191 Let_def)

lemma capture_full:
  assumes "captures b" and "event_ring_inv s" and "paula_mirror_pending s = PAULA_MIRROR_EVENT_CAPACITY"
  shows "pm_events (capture_write b s) = pm_events s"
    and "pm_event_head (capture_write b s) = pm_event_head s"
    and "pm_event_tail (capture_write b s) = pm_event_tail s"
    and "pm_captured (capture_write b s) = pm_captured s"
    and "pm_dropped (capture_write b s) = pm_dropped s + 1"
    and "pm_enabled (capture_write b s) = pm_enabled s"
    and "pm_event_lock (capture_write b s) = 0"
  using assms
  by (simp_all add: capture_write_def captures_def event_ring_inv_def paula_mirror_capture_def
      capture_dropped_def paula_mirror_pending_def Let_def)

lemma pending_word_le: "n \<le> 2 ^ 32 - 1 \<Longrightarrow> paula_mirror_pending s \<le> word_of_nat n \<longleftrightarrow> unat (paula_mirror_pending s) \<le> n"
  by (simp add: word_le_nat_alt unat_of_nat)

lemma event_queue_capture:
  assumes "event_ring_inv s" and "captures b" and "length (event_queue s) < 8192"
  shows "event_queue (capture_write b s) = event_queue s @ [event_of b]"
    and "event_ring_inv (capture_write b s)"
proof -
  from assms(3) have n: "unat (pm_event_head s - pm_event_tail s) < 2 ^ 13"
    by (simp add: event_queue_def)
  then have room: "paula_mirror_pending s < PAULA_MIRROR_EVENT_CAPACITY"
    by (simp add: paula_mirror_pending_def word_less_nat_alt)
  note c = capture_room [OF assms(2,1) room]
  show q: "event_queue (capture_write b s) = event_queue s @ [event_of b]"
    unfolding event_queue_def c using n by (simp add: ring_push_13)
  have "length (event_queue (capture_write b s)) \<le> 8192"
    using assms(3) by (simp add: q)
  then have "paula_mirror_pending (capture_write b s) \<le> PAULA_MIRROR_EVENT_CAPACITY"
    by (simp add: length_event_queue word_le_nat_alt)
  with assms(1) show "event_ring_inv (capture_write b s)"
    by (simp add: event_ring_inv_def c)
qed

lemma peek_event_queue:
  "paula_mirror_peek s = (case event_queue s of [] \<Rightarrow> None | e # _ \<Rightarrow> Some e)"
proof (cases "pm_event_head s = pm_event_tail s")
  case True
  then show ?thesis
    by (simp add: paula_mirror_peek_def event_queue_def ring_contents_def)
next
  case False
  then show ?thesis
    by (simp add: paula_mirror_peek_def event_queue_def ring_pop_13 slot_8191 Let_def)
qed

lemma pop_event_queue:
  "event_queue (paula_mirror_pop s) = tl (event_queue s)"
proof (cases "pm_event_head s = pm_event_tail s")
  case True
  then have "event_queue s = []"
    by (simp add: event_queue_def ring_contents_empty)
  with True show ?thesis
    by (simp add: paula_mirror_pop_def Let_def)
next
  case False
  then show ?thesis
    by (simp add: paula_mirror_pop_def event_queue_def ring_pop_13 Let_def)
qed

lemma pop_event_ring_inv:
  assumes "event_ring_inv s"
  shows "event_ring_inv (paula_mirror_pop s)"
proof -
  have "length (event_queue (paula_mirror_pop s)) \<le> length (event_queue s)"
    by (simp add: pop_event_queue)
  then have "paula_mirror_pending (paula_mirror_pop s) \<le> paula_mirror_pending s"
    by (simp add: length_event_queue word_le_nat_alt)
  with assms show ?thesis
    by (auto simp: event_ring_inv_def paula_mirror_pop_def Let_def)
qed

interpretation event_ring: bounded_fifo capture_write event_of captures paula_mirror_peek
  paula_mirror_pop event_queue 8192 event_ring_inv
  by unfold_locales
    (auto simp: event_queue_capture peek_event_queue pop_event_queue pop_event_ring_inv)

section \<open>The operations against an abstract queue and an abstract register file\<close>

datatype mirror_op = Write bus_write | Pop | Snapshot

fun mirror_step :: "mirror_op \<Rightarrow> 'a mirror_scheme \<Rightarrow> 'a mirror_scheme" where
  "mirror_step (Write b) s = capture_write b s"
| "mirror_step Pop s = paula_mirror_pop s"
| "mirror_step Snapshot s = snd (paula_mirror_snapshot_take s)"

text \<open>The specification: a list of at most 8192 events; a write to a full list is dropped.\<close>

fun queue_step :: "mirror_op \<Rightarrow> paula_mirror_event list \<Rightarrow> paula_mirror_event list" where
  "queue_step (Write b) q = (if captures b \<and> length q < 8192 then q @ [event_of b] else q)"
| "queue_step Pop q = tl q"
| "queue_step Snapshot q = []"

text \<open>The registers after a history of writes, whatever became of their events.\<close>

definition shadow_write :: "bus_write \<Rightarrow> paula_mirror_snapshot \<Rightarrow> paula_mirror_snapshot" where
  "shadow_write b r =
     (if captures b
      then (mirror_shadow_word (bw_addr b AND 0xffffff) (presented_word (bw_value b) (bw_width b)) r)
             \<lparr>sn_ticks := bw_now1 b\<rparr>
      else r)"

fun op_shadow :: "mirror_op \<Rightarrow> paula_mirror_snapshot \<Rightarrow> paula_mirror_snapshot" where
  "op_shadow (Write b) r = shadow_write b r"
| "op_shadow Pop r = r"
| "op_shadow Snapshot r = r"

lemma full_pending:
  "event_ring_inv s \<Longrightarrow> \<not> length (event_queue s) < 8192 \<Longrightarrow> paula_mirror_pending s = PAULA_MIRROR_EVENT_CAPACITY"
  by (simp add: event_ring_inv_def length_event_queue word_le_nat_alt word_unat_eq_iff)

lemma capture_full_queue:
  assumes "event_ring_inv s" and "captures b" and "\<not> length (event_queue s) < 8192"
  shows "event_queue (capture_write b s) = event_queue s" and "event_ring_inv (capture_write b s)"
proof -
  note c = capture_full [OF assms(2,1) full_pending [OF assms(1,3)]]
  show "event_queue (capture_write b s) = event_queue s"
    by (simp add: event_queue_def c)
  show "event_ring_inv (capture_write b s)"
    using assms(1) by (simp add: event_ring_inv_def paula_mirror_pending_def c)
qed

lemma snapshot_frame [frame]:
  assumes "event_ring_inv s"
  shows "event_queue (snd (paula_mirror_snapshot_take s)) = []"
    and "event_ring_inv (snd (paula_mirror_snapshot_take s))"
    and "pm_latest (snd (paula_mirror_snapshot_take s)) = pm_latest s"
    and "pm_dropped (snd (paula_mirror_snapshot_take s)) = pm_dropped s"
    and "pm_captured (snd (paula_mirror_snapshot_take s)) = pm_captured s"
  using assms
  by (simp_all add: paula_mirror_snapshot_take_def event_ring_inv_def event_queue_def
      ring_contents_def paula_mirror_pending_def Let_def)

lemma latest_frame [frame]:
  assumes "event_ring_inv s"
  shows "pm_latest (capture_write b s) = shadow_write b (pm_latest s)"
    and "pm_latest (paula_mirror_pop s) = pm_latest s"
  using assms
  by (auto simp: capture_write_def paula_mirror_capture_def shadow_write_def captures_def
      capture_dropped_def event_ring_inv_def paula_mirror_pop_def Let_def)

lemma mirror_step_refines:
  assumes "event_ring_inv s"
  shows "event_queue (mirror_step a s) = queue_step a (event_queue s)"
    and "event_ring_inv (mirror_step a s)"
    and "pm_latest (mirror_step a s) = op_shadow a (pm_latest s)"
proof -
  show "event_queue (mirror_step a s) = queue_step a (event_queue s)"
  proof (cases a)
    case (Write b)
    then show ?thesis
      using assms capture_idle [of b s] event_queue_capture(1) [of s b] capture_full_queue(1) [of s b]
      by (cases "captures b"; cases "length (event_queue s) < 8192") auto
  qed (use assms in \<open>simp_all add: pop_event_queue frame\<close>)
  show "event_ring_inv (mirror_step a s)"
  proof (cases a)
    case (Write b)
    then show ?thesis
      using assms capture_idle [of b s] event_queue_capture(2) [of s b] capture_full_queue(2) [of s b]
      by (cases "captures b") auto
  qed (use assms in \<open>simp_all add: pop_event_ring_inv frame\<close>)
  show "pm_latest (mirror_step a s) = op_shadow a (pm_latest s)"
    using assms by (cases a) (simp_all add: frame)
qed

text \<open>
  C9: over every sequence of bus writes, pops and snapshots the event ring is the bounded
  queue of the specification: events leave in the order of the writes, none is duplicated
  or overwritten, and a write that finds 8192 events pending changes nothing in the queue.
\<close>

theorem event_ring_refines_queue:
  assumes "event_ring_inv s"
  shows "event_queue (fold mirror_step ops s) = fold queue_step ops (event_queue s) \<and>
         event_ring_inv (fold mirror_step ops s)"
  using assms by (induction ops arbitrary: s) (simp_all add: mirror_step_refines)

theorem event_ring_refines_queue_witness:
  "event_queue (fold mirror_step [Pop, Snapshot] (paula_mirror_enable mirror_bss)) = []"
proof -
  have "event_ring_inv (paula_mirror_enable mirror_bss)"
    by (simp add: event_ring_inv_def paula_mirror_enable_def paula_mirror_pending_def)
  from event_ring_refines_queue [OF this, of "[Pop, Snapshot]"] show ?thesis by simp
qed

section \<open>The shadow as a function of the history\<close>

lemma div_mod_slot:
  fixes n :: nat
  assumes "i < 6"
  shows "(n div 16 = c \<and> n mod 16 mod 2 = 0 \<and> n mod 16 div 2 = i) \<longleftrightarrow> n = 16 * c + 2 * i"
proof
  assume h: "n div 16 = c \<and> n mod 16 mod 2 = 0 \<and> n mod 16 div 2 = i"
  have "n = 16 * (n div 16) + n mod 16" and "n mod 16 = 2 * (n mod 16 div 2) + n mod 16 mod 2"
    by simp_all
  with h show "n = 16 * c + 2 * i" by simp
next
  assume n: "n = 16 * c + 2 * i"
  then have "n div 16 = c" and "n mod 16 = 2 * i"
    using assms by simp_all
  then show "n div 16 = c \<and> n mod 16 mod 2 = 0 \<and> n mod 16 div 2 = i" by simp
qed

lemma audio_slot:
  fixes r :: u32
  assumes "c < 4" and "i < 6"
  shows "(\<not> (r < 0x0a0 \<or> r > 0x0da) \<and>
          \<not> (drop_bit 4 (r - 0x0a0) \<ge> 4 \<or> ((r - 0x0a0) AND 15) AND 1 \<noteq> 0 \<or> (r - 0x0a0) AND 15 > 10) \<and>
          unat (drop_bit 4 (r - 0x0a0)) = c \<and> unat (drop_bit 1 ((r - 0x0a0) AND 15)) = i)
         \<longleftrightarrow> unat r = 0x0a0 + 16 * c + 2 * i"
    (is "?l \<longleftrightarrow> ?r")
proof (cases "r < 0x0a0")
  case True
  then show ?thesis using assms by (auto simp: word_less_nat_alt)
next
  case False
  let ?w = "r - 0x0a0" and ?n = "unat r - 0x0a0"
  have n: "unat ?w = ?n" and ge: "0x0a0 \<le> unat r"
    using False by (simp_all add: not_less unat_sub word_le_nat_alt)
  have ch: "unat (drop_bit 4 ?w) = ?n div 16"
    unfolding unat_drop_bit_eq n by (simp add: drop_bit_eq_div)
  have reg: "unat (?w AND 15) = ?n mod 16"
    unfolding unat_and_masks n ..
  have ix: "unat (drop_bit 1 (?w AND 15)) = ?n mod 16 div 2"
    unfolding unat_drop_bit_eq reg by (simp add: drop_bit_eq_div)
  have odd: "(?w AND 15) AND 1 = 0 \<longleftrightarrow> ?n mod 16 mod 2 = 0"
    unfolding word_unat_eq_iff unat_and_masks reg n by simp
  have "?l \<longleftrightarrow> unat r \<le> 0x0da \<and> ?n div 16 < 4 \<and> ?n mod 16 mod 2 = 0 \<and> ?n mod 16 \<le> 10 \<and>
      ?n div 16 = c \<and> ?n mod 16 div 2 = i"
    using False unfolding ch ix not_less not_le de_Morgan_disj not_not odd
    by (auto simp: word_le_nat_alt word_less_nat_alt ch reg)
  also have "\<dots> \<longleftrightarrow> ?n = 16 * c + 2 * i"
    unfolding div_mod_slot [OF assms(2), symmetric] using assms ge div_mod_slot [OF assms(2), of ?n c]
    by auto
  also have "\<dots> \<longleftrightarrow> ?r" using ge by auto
  finally show ?thesis .
qed

text \<open>The words written to the register at offset \<open>off\<close> of the custom chips, in order.\<close>

definition register_writes :: "nat \<Rightarrow> mirror_op list \<Rightarrow> u16 list" where
  "register_writes off ops = concat (map (\<lambda>a. case a of
       Write b \<Rightarrow> if captures b \<and> unat ((bw_addr b AND 0xffffff) AND 0xffe) = off
                  then [presented_word (bw_value b) (bw_width b)] else []
     | Pop \<Rightarrow> [] | Snapshot \<Rightarrow> []) ops)"

lemma shadow_word_audio:
  assumes "c < 4" and "i < 6"
  shows "sn_reg (mirror_shadow_word a v l) c i
           = (if unat (a AND 0xffe) = 0x0a0 + 16 * c + 2 * i then v else sn_reg l c i)"
proof -
  let ?r = "a AND 0xffe"
  have ne: "unat ?r \<noteq> 0x0a0 + 16 * c + 2 * i"
    if "?r = 0x096 \<or> ?r = 0x09a \<or> ?r = 0x09c \<or> ?r = 0x09e"
    using that by (elim disjE) (simp_all only:, simp_all)
  show ?thesis
  proof (cases "?r = 0x096 \<or> ?r = 0x09a \<or> ?r = 0x09c \<or> ?r = 0x09e")
    case True
    with ne have "unat ?r \<noteq> 0x0a0 + 16 * c + 2 * i" by blast
    with True show ?thesis
      by (elim disjE) (simp_all add: mirror_shadow_word_def Let_def)
  next
    case False
    then have "sn_reg (mirror_shadow_word a v l) c i =
        (if \<not> (?r < 0x0a0 \<or> ?r > 0x0da) \<and>
            \<not> (drop_bit 4 (?r - 0x0a0) \<ge> 4 \<or> ((?r - 0x0a0) AND 15) AND 1 \<noteq> 0 \<or> (?r - 0x0a0) AND 15 > 10) \<and>
            unat (drop_bit 4 (?r - 0x0a0)) = c \<and> unat (drop_bit 1 ((?r - 0x0a0) AND 15)) = i
         then v else sn_reg l c i)"
      unfolding mirror_shadow_word_def Let_def by auto
    then show ?thesis
      unfolding audio_slot [OF assms] .
  qed
qed

lemma shadow_word_globals:
  "sn_dma (mirror_shadow_word a v l)
     = (if unat (a AND 0xffe) = 0x096 then setclr16 (sn_dma l) v else sn_dma l)"
  "sn_intena (mirror_shadow_word a v l)
     = (if unat (a AND 0xffe) = 0x09a then setclr16 (sn_intena l) v else sn_intena l)"
  "sn_intreq (mirror_shadow_word a v l)
     = (if unat (a AND 0xffe) = 0x09c then setclr16 (sn_intreq l) v else sn_intreq l)"
  "sn_adkcon (mirror_shadow_word a v l)
     = (if unat (a AND 0xffe) = 0x09e then setclr16 (sn_adkcon l) v else sn_adkcon l)"
proof -
  have n: "unat r = 0x096 \<longleftrightarrow> r = 0x096" "unat r = 0x09a \<longleftrightarrow> r = 0x09a"
    "unat r = 0x09c \<longleftrightarrow> r = 0x09c" "unat r = 0x09e \<longleftrightarrow> r = 0x09e" for r :: u32
    by (simp_all add: word_unat_eq_iff)
  show "sn_dma (mirror_shadow_word a v l)
     = (if unat (a AND 0xffe) = 0x096 then setclr16 (sn_dma l) v else sn_dma l)"
  and "sn_intena (mirror_shadow_word a v l)
     = (if unat (a AND 0xffe) = 0x09a then setclr16 (sn_intena l) v else sn_intena l)"
  and "sn_intreq (mirror_shadow_word a v l)
     = (if unat (a AND 0xffe) = 0x09c then setclr16 (sn_intreq l) v else sn_intreq l)"
  and "sn_adkcon (mirror_shadow_word a v l)
     = (if unat (a AND 0xffe) = 0x09e then setclr16 (sn_adkcon l) v else sn_adkcon l)"
    unfolding n mirror_shadow_word_def Let_def by auto
qed

lemma register_writes_Cons:
  "register_writes off (a # ops) = register_writes off [a] @ register_writes off ops"
  by (simp add: register_writes_def)

lemma latest_ops:
  "event_ring_inv s \<Longrightarrow> pm_latest (fold mirror_step ops s) = fold op_shadow ops (pm_latest s)"
  by (induction ops arbitrary: s) (simp_all add: mirror_step_refines)

lemma op_shadow_reg:
  assumes "c < 4" and "i < 6"
  shows "sn_reg (op_shadow a l) c i = last (sn_reg l c i # register_writes (0x0a0 + 16 * c + 2 * i) [a])"
  by (cases a) (simp_all add: register_writes_def shadow_write_def shadow_word_audio [OF assms])

lemma op_shadow_globals:
  "sn_dma (op_shadow a l) = fold (\<lambda>v r. setclr16 r v) (register_writes 0x096 [a]) (sn_dma l)"
  "sn_intena (op_shadow a l) = fold (\<lambda>v r. setclr16 r v) (register_writes 0x09a [a]) (sn_intena l)"
  "sn_intreq (op_shadow a l) = fold (\<lambda>v r. setclr16 r v) (register_writes 0x09c [a]) (sn_intreq l)"
  "sn_adkcon (op_shadow a l) = fold (\<lambda>v r. setclr16 r v) (register_writes 0x09e [a]) (sn_adkcon l)"
  by (cases a; simp add: register_writes_def shadow_write_def shadow_word_globals)+


lemma enable_event_ring_inv: "event_ring_inv (paula_mirror_enable s)"
  by (simp add: event_ring_inv_def paula_mirror_enable_def paula_mirror_pending_def)

lemma enable_event_queue: "event_queue (paula_mirror_enable s) = []"
  by (simp add: event_queue_def paula_mirror_enable_def ring_contents_def)

text \<open>A write of \<open>0x1234\<close> to the length of channel 0 and a DMACON write that sets two bits.\<close>

definition demo_write :: bus_write where
  "demo_write = \<lparr>bw_now1 = 10, bw_now2 = 11, bw_addr = 0xdff0a4, bw_value = 0x1234, bw_width = 2\<rparr>"

definition demo_dmacon :: bus_write where
  "demo_dmacon = \<lparr>bw_now1 = 20, bw_now2 = 21, bw_addr = 0xdff096, bw_value = 0x8201, bw_width = 2\<rparr>"

lemma demo_captures: "captures demo_write" "captures demo_dmacon"
  by (simp_all add: captures_def demo_write_def demo_dmacon_def is_audio_register_def Let_def)


section \<open>Conservation\<close>

definition captured_writes :: "mirror_op list \<Rightarrow> nat" where
  "captured_writes ops = length (filter (\<lambda>a. case a of Write b \<Rightarrow> captures b | _ \<Rightarrow> False) ops)"

definition in_flight :: "'a mirror_scheme \<Rightarrow> u32" where
  "in_flight s = pm_metrics s PP_CAPTURED - pm_metrics s PP_CONSUMED - paula_mirror_pending s"

lemma conservation_step:
  assumes "event_ring_inv s"
  shows "pm_captured (mirror_step a s) + pm_dropped (mirror_step a s)
           = pm_captured s + pm_dropped s + word_of_nat (captured_writes [a])"
    and "in_flight (mirror_step a s) = in_flight s"
proof -
  show "pm_captured (mirror_step a s) + pm_dropped (mirror_step a s)
           = pm_captured s + pm_dropped s + word_of_nat (captured_writes [a])"
    using assms
    by (cases a) (auto simp: capture_write_def paula_mirror_capture_def captured_writes_def
        captures_def capture_dropped_def event_ring_inv_def paula_mirror_pop_def
        paula_mirror_snapshot_take_def Let_def)
  show "in_flight (mirror_step a s) = in_flight s"
    using assms
    by (cases a) (auto simp: capture_write_def paula_mirror_capture_def in_flight_def
        capture_dropped_def event_ring_inv_def paula_mirror_pop_def paula_probe_add_def
        paula_probe_set_def paula_mirror_pending_def paula_mirror_snapshot_take_def Let_def)
qed

text \<open>
  No write is lost uncounted. Over every sequence of operations the captured and the
  dropped counter together advance by the number of audio register writes, and the events
  counted as captured less those counted as consumed are the events pending in the ring.
\<close>

theorem capture_conservation:
  assumes "event_ring_inv s"
  shows "let s' = fold mirror_step ops s in
     pm_captured s' + pm_dropped s' = pm_captured s + pm_dropped s + word_of_nat (captured_writes ops) \<and>
     in_flight s' = in_flight s"
  using assms
proof (induction ops arbitrary: s)
  case Nil
  then show ?case by (simp add: captured_writes_def)
next
  case (Cons a ops)
  have "captured_writes (a # ops) = captured_writes [a] + captured_writes ops"
    by (simp add: captured_writes_def)
  then show ?case
    using Cons.IH [OF mirror_step_refines(2) [OF Cons.prems]] conservation_step [OF Cons.prems]
    by (simp add: Let_def)
qed

theorem capture_conservation_witness:
  "let s' = fold mirror_step [Write demo_write, Pop, Write demo_dmacon] (paula_mirror_enable mirror_bss)
   in pm_captured s' + pm_dropped s' = 2 \<and> in_flight s' = 0"
proof -
  have "in_flight (paula_mirror_enable mirror_bss) = 0"
    by (simp add: in_flight_def paula_mirror_enable_def mirror_bss_def paula_probe_init_def
        paula_probe_flag_def paula_mirror_pending_def)
  then show ?thesis
    using capture_conservation [OF enable_event_ring_inv [of mirror_bss],
        of "[Write demo_write, Pop, Write demo_dmacon]"] demo_captures
    by (simp add: Let_def captured_writes_def paula_mirror_enable_def)
qed

text \<open>
  A snapshot is refused, with the queue and the registers untouched, when the mirror is
  off or the producer holds its lock; otherwise it returns the latest registers with the
  number of pending events it discards, empties the queue and leaves the ring usable.
\<close>

theorem snapshot_take_cases:
  "(case paula_mirror_snapshot_take s of
      (None, s') \<Rightarrow> \<not> (pm_enabled s \<noteq> 0 \<and> pm_event_lock s = 0) \<and>
         event_queue s' = event_queue s \<and> pm_latest s' = pm_latest s
    | (Some n, s') \<Rightarrow> pm_enabled s \<noteq> 0 \<and> pm_event_lock s = 0 \<and>
         sn_reg n = sn_reg (pm_latest s) \<and> sn_seen n = sn_seen (pm_latest s) \<and>
         sn_dma n = sn_dma (pm_latest s) \<and> sn_intena n = sn_intena (pm_latest s) \<and>
         sn_intreq n = sn_intreq (pm_latest s) \<and> sn_adkcon n = sn_adkcon (pm_latest s) \<and>
         unat (sn_skipped n) = length (event_queue s) \<and> sn_dropped n = pm_dropped s \<and>
         event_queue s' = [] \<and> pm_latest s' = pm_latest s \<and> event_ring_inv s')"
  by (auto simp: paula_mirror_snapshot_take_def event_queue_def event_ring_inv_def
      paula_mirror_pending_def ring_contents_empty Let_def)

end
