(* ===== verification/PageCache.thy ===== *)
theory PageCache
  imports Mirror
begin

text \<open>
  The asynchronous Chip RAM sample cache of \<open>source/src/raspi/paula/paula_mirror.c\<close>: 8192
  pages of 256 bytes, one 64-bit word of state and generation per page, and the ring of
  outstanding page requests. CPU1 (the renderer) reads samples and queues requests; CPU0
  services one request per dispatch point and invalidates the pages its bus writes touch.

  Each C function is one definition here. The compare-and-swap loops are split off as
  definitions of their own (\<open>request_claim\<close>, \<open>invalidate_cas\<close>, \<open>service_claim\<close>,
  \<open>service_publish\<close>, \<open>service_discard\<close>), one atomic access each, so that
  the theory \<open>CacheSteps\<close> can interleave them; run without interruption a
  compare-and-swap that follows its own load succeeds at once.
\<close>

section \<open>Page words\<close>

definition page_state :: "u64 \<Rightarrow> u64" where
  "page_state w = w AND 3"

definition page_generation :: "u64 \<Rightarrow> nat" where
  "page_generation w = unat w div 4"

section \<open>Requests\<close>

definition request_claim :: "nat \<Rightarrow> 'a mirror_scheme \<Rightarrow> 'a mirror_scheme" where
  "request_claim page s = s\<lparr>pm_page_meta := (pm_page_meta s)(page := pm_page_meta s page OR 1)\<rparr>"

definition request_enqueue :: "nat \<Rightarrow> 'a mirror_scheme \<Rightarrow> 'a mirror_scheme" where
  "request_enqueue page s =
     (let w = pm_request_head s in
      s\<lparr>pm_requests := (pm_requests s)(unat (w AND (REQUEST_CAPACITY - 1)) := word_of_nat page),
        pm_request_head := w + 1,
        pm_metrics := paula_probe_set PP_CACHE_PENDING (w + 1 - pm_request_tail s)
                        (paula_probe_add PP_CACHE_REQUESTS 1 (pm_metrics s))\<rparr>)"

definition request_page :: "nat \<Rightarrow> 'a mirror_scheme \<Rightarrow> 'a mirror_scheme" where
  "request_page page s =
     (if page \<ge> unat PAGE_COUNT then s
      else if page_state (pm_page_meta s page) \<noteq> 0 then s
      else request_enqueue page (request_claim page s))"

section \<open>The renderer\<close>

definition paula_mirror_render_begin :: "'a mirror_scheme \<Rightarrow> 'a mirror_scheme" where
  "paula_mirror_render_begin s = s\<lparr>pm_render_miss := 0\<rparr>"

definition paula_mirror_render_missed :: "'a mirror_scheme \<Rightarrow> bool" where
  "paula_mirror_render_missed s \<longleftrightarrow> pm_render_miss s \<noteq> 0"

definition paula_mirror_read_byte :: "u32 \<Rightarrow> 'a mirror_scheme \<Rightarrow> u8 \<times> 'a mirror_scheme" where
  "paula_mirror_read_byte address s0 =
     (let s = s0\<lparr>pm_metrics := paula_probe_add PP_SAMPLE_READS 1 (pm_metrics s0)\<rparr> in
      if address \<ge> PAULA_MIRROR_CHIP_LIMIT
      then (0, s\<lparr>pm_invalid_addresses := pm_invalid_addresses s + 1,
                 pm_metrics := paula_probe_add PP_CACHE_INVALID_ADDR 1 (pm_metrics s)\<rparr>)
      else
        let page = unat (address div PAULA_MIRROR_PAGE_SIZE) in
        if page_state (pm_page_meta s page) \<noteq> 3
        then
          let s = s\<lparr>pm_render_miss := 1,
                    pm_page_miss_seen := (pm_page_miss_seen s)(page := 1)\<rparr>;
              s = request_page page s
          in (0, s\<lparr>pm_misses := pm_misses s + 1,
                   pm_metrics := paula_probe_add PP_CACHE_ZERO_RETURNS 1
                                   (paula_probe_add PP_CACHE_MISSES 1 (pm_metrics s))\<rparr>)
        else
          let s = (if address AND PAGE_MASK \<ge> PAGE_MASK - 63 \<and> page + 1 < unat PAGE_COUNT
                   then request_page (page + 1) s else s)
          in (pm_shadow s (unat address), s))"

definition prefetch_page :: "nat \<Rightarrow> 'a mirror_scheme \<Rightarrow> 'a mirror_scheme" where
  "prefetch_page page s =
     request_page page
       (if page_state (pm_page_meta s page) = 0
        then s\<lparr>pm_metrics := paula_probe_add PP_CACHE_PREFETCH_PAGES 1 (pm_metrics s)\<rparr>
        else s)"

definition paula_mirror_prefetch :: "u32 \<Rightarrow> u32 \<Rightarrow> 'a mirror_scheme \<Rightarrow> 'a mirror_scheme" where
  "paula_mirror_prefetch address len s =
     (if address \<ge> PAULA_MIRROR_CHIP_LIMIT \<or> len = 0 then s
      else
        let len = (if len > PAULA_MIRROR_CHIP_LIMIT - address
                   then PAULA_MIRROR_CHIP_LIMIT - address else len);
            first = address div PAULA_MIRROR_PAGE_SIZE;
            last = (address + len - 1) div PAULA_MIRROR_PAGE_SIZE
        in fold prefetch_page [unat first..<Suc (unat last)] s)"

section \<open>Invalidation\<close>

text \<open>The compare-and-swap of one page, and the accounting when the page was ready.\<close>

definition invalidate_next :: "u64 \<Rightarrow> u64" where
  "invalidate_next old =
     (if page_state old = 0 then old
      else ((old + 4) AND NOT 3) OR (if page_state old = 3 then 0 else page_state old))"

definition invalidate_cas :: "nat \<Rightarrow> 'a mirror_scheme \<Rightarrow> 'a mirror_scheme" where
  "invalidate_cas page s =
     s\<lparr>pm_page_meta := (pm_page_meta s)(page := invalidate_next (pm_page_meta s page))\<rparr>"

definition invalidate_account :: "'a mirror_scheme \<Rightarrow> 'a mirror_scheme" where
  "invalidate_account s =
     (let n = pm_pages_ready s - 1
      in s\<lparr>pm_pages_ready := n, pm_metrics := paula_probe_set PP_CACHE_READY n (pm_metrics s)\<rparr>)"

definition invalidate_page :: "nat \<Rightarrow> 'a mirror_scheme \<Rightarrow> 'a mirror_scheme" where
  "invalidate_page page s =
     (let s = s\<lparr>pm_metrics := paula_probe_add PP_CACHE_INVALIDATIONS 1 (pm_metrics s)\<rparr>;
          old = pm_page_meta s page;
          s = invalidate_cas page s
      in if page_state old = 3 then invalidate_account s else s)"

definition invalidate_range :: "u32 \<Rightarrow> u32 \<Rightarrow> nat list" where
  "invalidate_range address width =
     (let first = address div PAULA_MIRROR_PAGE_SIZE;
          last = (address + width - 1) div PAULA_MIRROR_PAGE_SIZE;
          last = (if last \<ge> PAGE_COUNT then PAGE_COUNT - 1 else last)
      in [unat first..<Suc (unat last)])"

definition paula_mirror_invalidate :: "u32 \<Rightarrow> u32 \<Rightarrow> 'a mirror_scheme \<Rightarrow> 'a mirror_scheme" where
  "paula_mirror_invalidate addr width s =
     (let address = addr AND 0xffffff in
      if pm_enabled s = 0 \<or> address \<ge> PAULA_MIRROR_CHIP_LIMIT \<or> width = 0 then s
      else fold invalidate_page (invalidate_range address width) s)"

section \<open>The worker\<close>

definition paula_mirror_service_pending :: "'a mirror_scheme \<Rightarrow> bool" where
  "paula_mirror_service_pending s \<longleftrightarrow> pm_enabled s \<noteq> 0 \<and> pm_request_tail s \<noteq> pm_request_head s"

definition service_front :: "'a mirror_scheme \<Rightarrow> nat" where
  "service_front s = unat (pm_requests s (unat (pm_request_tail s AND (REQUEST_CAPACITY - 1))))"

definition service_retire :: "'a mirror_scheme \<Rightarrow> 'a mirror_scheme" where
  "service_retire s =
     (let t = pm_request_tail s + 1
      in s\<lparr>pm_request_tail := t,
           pm_metrics := paula_probe_set PP_CACHE_PENDING (pm_request_head s - t) (pm_metrics s)\<rparr>)"

definition loading_word :: "u64 \<Rightarrow> u64" where
  "loading_word w = (w AND NOT 3) OR 2"

definition service_claim :: "nat \<Rightarrow> 'a mirror_scheme \<Rightarrow> 'a mirror_scheme" where
  "service_claim page s =
     s\<lparr>pm_page_meta := (pm_page_meta s)(page := loading_word (pm_page_meta s page)),
       pm_metrics := paula_probe_flag PP_FLAG_CACHE_WORKER True (pm_metrics s)\<rparr>"

definition service_store :: "nat \<Rightarrow> u8 \<Rightarrow> 'a mirror_scheme \<Rightarrow> 'a mirror_scheme" where
  "service_store i value s = s\<lparr>pm_shadow := (pm_shadow s)(i := value)\<rparr>"

text \<open>
  The copy of one page through the physical bus. \<open>rd\<close> is the byte read of the bus layer
  (\<open>ps_read_8_int\<close> of the theory \<open>PsBus\<close>); \<open>None\<close> is a bus access that does not end.
\<close>

fun service_copy ::
    "(u32 \<Rightarrow> 'a mirror_scheme \<Rightarrow> (u32 \<times> 'a mirror_scheme) option) \<Rightarrow> nat list \<Rightarrow>
     'a mirror_scheme \<Rightarrow> 'a mirror_scheme option" where
  "service_copy rd [] s = Some s"
| "service_copy rd (a # as) s =
     (case rd (word_of_nat a) s of
        None \<Rightarrow> None
      | Some (v, s1) \<Rightarrow> service_copy rd as (service_store a (ucast v) s1))"

definition service_release :: "'a mirror_scheme \<Rightarrow> 'a mirror_scheme" where
  "service_release s0 =
     (let s = service_retire s0;
          m = paula_probe_flag PP_FLAG_CACHE_WORKER False
                (paula_probe_add PP_CACHE_FETCHES 1 (pm_metrics s))
      in s\<lparr>pm_metrics := m, pm_pages_ready := pm_pages_ready s + 1\<rparr>)"

definition service_publish :: "nat \<Rightarrow> u64 \<Rightarrow> 'a mirror_scheme \<Rightarrow> 'a mirror_scheme" where
  "service_publish page expected s =
     (let s1 = s\<lparr>pm_page_meta := (pm_page_meta s)(page := expected OR 1),
                pm_metrics := paula_probe_set PP_CACHE_READY (pm_pages_ready s) (pm_metrics s),
                pm_page_miss_seen := (pm_page_miss_seen s)(page := 0)\<rparr>
      in if pm_page_miss_seen s page \<noteq> 0
         then s1\<lparr>pm_metrics := paula_probe_add PP_CACHE_MISS_READY 1 (pm_metrics s1)\<rparr>
         else s1)"

definition service_discard :: "nat \<Rightarrow> 'a mirror_scheme \<Rightarrow> 'a mirror_scheme" where
  "service_discard page s =
     (let n = pm_pages_ready s - 1;
          s1 = s\<lparr>pm_pages_ready := n,
                pm_metrics := paula_probe_add PP_CACHE_STALE 1
                                (paula_probe_set PP_CACHE_READY n (pm_metrics s))\<rparr>;
          w = pm_page_meta s1 page
      in if page_state w \<noteq> 2 then s1
         else s1\<lparr>pm_page_meta := (pm_page_meta s1)(page := w AND NOT 3)\<rparr>)"

definition page_addresses :: "nat \<Rightarrow> nat list" where
  "page_addresses page = [page * 256..<page * 256 + 256]"

definition paula_mirror_service ::
    "(u32 \<Rightarrow> 'a mirror_scheme \<Rightarrow> (u32 \<times> 'a mirror_scheme) option) \<Rightarrow> 'a mirror_scheme \<Rightarrow>
     'a mirror_scheme option" where
  "paula_mirror_service rd s =
     (if \<not> paula_mirror_service_pending s then Some s
      else
        let page = service_front s;
            w = pm_page_meta s page
        in if page_state w \<noteq> 1 then Some (service_retire s)
           else
             let expected = loading_word w
             in case service_copy rd (page_addresses page) (service_claim page s) of
                  None \<Rightarrow> None
                | Some s1 \<Rightarrow>
                    let s2 = service_release s1
                    in Some (if pm_page_meta s2 page = expected
                             then service_publish page expected s2
                             else service_discard page s2))"

section \<open>Page words: state and generation\<close>

lemma page_word_split: "unat w = 4 * page_generation w + unat (page_state w)"
  by (simp add: page_generation_def page_state_def unat_and_masks)

lemma page_state_cases: "page_state w = 0 \<or> page_state w = 1 \<or> page_state w = 2 \<or> page_state w = 3"
proof -
  have "unat (page_state w) < 4"
    by (simp add: page_state_def unat_and_masks)
  then have "unat (page_state w) = 0 \<or> unat (page_state w) = 1 \<or> unat (page_state w) = 2 \<or> unat (page_state w) = 3"
    by auto
  then show ?thesis
    by (simp add: word_unat_eq_iff)
qed

lemma page_word_eqI:
  "page_state v = page_state w \<Longrightarrow> page_generation v = page_generation w \<Longrightarrow> v = w"
  by (simp add: word_unat_eq_iff page_word_split [of v] page_word_split [of w])

lemma page_generation_drop: "page_generation w = unat (drop_bit 2 w)"
proof -
  have "unat (drop_bit 2 w) = drop_bit 2 (unat w)"
    by (rule unat_drop_bit_eq)
  also have "\<dots> = unat w div 4"
    by (simp only: drop_bit_eq_div) simp
  finally show ?thesis
    by (simp only: page_generation_def)
qed

lemma page_generation_bits:
  assumes "\<And>n. n < 62 \<Longrightarrow> bit v (Suc (Suc n)) = bit w (Suc (Suc n))"
  shows "page_generation v = page_generation w"
proof -
  have "drop_bit 2 v = drop_bit 2 w"
  proof (rule bit_word_eqI)
    fix n
    show "bit (drop_bit 2 v) n = bit (drop_bit 2 w) n"
      using assms [of n] bit_imp_le_length [of v "Suc (Suc n)"] bit_imp_le_length [of w "Suc (Suc n)"]
      by (cases "n < 62") (auto simp: bit_drop_bit_eq)
  qed
  then show ?thesis
    by (simp only: page_generation_drop)
qed

lemma page_words:
  "page_state (w AND NOT 3) = 0" "page_generation (w AND NOT 3) = page_generation w"
  "page_state (loading_word w) = 2" "page_generation (loading_word w) = page_generation w"
  "page_generation (w OR 1) = page_generation w"
  "page_state w = 0 \<Longrightarrow> page_state (w OR 1) = 1"
  "page_state w = 2 \<Longrightarrow> page_state (w OR 1) = 3"
proof -
  show "page_state (w AND NOT 3) = 0"
    by (rule bit_word_eqI) (auto simp: page_state_def bit_simps bits)
  show "page_state (loading_word w) = 2"
    by (rule bit_word_eqI) (auto simp: page_state_def loading_word_def bit_simps bits)
  show "page_generation (w AND NOT 3) = page_generation w"
    by (rule page_generation_bits) (auto simp: bit_simps bits)
  show "page_generation (loading_word w) = page_generation w"
    by (rule page_generation_bits) (auto simp: loading_word_def bit_simps bits)
  show "page_generation (w OR 1) = page_generation w"
    by (rule page_generation_bits) (auto simp: bit_simps bits)
  have or1: "page_state (w OR 1) = page_state w OR 1"
    by (rule bit_word_eqI) (auto simp: page_state_def bit_simps bits)
  show "page_state w = 0 \<Longrightarrow> page_state (w OR 1) = 1"
   and "page_state w = 2 \<Longrightarrow> page_state (w OR 1) = 3"
    by (simp_all add: or1)
qed

lemma invalidate_next_words:
  "page_state w = 0 \<Longrightarrow> invalidate_next w = w"
  "page_state w = 3 \<Longrightarrow> page_state (invalidate_next w) = 0"
  "page_state w \<noteq> 3 \<Longrightarrow> page_state (invalidate_next w) = page_state w"
  "page_state w \<noteq> 0 \<Longrightarrow> page_generation w + 1 < 2 ^ 62 \<Longrightarrow>
     page_generation (invalidate_next w) = page_generation w + 1"
proof -
  show "page_state w = 0 \<Longrightarrow> invalidate_next w = w"
    by (simp add: invalidate_next_def)
  show "page_state w = 3 \<Longrightarrow> page_state (invalidate_next w) = 0"
    using page_words(1) [of "w + 4"] by (simp add: invalidate_next_def)
  have st: "page_state (((w + 4) AND NOT 3) OR page_state w) = page_state w"
    by (rule bit_word_eqI) (auto simp: page_state_def bit_simps bits)
  then show "page_state w \<noteq> 3 \<Longrightarrow> page_state (invalidate_next w) = page_state w"
    by (simp add: invalidate_next_def)
  assume nz: "page_state w \<noteq> 0" and lt: "page_generation w + 1 < 2 ^ 62"
  have "page_generation (invalidate_next w) = page_generation (w + 4)"
    by (rule page_generation_bits)
       (use nz in \<open>auto simp: invalidate_next_def page_state_def bit_simps bits\<close>)
  moreover have "unat (w + 4) = unat w + 4"
  proof -
    have "unat w + unat (4 :: u64) < 2 ^ LENGTH(64)"
      using lt by (simp add: page_generation_def)
    then show ?thesis
      by (simp only: unat_add_lem) simp
  qed
  ultimately show "page_generation (invalidate_next w) = page_generation w + 1"
    by (simp add: page_generation_def)
qed

section \<open>The request ring as a queue\<close>

definition request_queue :: "'a mirror_scheme \<Rightarrow> nat list" where
  "request_queue s =
     map unat (ring_contents (pm_requests s) 13 (pm_request_head s) (pm_request_tail s))"

section \<open>What each operation touches\<close>

named_theorems cache_frame "the page words, the shadow, the ring and the enable flag after an operation"

lemma request_claim_frame [cache_frame]:
  "pm_page_meta (request_claim p s) = (pm_page_meta s)(p := pm_page_meta s p OR 1)"
  "pm_shadow (request_claim p s) = pm_shadow s"
  "pm_enabled (request_claim p s) = pm_enabled s"
  "request_queue (request_claim p s) = request_queue s"
  by (simp_all add: request_claim_def request_queue_def)

lemma request_enqueue_frame [cache_frame]:
  "pm_page_meta (request_enqueue p s) = pm_page_meta s"
  "pm_shadow (request_enqueue p s) = pm_shadow s"
  "pm_enabled (request_enqueue p s) = pm_enabled s"
  by (simp_all add: request_enqueue_def Let_def)

lemma request_queue_enqueue:
  assumes "length (request_queue s) < 8192" and "p < 8192"
  shows "request_queue (request_enqueue p s) = request_queue s @ [p]"
proof -
  have "unat (word_of_nat p :: u16) = p"
    using assms(2) by (simp add: unat_of_nat)
  then show ?thesis
    using assms(1)
    by (simp add: request_queue_def request_enqueue_def Let_def slot_8191 ring_push_13)
qed

lemma invalidate_frame [cache_frame]:
  "pm_page_meta (invalidate_cas p s) = (pm_page_meta s)(p := invalidate_next (pm_page_meta s p))"
  "pm_shadow (invalidate_cas p s) = pm_shadow s"
  "pm_enabled (invalidate_cas p s) = pm_enabled s"
  "request_queue (invalidate_cas p s) = request_queue s"
  "pm_page_meta (invalidate_account s) = pm_page_meta s"
  "pm_shadow (invalidate_account s) = pm_shadow s"
  "pm_enabled (invalidate_account s) = pm_enabled s"
  "request_queue (invalidate_account s) = request_queue s"
  by (simp_all add: invalidate_cas_def invalidate_account_def request_queue_def Let_def)

lemma service_counters [cache_frame]:
  "pm_page_miss_seen (service_release s) = pm_page_miss_seen s"
  "pm_pages_ready (service_release s) = pm_pages_ready s + 1"
  "pm_page_miss_seen (service_publish p e s) = (pm_page_miss_seen s)(p := 0)"
  "pm_pages_ready (service_publish p e s) = pm_pages_ready s"
  "pm_page_miss_seen (service_claim p s) = pm_page_miss_seen s"
  "pm_pages_ready (service_claim p s) = pm_pages_ready s"
  by (simp_all add: service_retire_def service_release_def service_claim_def
      service_publish_def Let_def)

lemma service_frame [cache_frame]:
  "pm_page_meta (service_retire s) = pm_page_meta s"
  "pm_shadow (service_retire s) = pm_shadow s"
  "pm_enabled (service_retire s) = pm_enabled s"
  "pm_page_meta (service_release s) = pm_page_meta s"
  "pm_shadow (service_release s) = pm_shadow s"
  "pm_enabled (service_release s) = pm_enabled s"
  "pm_page_meta (service_claim p s) = (pm_page_meta s)(p := loading_word (pm_page_meta s p))"
  "pm_shadow (service_claim p s) = pm_shadow s"
  "pm_enabled (service_claim p s) = pm_enabled s"
  "request_queue (service_claim p s) = request_queue s"
  "pm_page_meta (service_store i v s) = pm_page_meta s"
  "pm_shadow (service_store i v s) = (pm_shadow s)(i := v)"
  "pm_enabled (service_store i v s) = pm_enabled s"
  "request_queue (service_store i v s) = request_queue s"
  "pm_page_meta (service_publish p e s) = (pm_page_meta s)(p := e OR 1)"
  "pm_shadow (service_publish p e s) = pm_shadow s"
  "pm_enabled (service_publish p e s) = pm_enabled s"
  "request_queue (service_publish p e s) = request_queue s"
  "pm_shadow (service_discard p s) = pm_shadow s"
  "pm_enabled (service_discard p s) = pm_enabled s"
  "request_queue (service_discard p s) = request_queue s"
  by (simp_all add: service_retire_def service_release_def service_claim_def service_store_def
      service_publish_def service_discard_def request_queue_def Let_def)

lemma discard_meta:
  "page_state (pm_page_meta s p) = 2 \<Longrightarrow>
     pm_page_meta (service_discard p s) = (pm_page_meta s)(p := pm_page_meta s p AND NOT 3)"
  by (simp add: service_discard_def Let_def)

lemma pending_queue:
  "paula_mirror_service_pending s \<longleftrightarrow> pm_enabled s \<noteq> 0 \<and> request_queue s \<noteq> []"
  by (auto simp: paula_mirror_service_pending_def request_queue_def ring_contents_empty)

lemma service_front_hd: "request_queue s \<noteq> [] \<Longrightarrow> service_front s = hd (request_queue s)"
  by (simp add: request_queue_def ring_contents_empty service_front_def ring_pop_13 slot_8191)

lemma request_queue_retire:
  assumes "request_queue s \<noteq> []"
  shows "request_queue (service_retire s) = tl (request_queue s)"
    and "request_queue (service_release s) = tl (request_queue s)"
  using assms
  by (simp_all add: request_queue_def ring_contents_empty service_retire_def service_release_def
      ring_pop_13 Let_def)

lemma enable_frame [cache_frame]:
  "p < 8192 \<Longrightarrow> pm_page_meta (paula_mirror_enable s) p = 0"
  "pm_enabled (paula_mirror_enable s) = 1"
  "request_queue (paula_mirror_enable s) = []"
  by (simp_all add: paula_mirror_enable_def request_queue_def ring_contents_def)

interpretation request_ring: bounded_fifo request_enqueue "\<lambda>p. p" "\<lambda>p. p < 8192"
  "\<lambda>s. if pm_request_tail s = pm_request_head s then None else Some (service_front s)"
  service_retire request_queue 8192 "\<lambda>s. True"
proof unfold_locales
  show "(if pm_request_tail s = pm_request_head s then None else Some (service_front s))
          = (case request_queue s of [] \<Rightarrow> None | x # _ \<Rightarrow> Some x)" for s :: "'a mirror_scheme"
  proof -
    have "request_queue s = [] \<longleftrightarrow> pm_request_head s = pm_request_tail s"
      by (simp add: request_queue_def ring_contents_empty)
    then show ?thesis
      using service_front_hd [of s] by (cases "request_queue s") auto
  qed
qed (simp_all add: request_queue_enqueue request_queue_retire)

section \<open>One service, run without interruption\<close>

text \<open>
  A bus read that returns the byte of memory \<open>m\<close> and leaves the fields of the mirror
  alone: what the cache relies on of the bus layer.
\<close>

definition reads_memory ::
    "(u32 \<Rightarrow> 'a mirror_scheme \<Rightarrow> (u32 \<times> 'a mirror_scheme) option) \<Rightarrow> (nat \<Rightarrow> u8) \<Rightarrow> bool" where
  "reads_memory rd m \<longleftrightarrow>
     (\<forall>a s. \<exists>s'. rd a s = Some (ucast (m (unat a)), s') \<and> mirror.truncate s' = mirror.truncate s)"

lemma truncate_fields:
  assumes "mirror.truncate s = mirror.truncate (t :: 'a mirror_scheme)"
  shows "pm_page_meta s = pm_page_meta t" and "pm_shadow s = pm_shadow t"
    and "pm_requests s = pm_requests t" and "pm_request_head s = pm_request_head t"
    and "pm_request_tail s = pm_request_tail t" and "pm_enabled s = pm_enabled t"
    and "pm_page_miss_seen s = pm_page_miss_seen t" and "pm_pages_ready s = pm_pages_ready t"
    and "request_queue s = request_queue t"
  using assms by (simp_all add: mirror.truncate_def request_queue_def)

lemma truncate_shadow:
  "mirror.truncate s = mirror.truncate t \<Longrightarrow>
     mirror.truncate (s\<lparr>pm_shadow := f\<rparr>) = mirror.truncate (t\<lparr>pm_shadow := f\<rparr>)"
  by (simp add: mirror.truncate_def)

lemma service_copy_result:
  assumes "reads_memory rd m" and "\<forall>a \<in> set as. a < 2 ^ 32"
  shows "\<exists>s'. service_copy rd as s = Some s' \<and>
           mirror.truncate s' =
             mirror.truncate (s\<lparr>pm_shadow := (\<lambda>i. if i \<in> set as then m i else pm_shadow s i)\<rparr>)"
  using assms(2)
proof (induction as arbitrary: s)
  case Nil
  then show ?case by simp
next
  case (Cons a as)
  have a: "unat (word_of_nat a :: u32) = a"
    using Cons.prems by (simp add: unat_of_nat)
  obtain s1 where rd: "rd (word_of_nat a) s = Some (ucast (m a), s1)"
    and s1: "mirror.truncate s1 = mirror.truncate s"
    using assms(1) [unfolded reads_memory_def, rule_format, of "word_of_nat a" s] a by auto
  have m: "ucast (ucast (m a) :: u32) = m a"
    by (rule bit_word_eqI) (auto simp: bit_simps)
  let ?t = "service_store a (m a) s1"
  let ?f = "\<lambda>i. if i \<in> set as then m i else pm_shadow ?t i"
  obtain s' where s': "service_copy rd as ?t = Some s'"
    and tr: "mirror.truncate s' = mirror.truncate (?t\<lparr>pm_shadow := ?f\<rparr>)"
    using Cons.IH [of ?t] Cons.prems by auto
  have "?f = (\<lambda>i. if i \<in> set (a # as) then m i else pm_shadow s i)"
    using truncate_fields(2) [OF s1] by (auto simp: service_store_def)
  then have "mirror.truncate (?t\<lparr>pm_shadow := ?f\<rparr>)
      = mirror.truncate (s\<lparr>pm_shadow := (\<lambda>i. if i \<in> set (a # as) then m i else pm_shadow s i)\<rparr>)"
    using truncate_shadow [OF s1] by (simp add: service_store_def)
  with s' tr rd m show ?case by simp
qed

lemma page_addresses_iff: "i \<in> set (page_addresses page) \<longleftrightarrow> i div 256 = page"
  by (auto simp: page_addresses_def)

lemma service_result:
  assumes "reads_memory rd m" and pend: "paula_mirror_service_pending s"
    and page: "page = service_front s" and st: "page_state (pm_page_meta s page) = 1"
  shows "\<exists>s'. paula_mirror_service rd s = Some s' \<and>
           pm_page_meta s' = (pm_page_meta s)(page := loading_word (pm_page_meta s page) OR 1) \<and>
           pm_shadow s' = (\<lambda>i. if i div 256 = page then m i else pm_shadow s i) \<and>
           request_queue s' = tl (request_queue s) \<and>
           pm_enabled s' = pm_enabled s \<and>
           pm_page_miss_seen s' = (pm_page_miss_seen s)(page := 0) \<and>
           pm_pages_ready s' = pm_pages_ready s + 1"
proof -
  have "page < 2 ^ 16"
    unfolding page service_front_def by (rule unat_less_pow [where 'a = 16, simplified, THEN order_less_le_trans]) simp
  then have lt: "\<forall>a \<in> set (page_addresses page). a < 2 ^ 32"
    by (auto simp: page_addresses_def)
  obtain s1 where c: "service_copy rd (page_addresses page) (service_claim page s) = Some s1"
    and tr: "mirror.truncate s1 = mirror.truncate ((service_claim page s)\<lparr>pm_shadow :=
       (\<lambda>i. if i \<in> set (page_addresses page) then m i else pm_shadow (service_claim page s) i)\<rparr>)"
    using service_copy_result [OF assms(1) lt] by blast
  note f = truncate_fields [OF tr]
  have q1: "request_queue s1 = request_queue s"
    using f(9) by (simp add: request_queue_def service_claim_def)
  then have ne: "request_queue s1 \<noteq> []"
    using pend by (simp add: pending_queue)
  let ?w = "loading_word (pm_page_meta s page)"
  have "pm_page_meta (service_release s1) page = ?w"
    using f(1) by (simp add: cache_frame)
  then have "paula_mirror_service rd s = Some (service_publish page ?w (service_release s1))"
    using pend st c page by (simp add: paula_mirror_service_def Let_def)
  moreover have "request_queue (service_release s1) = tl (request_queue s)"
    using request_queue_retire(2) [OF ne] q1 by simp
  ultimately show ?thesis
    using f(1,2,6,7,8)
    by (auto simp: cache_frame page_addresses_iff)
qed

section \<open>A missed page is delivered\<close>

text \<open>
  Between services: every queued page is in state 1, every page in state 1 is queued once,
  and no page is being loaded.
\<close>

definition cache_ok :: "'a mirror_scheme \<Rightarrow> bool" where
  "cache_ok s \<longleftrightarrow> pm_enabled s \<noteq> 0 \<and> distinct (request_queue s) \<and>
     set (request_queue s) \<subseteq> {..<8192} \<and>
     (\<forall>p<8192. (page_state (pm_page_meta s p) = 1 \<longleftrightarrow> p \<in> set (request_queue s)) \<and>
               page_state (pm_page_meta s p) \<noteq> 2)"

fun service_times ::
    "(u32 \<Rightarrow> 'a mirror_scheme \<Rightarrow> (u32 \<times> 'a mirror_scheme) option) \<Rightarrow> nat \<Rightarrow>
     'a mirror_scheme \<Rightarrow> 'a mirror_scheme option" where
  "service_times rd 0 s = Some s"
| "service_times rd (Suc n) s =
     (case paula_mirror_service rd s of None \<Rightarrow> None | Some s1 \<Rightarrow> service_times rd n s1)"

lemma cache_ok_service:
  assumes "reads_memory rd m" and ok: "cache_ok s" and q: "request_queue s = page # q"
  shows "\<exists>s'. paula_mirror_service rd s = Some s' \<and> cache_ok s' \<and> request_queue s' = q \<and>
           page_state (pm_page_meta s' page) = 3 \<and>
           (\<forall>p<8192. p \<noteq> page \<longrightarrow> pm_page_meta s' p = pm_page_meta s p) \<and>
           pm_shadow s' = (\<lambda>i. if i div 256 = page then m i else pm_shadow s i)"
proof -
  have pend: "paula_mirror_service_pending s"
    using ok q by (simp add: pending_queue cache_ok_def)
  have page: "page = service_front s"
    using service_front_hd [of s] q by simp
  have st: "page_state (pm_page_meta s page) = 1"
    using ok q by (auto simp: cache_ok_def)
  have ready: "page_state (loading_word (pm_page_meta s page) OR 1) = 3"
    by (simp add: page_words)
  obtain s' where s': "paula_mirror_service rd s = Some s'"
    "pm_page_meta s' = (pm_page_meta s)(page := loading_word (pm_page_meta s page) OR 1)"
    "pm_shadow s' = (\<lambda>i. if i div 256 = page then m i else pm_shadow s i)"
    "request_queue s' = tl (request_queue s)" "pm_enabled s' = pm_enabled s"
    using service_result [OF assms(1) pend page st] by blast
  have "cache_ok s'"
    using ok q s' ready by (auto simp: cache_ok_def)
  with s' q ready show ?thesis by auto
qed

lemma service_times_all:
  assumes "reads_memory rd m" and "cache_ok s"
  shows "\<exists>s'. service_times rd (length (request_queue s)) s = Some s' \<and> cache_ok s' \<and>
           request_queue s' = [] \<and>
           (\<forall>p \<in> set (request_queue s). page_state (pm_page_meta s' p) = 3) \<and>
           (\<forall>p<8192. p \<notin> set (request_queue s) \<longrightarrow> pm_page_meta s' p = pm_page_meta s p) \<and>
           pm_shadow s' =
             (\<lambda>i. if i div 256 \<in> set (request_queue s) then m i else pm_shadow s i)"
  using assms(2)
proof (induction "request_queue s" arbitrary: s)
  case Nil
  then show ?case by auto
next
  case (Cons page q)
  note q = Cons.hyps(2) [symmetric]
  obtain s1 where s1: "paula_mirror_service rd s = Some s1" "cache_ok s1" "request_queue s1 = q"
    "page_state (pm_page_meta s1 page) = 3"
    "\<forall>p<8192. p \<noteq> page \<longrightarrow> pm_page_meta s1 p = pm_page_meta s p"
    "pm_shadow s1 = (\<lambda>i. if i div 256 = page then m i else pm_shadow s i)"
    using cache_ok_service [OF assms(1) Cons.prems q] by blast
  have lt: "page < 8192" and nq: "page \<notin> set q"
    using Cons.prems q by (auto simp: cache_ok_def)
  from Cons.hyps(1) [of s1] s1 obtain s' where s': "service_times rd (length q) s1 = Some s'"
    "cache_ok s'" "request_queue s' = []" "\<forall>p \<in> set q. page_state (pm_page_meta s' p) = 3"
    "\<forall>p<8192. p \<notin> set q \<longrightarrow> pm_page_meta s' p = pm_page_meta s1 p"
    "pm_shadow s' = (\<lambda>i. if i div 256 \<in> set q then m i else pm_shadow s1 i)"
    by auto
  show ?case
    using s1 s' q lt nq by (intro exI [of _ s']) auto
qed

lemma cache_ok_request_page:
  assumes ok: "cache_ok s" and p: "page < 8192"
  shows "cache_ok (request_page page s)"
    and "page_state (pm_page_meta s page) \<noteq> 3 \<Longrightarrow> page \<in> set (request_queue (request_page page s))"
proof -
  have st: "page_state (pm_page_meta s page) = 1 \<or> page_state (pm_page_meta s page) = 3"
    if "page_state (pm_page_meta s page) \<noteq> 0"
    using that ok p page_state_cases [of "pm_page_meta s page"] by (auto simp: cache_ok_def)
  have len: "length (request_queue s) < 8192" if "page \<notin> set (request_queue s)"
  proof -
    have "card (set (request_queue s)) < card {..<8192::nat}"
      using ok p that by (intro psubset_card_mono) (auto simp: cache_ok_def)
    then show ?thesis
      using ok by (simp add: cache_ok_def distinct_card)
  qed
  have new: "page \<notin> set (request_queue s)" if "page_state (pm_page_meta s page) = 0"
    using that ok p by (auto simp: cache_ok_def)
  have q: "request_queue (request_page page s) = request_queue s @ [page]"
    if "page_state (pm_page_meta s page) = 0"
    using that len [OF new] p by (simp add: request_page_def request_queue_enqueue cache_frame)
  show "cache_ok (request_page page s)"
  proof (cases "page_state (pm_page_meta s page) = 0")
    case True
    then show ?thesis
      using ok p new q [OF True]
      by (auto simp: cache_ok_def request_page_def cache_frame page_words)
  next
    case False
    then show ?thesis using ok by (simp add: request_page_def)
  qed
  show "page_state (pm_page_meta s page) \<noteq> 3 \<Longrightarrow> page \<in> set (request_queue (request_page page s))"
    using st q ok p by (cases "page_state (pm_page_meta s page) = 0")
      (auto simp: cache_ok_def request_page_def)
qed

text \<open>The cache invariant looks at the page words, the ring and the enable flag only.\<close>

lemma cache_ok_irrelevant [cache_frame]:
  "cache_ok (s\<lparr>pm_metrics := m\<rparr>) = cache_ok s"
  "cache_ok (s\<lparr>pm_render_miss := n\<rparr>) = cache_ok s"
  "cache_ok (s\<lparr>pm_misses := n\<rparr>) = cache_ok s"
  "cache_ok (s\<lparr>pm_page_miss_seen := f\<rparr>) = cache_ok s"
  "request_queue (s\<lparr>pm_metrics := m\<rparr>) = request_queue s"
  "request_queue (s\<lparr>pm_misses := n\<rparr>) = request_queue s"
  by (simp_all add: cache_ok_def request_queue_def)

lemma request_page_render_miss [cache_frame]:
  "pm_render_miss (request_page page s) = pm_render_miss s"
  "pm_shadow (request_page page s) = pm_shadow s"
  by (simp_all add: request_page_def request_claim_def request_enqueue_def Let_def)

lemma chip_page: "address < PAULA_MIRROR_CHIP_LIMIT \<Longrightarrow> unat (address div 256) < 8192"
  by (simp add: unat_div word_less_nat_alt)

lemma read_byte_miss:
  assumes ok: "cache_ok s" and a: "address < PAULA_MIRROR_CHIP_LIMIT"
    and miss: "page_state (pm_page_meta s (unat (address div 256))) \<noteq> 3"
    and r: "paula_mirror_read_byte address s = (v, s1)"
  shows "v = 0" and "paula_mirror_render_missed s1" and "cache_ok s1"
    and "unat (address div 256) \<in> set (request_queue s1)"
proof -
  let ?page = "unat (address div 256)"
  let ?s = "s\<lparr>pm_metrics := paula_probe_add PP_SAMPLE_READS 1 (pm_metrics s), pm_render_miss := 1,
              pm_page_miss_seen := (pm_page_miss_seen s)(?page := 1)\<rparr>"
  let ?t = "request_page ?page ?s"
  have s1: "v = 0" "s1 = ?t\<lparr>pm_misses := pm_misses ?t + 1,
       pm_metrics := paula_probe_add PP_CACHE_ZERO_RETURNS 1
                       (paula_probe_add PP_CACHE_MISSES 1 (pm_metrics ?t))\<rparr>"
    using r a [unfolded not_le [symmetric]] miss
    by (simp_all add: paula_mirror_read_byte_def Let_def)
  have ok': "cache_ok ?s"
    using ok by (simp add: cache_frame)
  show "v = 0" by (rule s1)
  show "paula_mirror_render_missed s1"
    by (simp add: paula_mirror_render_missed_def s1 cache_frame)
  show "cache_ok s1"
    using cache_ok_request_page(1) [OF ok' chip_page [OF a]] by (simp add: s1 cache_frame)
  show "?page \<in> set (request_queue s1)"
    using cache_ok_request_page(2) [OF ok' chip_page [OF a]] miss by (simp add: s1 cache_frame)
qed

lemma read_byte_hit:
  assumes a: "address < PAULA_MIRROR_CHIP_LIMIT"
    and hit: "page_state (pm_page_meta s (unat (address div 256))) = 3"
  shows "fst (paula_mirror_read_byte address s) = pm_shadow s (unat address)"
    and "pm_render_miss (snd (paula_mirror_read_byte address s)) = pm_render_miss s"
  using hit a [unfolded not_le [symmetric]]
  by (simp_all add: paula_mirror_read_byte_def Let_def cache_frame)

text \<open>
  C8: a sample byte that is not cached reads as 0, flags the frame as missed and queues its
  page; once the worker has served as many requests as are queued, the same read returns
  the byte of Chip RAM and does not flag a miss.
\<close>

theorem missed_byte_is_recovered:
  assumes "reads_memory rd m" and "cache_ok s" and "address < PAULA_MIRROR_CHIP_LIMIT"
    and "page_state (pm_page_meta s (unat (address div 256))) \<noteq> 3"
    and "paula_mirror_read_byte address s = (v, s1)"
  shows "v = 0 \<and> paula_mirror_render_missed s1 \<and>
    (\<exists>s2. service_times rd (length (request_queue s1)) s1 = Some s2 \<and>
       request_queue s2 = [] \<and>
       fst (paula_mirror_read_byte address (paula_mirror_render_begin s2)) = m (unat address) \<and>
       \<not> paula_mirror_render_missed
           (snd (paula_mirror_read_byte address (paula_mirror_render_begin s2))))"
proof -
  note miss = read_byte_miss [OF assms(2-5)]
  obtain s2 where s2: "service_times rd (length (request_queue s1)) s1 = Some s2"
    "request_queue s2 = []" "\<forall>p \<in> set (request_queue s1). page_state (pm_page_meta s2 p) = 3"
    "pm_shadow s2 = (\<lambda>i. if i div 256 \<in> set (request_queue s1) then m i else pm_shadow s1 i)"
    using service_times_all [OF assms(1) miss(3)] by blast
  let ?s2 = "paula_mirror_render_begin s2"
  have hit: "page_state (pm_page_meta ?s2 (unat (address div 256))) = 3"
    using s2(3) miss(4) by (simp add: paula_mirror_render_begin_def)
  have "unat address div 256 \<in> set (request_queue s1)"
    using miss(4) by (simp add: unat_div)
  then show ?thesis
    using miss(1,2) s2 read_byte_hit [OF assms(3) hit]
    by (auto simp: paula_mirror_render_begin_def paula_mirror_render_missed_def)
qed

lemma cache_ok_enable: "cache_ok (paula_mirror_enable s)"
  by (auto simp: cache_ok_def cache_frame page_state_def)

definition direct_read :: "(nat \<Rightarrow> u8) \<Rightarrow> u32 \<Rightarrow> 'a mirror_scheme \<Rightarrow> (u32 \<times> 'a mirror_scheme) option" where
  "direct_read m a s = Some (ucast (m (unat a)), s)"

lemma direct_read_reads: "reads_memory (direct_read m) m"
  by (simp add: reads_memory_def direct_read_def)

theorem missed_byte_is_recovered_witness:
  "\<exists>s1 s2. paula_mirror_read_byte 0x105 (paula_mirror_enable mirror_bss) = (0, s1) \<and>
     service_times (direct_read word_of_nat) (length (request_queue s1)) s1 = Some s2 \<and>
     fst (paula_mirror_read_byte 0x105 (paula_mirror_render_begin s2)) = 5"
proof -
  have st: "page_state (pm_page_meta (paula_mirror_enable mirror_bss) (unat ((0x105 :: u32) div 256))) \<noteq> 3"
    by (simp add: cache_frame page_state_def unat_div)
  obtain v s1 where r: "paula_mirror_read_byte 0x105 (paula_mirror_enable mirror_bss) = (v, s1)"
    by (cases "paula_mirror_read_byte 0x105 (paula_mirror_enable mirror_bss)")
  show ?thesis
    using missed_byte_is_recovered [OF direct_read_reads [of word_of_nat] cache_ok_enable _ st r] r
    by auto
qed

end
