(* ===== verification/CacheSteps.thy ===== *)
theory CacheSteps
  imports PageCache
begin

text \<open>
  The sample cache under interleaving. Three agents share the page words, the request ring
  and the shadow copy of \<open>source/src/raspi/paula/paula_mirror.c\<close>: the renderer that
  queues pages, the bus writer that invalidates them after each completed bus write, and the
  worker that copies a page through the bus and publishes it. Every atomic access is one step,
  so the steps of the agents interleave in every order.

  The properties: a page marked ready holds the bytes of Chip RAM unless a write to it is
  still being invalidated, every outstanding page is queued exactly once, and the ring never
  holds more requests than it has slots.
\<close>

section \<open>The agents\<close>

datatype worker =
  WIdle
| WRead nat u64 nat
| WStore nat u64 nat u8
| WPublish nat u64

datatype writer =
  NIdle
| NInval "nat list"
| NAccount "nat list"

datatype reader =
  RIdle
| RPut nat

record csys =
  cs_mir :: mirror
  cs_mem :: "nat \<Rightarrow> u8"
  cs_worker :: worker
  cs_writer :: writer
  cs_reader :: reader

definition mem_write :: "(nat \<Rightarrow> u8) \<Rightarrow> nat \<Rightarrow> u8 list \<Rightarrow> nat \<Rightarrow> u8" where
  "mem_write m a bs i = (if a \<le> i \<and> i < a + length bs then bs ! (i - a) else m i)"

text \<open>
  \<open>cstep k c c'\<close>: one atomic access; \<open>k\<close> is 1 for the compare-and-swap of an
  invalidation and 0 for every other step.
\<close>

inductive cstep :: "nat \<Rightarrow> csys \<Rightarrow> csys \<Rightarrow> bool" where
  reader_claim: "cs_reader c = RIdle \<Longrightarrow> page < unat PAGE_COUNT \<Longrightarrow>
     page_state (pm_page_meta (cs_mir c) page) = 0 \<Longrightarrow>
     cstep 0 c (c\<lparr>cs_mir := request_claim page (cs_mir c), cs_reader := RPut page\<rparr>)"
| reader_put: "cs_reader c = RPut page \<Longrightarrow>
     cstep 0 c (c\<lparr>cs_mir := request_enqueue page (cs_mir c), cs_reader := RIdle\<rparr>)"
| writer_write: "cs_writer c = NIdle \<Longrightarrow> address < PAULA_MIRROR_CHIP_LIMIT \<Longrightarrow>
     0 < length bs \<Longrightarrow> length bs \<le> 4 \<Longrightarrow>
     cstep 0 c (c\<lparr>cs_mem := mem_write (cs_mem c) (unat address) bs,
                  cs_writer := NInval (invalidate_range address (word_of_nat (length bs)))\<rparr>)"
| writer_cas: "cs_writer c = NInval (page # pages) \<Longrightarrow>
     cstep 1 c (c\<lparr>cs_mir := invalidate_cas page (cs_mir c),
                  cs_writer := (if page_state (pm_page_meta (cs_mir c) page) = 3
                                then NAccount pages else NInval pages)\<rparr>)"
| writer_account: "cs_writer c = NAccount pages \<Longrightarrow>
     cstep 0 c (c\<lparr>cs_mir := invalidate_account (cs_mir c), cs_writer := NInval pages\<rparr>)"
| writer_done: "cs_writer c = NInval [] \<Longrightarrow> cstep 0 c (c\<lparr>cs_writer := NIdle\<rparr>)"
| worker_skip: "cs_worker c = WIdle \<Longrightarrow> paula_mirror_service_pending (cs_mir c) \<Longrightarrow>
     page_state (pm_page_meta (cs_mir c) (service_front (cs_mir c))) \<noteq> 1 \<Longrightarrow>
     cstep 0 c (c\<lparr>cs_mir := service_retire (cs_mir c)\<rparr>)"
| worker_claim: "cs_worker c = WIdle \<Longrightarrow> paula_mirror_service_pending (cs_mir c) \<Longrightarrow>
     page = service_front (cs_mir c) \<Longrightarrow> page_state (pm_page_meta (cs_mir c) page) = 1 \<Longrightarrow>
     cstep 0 c (c\<lparr>cs_mir := service_claim page (cs_mir c),
                  cs_worker := WRead page (loading_word (pm_page_meta (cs_mir c) page)) 0\<rparr>)"
| worker_read: "cs_worker c = WRead page e i \<Longrightarrow> i < 256 \<Longrightarrow>
     cstep 0 c (c\<lparr>cs_worker := WStore page e i (cs_mem c (page * 256 + i))\<rparr>)"
| worker_store: "cs_worker c = WStore page e i v \<Longrightarrow>
     cstep 0 c (c\<lparr>cs_mir := service_store (page * 256 + i) v (cs_mir c),
                  cs_worker := WRead page e (Suc i)\<rparr>)"
| worker_release: "cs_worker c = WRead page e 256 \<Longrightarrow>
     cstep 0 c (c\<lparr>cs_mir := service_release (cs_mir c), cs_worker := WPublish page e\<rparr>)"
| worker_publish: "cs_worker c = WPublish page e \<Longrightarrow> pm_page_meta (cs_mir c) page = e \<Longrightarrow>
     cstep 0 c (c\<lparr>cs_mir := service_publish page e (cs_mir c), cs_worker := WIdle\<rparr>)"
| worker_discard: "cs_worker c = WPublish page e \<Longrightarrow> pm_page_meta (cs_mir c) page \<noteq> e \<Longrightarrow>
     cstep 0 c (c\<lparr>cs_mir := service_discard page (cs_mir c), cs_worker := WIdle\<rparr>)"

definition cs_start :: "mirror \<Rightarrow> (nat \<Rightarrow> u8) \<Rightarrow> csys" where
  "cs_start s m = \<lparr>cs_mir = paula_mirror_enable s, cs_mem = m, cs_worker = WIdle,
                    cs_writer = NIdle, cs_reader = RIdle\<rparr>"

text \<open>\<open>creach n c\<close>: reachable with \<open>n\<close> invalidations.\<close>

inductive creach :: "nat \<Rightarrow> csys \<Rightarrow> bool" where
  start: "creach 0 (cs_start s m)"
| step: "creach n c \<Longrightarrow> cstep k c c' \<Longrightarrow> creach (n + k) c'"

section \<open>Views of a state\<close>

definition reader_pages :: "reader \<Rightarrow> nat list" where
  "reader_pages r = (case r of RIdle \<Rightarrow> [] | RPut page \<Rightarrow> [page])"

definition writer_pages :: "writer \<Rightarrow> nat list" where
  "writer_pages w = (case w of NIdle \<Rightarrow> [] | NInval ps \<Rightarrow> ps | NAccount ps \<Rightarrow> ps)"

text \<open>The page the worker is loading and the page still at the front of its ring.\<close>

definition loading_page :: "worker \<Rightarrow> (nat \<times> u64) option" where
  "loading_page w = (case w of WIdle \<Rightarrow> None | WRead p e i \<Rightarrow> Some (p, e)
     | WStore p e i v \<Rightarrow> Some (p, e) | WPublish p e \<Rightarrow> Some (p, e))"

definition unreleased :: "worker \<Rightarrow> nat option" where
  "unreleased w = (case w of WIdle \<Rightarrow> None | WRead p e i \<Rightarrow> Some p
     | WStore p e i v \<Rightarrow> Some p | WPublish p e \<Rightarrow> None)"

definition copied :: "worker \<Rightarrow> nat" where
  "copied w = (case w of WIdle \<Rightarrow> 0 | WRead p e i \<Rightarrow> i | WStore p e i v \<Rightarrow> i | WPublish p e \<Rightarrow> 256)"

lemmas views = reader_pages_def writer_pages_def loading_page_def unreleased_def copied_def

section \<open>The invariant\<close>

abbreviation cs_meta :: "csys \<Rightarrow> nat \<Rightarrow> u64" where "cs_meta c \<equiv> pm_page_meta (cs_mir c)"
abbreviation cs_shadow :: "csys \<Rightarrow> nat \<Rightarrow> u8" where "cs_shadow c \<equiv> pm_shadow (cs_mir c)"
abbreviation cs_out :: "csys \<Rightarrow> nat list" where
  "cs_out c \<equiv> request_queue (cs_mir c) @ reader_pages (cs_reader c)"

definition queue_ok :: "csys \<Rightarrow> bool" where
  "queue_ok c \<longleftrightarrow> distinct (cs_out c) \<and> set (cs_out c) \<subseteq> {..<8192} \<and>
     (\<forall>p. unreleased (cs_worker c) = Some p \<longrightarrow>
        request_queue (cs_mir c) \<noteq> [] \<and> hd (request_queue (cs_mir c)) = p)"

definition states_ok :: "csys \<Rightarrow> bool" where
  "states_ok c \<longleftrightarrow>
     (\<forall>p<8192. (page_state (cs_meta c p) = 1 \<longleftrightarrow>
                  p \<in> set (cs_out c) \<and> unreleased (cs_worker c) \<noteq> Some p) \<and>
               (page_state (cs_meta c p) = 2 \<longleftrightarrow> (\<exists>e. loading_page (cs_worker c) = Some (p, e))))"

definition gens_ok :: "nat \<Rightarrow> csys \<Rightarrow> bool" where
  "gens_ok n c \<longleftrightarrow> (\<forall>p<8192. page_generation (cs_meta c p) \<le> n)"

definition worker_ok :: "csys \<Rightarrow> bool" where
  "worker_ok c \<longleftrightarrow>
     (\<forall>p e. loading_page (cs_worker c) = Some (p, e) \<longrightarrow>
        p < 8192 \<and> page_state e = 2 \<and> page_generation e \<le> page_generation (cs_meta c p) \<and>
        copied (cs_worker c) \<le> 256 \<and> (\<forall>i v. cs_worker c = WStore p e i v \<longrightarrow> i < 256) \<and>
        (cs_meta c p = e \<longrightarrow> p \<notin> set (writer_pages (cs_writer c)) \<longrightarrow>
           (\<forall>j<copied (cs_worker c). cs_shadow c (p * 256 + j) = cs_mem c (p * 256 + j)) \<and>
           (\<forall>i v. cs_worker c = WStore p e i v \<longrightarrow> v = cs_mem c (p * 256 + i))))"

definition data_ok :: "csys \<Rightarrow> bool" where
  "data_ok c \<longleftrightarrow>
     (\<forall>p<8192. page_state (cs_meta c p) = 3 \<longrightarrow> p \<notin> set (writer_pages (cs_writer c)) \<longrightarrow>
        (\<forall>j<256. cs_shadow c (p * 256 + j) = cs_mem c (p * 256 + j)))"

definition cinv :: "nat \<Rightarrow> csys \<Rightarrow> bool" where
  "cinv n c \<longleftrightarrow> pm_enabled (cs_mir c) \<noteq> 0 \<and> queue_ok c \<and> states_ok c \<and> gens_ok n c \<and>
     worker_ok c \<and> data_ok c"

lemma invalidate_range_covers:
  assumes "a < PAULA_MIRROR_CHIP_LIMIT" and "0 < n" and "n \<le> 4"
    and "unat a \<le> i" and "i < unat a + n" and "i div 256 < 8192"
  shows "i div 256 \<in> set (invalidate_range a (word_of_nat n))"
proof -
  have a: "unat a < 0x200000"
    using assms(1) by (simp add: word_less_nat_alt)
  obtain k where k: "n = Suc k"
    using assms(2) gr0_implies_Suc by blast
  have "unat (a + word_of_nat n - 1) = unat (a + word_of_nat k)"
    by (simp add: k)
  also have "\<dots> = unat a + n - 1"
    using a assms(3) by (simp add: k unat_word_ariths unat_of_nat)
  finally have "unat (a + word_of_nat n - 1) = unat a + n - 1" .
  then have last: "unat ((a + word_of_nat n - 1) div 256) = (unat a + n - 1) div 256"
    by (simp add: unat_div)
  have le: "unat a div 256 \<le> i div 256" "i div 256 \<le> (unat a + n - 1) div 256"
    using assms(4,5) by (auto intro!: div_le_mono)
  show ?thesis
    using le assms(6) last
    by (auto simp: invalidate_range_def Let_def unat_div word_le_nat_alt)
qed

section \<open>Every step keeps the invariant\<close>

lemma cinvI:
  "pm_enabled (cs_mir c) \<noteq> 0 \<Longrightarrow> queue_ok c \<Longrightarrow> states_ok c \<Longrightarrow> gens_ok n c \<Longrightarrow> worker_ok c \<Longrightarrow>
   data_ok c \<Longrightarrow> cinv n c"
  by (simp add: cinv_def)

lemma cinvD:
  assumes "cinv n c"
  shows "pm_enabled (cs_mir c) \<noteq> 0" and "queue_ok c" and "states_ok c" and "gens_ok n c"
    and "worker_ok c" and "data_ok c"
  using assms by (simp_all add: cinv_def)

lemma out_length:
  assumes "queue_ok c"
  shows "length (cs_out c) \<le> 8192"
proof -
  have "card (set (cs_out c)) \<le> card {..<8192::nat}"
    using assms by (intro card_mono) (auto simp: queue_ok_def)
  then show ?thesis
    using assms by (metis card_lessThan distinct_card queue_ok_def)
qed

lemma cinv_start: "cinv 0 (cs_start s m)"
  by (rule cinvI) (auto simp: cs_start_def queue_ok_def states_ok_def gens_ok_def worker_ok_def
      data_ok_def views cache_frame page_state_def page_generation_def)

lemma cinv_reader_claim:
  assumes "cinv n c" and "cs_reader c = RIdle" and p: "page < 8192"
    and st: "page_state (cs_meta c page) = 0"
  shows "cinv n (c\<lparr>cs_mir := request_claim page (cs_mir c), cs_reader := RPut page\<rparr>)"
proof -
  note inv = cinvD [OF assms(1)]
  have not_out: "page \<notin> set (request_queue (cs_mir c)) \<or> unreleased (cs_worker c) = Some page"
    using inv(3) p st assms(2) by (auto simp: states_ok_def views)
  have not_load: "loading_page (cs_worker c) \<noteq> Some (page, e)" for e
    using inv(3) p st by (auto simp: states_ok_def)
  then have not_unrel: "unreleased (cs_worker c) \<noteq> Some page"
    by (cases "cs_worker c") (auto simp: views)
  show ?thesis
  proof (rule cinvI)
    show "queue_ok (c\<lparr>cs_mir := request_claim page (cs_mir c), cs_reader := RPut page\<rparr>)"
      using inv(2) not_out not_unrel p assms(2)
      by (auto simp: queue_ok_def cache_frame reader_pages_def)
    show "states_ok (c\<lparr>cs_mir := request_claim page (cs_mir c), cs_reader := RPut page\<rparr>)"
      using inv(3) not_unrel not_load st page_words(6) [OF st] assms(2)
      by (auto simp: states_ok_def cache_frame reader_pages_def)
    show "gens_ok n (c\<lparr>cs_mir := request_claim page (cs_mir c), cs_reader := RPut page\<rparr>)"
      using inv(4) by (auto simp: gens_ok_def cache_frame page_words)
    show "worker_ok (c\<lparr>cs_mir := request_claim page (cs_mir c), cs_reader := RPut page\<rparr>)"
      using inv(5) not_load by (auto simp: worker_ok_def cache_frame)
    show "data_ok (c\<lparr>cs_mir := request_claim page (cs_mir c), cs_reader := RPut page\<rparr>)"
      using inv(6) page_words(6) [OF st] by (auto simp: data_ok_def cache_frame)
  qed (use inv(1) in \<open>simp add: cache_frame\<close>)
qed

lemma cinv_reader_put:
  assumes "cinv n c" and r: "cs_reader c = RPut page"
  shows "cinv n (c\<lparr>cs_mir := request_enqueue page (cs_mir c), cs_reader := RIdle\<rparr>)"
proof -
  note inv = cinvD [OF assms(1)]
  have p: "page < 8192"
    using inv(2) r by (simp add: queue_ok_def reader_pages_def)
  have "length (request_queue (cs_mir c)) < 8192"
    using out_length [OF inv(2)] r by (simp add: reader_pages_def)
  then have q: "request_queue (request_enqueue page (cs_mir c)) = request_queue (cs_mir c) @ [page]"
    by (rule request_queue_enqueue [OF _ p])
  show ?thesis
  proof (rule cinvI)
    show "queue_ok (c\<lparr>cs_mir := request_enqueue page (cs_mir c), cs_reader := RIdle\<rparr>)"
      using inv(2) r by (auto simp: queue_ok_def q reader_pages_def)
    show "states_ok (c\<lparr>cs_mir := request_enqueue page (cs_mir c), cs_reader := RIdle\<rparr>)"
      using inv(3) r by (simp add: states_ok_def q cache_frame reader_pages_def)
    show "gens_ok n (c\<lparr>cs_mir := request_enqueue page (cs_mir c), cs_reader := RIdle\<rparr>)"
      using inv(4) by (simp add: gens_ok_def cache_frame)
    show "worker_ok (c\<lparr>cs_mir := request_enqueue page (cs_mir c), cs_reader := RIdle\<rparr>)"
      using inv(5) by (auto simp: worker_ok_def cache_frame)
    show "data_ok (c\<lparr>cs_mir := request_enqueue page (cs_mir c), cs_reader := RIdle\<rparr>)"
      using inv(6) by (simp add: data_ok_def cache_frame)
  qed (use inv(1) in \<open>simp add: cache_frame\<close>)
qed

lemma cinv_writer_write:
  assumes "cinv n c" and w: "cs_writer c = NIdle" and a: "address < PAULA_MIRROR_CHIP_LIMIT"
    and len: "0 < length bs" "length bs \<le> 4"
  shows "cinv n (c\<lparr>cs_mem := mem_write (cs_mem c) (unat address) bs,
                   cs_writer := NInval (invalidate_range address (word_of_nat (length bs)))\<rparr>)"
proof -
  note inv = cinvD [OF assms(1)]
  let ?pages = "invalidate_range address (word_of_nat (length bs))"
  have same: "mem_write (cs_mem c) (unat address) bs (p * 256 + j) = cs_mem c (p * 256 + j)"
    if "p < 8192" "p \<notin> set ?pages" "j < 256" for p j
    using invalidate_range_covers [OF a len, of "p * 256 + j"] that by (auto simp: mem_write_def)
  show ?thesis
  proof (rule cinvI)
    show "worker_ok (c\<lparr>cs_mem := mem_write (cs_mem c) (unat address) bs,
                       cs_writer := NInval ?pages\<rparr>)"
      using inv(5) w unfolding worker_ok_def by (fastforce simp: writer_pages_def same)
    show "data_ok (c\<lparr>cs_mem := mem_write (cs_mem c) (unat address) bs,
                     cs_writer := NInval ?pages\<rparr>)"
      using inv(6) w by (auto simp: data_ok_def writer_pages_def same)
  qed (use inv in \<open>simp_all add: queue_ok_def states_ok_def gens_ok_def\<close>)
qed

lemma cinv_writer_cas:
  assumes "cinv n c" and w: "cs_writer c = NInval (page # pages)" and n: "n + 1 < 2 ^ 62"
  shows "cinv (n + 1) (c\<lparr>cs_mir := invalidate_cas page (cs_mir c),
                         cs_writer := (if page_state (cs_meta c page) = 3
                                       then NAccount pages else NInval pages)\<rparr>)"
    (is "cinv _ ?c")
proof -
  note inv = cinvD [OF assms(1)]
  let ?old = "cs_meta c page"
  have gen: "page_generation (invalidate_next ?old) = page_generation ?old + 1"
    if "page < 8192" "page_state ?old \<noteq> 0"
  proof -
    have "page_generation ?old \<le> n"
      using inv(4) that by (simp add: gens_ok_def)
    with n show ?thesis
      using invalidate_next_words(4) [of ?old] that by simp
  qed
  have gen_le: "page_generation ?old \<le> page_generation (invalidate_next ?old)" if "page < 8192"
    using gen [OF that] invalidate_next_words(1) [of ?old] by (cases "page_state ?old = 0") auto
  have not3: "page_state (invalidate_next ?old) \<noteq> 3"
    using invalidate_next_words(2,3) [of ?old] by (cases "page_state ?old = 3") auto
  have st12: "page_state (invalidate_next ?old) = 1 \<longleftrightarrow> page_state ?old = 1"
    "page_state (invalidate_next ?old) = 2 \<longleftrightarrow> page_state ?old = 2"
    using invalidate_next_words(2,3) [of ?old] by (cases "page_state ?old = 3", auto)+
  have pend: "set (writer_pages (cs_writer ?c)) = set pages"
    by (simp add: writer_pages_def)
  have pend0: "set (writer_pages (cs_writer c)) = insert page (set pages)"
    by (simp add: w writer_pages_def)
  show ?thesis
  proof (rule cinvI)
    show "pm_enabled (cs_mir ?c) \<noteq> 0"
      using inv(1) by (simp add: cache_frame)
    show "queue_ok ?c"
      using inv(2) by (simp add: queue_ok_def cache_frame)
    show "states_ok ?c"
      using inv(3) st12 by (auto simp: states_ok_def cache_frame)
    show "gens_ok (n + 1) ?c"
      using inv(4) gen invalidate_next_words(1) [of ?old]
      by (cases "page_state ?old = 0") (auto simp: gens_ok_def cache_frame le_SucI)
    show "data_ok ?c"
      using inv(6) not3 unfolding data_ok_def pend pend0 by (simp add: cache_frame)
    show "worker_ok ?c"
      unfolding worker_ok_def pend
    proof (intro allI impI)
      fix p e assume l: "loading_page (cs_worker ?c) = Some (p, e)"
      then have l': "loading_page (cs_worker c) = Some (p, e)" by simp
      note wo = inv(5) [unfolded worker_ok_def, rule_format, OF l']
      have "page_state (cs_meta c p) = 2"
        using inv(3) l' wo by (auto simp: states_ok_def)
      then have "p = page \<Longrightarrow> invalidate_next ?old \<noteq> e"
        using gen wo by auto
      then show "p < 8192 \<and> page_state e = 2 \<and> page_generation e \<le> page_generation (cs_meta ?c p) \<and>
        copied (cs_worker ?c) \<le> 256 \<and> (\<forall>i v. cs_worker ?c = WStore p e i v \<longrightarrow> i < 256) \<and>
        (cs_meta ?c p = e \<longrightarrow> p \<notin> set pages \<longrightarrow>
           (\<forall>j<copied (cs_worker ?c). cs_shadow ?c (p * 256 + j) = cs_mem ?c (p * 256 + j)) \<and>
           (\<forall>i v. cs_worker ?c = WStore p e i v \<longrightarrow> v = cs_mem ?c (p * 256 + i)))"
        using wo gen_le unfolding pend0 by (auto simp: cache_frame)
    qed
  qed
qed

lemma cinv_writer_rest:
  assumes "cinv n c"
  shows "cs_writer c = NAccount pages \<Longrightarrow>
           cinv n (c\<lparr>cs_mir := invalidate_account (cs_mir c), cs_writer := NInval pages\<rparr>)"
    and "cs_writer c = NInval [] \<Longrightarrow> cinv n (c\<lparr>cs_writer := NIdle\<rparr>)"
  using assms
  by (auto simp: cinv_def queue_ok_def states_ok_def gens_ok_def worker_ok_def data_ok_def
      cache_frame writer_pages_def)

lemma idle_front:
  assumes "cinv n c" and "cs_worker c = WIdle" and "paula_mirror_service_pending (cs_mir c)"
  shows "request_queue (cs_mir c) \<noteq> []"
    and "service_front (cs_mir c) = hd (request_queue (cs_mir c))"
    and "service_front (cs_mir c) < 8192"
    and "page_state (cs_meta c (service_front (cs_mir c))) = 1"
proof -
  note inv = cinvD [OF assms(1)]
  show ne: "request_queue (cs_mir c) \<noteq> []"
    using assms(3) by (simp add: pending_queue)
  then show hd: "service_front (cs_mir c) = hd (request_queue (cs_mir c))"
    by (rule service_front_hd)
  have mem: "service_front (cs_mir c) \<in> set (request_queue (cs_mir c))"
    using ne hd by simp
  then show lt: "service_front (cs_mir c) < 8192"
    using inv(2) by (auto simp: queue_ok_def)
  show "page_state (cs_meta c (service_front (cs_mir c))) = 1"
    using inv(3) mem lt assms(2) by (auto simp: states_ok_def unreleased_def)
qed

lemma cinv_worker_claim:
  assumes "cinv n c" and w: "cs_worker c = WIdle"
    and s: "paula_mirror_service_pending (cs_mir c)" and p: "page = service_front (cs_mir c)"
  shows "cinv n (c\<lparr>cs_mir := service_claim page (cs_mir c),
                   cs_worker := WRead page (loading_word (cs_meta c page)) 0\<rparr>)"
    (is "cinv _ ?c")
proof -
  note inv = cinvD [OF assms(1)] and fr = idle_front [OF assms(1) w s, folded p]
  show ?thesis
  proof (rule cinvI)
    show "pm_enabled (cs_mir ?c) \<noteq> 0"
      using inv(1) by (simp add: cache_frame)
    show "queue_ok ?c"
      using inv(2) fr by (simp add: queue_ok_def cache_frame unreleased_def)
    show "states_ok ?c"
      using inv(3) fr w by (auto simp: states_ok_def cache_frame views page_words)
    show "gens_ok n ?c"
      using inv(4) by (simp add: gens_ok_def cache_frame page_words)
    show "worker_ok ?c"
      using fr by (auto simp: worker_ok_def cache_frame views page_words)
    show "data_ok ?c"
      using inv(6) by (auto simp: data_ok_def cache_frame page_words)
  qed
qed

lemma cinv_worker_read:
  assumes "cinv n c" and w: "cs_worker c = WRead page e i" and i: "i < 256"
  shows "cinv n (c\<lparr>cs_worker := WStore page e i (cs_mem c (page * 256 + i))\<rparr>)"
  using assms
  by (auto simp: cinv_def queue_ok_def states_ok_def gens_ok_def worker_ok_def data_ok_def views)

lemma loading_state:
  "cinv n c \<Longrightarrow> loading_page (cs_worker c) = Some (p, e) \<Longrightarrow> p < 8192 \<and> page_state (cs_meta c p) = 2"
  by (auto simp: cinv_def worker_ok_def states_ok_def)

lemma page_slot_inj:
  "i < 256 \<Longrightarrow> j < 256 \<Longrightarrow> (p * 256 + i = q * 256 + j) = (p = q \<and> i = (j::nat))"
  by (metis Nat.add_0_right add_cancel_right_left div_mult_self3 div_less mod_mult_self3 mod_less
      zero_neq_numeral)

lemma cinv_worker_store:
  assumes "cinv n c" and w: "cs_worker c = WStore page e i v"
  shows "cinv n (c\<lparr>cs_mir := service_store (page * 256 + i) v (cs_mir c),
                   cs_worker := WRead page e (Suc i)\<rparr>)"
    (is "cinv _ ?c")
proof -
  note inv = cinvD [OF assms(1)]
  have l: "loading_page (cs_worker c) = Some (page, e)"
    by (simp add: w views)
  note st = loading_state [OF assms(1) l] and wo = inv(5) [unfolded worker_ok_def, rule_format, OF l]
  have i: "i < 256" using wo w by auto
  show ?thesis
  proof (rule cinvI)
    show "pm_enabled (cs_mir ?c) \<noteq> 0"
      using inv(1) by (simp add: cache_frame)
    show "queue_ok ?c"
      using inv(2) w by (auto simp: queue_ok_def cache_frame unreleased_def)
    show "states_ok ?c"
      using inv(3) w by (auto simp: states_ok_def cache_frame views)
    show "gens_ok n ?c"
      using inv(4) by (simp add: gens_ok_def cache_frame)
    show "worker_ok ?c"
      using wo i by (auto simp: worker_ok_def cache_frame views w less_Suc_eq)
    show "data_ok ?c"
      using inv(6) st i by (auto simp: data_ok_def cache_frame page_slot_inj)
  qed
qed

lemma cinv_worker_release:
  assumes "cinv n c" and w: "cs_worker c = WRead page e 256"
  shows "cinv n (c\<lparr>cs_mir := service_release (cs_mir c), cs_worker := WPublish page e\<rparr>)"
    (is "cinv _ ?c")
proof -
  note inv = cinvD [OF assms(1)]
  have l: "loading_page (cs_worker c) = Some (page, e)"
    by (simp add: w views)
  note wo = inv(5) [unfolded worker_ok_def, rule_format, OF l]
  have ne: "request_queue (cs_mir c) \<noteq> []" and hd: "hd (request_queue (cs_mir c)) = page"
    using inv(2) w by (auto simp: queue_ok_def unreleased_def)
  then obtain q where q: "request_queue (cs_mir c) = page # q"
    by (metis list.collapse)
  have q': "request_queue (service_release (cs_mir c)) = q"
    using request_queue_retire(2) [OF ne] q by simp
  have notin: "page \<notin> set q \<union> set (reader_pages (cs_reader c))"
    using inv(2) q by (auto simp: queue_ok_def)
  show ?thesis
  proof (rule cinvI)
    show "pm_enabled (cs_mir ?c) \<noteq> 0"
      using inv(1) by (simp add: cache_frame)
    show "queue_ok ?c"
      using inv(2) q by (auto simp: queue_ok_def q' unreleased_def)
    show "states_ok ?c"
      using inv(3) notin q by (auto simp: states_ok_def cache_frame q' views w)
    show "gens_ok n ?c"
      using inv(4) by (simp add: gens_ok_def cache_frame)
    show "worker_ok ?c"
      using wo by (auto simp: worker_ok_def cache_frame views w)
    show "data_ok ?c"
      using inv(6) by (auto simp: data_ok_def cache_frame)
  qed
qed

lemma published_not_out:
  assumes "cinv n c" and w: "cs_worker c = WPublish page e"
  shows "page \<notin> set (cs_out c)"
  using cinvD(3) [OF assms(1)] loading_state [OF assms(1), of page e] w
  by (auto simp: states_ok_def views)

lemma cinv_worker_publish:
  assumes "cinv n c" and w: "cs_worker c = WPublish page e" and e: "cs_meta c page = e"
  shows "cinv n (c\<lparr>cs_mir := service_publish page e (cs_mir c), cs_worker := WIdle\<rparr>)"
    (is "cinv _ ?c")
proof -
  note inv = cinvD [OF assms(1)]
  have l: "loading_page (cs_worker c) = Some (page, e)"
    by (simp add: w views)
  note wo = inv(5) [unfolded worker_ok_def, rule_format, OF l]
  have notin: "page \<notin> set (cs_out c)"
    by (rule published_not_out [OF assms(1) w])
  have st: "page_state (e OR 1) = 3" "page_generation (e OR 1) = page_generation e"
    using wo by (simp_all add: page_words)
  show ?thesis
  proof (rule cinvI)
    show "pm_enabled (cs_mir ?c) \<noteq> 0"
      using inv(1) by (simp add: cache_frame)
    show "queue_ok ?c"
      using inv(2) by (auto simp: queue_ok_def cache_frame unreleased_def)
    show "states_ok ?c"
      using inv(3) notin by (auto simp: states_ok_def cache_frame views w st)
    show "gens_ok n ?c"
      using inv(4) e by (auto simp: gens_ok_def cache_frame st)
    show "worker_ok ?c"
      by (simp add: worker_ok_def loading_page_def)
    show "data_ok ?c"
      using inv(6) wo e w by (auto simp: data_ok_def cache_frame copied_def)
  qed
qed

lemma cinv_worker_discard:
  assumes "cinv n c" and w: "cs_worker c = WPublish page e"
  shows "cinv n (c\<lparr>cs_mir := service_discard page (cs_mir c), cs_worker := WIdle\<rparr>)"
    (is "cinv _ ?c")
proof -
  note inv = cinvD [OF assms(1)]
  have l: "loading_page (cs_worker c) = Some (page, e)"
    by (simp add: w views)
  note st = loading_state [OF assms(1) l]
  have m: "pm_page_meta (service_discard page (cs_mir c))
             = (cs_meta c)(page := cs_meta c page AND NOT 3)"
    by (rule discard_meta) (use st in simp)
  have notin: "page \<notin> set (cs_out c)"
    by (rule published_not_out [OF assms(1) w])
  show ?thesis
  proof (rule cinvI)
    show "pm_enabled (cs_mir ?c) \<noteq> 0"
      using inv(1) by (simp add: cache_frame)
    show "queue_ok ?c"
      using inv(2) by (auto simp: queue_ok_def cache_frame unreleased_def)
    show "states_ok ?c"
      using inv(3) notin page_words(1) [of "cs_meta c page"]
      by (auto simp: states_ok_def cache_frame views w m)
    show "gens_ok n ?c"
      using inv(4) page_words(2) [of "cs_meta c page"] by (auto simp: gens_ok_def m)
    show "worker_ok ?c"
      by (simp add: worker_ok_def loading_page_def)
    show "data_ok ?c"
      using inv(6) page_words(1) [of "cs_meta c page"] by (auto simp: data_ok_def cache_frame m)
  qed
qed

lemma cinv_step:
  assumes "cstep k c c'" and "cinv n c" and "n + k < 2 ^ 62"
  shows "cinv (n + k) c'"
  using assms
proof (cases rule: cstep.cases)
  case (worker_skip)
  then show ?thesis
    using idle_front(4) [OF assms(2)] by simp
next
  case (writer_cas page pages)
  then show ?thesis
    using cinv_writer_cas [OF assms(2), of page pages] assms(3) by simp
qed (use assms in \<open>auto intro: cinv_reader_claim cinv_reader_put cinv_writer_write
      cinv_writer_rest cinv_worker_claim cinv_worker_read
      cinv_worker_store cinv_worker_release cinv_worker_publish cinv_worker_discard\<close>)

lemma cinv_reach: "creach n c \<Longrightarrow> n < 2 ^ 62 \<Longrightarrow> cinv n c"
proof (induction rule: creach.induct)
  case (start s m)
  show ?case by (rule cinv_start)
next
  case (step n c k c')
  then show ?case using cinv_step by simp
qed

section \<open>The worker alone runs the service function\<close>

lemma reach_step0: "creach n c \<Longrightarrow> cstep 0 c c' \<Longrightarrow> creach n c'"
  using creach.step [of n c 0 c'] by simp

lemma worker_copies:
  assumes "creach n c" and "cs_worker c = WRead p e (256 - k)" and "k \<le> 256" and "p < 8192"
  shows "\<exists>s. service_copy (direct_read (cs_mem c)) [p * 256 + (256 - k)..<p * 256 + 256] (cs_mir c) = Some s
    \<and> creach n (c\<lparr>cs_mir := s, cs_worker := WRead p e 256\<rparr>)"
  using assms
proof (induction k arbitrary: c)
  case 0
  then show ?case by (cases c) simp
next
  case (Suc k)
  let ?i = "256 - Suc k" and ?a = "p * 256 + (256 - Suc k)"
  let ?v = "cs_mem c ?a"
  let ?c1 = "c\<lparr>cs_worker := WStore p e ?i ?v\<rparr>"
  let ?c2 = "c\<lparr>cs_mir := service_store ?a ?v (cs_mir c), cs_worker := WRead p e (256 - k)\<rparr>"
  have c1: "creach n ?c1"
    by (rule reach_step0 [OF Suc.prems(1)], rule worker_read)
       (use Suc.prems(2,3) in \<open>simp_all\<close>)
  have "cstep 0 ?c1 (?c1\<lparr>cs_mir := service_store ?a ?v (cs_mir ?c1), cs_worker := WRead p e (Suc ?i)\<rparr>)"
    by (rule worker_store) simp
  moreover have "Suc ?i = 256 - k" using Suc.prems(3) by simp
  ultimately have c2: "creach n ?c2"
    using reach_step0 [OF c1] by simp
  have upt: "[?a..<p * 256 + 256] = ?a # [p * 256 + (256 - k)..<p * 256 + 256]"
  proof -
    have "?a < p * 256 + 256" and "Suc ?a = p * 256 + (256 - k)"
      using Suc.prems(3) by simp_all
    then show ?thesis by (simp only: upt_conv_Cons)
  qed
  have a: "unat (word_of_nat ?a :: u32) = ?a"
  proof -
    have "?a < 2 ^ LENGTH(32)"
      using Suc.prems(4) by simp
    then show ?thesis
      by (simp only: unat_of_nat take_bit_nat_eq_self mod_less)
  qed
  have v: "ucast (ucast ?v :: u32) = ?v"
    by (rule bit_word_eqI) (auto simp: bit_simps)
  have rd: "direct_read (cs_mem c) (word_of_nat ?a) t = Some (ucast ?v, t)" for t :: mirror
    by (simp only: direct_read_def a)
  from Suc.IH [of ?c2] c2 Suc.prems(3,4) obtain s
    where s: "service_copy (direct_read (cs_mem c)) [p * 256 + (256 - k)..<p * 256 + 256]
                (service_store ?a ?v (cs_mir c)) = Some s"
      and r: "creach n (c\<lparr>cs_mir := s, cs_worker := WRead p e 256\<rparr>)"
    by auto
  have "service_copy (direct_read (cs_mem c)) [?a..<p * 256 + 256] (cs_mir c) = Some s"
    unfolding upt by (simp only: service_copy.simps rd option.case prod.case v s)
  with r show ?case by blast
qed

lemma worker_runs_service:
  assumes "creach n c" and "n < 2 ^ 62" and "cs_worker c = WIdle"
  shows "\<exists>s. paula_mirror_service (direct_read (cs_mem c)) (cs_mir c) = Some s \<and>
              creach n (c\<lparr>cs_mir := s\<rparr>)"
proof (cases "paula_mirror_service_pending (cs_mir c)")
  case False
  then show ?thesis
    using assms(1) by (simp add: paula_mirror_service_def)
next
  case True
  let ?p = "service_front (cs_mir c)"
  let ?e = "loading_word (cs_meta c ?p)"
  note fr = idle_front [OF cinv_reach [OF assms(1,2)] assms(3) True]
  let ?c1 = "c\<lparr>cs_mir := service_claim ?p (cs_mir c), cs_worker := WRead ?p ?e 0\<rparr>"
  have "creach n ?c1"
    by (rule reach_step0 [OF assms(1)], rule worker_claim) (use assms(3) True fr in simp_all)
  then obtain s where s: "service_copy (direct_read (cs_mem c)) (page_addresses ?p)
      (service_claim ?p (cs_mir c)) = Some s"
    and c2: "creach n (c\<lparr>cs_mir := s, cs_worker := WRead ?p ?e 256\<rparr>)"
    using worker_copies [of n ?c1 ?p ?e 256] fr(3) by (auto simp: page_addresses_def)
  let ?c3 = "c\<lparr>cs_mir := service_release s, cs_worker := WPublish ?p ?e\<rparr>"
  have c3: "creach n ?c3"
    using reach_step0 [OF c2 worker_release [of _ ?p ?e]] by simp
  have idle: "c\<lparr>cs_mir := t, cs_worker := WIdle\<rparr> = c\<lparr>cs_mir := t\<rparr>" for t
    using assms(3) by (cases c) simp
  show ?thesis
  proof (cases "pm_page_meta (service_release s) ?p = ?e")
    case eq: True
    have "creach n (c\<lparr>cs_mir := service_publish ?p ?e (service_release s)\<rparr>)"
      using reach_step0 [OF c3 worker_publish [of _ ?p ?e]] eq idle by simp
    then show ?thesis
      using True fr(4) s eq by (simp add: paula_mirror_service_def Let_def)
  next
    case ne: False
    have "creach n (c\<lparr>cs_mir := service_discard ?p (service_release s)\<rparr>)"
      using reach_step0 [OF c3 worker_discard [of _ ?p ?e]] ne idle by simp
    then show ?thesis
      using True fr(4) s ne by (simp add: paula_mirror_service_def Let_def)
  qed
qed

text \<open>
  The steps of the worker, taken without interruption, compute \<open>paula_mirror_service\<close>:
  from every reachable idle state its result is reachable, with the other agents unchanged.
\<close>

theorem worker_implements_service:
  assumes "creach n c" and "n < 2 ^ 62" and "cs_worker c = WIdle"
  shows "\<exists>s. paula_mirror_service (direct_read (cs_mem c)) (cs_mir c) = Some s \<and>
              creach n (c\<lparr>cs_mir := s\<rparr>)"
  by (rule worker_runs_service [OF assms])

section \<open>Coherence and the bound of the ring\<close>


text \<open>
  C2: in every interleaving the request ring holds each outstanding page once, every page in
  range, and at most as many requests as it has slots; a page claimed by the renderer always
  finds a free slot.
\<close>

theorem request_ring_never_overflows:
  assumes "creach n c" and "n < 2 ^ 62"
  shows "distinct (request_queue (cs_mir c)) \<and> set (request_queue (cs_mir c)) \<subseteq> {..<8192} \<and>
    length (request_queue (cs_mir c)) \<le> 8192 \<and>
    (\<forall>page. cs_reader c = RPut page \<longrightarrow>
       request_queue (request_enqueue page (cs_mir c)) = request_queue (cs_mir c) @ [page])"
proof -
  note inv = cinvD [OF cinv_reach [OF assms]]
  have len: "length (request_queue (cs_mir c)) + length (reader_pages (cs_reader c)) \<le> 8192"
    using out_length [OF inv(2)] by simp
  have "request_queue (request_enqueue page (cs_mir c)) = request_queue (cs_mir c) @ [page]"
    if "cs_reader c = RPut page" for page
    using that len inv(2) by (intro request_queue_enqueue) (auto simp: reader_pages_def queue_ok_def)
  with len inv(2) show ?thesis by (auto simp: queue_ok_def)
qed

section \<open>A reachable state with a cached page\<close>

definition cs_demo :: csys where
  "cs_demo = cs_start mirror_bss word_of_nat
     \<lparr>cs_mir := request_enqueue 1 (request_claim 1 (paula_mirror_enable mirror_bss))\<rparr>"

lemma reach_start: "creach 0 (cs_start mirror_bss word_of_nat)"
  by (rule creach.start)

lemma reach_demo: "creach 0 cs_demo"
proof -
  let ?c0 = "cs_start mirror_bss word_of_nat"
  let ?c1 = "?c0\<lparr>cs_mir := request_claim 1 (cs_mir ?c0), cs_reader := RPut 1\<rparr>"
  have "creach 0 ?c1"
    by (rule reach_step0 [OF reach_start], rule reader_claim)
       (simp_all add: cs_start_def cache_frame page_state_def)
  then have "creach 0 (?c1\<lparr>cs_mir := request_enqueue 1 (cs_mir ?c1), cs_reader := RIdle\<rparr>)"
    by (rule reach_step0, intro reader_put) simp
  then show ?thesis
    by (simp add: cs_demo_def cs_start_def)
qed

lemma demo_views:
  "cs_worker cs_demo = WIdle" "cs_writer cs_demo = NIdle" "cs_mem cs_demo = word_of_nat"
  "request_queue (cs_mir cs_demo) = [1]" "pm_enabled (cs_mir cs_demo) = 1"
  "page_state (cs_meta cs_demo 1) = 1"
  by (simp_all add: cs_demo_def cs_start_def cache_frame request_queue_enqueue page_words
      page_state_def)

theorem request_ring_never_overflows_witness: "length (request_queue (cs_mir cs_demo)) \<le> 8192"
  using request_ring_never_overflows [OF reach_demo] by simp

lemma demo_service:
  "\<exists>s. paula_mirror_service (direct_read word_of_nat) (cs_mir cs_demo) = Some s \<and>
       page_state (pm_page_meta s 1) = 3 \<and> pm_shadow s 0x105 = 5"
proof -
  have pend: "paula_mirror_service_pending (cs_mir cs_demo)"
    by (simp add: pending_queue demo_views)
  have front: "1 = service_front (cs_mir cs_demo)"
    using service_front_hd [of "cs_mir cs_demo"] by (simp add: demo_views)
  obtain s where s: "paula_mirror_service (direct_read word_of_nat) (cs_mir cs_demo) = Some s"
    "pm_page_meta s = (cs_meta cs_demo)(1 := loading_word (cs_meta cs_demo 1) OR 1)"
    "pm_shadow s = (\<lambda>i. if i div 256 = 1 then word_of_nat i else cs_shadow cs_demo i)"
    using service_result [OF direct_read_reads [of word_of_nat] pend front demo_views(6)] by blast
  then show ?thesis
    by (simp add: page_words)
qed

theorem worker_implements_service_witness:
  "\<exists>s. paula_mirror_service (direct_read word_of_nat) (cs_mir cs_demo) = Some s \<and>
       creach 0 (cs_demo\<lparr>cs_mir := s\<rparr>)"
  using worker_implements_service [OF reach_demo] by (simp add: demo_views)


end
