(* ===== verification/Device.thy ===== *)
theory Device
  imports PageCache "HOL-Library.Monad_Syntax"
begin

text \<open>
  Memory-mapped devices and the counters of the core. What the hardware answers is an
  argument of the model: \<open>io_read ws n a\<close> is the word the device register at \<open>a\<close>
  returns to access number \<open>n\<close> after the writes \<open>ws\<close>, \<open>io_clock n\<close> the counter at that access, and \<open>io_held n\<close>
  whether another core holds the shared lock then. A theorem for every such function is a
  theorem for every behaviour of the hardware, whatever it depends on. The state keeps the
  number of accesses and the words written to the devices, newest first.

  A program fragment is a function from a state to an optional result and state; \<open>None\<close>
  is a fragment that does not end.
\<close>

record io_state = mirror +
  io_read :: "(u64 \<times> u32) list \<Rightarrow> nat \<Rightarrow> u64 \<Rightarrow> u32"
  io_clock :: "nat \<Rightarrow> u64"
  io_freq :: u64
  io_held :: "nat \<Rightarrow> bool"
  io_n :: nat
  io_writes :: "(u64 \<times> u32) list"

type_synonym ('a, 's) prog = "'s \<Rightarrow> ('a \<times> 's) option"

definition rd32le :: "u64 \<Rightarrow> (u32, 'a io_state_scheme) prog" where
  "rd32le a s = Some (io_read s (io_writes s) (io_n s) a, s\<lparr>io_n := Suc (io_n s)\<rparr>)"

definition wr32le :: "u64 \<Rightarrow> u32 \<Rightarrow> 'a io_state_scheme \<Rightarrow> 'a io_state_scheme" where
  "wr32le a v s = s\<lparr>io_writes := (a, v) # io_writes s, io_n := Suc (io_n s)\<rparr>"

definition read_cntvct :: "(u64, 'a io_state_scheme) prog" where
  "read_cntvct s = Some (io_clock s (io_n s), s\<lparr>io_n := Suc (io_n s)\<rparr>)"

definition read_cntfrq :: "'a io_state_scheme \<Rightarrow> u64" where
  "read_cntfrq s = io_freq s"

section \<open>Waiting for the counter\<close>

text \<open>The loop of every busy delay: read the counter until \<open>ticks\<close> have passed.\<close>

partial_function (option) spin_until :: "u64 \<Rightarrow> u64 \<Rightarrow> 'a io_state_scheme \<Rightarrow> 'a io_state_scheme option" where
  "spin_until start ticks s =
     (case read_cntvct s of None \<Rightarrow> None
      | Some (now, s1) \<Rightarrow> if now - start < ticks then spin_until start ticks s1 else Some s1)"

text \<open>
  The counter keeps counting: from any access on, it comes to a value at least \<open>ticks\<close>
  after any start value, and stays there for the next accesses: it is read often enough, and
  runs slowly enough against the accesses, that half of its range is not skipped.
\<close>

definition clock_advances :: "'a io_state_scheme \<Rightarrow> bool" where
  "clock_advances s \<longleftrightarrow> (\<forall>n start ticks. ticks < 2 ^ 63 \<longrightarrow> (\<exists>k. \<forall>j<4. io_clock s (n + k + j) - start \<ge> ticks))"

text \<open>The state after \<open>k\<close> further accesses that wrote nothing.\<close>

abbreviation skip_io :: "nat \<Rightarrow> 'a io_state_scheme \<Rightarrow> 'a io_state_scheme" where
  "skip_io k s \<equiv> s\<lparr>io_n := io_n s + k\<rparr>"

lemma spin_until_steps:
  assumes "io_clock s (io_n s + k) - start \<ge> ticks"
  shows "\<exists>j. spin_until start ticks s = Some (skip_io j s)"
  using assms
proof (induction k arbitrary: s)
  case 0
  then have "spin_until start ticks s = Some (skip_io 1 s)"
    by (subst spin_until.simps) (simp add: read_cntvct_def not_less [symmetric])
  then show ?case by blast
next
  case (Suc k)
  show ?case
  proof (cases "io_clock s (io_n s) - start < ticks")
    case True
    have eq: "spin_until start ticks s = spin_until start ticks (skip_io 1 s)"
      using True by (subst spin_until.simps) (simp add: read_cntvct_def)
    obtain j where "spin_until start ticks (skip_io 1 s) = Some (skip_io j (skip_io 1 s))"
      using Suc.IH [of "skip_io 1 s"] Suc.prems by auto
    then have "spin_until start ticks s = Some (skip_io (Suc j) s)"
      by (simp add: eq)
    then show ?thesis by blast
  next
    case False
    then have "spin_until start ticks s = Some (skip_io 1 s)"
      by (subst spin_until.simps) (simp add: read_cntvct_def)
    then show ?thesis by blast
  qed
qed

lemma spin_until_ends:
  "clock_advances s \<Longrightarrow> ticks < 2 ^ 63 \<Longrightarrow> \<exists>j. spin_until start ticks s = Some (skip_io j s)"
  unfolding clock_advances_def using spin_until_steps [of ticks s _ start]
  by (metis Nat.add_0_right zero_less_numeral)

lemma clock_advances_frame [frame]:
  "clock_advances (s\<lparr>io_n := n\<rparr>) = clock_advances s"
  "clock_advances (s\<lparr>io_writes := w\<rparr>) = clock_advances s"
  by (simp_all add: clock_advances_def)

lemma counting_clock_advances:
  assumes "io_clock s = word_of_nat"
  shows "clock_advances s"
  unfolding clock_advances_def
proof (intro allI impI)
  fix n and start ticks :: u64
  assume t: "ticks < 2 ^ 63"
  let ?k = "unat (ticks + start - word_of_nat n)"
  have "io_clock s (n + ?k + j) - start = ticks + word_of_nat j" for j
    by (simp add: assms)
  moreover have "ticks \<le> ticks + word_of_nat j" if "j < 4" for j
  proof -
    have u: "unat (word_of_nat j :: u64) = j"
      using that by (simp add: unat_of_nat)
    have "unat ticks < 2 ^ 63"
      using t by (simp add: word_less_nat_alt)
    then have "unat (ticks + word_of_nat j) = unat ticks + j"
      using unat_add_small [of ticks "word_of_nat j"] u that by simp
    then show ?thesis by (simp add: word_le_nat_alt)
  qed
  ultimately show "\<exists>k. \<forall>j<4. io_clock s (n + k + j) - start \<ge> ticks"
    by (intro exI [of _ ?k]) simp
qed

end
