(* ===== verification/Mailbox.thy ===== *)
theory Mailbox
  imports Device
begin

text \<open>
  The diagnostic mailbox of \<open>source/src/raspi/hdmi_audio_poc.c\<close>: CPU1 formats a line into
  a 96-byte buffer and stores it under a lock it never waits for longer than 10 ms; the log
  keeps the last twelve lines, a live line replaces the status. The formatter of the firmware
  is not part of the repository: \<open>vk format args\<close> is the byte sequence it hands to the
  callback.
\<close>

abbreviation (input) POC_LINES :: nat where "POC_LINES \<equiv> 12"
abbreviation (input) POC_LINE_LENGTH :: nat where "POC_LINE_LENGTH \<equiv> 96"

type_synonym c_line = "nat \<Rightarrow> u8"
type_synonym formatter = "string \<Rightarrow> u32 list \<Rightarrow> u8 list"

record diag_state = io_state +
  dg_count :: nat
  dg_lines :: "nat \<Rightarrow> c_line"
  dg_status :: c_line

section \<open>Formatting and storing\<close>

fun poc_format_char :: "u8 \<Rightarrow> c_line \<times> nat \<Rightarrow> c_line \<times> nat" where
  "poc_format_char c (p, len) =
     (if len + 1 < POC_LINE_LENGTH then (p(len := c), len + 1) else (p, len))"

definition poc_text :: "u8 list \<Rightarrow> c_line \<times> nat" where
  "poc_text bs = (let (p, len) = fold poc_format_char bs ((\<lambda>_. 0), 0) in (p(len := 0), len))"

definition poc_copy :: "c_line \<Rightarrow> c_line \<Rightarrow> nat \<Rightarrow> c_line" where
  "poc_copy destination source len = (\<lambda>i. if i < len then source i else destination i)"

definition poc_shift :: "(nat \<Rightarrow> c_line) \<Rightarrow> nat \<Rightarrow> c_line" where
  "poc_shift ls = fold (\<lambda>i l. l(i - 1 := poc_copy (l (i - 1)) (l i) POC_LINE_LENGTH)) [1..<POC_LINES] ls"

definition poc_store :: "bool \<Rightarrow> u8 list \<Rightarrow> 'a diag_state_scheme \<Rightarrow> 'a diag_state_scheme" where
  "poc_store live bs s =
     (let (text, len) = poc_text bs in
      if live then s\<lparr>dg_status := poc_copy (dg_status s) text (len + 1)\<rparr>
      else if dg_count s < POC_LINES
      then let n = dg_count s
           in s\<lparr>dg_count := n + 1,
                dg_lines := (dg_lines s)(n := poc_copy (dg_lines s n) text (len + 1))\<rparr>
      else let ls = poc_shift (dg_lines s); n = POC_LINES - 1
           in s\<lparr>dg_lines := ls(n := poc_copy (ls n) text (len + 1))\<rparr>)"

section \<open>The lock\<close>

definition poc_try_lock :: "(bool, 'a io_state_scheme) prog" where
  "poc_try_lock s = Some (\<not> io_held s (io_n s), s\<lparr>io_n := Suc (io_n s)\<rparr>)"

text \<open>\<open>True\<close>: the lock was taken; \<open>False\<close>: it was held for \<open>timeout\<close> ticks.\<close>

partial_function (option) poc_lock_wait ::
    "u64 \<Rightarrow> u64 \<Rightarrow> 'a io_state_scheme \<Rightarrow> (bool \<times> 'a io_state_scheme) option" where
  "poc_lock_wait started timeout s =
     (case poc_try_lock s of None \<Rightarrow> None
      | Some (taken, s1) \<Rightarrow>
          if taken then Some (True, s1)
          else (case read_cntvct s1 of None \<Rightarrow> None
                | Some (now, s2) \<Rightarrow>
                    if now - started \<ge> timeout then Some (False, s2)
                    else poc_lock_wait started timeout s2))"

definition poc_message ::
    "formatter \<Rightarrow> bool \<Rightarrow> string \<Rightarrow> u32 list \<Rightarrow> 'a diag_state_scheme \<Rightarrow> 'a diag_state_scheme option" where
  "poc_message vk live fmt args s =
     do {
       (started, s1) \<leftarrow> read_cntvct s;
       let timeout = read_cntfrq s1 div 100;
       (taken, s2) \<leftarrow> poc_lock_wait started timeout s1;
       Some (if taken then poc_store live (vk fmt args) s2 else s2)
     }"

definition poc_snapshot ::
    "(((nat \<Rightarrow> c_line) \<times> c_line \<times> nat) option, 'a diag_state_scheme) prog" where
  "poc_snapshot s =
     do {
       (taken, s1) \<leftarrow> poc_try_lock s;
       Some (if taken then Some (dg_lines s1, dg_status s1, dg_count s1) else None, s1)
     }"

section \<open>What the log holds\<close>

definition cstring :: "c_line \<Rightarrow> u8 list" where
  "cstring p = takeWhile (\<lambda>c. c \<noteq> 0) (map p [0..<POC_LINE_LENGTH])"

definition log_contents :: "'a diag_state_scheme \<Rightarrow> u8 list list" where
  "log_contents s = map (\<lambda>i. cstring (dg_lines s i)) [0..<dg_count s]"

text \<open>The text a C reader sees of a formatted message: 95 bytes at most, up to a NUL.\<close>

definition clip :: "u8 list \<Rightarrow> u8 list" where
  "clip bs = takeWhile (\<lambda>c. c \<noteq> 0) (take 95 bs)"

definition last_lines :: "'a list \<Rightarrow> 'a list" where
  "last_lines q = drop (length q - POC_LINES) q"

lemma format_fold:
  assumes "len \<le> 95"
  shows "fold poc_format_char bs (p, len) =
     ((\<lambda>i. if len \<le> i \<and> i < len + length (take (95 - len) bs) then bs ! (i - len) else p i),
      len + length (take (95 - len) bs))"
  using assms
proof (induction bs arbitrary: p len)
  case Nil
  then show ?case by (auto simp: fun_eq_iff)
next
  case (Cons b bs)
  show ?case
  proof (cases "len < 95")
    case True
    then have "fold poc_format_char (b # bs) (p, len) = fold poc_format_char bs (p(len := b), len + 1)"
      by simp
    also have "\<dots> = ((\<lambda>i. if len + 1 \<le> i \<and> i < len + 1 + length (take (95 - (len + 1)) bs)
         then bs ! (i - (len + 1)) else (p(len := b)) i), len + 1 + length (take (95 - (len + 1)) bs))"
      using True by (intro Cons.IH) simp
    also have "\<dots> = ((\<lambda>i. if len \<le> i \<and> i < len + length (take (95 - len) (b # bs)) then (b # bs) ! (i - len) else p i),
      len + length (take (95 - len) (b # bs)))"
      using True by (auto simp: fun_eq_iff nth_Cons' min_def)
    finally show ?thesis .
  next
    case False
    then have "len = 95" using Cons.prems by simp
    then show ?thesis
      using Cons.IH [of 95 p] by (auto simp: fun_eq_iff)
  qed
qed

lemma poc_text_result:
  "poc_text bs = ((\<lambda>i. if i < length (take 95 bs) then bs ! i else 0), length (take 95 bs))"
  by (auto simp: poc_text_def format_fold fun_eq_iff)

lemma cstring_copy_text:
  "cstring (poc_copy old (fst (poc_text bs)) (snd (poc_text bs) + 1)) = clip bs"
proof -
  let ?n = "length (take 95 bs)"
  let ?p = "poc_copy old (fst (poc_text bs)) (snd (poc_text bs) + 1)"
  have n: "?n < 96" by simp
  have "[0..<96] = [0..<?n] @ ?n # [Suc ?n..<96]"
    using upt_add_eq_append [of 0 ?n "96 - ?n"] upt_conv_Cons [OF n] n by simp
  then have "map ?p [0..<96] = map ?p [0..<?n] @ ?p ?n # map ?p [Suc ?n..<96]"
    by simp
  moreover have "map ?p [0..<?n] = take 95 bs"
    by (rule nth_equalityI) (auto simp: poc_copy_def poc_text_result)
  moreover have "?p ?n = 0"
    by (simp add: poc_copy_def poc_text_result min_def)
  ultimately show ?thesis
    by (simp add: cstring_def clip_def takeWhile_tail)
qed

lemma poc_shift_upto:
  assumes "1 \<le> n" and "j < 96"
  shows "fold (\<lambda>i l. l(i - 1 := poc_copy (l (i - 1)) (l i) POC_LINE_LENGTH)) [1..<n] ls i j
           = (if i + 1 < n then ls (i + 1) j else ls i j)"
  using assms(1)
proof (induction n arbitrary: i rule: nat_induct_at_least)
  case base
  then show ?case by simp
next
  case (Suc n)
  have "[1..<Suc n] = [1..<n] @ [n]"
    using Suc.hyps by simp
  then show ?case
    using Suc.hyps assms(2) Suc.IH by (auto simp: poc_copy_def)
qed

lemma poc_shift_lines:
  assumes "i < 11"
  shows "cstring (poc_shift ls i) = cstring (ls (Suc i))"
proof -
  have "poc_shift ls i j = ls (Suc i) j" if "j < 96" for j
    using poc_shift_upto [of 12 j ls i] that assms by (simp add: poc_shift_def)
  then have "map (poc_shift ls i) [0..<96] = map (ls (Suc i)) [0..<96]"
    by (intro map_cong) auto
  then show ?thesis by (simp only: cstring_def)
qed

lemma log_store:
  assumes "dg_count s \<le> 12"
  shows "log_contents (poc_store False bs s) = last_lines (log_contents s @ [clip bs])"
    and "dg_count (poc_store False bs s) \<le> 12"
proof -
  obtain buf len where t: "poc_text bs = (buf, len)"
    by (cases "poc_text bs")
  have c: "cstring (poc_copy old buf (Suc len)) = clip bs" for old
    using cstring_copy_text [of old bs] t by simp
  show "log_contents (poc_store False bs s) = last_lines (log_contents s @ [clip bs])"
  proof (cases "dg_count s < 12")
    case True
    then show ?thesis
      by (simp add: log_contents_def last_lines_def poc_store_def t c Let_def)
  next
    case False
    then have n: "dg_count s = 12" using assms by simp
    show ?thesis
    proof (rule nth_equalityI)
      show "length (log_contents (poc_store False bs s)) = length (last_lines (log_contents s @ [clip bs]))"
        by (simp add: log_contents_def last_lines_def poc_store_def t n Let_def)
      fix i assume "i < length (log_contents (poc_store False bs s))"
      then have "i < 11 \<or> i = 11"
        by (auto simp: log_contents_def poc_store_def t n Let_def)
      then show "log_contents (poc_store False bs s) ! i = last_lines (log_contents s @ [clip bs]) ! i"
        by (auto simp: log_contents_def last_lines_def poc_store_def t n c Let_def nth_append
            poc_shift_lines simp del: upt_Suc upt_rec_numeral)
    qed
  qed
  show "dg_count (poc_store False bs s) \<le> 12"
    using assms by (simp add: poc_store_def t Let_def)
qed

section \<open>Logging never blocks\<close>

lemma poc_lock_wait_steps:
  assumes "\<forall>j<2. io_clock s (io_n s + k + j) - started \<ge> timeout"
  shows "\<exists>b j. poc_lock_wait started timeout s = Some (b, skip_io j s)"
  using assms
proof (induction k arbitrary: s rule: less_induct)
  case (less k)
  show ?case
  proof (cases "io_held s (io_n s)")
    case False
    then have "poc_lock_wait started timeout s = Some (True, skip_io 1 s)"
      by (subst poc_lock_wait.simps) (simp add: poc_try_lock_def)
    then show ?thesis by blast
  next
    case held: True
    show ?thesis
    proof (cases "io_clock s (Suc (io_n s)) - started \<ge> timeout")
      case True
      then have "poc_lock_wait started timeout s = Some (False, skip_io 2 s)"
        using held by (subst poc_lock_wait.simps) (simp add: poc_try_lock_def read_cntvct_def)
      then show ?thesis by blast
    next
      case False
      then have eq: "poc_lock_wait started timeout s = poc_lock_wait started timeout (skip_io 2 s)"
        using held by (subst poc_lock_wait.simps) (simp add: poc_try_lock_def read_cntvct_def)
      have "2 \<le> k"
      proof (rule ccontr)
        assume "\<not> 2 \<le> k"
        then have "k = 0 \<or> k = 1" by auto
        then have "io_clock s (Suc (io_n s)) - started \<ge> timeout"
          using less.prems [rule_format, of "1 - k"] by auto
        with False show False by contradiction
      qed
      then obtain k' where k: "k = Suc (Suc k')"
        by (metis add_2_eq_Suc le_Suc_ex)
      then have "\<forall>j<2. io_clock (skip_io 2 s) (io_n (skip_io 2 s) + k' + j) - started \<ge> timeout"
        using less.prems by simp
      from less.IH [of k' "skip_io 2 s", OF _ this] k
      obtain b j where "poc_lock_wait started timeout (skip_io 2 s) = Some (b, skip_io j (skip_io 2 s))"
        by auto
      then have "poc_lock_wait started timeout s = Some (b, skip_io (j + 2) s)"
        by (simp add: eq)
      then show ?thesis by blast
    qed
  qed
qed

lemma poc_lock_wait_ends:
  assumes "clock_advances s" and "timeout < 2 ^ 63"
  shows "\<exists>b j. poc_lock_wait started timeout s = Some (b, skip_io j s)"
proof -
  obtain k where "\<forall>j<4. io_clock s (io_n s + k + j) - started \<ge> timeout"
    using assms unfolding clock_advances_def by blast
  then show ?thesis
    by (intro poc_lock_wait_steps [where k = k]) auto
qed

lemma poc_lock_wait_free:
  "\<not> io_held s (io_n s) \<Longrightarrow> poc_lock_wait started timeout s = Some (True, skip_io 1 s)"
  by (subst poc_lock_wait.simps) (simp add: poc_try_lock_def)

lemma log_frame [frame]:
  "log_contents (s\<lparr>io_n := n\<rparr>) = log_contents s"
  "log_contents (poc_store True bs s) = log_contents s"
  "dg_count (poc_store True bs s) = dg_count s"
  "poc_store live bs s = t \<Longrightarrow> io_clock t = io_clock s \<and> io_writes t = io_writes s"
  by (auto simp: log_contents_def poc_store_def poc_text_result Let_def)

lemma small_timeout: "(f :: u64) div 100 < 2 ^ 63"
proof -
  have "unat f div 100 < 2 ^ 63"
    using unat_less_pow [of f] by simp
  then show ?thesis
    by (simp add: word_less_nat_alt unat_div)
qed

text \<open>
  A diagnostic message always returns, whoever holds the lock, and either is dropped with
  the log unchanged or becomes the newest of the last twelve lines, cut to 95 bytes and
  terminated; it is never dropped when the lock is free. A live message never touches the log.
\<close>

theorem poc_message_log:
  assumes "clock_advances s" and "dg_count s \<le> 12"
  shows "\<exists>s'. poc_message vk live fmt args s = Some s' \<and> dg_count s' \<le> 12 \<and>
     log_contents s' \<in> (if live then {log_contents s}
        else {log_contents s, last_lines (log_contents s @ [clip (vk fmt args)])}) \<and>
     (\<not> io_held s (Suc (io_n s)) \<longrightarrow>
        (if live then cstring (dg_status s') = clip (vk fmt args)
         else log_contents s' = last_lines (log_contents s @ [clip (vk fmt args)])))"
proof -
  let ?s1 = "skip_io 1 s" and ?started = "io_clock s (io_n s)" and ?timeout = "io_freq s div 100"
  have adv: "clock_advances ?s1"
    using assms(1) by (simp add: frame)
  obtain b j where w: "poc_lock_wait ?started ?timeout ?s1 = Some (b, skip_io j ?s1)"
    using poc_lock_wait_ends [OF adv small_timeout] by blast
  have free: "b" if "\<not> io_held s (Suc (io_n s))"
    using poc_lock_wait_free [of ?s1 ?started ?timeout] that w by simp
  let ?s2 = "skip_io j ?s1"
  let ?s' = "if b then poc_store live (vk fmt args) ?s2 else ?s2"
  have m: "poc_message vk live fmt args s = Some ?s'"
    using w by (simp add: poc_message_def read_cntvct_def read_cntfrq_def)
  have st: "cstring (dg_status (poc_store True bs t)) = clip bs" for bs and t :: "'a diag_state_scheme"
    using cstring_copy_text [of "dg_status t" bs]
    by (simp add: poc_store_def split_beta)
  have "dg_count ?s2 \<le> 12"
    using assms(2) by simp
  note store = log_store [OF this, of "vk fmt args"]
  show ?thesis
    using m free assms(2) store st [of "vk fmt args" ?s2]
    by (intro exI [of _ ?s']) (auto simp: frame)
qed

definition diag_demo :: diag_state where
  "diag_demo = mirror.extend mirror_bss
     \<lparr>io_read = (\<lambda>_ _ _. 0), io_clock = word_of_nat, io_freq = 19200000, io_held = (\<lambda>_. False),
      io_n = 0, io_writes = [], dg_count = 0, dg_lines = (\<lambda>_ _. 0), dg_status = (\<lambda>_. 0)\<rparr>"

lemma diag_demo_fields:
  "io_clock diag_demo = word_of_nat" "dg_count diag_demo = 0" "io_n diag_demo = 0"
  "\<not> io_held diag_demo n" "log_contents diag_demo = []"
  by (simp_all add: diag_demo_def mirror.defs io_state.defs diag_state.defs log_contents_def)

theorem poc_message_log_witness:
  "\<exists>s'. poc_message (\<lambda>f a. [72, 73]) False ''HI'' [] diag_demo = Some s' \<and> log_contents s' = [[72, 73]]"
  using poc_message_log [OF counting_clock_advances, of diag_demo "\<lambda>f a. [72, 73]" False "''HI''" "[]"]
  by (auto simp: diag_demo_fields last_lines_def clip_def)

end
