(* ===== verification/HdmiClock.thy ===== *)
theory HdmiClock
  imports Mailbox
begin

text \<open>
  Clock rates and sample words of \<open>source/src/raspi/hdmi_audio_poc.c\<close>: the HSM and pixel
  clock read back from the dividers the firmware programmed, the N/M ratio of the audio
  clock, and the IEC 60958 subframes written to the audio FIFO.
\<close>

section \<open>Register addresses\<close>

abbreviation (input) ARM_HDMI_BASE :: u64 where "ARM_HDMI_BASE \<equiv> 0xf2902000"
abbreviation (input) ARM_HD_BASE :: u64 where "ARM_HD_BASE \<equiv> 0xf2808000"
abbreviation (input) ARM_CM_BASE :: u64 where "ARM_CM_BASE \<equiv> 0xf2101000"

definition HDMI_AUDIO_PACKET_CFG :: u64 where "HDMI_AUDIO_PACKET_CFG = ARM_HDMI_BASE + 0x09c"
definition HDMI_MAI_CHANNEL_MAP :: u64 where "HDMI_MAI_CHANNEL_MAP = ARM_HDMI_BASE + 0x090"
definition HDMI_MAI_CONFIG :: u64 where "HDMI_MAI_CONFIG = ARM_HDMI_BASE + 0x094"
definition HDMI_CRP_CFG :: u64 where "HDMI_CRP_CFG = ARM_HDMI_BASE + 0x0a8"
definition HDMI_CTS_0 :: u64 where "HDMI_CTS_0 = ARM_HDMI_BASE + 0x0ac"
definition HDMI_CTS_1 :: u64 where "HDMI_CTS_1 = ARM_HDMI_BASE + 0x0b0"
definition HDMI_RAM_PACKET_CFG :: u64 where "HDMI_RAM_PACKET_CFG = ARM_HDMI_BASE + 0x0a0"
definition HDMI_RAM_PACKET_STATUS :: u64 where "HDMI_RAM_PACKET_STATUS = ARM_HDMI_BASE + 0x0a4"
definition HDMI_RAM_AUDIO_0 :: u64 where "HDMI_RAM_AUDIO_0 = ARM_HDMI_BASE + 0x490"
definition HDMI_RAM_AUDIO_1 :: u64 where "HDMI_RAM_AUDIO_1 = ARM_HDMI_BASE + 0x494"
definition HDMI_RAM_AUDIO_2 :: u64 where "HDMI_RAM_AUDIO_2 = ARM_HDMI_BASE + 0x498"
definition HDMI_RAM_AUDIO_8 :: u64 where "HDMI_RAM_AUDIO_8 = ARM_HDMI_BASE + 0x4b0"
definition HDMI_TX_PHY_CTL_0 :: u64 where "HDMI_TX_PHY_CTL_0 = ARM_HDMI_BASE + 0x2c4"
definition HD_MAI_CTL :: u64 where "HD_MAI_CTL = ARM_HD_BASE + 0x014"
definition HD_MAI_THR :: u64 where "HD_MAI_THR = ARM_HD_BASE + 0x018"
definition HD_MAI_FMT :: u64 where "HD_MAI_FMT = ARM_HD_BASE + 0x01c"
definition HD_MAI_DATA :: u64 where "HD_MAI_DATA = ARM_HD_BASE + 0x020"
definition HD_MAI_SMP :: u64 where "HD_MAI_SMP = ARM_HD_BASE + 0x02c"
definition CM_HSMCTL :: u64 where "CM_HSMCTL = ARM_CM_BASE + 0x088"
definition CM_HSMDIV :: u64 where "CM_HSMDIV = ARM_CM_BASE + 0x08c"
definition A2W_PLLH_CTRLR :: u64 where "A2W_PLLH_CTRLR = ARM_CM_BASE + 0x1960"
definition A2W_PLLH_FRACR :: u64 where "A2W_PLLH_FRACR = ARM_CM_BASE + 0x1a60"
definition A2W_PLLH_ANA0 :: u64 where "A2W_PLLH_ANA0 = ARM_CM_BASE + 0x1070"

lemmas register_addresses =
  HDMI_AUDIO_PACKET_CFG_def HDMI_MAI_CHANNEL_MAP_def HDMI_MAI_CONFIG_def HDMI_CRP_CFG_def
  HDMI_CTS_0_def HDMI_CTS_1_def HDMI_RAM_PACKET_CFG_def HDMI_RAM_PACKET_STATUS_def
  HDMI_RAM_AUDIO_0_def HDMI_RAM_AUDIO_1_def HDMI_RAM_AUDIO_2_def HDMI_RAM_AUDIO_8_def
  HDMI_TX_PHY_CTL_0_def HD_MAI_CTL_def HD_MAI_THR_def HD_MAI_FMT_def HD_MAI_DATA_def HD_MAI_SMP_def
  CM_HSMCTL_def CM_HSMDIV_def A2W_PLLH_CTRLR_def A2W_PLLH_FRACR_def A2W_PLLH_ANA0_def

section \<open>Clock rates\<close>

definition get_hsm_clock_rate :: "(u32, 'a io_state_scheme) prog" where
  "get_hsm_clock_rate s =
     do {
       (ctl, s) \<leftarrow> rd32le CM_HSMCTL s;
       let src = ctl AND 0x0f;
       if src \<noteq> 1 \<and> src \<noteq> 6 then Some (0, s)
       else do {
         let parent_rate = (if src = 1 then 19200000 else 500000000 :: u64);
         (d, s) \<leftarrow> rd32le CM_HSMDIV s;
         let d = drop_bit 4 d AND 0x0fff;
         Some (if d = 0 then 0 else ucast (push_bit 8 parent_rate div ucast d), s)
       }
     }"

text \<open>The rate the dividers give, and \<open>None\<close> where the code refuses.\<close>

definition pixel_rate_of :: "u32 \<Rightarrow> u32 \<Rightarrow> u32 \<Rightarrow> (string \<times> u32 list) + u32" where
  "pixel_rate_of ctrl frac ana =
     (let ndiv = ctrl AND 0x3ff;
          pdiv = drop_bit 12 (ctrl AND 0x7000);
          fdiv = ucast frac :: u64;
          doubled = ana AND push_bit 11 1 \<noteq> 0;
          ndiv = (if doubled then ndiv * 2 else ndiv);
          fdiv = (if doubled then fdiv * 2 else fdiv)
      in if pdiv = 0 \<or> ndiv = 0 then Inl (''FAIL: invalid PLLH divider'', [])
         else
           let fixed = push_bit 20 (ucast ndiv) + fdiv;
               rate = 19200000 * fixed;
               rate = rate div ucast pdiv;
               rate = drop_bit 20 rate;
               rate = rate div 10
           in if rate = 0 \<or> rate > 162000000
              then Inl (''FAIL: PLLH pixel rate out of range: %u'', [ucast rate])
              else Inr (ucast rate))"

definition get_pixel_clock_rate :: "formatter \<Rightarrow> (u32, 'a diag_state_scheme) prog" where
  "get_pixel_clock_rate vk s =
     do {
       (ctrl, s) \<leftarrow> rd32le A2W_PLLH_CTRLR s;
       (frac0, s) \<leftarrow> rd32le A2W_PLLH_FRACR s;
       let frac = frac0 AND (push_bit 20 1 - 1);
       (ana, s) \<leftarrow> rd32le (A2W_PLLH_ANA0 + 4) s;
       s \<leftarrow> poc_message vk False ''PLLH ctrl=%08x frac=%05x'' [ctrl, frac] s;
       s \<leftarrow> poc_message vk False ''PLLH ANA1=%08x NDIV=%u PDIV=%u''
              [ana, ctrl AND 0x3ff, drop_bit 12 (ctrl AND 0x7000)] s;
       case pixel_rate_of ctrl frac ana of
         Inl (fmt, args) \<Rightarrow> do { s \<leftarrow> poc_message vk False fmt args s; Some (0, s) }
       | Inr rate \<Rightarrow> Some (rate, s)
     }"

section \<open>The audio clock ratio\<close>

fun mai_search :: "u32 \<Rightarrow> u32 \<Rightarrow> u32 list \<Rightarrow> u64 \<times> u32 \<times> u32 \<Rightarrow> u32 \<times> u32" where
  "mai_search clock_rate sample_rate [] (best_error, chosen_n, chosen_m) = (chosen_n, chosen_m)"
| "mai_search clock_rate sample_rate (m # ms) (best_error, chosen_n, chosen_m) =
     (let n64 = (ucast clock_rate * ucast m + ucast (sample_rate div 2)) div ucast sample_rate
      in if n64 = 0 \<or> n64 > 0x00ffffff
         then mai_search clock_rate sample_rate ms (best_error, chosen_n, chosen_m)
         else
           let lhs = n64 * ucast sample_rate;
               rhs = ucast clock_rate * ucast m;
               err = (if lhs > rhs then lhs - rhs else rhs - lhs)
           in if chosen_m = 0 \<or> err * ucast chosen_m < best_error * ucast m
              then if err = 0 then (ucast n64, m)
                   else mai_search clock_rate sample_rate ms (err, ucast n64, m)
              else mai_search clock_rate sample_rate ms (best_error, chosen_n, chosen_m))"

definition choose_mai_ratio :: "u32 \<Rightarrow> u32 \<Rightarrow> (u32 \<times> u32) option" where
  "choose_mai_ratio clock_rate sample_rate =
     (let (n, m) = mai_search clock_rate sample_rate (map word_of_nat [1..<257]) (-1, 0, 0)
      in if m = 0 then None else Some (n, m))"

section \<open>IEC 60958 subframes\<close>

definition parity32 :: "u32 \<Rightarrow> bool" where
  "parity32 x \<longleftrightarrow> odd (length (filter (bit x) [0..<32]))"

definition iec958_status :: "nat \<Rightarrow> u8" where
  "iec958_status i = (if i = 0 then 0x04 else if i = 3 then 0x02 else if i = 4 then 0xdb else 0)"

definition iec958_word :: "u32 \<Rightarrow> nat \<Rightarrow> u32" where
  "iec958_word sample frame =
     (let word = push_bit 4 (sample AND 0x00ffffff);
          word = (if frame < 40 \<and> iec958_status (frame div 8) AND push_bit (frame mod 8) 1 \<noteq> 0
                  then word OR 0x40000000 else word);
          word = (if parity32 word then word OR 0x80000000 else word)
      in if frame = 0 then word OR 0x0f else word)"

section \<open>The pixel clock\<close>

lemma pdiv_value: "unat (drop_bit 12 (ctrl AND 0x7000 :: u32)) = unat ctrl div 4096 mod 8"
proof -
  have "drop_bit 12 (ctrl AND 0x7000) = drop_bit 12 ctrl AND 7"
    by (rule bit_word_eqI) (auto simp: bit_simps bits bit_int_field [of "0x7000" 3 12])
  then have "unat (drop_bit 12 (ctrl AND 0x7000)) = unat (drop_bit 12 ctrl) mod 8"
    by (simp only: unat_and_masks)
  then show ?thesis
    unfolding unat_drop_bit_eq by (simp add: drop_bit_eq_div)
qed

lemma unat_push_20: "unat (push_bit 20 (w :: u64)) = unat w * 2 ^ 20" if "unat w < 2 ^ 44"
proof -
  have "push_bit 20 w = w * 2 ^ 20" by (simp add: push_bit_eq_mult)
  then show ?thesis using that unat_mult_small [of w "2 ^ 20"] by simp
qed

text \<open>
  The pixel clock rate is the exact quotient of the PLL dividers. No intermediate product
  overflows 64 bits, a zero divider is refused, and only rates from 1 Hz to 162 MHz are
  reported, the doubled feedback divider included.
\<close>

theorem pixel_rate_exact:
  assumes "frac < 0x100000"
  shows "let k = (if ana AND 0x800 \<noteq> 0 then 2 else 1);
             ndiv = k * (unat ctrl mod 1024); pdiv = unat ctrl div 4096 mod 8;
             rate = 19200000 * (ndiv * 2 ^ 20 + k * unat frac) div pdiv div 2 ^ 20 div 10
         in case pixel_rate_of ctrl frac ana of
              Inr r \<Rightarrow> pdiv \<noteq> 0 \<and> ndiv \<noteq> 0 \<and> unat r = rate \<and> 0 < rate \<and> rate \<le> 162000000
            | Inl _ \<Rightarrow> \<not> (pdiv \<noteq> 0 \<and> ndiv \<noteq> 0 \<and> 0 < rate \<and> rate \<le> 162000000)"
proof -
  define k :: nat where "k = (if ana AND 0x800 \<noteq> 0 then 2 else 1)"
  define nd where "nd = (if ana AND 0x800 \<noteq> 0 then (ctrl AND 0x3ff) * 2 else ctrl AND 0x3ff)"
  define fd :: u64 where "fd = (if ana AND 0x800 \<noteq> 0 then ucast frac * 2 else ucast frac)"
  define pd where "pd = drop_bit 12 (ctrl AND 0x7000)"
  have m: "unat (ctrl AND 0x3ff) = unat ctrl mod 1024"
    by (rule unat_and_mask_eq [where k = 10]) (simp_all add: mask_eq_exp_minus_1)
  have fr: "unat frac < 2 ^ 20"
    using assms by (simp add: word_less_nat_alt)
  have nd: "unat nd = k * (unat ctrl mod 1024)"
    using unat_mult_small [of "ctrl AND 0x3ff" 2] m by (auto simp: nd_def k_def)
  have fd: "unat fd = k * unat frac"
    using unat_mult_small [of "ucast frac :: u64" 2] fr by (auto simp: fd_def k_def)
  have pd: "unat pd = unat ctrl div 4096 mod 8"
    by (simp only: pd_def pdiv_value)
  have k: "k = 1 \<or> k = 2" by (simp add: k_def)
  have nd_lt: "unat nd < 2048"
    using nd k by auto
  let ?fixed = "push_bit 20 (ucast nd) + fd"
  have p20: "unat (push_bit 20 (ucast nd) :: u64) = unat nd * 2 ^ 20"
    using unat_push_20 [of "ucast nd"] nd_lt by simp
  have fixed: "unat ?fixed = unat nd * 2 ^ 20 + k * unat frac"
    using unat_add_small [of "push_bit 20 (ucast nd)" fd] p20 fd fr k nd_lt by auto
  have fixed_lt: "unat ?fixed < 2 ^ 32"
    using fixed fr k nd_lt by auto
  have prod: "unat (19200000 * ?fixed) = 19200000 * unat ?fixed"
    using unat_mult_small [of "19200000" ?fixed] fixed_lt by simp
  define rate where "rate = drop_bit 20 (19200000 * ?fixed div ucast pd) div 10"
  have rate: "unat rate = 19200000 * unat ?fixed div unat pd div 2 ^ 20 div 10"
    unfolding rate_def unat_div unat_drop_bit_eq prod by (simp add: drop_bit_eq_div)
  have small: "unat (ucast rate :: u32) = unat rate" if "\<not> 162000000 < unat rate"
    using that by (simp add: unsigned_ucast_eq take_bit_nat_eq_self)
  have nd0: "nd = 0 \<longleftrightarrow> unat ctrl mod 1024 = 0" and pd0: "pd = 0 \<longleftrightarrow> unat ctrl div 4096 mod 8 = 0"
    using nd pd k by (auto simp: word_unat_eq_iff)
  have def: "pixel_rate_of ctrl frac ana =
     (if pd = 0 \<or> nd = 0 then Inl (''FAIL: invalid PLLH divider'', [])
      else if rate = 0 \<or> rate > 162000000
      then Inl (''FAIL: PLLH pixel rate out of range: %u'', [ucast rate]) else Inr (ucast rate))"
    by (simp add: pixel_rate_of_def rate_def nd_def fd_def pd_def Let_def)
  have R: "19200000 * (k * (unat ctrl mod 1024) * 2 ^ 20 + k * unat frac) div (unat ctrl div 4096 mod 8)
      div 2 ^ 20 div 10 = unat rate"
    by (simp only: rate fixed nd pd)
  have zero: "rate = 0 \<longleftrightarrow> unat rate = 0" and big: "rate > 162000000 \<longleftrightarrow> unat rate > 162000000"
    by (simp_all add: word_unat_eq_iff word_less_nat_alt)
  have k0: "k * (unat ctrl mod 1024) \<noteq> 0 \<longleftrightarrow> nd \<noteq> 0"
    using nd0 k by auto
  show ?thesis
    unfolding k_def [symmetric] Let_def R
    by (cases "pd = 0 \<or> nd = 0"; cases "rate = 0 \<or> rate > 162000000")
      (auto simp only: def if_True if_False sum.case k0 pd0 [symmetric] zero big, auto simp: small)
qed

theorem pixel_rate_exact_witness: "case pixel_rate_of 0x104d 0x58000 0 of Inr r \<Rightarrow> unat r = 148500000 | Inl _ \<Rightarrow> False"
  using pixel_rate_exact [of "0x58000" 0 "0x104d"] by (simp add: Let_def split: sum.splits)

section \<open>The ratio is the best one\<close>

text \<open>The numerator nearest to \<open>c * m / r\<close> and the distance of a numerator, on naturals.\<close>

definition near :: "nat \<Rightarrow> nat \<Rightarrow> nat \<Rightarrow> nat" where
  "near c r m = (c * m + r div 2) div r"

definition ratio_error :: "nat \<Rightarrow> nat \<Rightarrow> nat \<Rightarrow> nat \<Rightarrow> nat" where
  "ratio_error c r m n = (if n * r > c * m then n * r - c * m else c * m - n * r)"

definition fits :: "nat \<Rightarrow> nat \<Rightarrow> nat \<Rightarrow> bool" where
  "fits c r m \<longleftrightarrow> 0 < near c r m \<and> near c r m \<le> 0xffffff"

lemma near_bounds:
  assumes "0 < r"
  shows "near c r m * r \<le> c * m + r div 2" and "c * m + r div 2 < near c r m * r + r"
  using assms div_mult_mod_eq [of "c * m + r div 2" r] mod_less_divisor [OF assms, of "c * m + r div 2"]
  unfolding near_def by linarith+

lemma near_error_le:
  assumes "0 < r"
  shows "ratio_error c r m (near c r m) \<le> r div 2"
  using near_bounds [OF assms, of c m] by (auto simp: ratio_error_def)

lemma near_best:
  assumes "0 < r"
  shows "ratio_error c r m (near c r m) \<le> ratio_error c r m n"
proof (cases "n = near c r m")
  case True
  then show ?thesis by simp
next
  case False
  let ?k = "near c r m"
  have "n * r + r \<le> ?k * r \<or> ?k * r + r \<le> n * r"
  proof (cases "n < ?k")
    case True
    then have "Suc n * r \<le> ?k * r" by (intro mult_le_mono1) simp
    then show ?thesis by simp
  next
    case g: False
    with False have "Suc ?k * r \<le> n * r" by (intro mult_le_mono1) simp
    then show ?thesis by simp
  qed
  then show ?thesis
    using near_bounds [OF assms, of c m] by (auto simp: ratio_error_def)
qed

text \<open>The candidate kept so far is the best of the denominators seen.\<close>

definition best_of :: "nat \<Rightarrow> nat \<Rightarrow> nat set \<Rightarrow> u64 \<Rightarrow> u32 \<Rightarrow> u32 \<Rightarrow> bool" where
  "best_of c r seen e n m \<longleftrightarrow>
     (if m = 0 then n = 0 \<and> (\<forall>k \<in> seen. \<not> fits c r k)
      else unat m \<in> seen \<and> fits c r (unat m) \<and> unat n = near c r (unat m) \<and>
        unat e = ratio_error c r (unat m) (unat n) \<and>
        (\<forall>k \<in> seen. fits c r k \<longrightarrow>
           ratio_error c r (unat m) (unat n) * k \<le> ratio_error c r k (near c r k) * unat m))"

lemma candidate_words:
  fixes clock_rate sample_rate m :: u32
  assumes "0 < sample_rate" and "unat m \<le> 256"
  defines "n64 \<equiv> (ucast clock_rate * ucast m + ucast (sample_rate div 2)) div ucast sample_rate :: u64"
  defines "lhs \<equiv> n64 * ucast sample_rate" and "rhs \<equiv> ucast clock_rate * ucast m"
  shows "unat n64 = near (unat clock_rate) (unat sample_rate) (unat m)"
    and "n64 \<le> 0xffffff \<Longrightarrow>
      unat (if lhs > rhs then lhs - rhs else rhs - lhs)
        = ratio_error (unat clock_rate) (unat sample_rate) (unat m) (unat n64)"
    and "n64 \<le> 0xffffff \<Longrightarrow> unat (ucast n64 :: u32) = unat n64"
proof -
  have c: "unat clock_rate < 2 ^ 32" and r: "unat sample_rate < 2 ^ 32" and r0: "0 < unat sample_rate"
    using unat_less_pow [of clock_rate] unat_less_pow [of sample_rate] assms(1)
    by (simp_all add: word_less_nat_alt)
  have cm: "unat clock_rate * unat m \<le> 2 ^ 32 * 256"
    using c assms(2) by (intro mult_le_mono) simp_all
  have rhs: "unat rhs = unat clock_rate * unat m"
    using unat_mult_small [of "ucast clock_rate :: u64" "ucast m"] cm by (simp add: rhs_def)
  have "unat (ucast clock_rate * ucast m + ucast (sample_rate div 2) :: u64)
          = unat clock_rate * unat m + unat sample_rate div 2"
    using unat_add_small [of rhs "ucast (sample_rate div 2)"] rhs cm r
    by (simp add: rhs_def unat_div)
  then show n64: "unat n64 = near (unat clock_rate) (unat sample_rate) (unat m)"
    by (simp add: n64_def near_def unat_div)
  assume le: "n64 \<le> 0xffffff"
  then have le': "unat n64 \<le> 0xffffff"
    by (simp add: word_le_nat_alt)
  then have "unat n64 * unat sample_rate \<le> 0xffffff * 2 ^ 32"
    using r by (intro mult_le_mono) simp_all
  then have lhs: "unat lhs = unat n64 * unat sample_rate"
    using unat_mult_small [of n64 "ucast sample_rate"] by (simp add: lhs_def)
  show "unat (if lhs > rhs then lhs - rhs else rhs - lhs)
        = ratio_error (unat clock_rate) (unat sample_rate) (unat m) (unat n64)"
    using lhs rhs by (auto simp: ratio_error_def word_less_nat_alt unat_sub word_le_nat_alt)
  show "unat (ucast n64 :: u32) = unat n64"
    using le' by (simp add: unsigned_ucast_eq take_bit_nat_eq_self)
qed

lemma fits_word:
  "unat (n64 :: u64) = near c r m \<Longrightarrow> \<not> (n64 = 0 \<or> n64 > 0x00ffffff) \<longleftrightarrow> fits c r m"
  by (auto simp: fits_def word_unat_eq_iff word_less_nat_alt)

lemma transitive_ratio:
  fixes a b k u v w :: nat
  assumes "a * u < b * v" and "b * k \<le> w * u" and "0 < u"
  shows "a * k \<le> w * v"
proof -
  have "a * u * k \<le> b * v * k" using assms(1) by simp
  also have "\<dots> = b * k * v" by simp
  also have "\<dots> \<le> w * u * v" using assms(2) by simp
  finally have "(a * k) * u \<le> (w * v) * u" by (simp add: ac_simps)
  with assms(3) show ?thesis by simp
qed

lemma error_product:
  assumes "0 < r" and "r < 2 ^ 32" and "unat (e :: u64) = ratio_error c r k (near c r k)"
    and "unat (m :: u32) \<le> 256"
  shows "unat (e * ucast m) = unat e * unat m"
proof -
  have "unat e \<le> r div 2"
    using near_error_le [OF assms(1)] assms(3) by simp
  then have "unat e * unat m \<le> 2 ^ 31 * 256"
    using assms(2,4) by (intro mult_le_mono) simp_all
  then show ?thesis
    using unat_mult_small [of e "ucast m"] by simp
qed

lemma best_of_more:
  "best_of c r seen e n m \<Longrightarrow> \<not> fits c r k \<Longrightarrow> best_of c r (insert k seen) e n m"
  by (auto simp: best_of_def)

lemma mai_search_best:
  assumes "0 < sample_rate" and "\<forall>m \<in> set ms. 1 \<le> unat m \<and> unat m \<le> 256" and "\<forall>k \<in> seen. k \<le> 256"
    and "best_of (unat clock_rate) (unat sample_rate) seen e n m"
  shows "\<exists>e'. best_of (unat clock_rate) (unat sample_rate) (seen \<union> unat ` set ms) e'
     (fst (mai_search clock_rate sample_rate ms (e, n, m))) (snd (mai_search clock_rate sample_rate ms (e, n, m)))"
  using assms(2-4)
proof (induction ms arbitrary: seen e n m)
  case Nil
  then show ?case by auto
next
  case (Cons m1 ms)
  let ?c = "unat clock_rate" and ?r = "unat sample_rate" and ?k = "unat m1"
  have r: "0 < ?r" "?r < 2 ^ 32"
    using assms(1) unat_less_pow [of sample_rate] by (simp_all add: word_less_nat_alt)
  have k: "1 \<le> ?k" "?k \<le> 256" using Cons.prems(1) by simp_all
  define n64 :: u64 where "n64 = (ucast clock_rate * ucast m1 + ucast (sample_rate div 2)) div ucast sample_rate"
  define err where "err = (if n64 * ucast sample_rate > ucast clock_rate * ucast m1
    then n64 * ucast sample_rate - ucast clock_rate * ucast m1
    else ucast clock_rate * ucast m1 - n64 * ucast sample_rate)"
  have n64: "unat n64 = near ?c ?r ?k"
    unfolding n64_def by (rule candidate_words(1) [OF assms(1) k(2)])
  have step: "mai_search clock_rate sample_rate (m1 # ms) (e, n, m) =
     (if n64 = 0 \<or> n64 > 0x00ffffff then mai_search clock_rate sample_rate ms (e, n, m)
      else if m = 0 \<or> err * ucast m < e * ucast m1
      then if err = 0 then (ucast n64, m1) else mai_search clock_rate sample_rate ms (err, ucast n64, m1)
      else mai_search clock_rate sample_rate ms (e, n, m))"
    by (simp only: mai_search.simps Let_def n64_def err_def)
  have sub: "\<forall>k \<in> insert ?k seen. k \<le> 256" using Cons.prems(2) k by simp
  have tl: "\<forall>m \<in> set ms. 1 \<le> unat m \<and> unat m \<le> 256" using Cons.prems(1) by simp
  have un: "insert ?k seen \<union> unat ` set ms = seen \<union> unat ` set (m1 # ms)" by auto
  note IH = Cons.IH [OF tl sub, unfolded un]
  show ?case
  proof (cases "fits ?c ?r ?k")
    case False
    then have "mai_search clock_rate sample_rate (m1 # ms) (e, n, m) = mai_search clock_rate sample_rate ms (e, n, m)"
      using fits_word [OF n64] step by simp
    then show ?thesis
      using IH [OF best_of_more [OF Cons.prems(3) False]] by (simp only:)
  next
    case True
    then have in_range: "\<not> (n64 = 0 \<or> n64 > 0x00ffffff)" using fits_word [OF n64] by blast
    then have le: "n64 \<le> 0xffffff" by (simp add: not_less)
    have u: "unat (ucast n64 :: u32) = near ?c ?r ?k"
      using candidate_words(3) [OF assms(1) k(2), of clock_rate, folded n64_def, OF le] n64 by simp
    have e1: "unat err = ratio_error ?c ?r ?k (near ?c ?r ?k)"
      using candidate_words(2) [OF assms(1) k(2), of clock_rate, folded n64_def, OF le] n64
      by (simp add: err_def)
    have m1: "m1 \<noteq> 0" using k(1) by auto
    show ?thesis
    proof (cases "m = 0 \<or> err * ucast m < e * ucast m1")
      case accept: True
      have new: "best_of ?c ?r (insert ?k seen) err (ucast n64) m1"
      proof (cases "m = 0")
        case True
        then show ?thesis
          using Cons.prems(3) \<open>fits ?c ?r ?k\<close> m1 u e1 by (auto simp: best_of_def)
      next
        case False
        then have old: "unat m \<in> seen" "unat n = near ?c ?r (unat m)" "unat e = ratio_error ?c ?r (unat m) (unat n)"
          "\<forall>k \<in> seen. fits ?c ?r k \<longrightarrow> ratio_error ?c ?r (unat m) (unat n) * k \<le> ratio_error ?c ?r k (near ?c ?r k) * unat m"
          using Cons.prems(3) by (auto simp: best_of_def)
        have m256: "unat m \<le> 256" using old(1) Cons.prems(2) by blast
        have "unat err * unat m < unat e * ?k"
          using accept False error_product [OF r e1 m256] error_product [OF r, of e ?c "unat m" m1] old(2,3) k(2)
          by (simp add: word_less_nat_alt)
        then have "unat err * j \<le> ratio_error ?c ?r j (near ?c ?r j) * ?k" if "j \<in> seen" "fits ?c ?r j" for j
          using transitive_ratio [of "unat err" "unat m" "unat e" ?k j] old(3,4) that False
          by (auto simp: unat_gt_0)
        then show ?thesis
          using \<open>fits ?c ?r ?k\<close> m1 u e1 by (auto simp: best_of_def)
      qed
      show ?thesis
      proof (cases "err = 0")
        case True
        then have "ratio_error ?c ?r ?k (near ?c ?r ?k) = 0" using e1 by simp
        then have "best_of ?c ?r (seen \<union> unat ` set (m1 # ms)) err (ucast n64) m1"
          using m1 u e1 \<open>fits ?c ?r ?k\<close> by (auto simp: best_of_def)
        then show ?thesis using step in_range accept True by auto
      next
        case False
        then show ?thesis using IH [OF new] step in_range accept by simp
      qed
    next
      case reject: False
      have "best_of ?c ?r (insert ?k seen) e n m"
      proof -
        have old: "unat m \<in> seen" "unat n = near ?c ?r (unat m)" "unat e = ratio_error ?c ?r (unat m) (unat n)"
          using Cons.prems(3) reject by (auto simp: best_of_def)
        have m256: "unat m \<le> 256" using old(1) Cons.prems(2) by blast
        have "unat e * ?k \<le> unat err * unat m"
          using reject error_product [OF r e1 m256] error_product [OF r, of e ?c "unat m" m1] old(2,3) k(2)
          by (simp add: word_less_nat_alt)
        then show ?thesis
          using Cons.prems(3) reject old e1 by (auto simp: best_of_def)
      qed
      then show ?thesis using IH step in_range reject by simp
    qed
  qed
qed

text \<open>
  C16: the audio clock ratio. The search returns a numerator and denominator in the range of
  the hardware field for which the rate is nearest to the requested one: for no denominator
  up to 256 whose nearest numerator fits, and no numerator, is \<open>|n * r - c * m| / m\<close>
  smaller. It fails only when no nearest numerator fits.
\<close>

theorem choose_mai_ratio_optimal:
  assumes "0 < sample_rate"
  shows "case choose_mai_ratio clock_rate sample_rate of
     None \<Rightarrow> \<forall>k \<in> {1..256}. \<not> fits (unat clock_rate) (unat sample_rate) k
   | Some (n, m) \<Rightarrow> 1 \<le> unat m \<and> unat m \<le> 256 \<and> 1 \<le> unat n \<and> unat n \<le> 0xffffff \<and>
       (\<forall>k \<in> {1..256}. \<forall>j. fits (unat clock_rate) (unat sample_rate) k \<longrightarrow>
          ratio_error (unat clock_rate) (unat sample_rate) (unat m) (unat n) * k
            \<le> ratio_error (unat clock_rate) (unat sample_rate) k j * unat m)"
proof -
  let ?c = "unat clock_rate" and ?r = "unat sample_rate"
  define ms :: "u32 list" where "ms = map word_of_nat [1..<257]"
  define res where "res = mai_search clock_rate sample_rate ms (-1, 0, 0)"
  have u: "unat (word_of_nat i :: u32) = i" if "i < 257" for i
    using that by (simp add: unat_of_nat)
  then have "unat ` (word_of_nat :: nat \<Rightarrow> u32) ` {1..<257} = (\<lambda>i. i) ` {1..<257}"
    unfolding image_image by (intro image_cong) auto
  moreover have "{1..<257} = {1..256::nat}"
    by auto
  ultimately have all: "unat ` set ms = {1..256}"
    by (simp only: ms_def set_map set_upt image_ident)
  then have range: "\<forall>m \<in> set ms. 1 \<le> unat m \<and> unat m \<le> 256"
    by (metis atLeastAtMost_iff imageI)
  have b0: "best_of ?c ?r {} (-1) 0 0"
    by (simp add: best_of_def)
  have "\<exists>e. best_of ?c ?r ({} \<union> unat ` set ms) e (fst res) (snd res)"
    unfolding res_def by (rule mai_search_best [OF assms range _ b0]) simp
  then obtain e where best: "best_of ?c ?r {1..256} e (fst res) (snd res)"
    unfolding all Un_empty_left by blast
  have choose: "choose_mai_ratio clock_rate sample_rate = (if snd res = 0 then None else Some (fst res, snd res))"
    by (simp only: choose_mai_ratio_def res_def ms_def split_beta Let_def)
  have r: "0 < ?r" using assms by (simp add: word_less_nat_alt)
  show ?thesis
  proof (cases "snd res = 0")
    case True
    then show ?thesis
      using best choose by (auto simp: best_of_def)
  next
    case False
    then have "choose_mai_ratio clock_rate sample_rate = Some (fst res, snd res)"
      by (simp add: choose)
    moreover have "ratio_error ?c ?r (unat (snd res)) (unat (fst res)) * k \<le> ratio_error ?c ?r k j * unat (snd res)"
      if "k \<in> {1..256}" "fits ?c ?r k" for k j
    proof -
      have "ratio_error ?c ?r (unat (snd res)) (unat (fst res)) * k \<le> ratio_error ?c ?r k (near ?c ?r k) * unat (snd res)"
        using best False that by (auto simp: best_of_def)
      also have "\<dots> \<le> ratio_error ?c ?r k j * unat (snd res)"
        by (rule mult_le_mono1 [OF near_best [OF r]])
      finally show ?thesis .
    qed
    ultimately show ?thesis
      using best False by (auto simp: best_of_def fits_def)
  qed
qed

theorem choose_mai_ratio_optimal_witness:
  "case choose_mai_ratio 250000000 48000 of None \<Rightarrow> \<not> fits 250000000 48000 3 | Some (n, m) \<Rightarrow> unat m \<le> 256"
  using choose_mai_ratio_optimal [of 48000 250000000] by (auto split: option.splits prod.splits)

section \<open>The subframes\<close>

definition iec958_payload :: "u32 \<Rightarrow> nat \<Rightarrow> u32" where
  "iec958_payload sample frame =
     (if frame < 40 \<and> iec958_status (frame div 8) AND push_bit (frame mod 8) 1 \<noteq> 0
      then push_bit 4 (sample AND 0x00ffffff) OR 0x40000000 else push_bit 4 (sample AND 0x00ffffff))"

lemma iec958_word_payload:
  "iec958_word sample frame =
     (iec958_payload sample frame OR (if parity32 (iec958_payload sample frame) then 0x80000000 else 0))
     OR (if frame = 0 then 0x0f else 0)"
  unfolding iec958_word_def Let_def iec958_payload_def [symmetric] by simp

lemma status_bit:
  "iec958_status i AND push_bit j 1 \<noteq> 0 \<longleftrightarrow> bit (iec958_status i) j" if "j < 8"
proof -
  have "iec958_status i AND push_bit j 1 = (if bit (iec958_status i) j then push_bit j 1 else 0)"
    by (rule bit_word_eqI) (auto simp: bit_simps that)
  moreover have "push_bit j (1 :: u8) \<noteq> 0"
  proof -
    have "bit (push_bit j (1 :: u8)) j"
      using that by (simp add: bit_exp_iff)
    then show ?thesis by (metis bit_0_eq bot_apply bot_bool_def)
  qed
  ultimately show ?thesis by simp
qed

lemma payload_bits:
  "bit (iec958_payload sample frame) n \<longleftrightarrow>
     (4 \<le> n \<and> n < 28 \<and> bit sample (n - 4)) \<or>
     (n = 30 \<and> frame < 40 \<and> bit (iec958_status (frame div 8)) (frame mod 8))"
  using status_bit [of "frame mod 8" "frame div 8"]
  by (auto simp: iec958_payload_def bit_simps bits bit_int_field [of "0xffffff0" 24 4])

lemma iec958_bits:
  "bit (iec958_word sample frame) n \<longleftrightarrow>
     (n < 4 \<and> frame = 0) \<or> bit (iec958_payload sample frame) n \<or>
     (n = 31 \<and> parity32 (iec958_payload sample frame))"
  by (auto simp: iec958_word_payload bit_simps bits)

text \<open>
  The subframe of a sample. Bits 4 to 27 are the 24 bits of the sample, the validity and
  user bits are 0, bit 30 is the channel status bit of the frame, the preamble mark is in the
  first frame of a block only, and the parity of bits 4 to 31 is even.
\<close>

theorem iec958_subframe:
  "let w = iec958_word sample frame in
   drop_bit 4 w AND 0x00ffffff = sample AND 0x00ffffff \<and>
   \<not> bit w 28 \<and> \<not> bit w 29 \<and>
   bit w 30 = (frame < 40 \<and> bit (iec958_status (frame div 8)) (frame mod 8)) \<and>
   w AND 15 = (if frame = 0 then 15 else 0) \<and>
   even (length (filter (bit w) [4..<32]))"
proof -
  let ?w = "iec958_word sample frame" and ?p = "iec958_payload sample frame"
  have "drop_bit 4 ?w AND 0x00ffffff = sample AND 0x00ffffff"
    by (rule bit_word_eqI) (auto simp: bit_simps bits iec958_bits payload_bits)
  moreover have "?w AND 15 = (if frame = 0 then 15 else 0)"
    by (rule bit_word_eqI) (auto simp: bit_simps bits iec958_bits payload_bits)
  moreover have "even (length (filter (bit ?w) [4..<32]))"
  proof -
    have split: "[0..<32] = [0..<4] @ [4..<31] @ [31]" "[4..<32] = [4..<31] @ [31::nat]"
      using upt_add_eq_append [of 0 4 28] upt_Suc_append [of 4 31] by simp_all
    have low: "filter (bit ?p) [0..<4] = []" and top: "\<not> bit ?p 31"
      by (auto simp: filter_empty_conv payload_bits)
    have "filter (bit ?w) [4..<31] = filter (bit ?p) [4..<31]"
      by (rule filter_cong) (auto simp: iec958_bits)
    moreover have "bit ?w 31 = parity32 ?p"
      using top by (simp add: iec958_bits)
    moreover have "parity32 ?p = odd (length (filter (bit ?p) [4..<31]))"
      unfolding parity32_def split using low top by (simp del: upt_rec_numeral)
    ultimately show ?thesis
      unfolding split by (simp del: upt_rec_numeral)
  qed
  ultimately show ?thesis
    by (simp add: Let_def iec958_bits payload_bits)
qed

end
