(* ===== verification/HdmiInit.thy ===== *)
theory HdmiInit
  imports HdmiClock
begin

text \<open>
  Bringing up HDMI audio, \<open>source/src/raspi/hdmi_audio_poc.c\<close>: bounded waits on the packet
  and FIFO status, the audio InfoFrame, and the initialisation sequence. The lemmas show
  that every wait ends and that only audio registers are written.
\<close>

section \<open>Waiting\<close>

definition delay_ms :: "u64 \<Rightarrow> 'a io_state_scheme \<Rightarrow> 'a io_state_scheme option" where
  "delay_ms ms s =
     do {
       (start, s) \<leftarrow> read_cntvct s;
       spin_until start ((read_cntfrq s * ms) div 1000) s
     }"

fun wait_packet_status :: "u32 \<Rightarrow> bool \<Rightarrow> nat \<Rightarrow> (bool, 'a io_state_scheme) prog" where
  "wait_packet_status msk want_set 0 s = Some (False, s)"
| "wait_packet_status msk want_set (Suc timeout_ms) s =
     (case rd32le HDMI_RAM_PACKET_STATUS s of None \<Rightarrow> None
      | Some (v, s1) \<Rightarrow>
          if (v AND msk \<noteq> 0) = want_set then Some (True, s1)
          else (case delay_ms 1 s1 of None \<Rightarrow> None
                | Some s2 \<Rightarrow> wait_packet_status msk want_set timeout_ms s2))"

abbreviation (input) MAI_CTL_FULL :: u32 where "MAI_CTL_FULL \<equiv> 0x800"

partial_function (option) wait_fifo_loop :: "u64 \<Rightarrow> u64 \<Rightarrow> 'a io_state_scheme \<Rightarrow> (bool \<times> 'a io_state_scheme) option" where
  "wait_fifo_loop start timeout s =
     (case rd32le HD_MAI_CTL s of None \<Rightarrow> None
      | Some (v, s1) \<Rightarrow>
          if v AND MAI_CTL_FULL = 0 then Some (True, s1)
          else (case read_cntvct s1 of None \<Rightarrow> None
                | Some (now, s2) \<Rightarrow>
                    if now - start \<ge> timeout then Some (False, s2)
                    else wait_fifo_loop start timeout s2))"

definition poc_wait_fifo :: "(bool, 'a io_state_scheme) prog" where
  "poc_wait_fifo s =
     do {
       (start, s) \<leftarrow> read_cntvct s;
       wait_fifo_loop start (read_cntfrq s div 4) s
     }"

section \<open>The InfoFrame\<close>

abbreviation (input) RAM_PACKET_ENABLE :: u32 where "RAM_PACKET_ENABLE \<equiv> 0x10000"
abbreviation (input) RAM_PACKET_AUDIO :: u32 where "RAM_PACKET_AUDIO \<equiv> 0x10"

text \<open>The registers \<open>HDMI_RAM_AUDIO_2\<close> to \<open>HDMI_RAM_AUDIO_8\<close> in steps of 4.\<close>

definition infoframe_tail :: "u64 list" where
  "infoframe_tail = map (\<lambda>i. HDMI_RAM_AUDIO_2 + 4 * word_of_nat i) [0..<7]"

definition install_audio_infoframe :: "(bool, 'a io_state_scheme) prog" where
  "install_audio_infoframe s =
     do {
       (cfg, s) \<leftarrow> rd32le HDMI_RAM_PACKET_CFG s;
       let s = wr32le HDMI_RAM_PACKET_CFG (cfg AND NOT RAM_PACKET_AUDIO) s;
       (ok, s) \<leftarrow> wait_packet_status RAM_PACKET_AUDIO False 100 s;
       if \<not> ok then Some (False, s)
       else do {
         let s = wr32le HDMI_RAM_AUDIO_0 0x000a0184 s;
         let s = wr32le HDMI_RAM_AUDIO_1 0x00000170 s;
         let s = fold (\<lambda>reg. wr32le reg 0) infoframe_tail s;
         let s = wr32le HDMI_RAM_PACKET_CFG (cfg OR RAM_PACKET_AUDIO) s;
         wait_packet_status RAM_PACKET_AUDIO True 100 s
       }
     }"

section \<open>Initialisation\<close>

definition program_audio :: "u32 \<Rightarrow> u32 \<Rightarrow> u32 \<Rightarrow> u32 \<Rightarrow> 'a io_state_scheme \<Rightarrow> 'a io_state_scheme" where
  "program_audio ratio_n ratio_m acr_n acr_cts s =
     (let s = wr32le HD_MAI_CTL (0x001 OR 0x200 OR 0x8000 OR 0x004 OR 0x002) s;
          s = wr32le HD_MAI_SMP (push_bit 8 ratio_n OR (ratio_m - 1)) s;
          s = wr32le HD_MAI_FMT (push_bit 8 9 OR push_bit 16 2) s;
          s = wr32le HD_MAI_THR 0x10101010 s;
          s = wr32le HDMI_MAI_CONFIG (push_bit 26 1 OR push_bit 27 1 OR 0x03) s;
          s = wr32le HDMI_MAI_CHANNEL_MAP 0x00000008 s;
          s = wr32le HDMI_AUDIO_PACKET_CFG (push_bit 29 1 OR push_bit 24 1 OR push_bit 10 0x0f OR 0x03) s;
          s = wr32le HDMI_CRP_CFG (push_bit 24 1 OR acr_n) s;
          s = wr32le HDMI_CTS_0 acr_cts s
      in wr32le HDMI_CTS_1 acr_cts s)"

abbreviation (input) MAI_CTL_RUN :: u32 where "MAI_CTL_RUN \<equiv> 0x20 OR 0x1000 OR 0x2000 OR 0x8"

text \<open>From a clock ratio on: program, install the InfoFrame, enable.\<close>

definition hdmi_audio_start ::
    "formatter \<Rightarrow> u32 \<Rightarrow> u32 \<Rightarrow> u32 \<Rightarrow> u32 \<Rightarrow> (bool, 'a diag_state_scheme) prog" where
  "hdmi_audio_start vk hsm_rate pixel_rate ratio_n ratio_m s =
     do {
       let acr_n = 48000 * 128 div 1000;
       let acr_cts = ucast ((ucast pixel_rate * ucast acr_n :: u64) div (48000 * 128));
       s \<leftarrow> poc_message vk False ''HSM=%u pixel=%u N/M=%u/%u'' [hsm_rate, pixel_rate, ratio_n, ratio_m] s;
       s \<leftarrow> poc_message vk False ''ACR N=%u CTS=%u; programming audio'' [acr_n, acr_cts] s;
       let s = program_audio ratio_n ratio_m acr_n acr_cts s;
       s \<leftarrow> poc_message vk False ''Installing HDMI Audio InfoFrame'' [] s;
       (ok, s) \<leftarrow> install_audio_infoframe s;
       if \<not> ok
       then do { s \<leftarrow> poc_message vk False ''FAIL: Audio InfoFrame timeout'' [] s; Some (False, s) }
       else do {
         s \<leftarrow> poc_message vk False ''InfoFrame active; enabling MAI'' [] s;
         (phy, s) \<leftarrow> rd32le HDMI_TX_PHY_CTL_0 s;
         let s = wr32le HDMI_TX_PHY_CTL_0 (phy AND NOT (push_bit 25 1)) s;
         let s = wr32le HD_MAI_CTL MAI_CTL_RUN s;
         (ctl, s) \<leftarrow> rd32le HD_MAI_CTL s;
         s \<leftarrow> poc_message vk False ''MAI enabled: ctl=%08x'' [ctl] s;
         Some (True, s)
       }
     }"

definition hdmi_audio_init :: "formatter \<Rightarrow> (bool, 'a diag_state_scheme) prog" where
  "hdmi_audio_init vk s =
     do {
       s \<leftarrow> poc_message vk False ''Reading HDMI packet configuration'' [] s;
       (packet_cfg, s) \<leftarrow> rd32le HDMI_RAM_PACKET_CFG s;
       (status, s) \<leftarrow> rd32le HDMI_RAM_PACKET_STATUS s;
       s \<leftarrow> poc_message vk False ''Packet cfg=%08x status=%08x'' [packet_cfg, status] s;
       if packet_cfg AND RAM_PACKET_ENABLE = 0
       then do { s \<leftarrow> poc_message vk False ''FAIL: HDMI packet RAM disabled'' [] s; Some (False, s) }
       else do {
         s \<leftarrow> poc_message vk False ''Reading HSM clock state'' [] s;
         (hsm_rate, s) \<leftarrow> get_hsm_clock_rate s;
         if hsm_rate = 0
         then do { s \<leftarrow> poc_message vk False ''FAIL: unsupported or invalid HSM clock'' [] s; Some (False, s) }
         else do {
           s \<leftarrow> poc_message vk False ''HSM=%u Hz; reading PLLH pixel clock'' [hsm_rate] s;
           (pixel_rate, s) \<leftarrow> get_pixel_clock_rate vk s;
           if pixel_rate = 0
           then do { s \<leftarrow> poc_message vk False ''FAIL: PLLH pixel clock unavailable'' [] s; Some (False, s) }
           else (case choose_mai_ratio hsm_rate 48000 of
             None \<Rightarrow> do { s \<leftarrow> poc_message vk False ''FAIL: cannot derive MAI clock ratio'' [] s; Some (False, s) }
           | Some (ratio_n, ratio_m) \<Rightarrow> hdmi_audio_start vk hsm_rate pixel_rate ratio_n ratio_m s)
         }
       }
     }"

section \<open>What a fragment does to the hardware\<close>

text \<open>
  \<open>hw_step W s s'\<close>: from \<open>s\<close> to \<open>s'\<close> only the register writes of \<open>W\<close> were
  made and the hardware is the same function. \<open>runs W s r Q\<close>: the result \<open>r\<close> of a
  fragment started in \<open>s\<close> exists, is such a step and satisfies \<open>Q\<close>.
\<close>

definition hw_step :: "(u64 \<times> u32) set \<Rightarrow> 'a io_state_scheme \<Rightarrow> 'a io_state_scheme \<Rightarrow> bool" where
  "hw_step W s s' \<longleftrightarrow>
     (\<exists>ws. io_writes s' = ws @ io_writes s \<and> set ws \<subseteq> W) \<and>
     io_clock s' = io_clock s \<and> io_freq s' = io_freq s"

definition runs ::
    "(u64 \<times> u32) set \<Rightarrow> 'a io_state_scheme \<Rightarrow> ('r \<times> 'a io_state_scheme) option \<Rightarrow>
     ('r \<Rightarrow> 'a io_state_scheme \<Rightarrow> bool) \<Rightarrow> bool" where
  "runs W s r Q \<longleftrightarrow> (\<exists>v s'. r = Some (v, s') \<and> hw_step W s s' \<and> Q v s')"

definition runs_to ::
    "(u64 \<times> u32) set \<Rightarrow> 'a io_state_scheme \<Rightarrow> 'a io_state_scheme option \<Rightarrow>
     ('a io_state_scheme \<Rightarrow> bool) \<Rightarrow> bool" where
  "runs_to W s r Q \<longleftrightarrow> (\<exists>s'. r = Some s' \<and> hw_step W s s' \<and> Q s')"

lemma hw_step_refl [simp, intro]: "hw_step W s s"
  by (simp add: hw_step_def)

lemma hw_step_trans:
  assumes "hw_step W s t" and "hw_step W t u"
  shows "hw_step W s u"
proof -
  obtain v w where "io_writes t = v @ io_writes s" "set v \<subseteq> W"
    and "io_writes u = w @ io_writes t" "set w \<subseteq> W"
    using assms unfolding hw_step_def by blast
  then have "io_writes u = (w @ v) @ io_writes s \<and> set (w @ v) \<subseteq> W"
    by simp
  then show ?thesis
    using assms unfolding hw_step_def by (metis (no_types))
qed

lemma hw_step_clock: "hw_step W s t \<Longrightarrow> clock_advances s \<Longrightarrow> clock_advances t"
  by (simp add: hw_step_def clock_advances_def)

lemma hw_step_skip [simp]: "hw_step W s (s\<lparr>io_n := n\<rparr>)"
  by (simp add: hw_step_def)

lemma hw_step_write [simp]: "(a, v) \<in> W \<Longrightarrow> hw_step W s (wr32le a v s)"
  by (auto simp: hw_step_def wr32le_def)

lemma runs_return: "Q v s \<Longrightarrow> runs W s (Some (v, s)) Q"
  by (auto simp: runs_def)

lemma runs_bind:
  assumes "runs W s r P" and "\<And>v t. hw_step W s t \<Longrightarrow> P v t \<Longrightarrow> runs W t (g (v, t)) Q"
  shows "runs W s (Option.bind r g) Q"
  using assms hw_step_trans by (fastforce simp: runs_def)

lemma runs_to_bind:
  assumes "runs_to W s r P" and "\<And>t. hw_step W s t \<Longrightarrow> P t \<Longrightarrow> runs W t (g t) Q"
  shows "runs W s (Option.bind r g) Q"
  using assms hw_step_trans by (fastforce simp: runs_def runs_to_def)

lemma runs_write:
  assumes "(a, v) \<in> W" and "runs W (wr32le a v s) r Q"
  shows "runs W s r Q"
  using assms hw_step_trans [OF hw_step_write] by (auto simp: runs_def)

lemma runs_mono:
  "runs W s r P \<Longrightarrow> (\<And>v t. hw_step W s t \<Longrightarrow> P v t \<Longrightarrow> Q v t) \<Longrightarrow> runs W s r Q"
  by (auto simp: runs_def)

lemma runs_rd: "runs W s (rd32le a s) (\<lambda>_ t. io_writes t = io_writes s)"
  by (auto simp: runs_def rd32le_def hw_step_def)

lemma runs_cntvct: "runs W s (read_cntvct s) (\<lambda>_ t. io_writes t = io_writes s)"
  by (auto simp: runs_def read_cntvct_def hw_step_def)

lemma div_lt_63: "1 < d \<Longrightarrow> (x :: u64) div d < 2 ^ 63"
proof -
  assume "1 < d"
  then have "2 \<le> unat d" by (simp add: word_less_nat_alt)
  then have "unat x div unat d \<le> unat x div 2"
    by (intro div_le_mono2) simp_all
  also have "\<dots> < 2 ^ 63" using unat_less_pow [of x] by simp
  finally show ?thesis by (simp add: word_less_nat_alt unat_div)
qed

lemma runs_delay:
  assumes "clock_advances s"
  shows "runs_to W s (delay_ms ms s) (\<lambda>t. io_writes t = io_writes s)"
proof -
  let ?s1 = "s\<lparr>io_n := Suc (io_n s)\<rparr>"
  have adv: "clock_advances ?s1" using assms by (simp add: frame)
  have lt: "(io_freq s * ms) div 1000 < 2 ^ 63"
    by (rule div_lt_63) simp
  obtain j where "spin_until (io_clock s (io_n s)) ((io_freq s * ms) div 1000) ?s1 = Some (skip_io j ?s1)"
    using spin_until_ends [OF adv lt] by blast
  then have "delay_ms ms s = Some (skip_io j ?s1)"
    by (simp add: delay_ms_def read_cntvct_def read_cntfrq_def)
  then show ?thesis by (simp add: runs_to_def)
qed

lemma runs_wait_packet:
  assumes "clock_advances s"
  shows "runs W s (wait_packet_status msk want n s) (\<lambda>_ t. io_writes t = io_writes s)"
  using assms
proof (induction n arbitrary: s)
  case 0
  show ?case by (simp add: runs_return)
next
  case (Suc n)
  let ?s1 = "s\<lparr>io_n := Suc (io_n s)\<rparr>"
  have adv: "clock_advances ?s1" using Suc.prems by (simp add: frame)
  obtain s2 where d: "delay_ms 1 ?s1 = Some s2" "hw_step W ?s1 s2" "io_writes s2 = io_writes s"
    using runs_delay [OF adv, of W 1] by (auto simp: runs_to_def)
  have "runs W s2 (wait_packet_status msk want n s2) (\<lambda>_ t. io_writes t = io_writes s2)"
    by (rule Suc.IH) (rule hw_step_clock [OF d(2) adv])
  then have "runs W s (wait_packet_status msk want n s2) (\<lambda>_ t. io_writes t = io_writes s)"
    using hw_step_trans [OF hw_step_skip hw_step_trans [OF d(2)]] d(3)
    by (auto simp: runs_def intro: hw_step_trans [OF hw_step_skip [of W s "Suc (io_n s)"]] hw_step_trans [OF d(2)])
  then show ?case
    by (auto simp: rd32le_def d(1) runs_def)
qed

lemma runs_message:
  assumes "clock_advances s"
  shows "runs_to W s (poc_message vk live fmt args s) (\<lambda>t. io_writes t = io_writes s)"
proof -
  let ?s1 = "skip_io 1 s"
  have adv: "clock_advances ?s1" using assms by (simp add: frame)
  obtain b j where w: "poc_lock_wait (io_clock s (io_n s)) (io_freq s div 100) ?s1 = Some (b, skip_io j ?s1)"
    using poc_lock_wait_ends [OF adv small_timeout] by blast
  then show ?thesis
    by (auto simp: poc_message_def read_cntvct_def read_cntfrq_def runs_to_def hw_step_def
        poc_store_def split_beta Let_def)
qed

section \<open>Initialisation touches audio registers only\<close>

definition audio_registers :: "u64 set" where
  "audio_registers = set ([HD_MAI_CTL, HD_MAI_SMP, HD_MAI_FMT, HD_MAI_THR, HDMI_MAI_CONFIG,
     HDMI_MAI_CHANNEL_MAP, HDMI_AUDIO_PACKET_CFG, HDMI_CRP_CFG, HDMI_CTS_0, HDMI_CTS_1,
     HDMI_RAM_PACKET_CFG, HDMI_RAM_AUDIO_0, HDMI_RAM_AUDIO_1, HDMI_TX_PHY_CTL_0] @ infoframe_tail)"

text \<open>The writes made before the audio output is enabled.\<close>

definition setup_writes :: "(u64 \<times> u32) set" where
  "setup_writes = audio_registers \<times> UNIV - {(HD_MAI_CTL, MAI_CTL_RUN)}"

lemma infoframe_tail_values:
  "infoframe_tail = [0xf2902498, 0xf290249c, 0xf29024a0, 0xf29024a4, 0xf29024a8, 0xf29024ac, 0xf29024b0]"
  by (simp add: infoframe_tail_def register_addresses upt_rec)

lemma setup_write [simp]:
  "(a, v) \<in> setup_writes \<longleftrightarrow> a \<in> audio_registers \<and> (a = HD_MAI_CTL \<longrightarrow> v \<noteq> MAI_CTL_RUN)"
  by (auto simp: setup_writes_def)

lemma audio_register_facts:
  "HD_MAI_CTL \<in> audio_registers" "HD_MAI_SMP \<in> audio_registers" "HD_MAI_FMT \<in> audio_registers"
  "HD_MAI_THR \<in> audio_registers" "HDMI_MAI_CONFIG \<in> audio_registers" "HDMI_MAI_CHANNEL_MAP \<in> audio_registers"
  "HDMI_AUDIO_PACKET_CFG \<in> audio_registers" "HDMI_CRP_CFG \<in> audio_registers" "HDMI_CTS_0 \<in> audio_registers"
  "HDMI_CTS_1 \<in> audio_registers" "HDMI_RAM_PACKET_CFG \<in> audio_registers" "HDMI_RAM_AUDIO_0 \<in> audio_registers"
  "HDMI_RAM_AUDIO_1 \<in> audio_registers" "HDMI_TX_PHY_CTL_0 \<in> audio_registers"
  by (simp_all add: audio_registers_def)

lemma not_mai_ctl:
  "HD_MAI_SMP \<noteq> HD_MAI_CTL" "HD_MAI_FMT \<noteq> HD_MAI_CTL"
  "HD_MAI_THR \<noteq> HD_MAI_CTL" "HDMI_MAI_CONFIG \<noteq> HD_MAI_CTL" "HDMI_MAI_CHANNEL_MAP \<noteq> HD_MAI_CTL"
  "HDMI_AUDIO_PACKET_CFG \<noteq> HD_MAI_CTL" "HDMI_CRP_CFG \<noteq> HD_MAI_CTL" "HDMI_CTS_0 \<noteq> HD_MAI_CTL"
  "HDMI_CTS_1 \<noteq> HD_MAI_CTL" "HDMI_RAM_PACKET_CFG \<noteq> HD_MAI_CTL" "HDMI_RAM_AUDIO_0 \<noteq> HD_MAI_CTL"
  "HDMI_RAM_AUDIO_1 \<noteq> HD_MAI_CTL" "HDMI_TX_PHY_CTL_0 \<noteq> HD_MAI_CTL" "HD_MAI_CTL \<notin> set infoframe_tail"
  by (simp_all add: register_addresses infoframe_tail_values [unfolded register_addresses])

lemma tail_steps:
  "set rs \<subseteq> audio_registers - {HD_MAI_CTL} \<Longrightarrow> hw_step setup_writes s (fold (\<lambda>reg. wr32le reg 0) rs s)"
proof (induction rs arbitrary: s)
  case Nil
  then show ?case by simp
next
  case (Cons r rs)
  then show ?case
    using hw_step_trans [OF hw_step_write [of r 0 setup_writes s]] by auto
qed

lemma infoframe_tail_step: "hw_step setup_writes s (fold (\<lambda>reg. wr32le reg 0) infoframe_tail s)"
  by (rule tail_steps) (use not_mai_ctl in \<open>auto simp: audio_registers_def\<close>)

lemma program_audio_step: "hw_step setup_writes s (program_audio n m a c s)"
proof -
  have w: "hw_step setup_writes s t \<Longrightarrow> (a, v) \<in> setup_writes \<Longrightarrow> hw_step setup_writes s (wr32le a v t)" for a v t
    using hw_step_trans hw_step_write by blast
  show ?thesis
    unfolding program_audio_def Let_def
    by (intro w hw_step_refl) (simp_all add: audio_register_facts not_mai_ctl)
qed

text \<open>
  The walk: \<open>good W s0 r Q\<close> says the fragment ends in a result that satisfies \<open>Q\<close>.
  Each rule takes one operation off the front and carries along that everything so far was a
  step from \<open>s0\<close> by writes of \<open>W\<close>, which is what the two parameters are for.
\<close>

definition good ::
    "(u64 \<times> u32) set \<Rightarrow> 'a io_state_scheme \<Rightarrow> ('r \<times> 'a io_state_scheme) option \<Rightarrow>
     ('r \<Rightarrow> 'a io_state_scheme \<Rightarrow> bool) \<Rightarrow> bool" where
  "good W s0 r Q \<longleftrightarrow> (\<exists>v s'. r = Some (v, s') \<and> Q v s')"

named_theorems walk "rules that take one operation off a fragment"

lemma good_return [walk]: "Q v s \<Longrightarrow> good W s0 (Some (v, s)) Q"
  by (simp add: good_def)

lemma good_if [walk]:
  "(b \<Longrightarrow> good W s0 x Q) \<Longrightarrow> (\<not> b \<Longrightarrow> good W s0 y Q) \<Longrightarrow> good W s0 (if b then x else y) Q"
  by simp

lemma good_runs:
  assumes "hw_step W s0 s" and "runs W s r P" and "\<And>v t. hw_step W s0 t \<Longrightarrow> P v t \<Longrightarrow> good W s0 (g (v, t)) Q"
  shows "good W s0 (Option.bind r g) Q"
  using assms hw_step_trans [OF assms(1)] by (auto simp: runs_def good_def)

lemma good_runs_to:
  assumes "hw_step W s0 s" and "runs_to W s r P" and "\<And>t. hw_step W s0 t \<Longrightarrow> P t \<Longrightarrow> good W s0 (g t) Q"
  shows "good W s0 (Option.bind r g) Q"
  using assms hw_step_trans [OF assms(1)] by (auto simp: runs_to_def good_def)

lemma good_rd [walk]:
  assumes "hw_step W s0 s" and "\<And>v t. hw_step W s0 t \<Longrightarrow> good W s0 (f v t) Q"
  shows "good W s0 (Option.bind (rd32le a s) (\<lambda>(v, t). f v t)) Q"
  by (rule good_runs [OF assms(1) runs_rd]) (use assms(2) in simp)

lemma good_message [walk]:
  assumes "hw_step W s0 s" and "clock_advances s0" and "\<And>t. hw_step W s0 t \<Longrightarrow> good W s0 (f t) Q"
  shows "good W s0 (Option.bind (poc_message vk live fmt args s) f) Q"
  by (rule good_runs_to [OF assms(1) runs_message [OF hw_step_clock [OF assms(1,2)]]]) (rule assms(3))

lemma good_wait [walk]:
  assumes "hw_step W s0 s" and "clock_advances s0" and "\<And>v t. hw_step W s0 t \<Longrightarrow> good W s0 (f v t) Q"
  shows "good W s0 (Option.bind (wait_packet_status msk want n s) (\<lambda>(v, t). f v t)) Q"
  by (rule good_runs [OF assms(1) runs_wait_packet [OF hw_step_clock [OF assms(1,2)]]]) (use assms(3) in simp)

lemma good_wait_last [walk]:
  assumes "hw_step W s0 s" and "clock_advances s0" and "\<And>v t. hw_step W s0 t \<Longrightarrow> Q v t"
  shows "good W s0 (wait_packet_status msk want n s) Q"
  using runs_wait_packet [OF hw_step_clock [OF assms(1,2)], of W msk want n] assms(3)
    hw_step_trans [OF assms(1)]
  by (auto simp: runs_def good_def)

lemma step_write [walk]: "hw_step W s0 s \<Longrightarrow> (a, v) \<in> W \<Longrightarrow> hw_step W s0 (wr32le a v s)"
  using hw_step_trans hw_step_write by blast

lemma step_tail [walk]:
  "hw_step setup_writes s0 s \<Longrightarrow> hw_step setup_writes s0 (fold (\<lambda>reg. wr32le reg 0) infoframe_tail s)"
  using hw_step_trans infoframe_tail_step by blast

lemma step_program [walk]:
  "hw_step setup_writes s0 s \<Longrightarrow> hw_step setup_writes s0 (program_audio n m a c s)"
  using hw_step_trans program_audio_step by blast

lemma good_infoframe:
  assumes "clock_advances s0" and "hw_step setup_writes s0 s"
  shows "good setup_writes s0 (install_audio_infoframe s) (\<lambda>_ t. hw_step setup_writes s0 t)"
  unfolding install_audio_infoframe_def Let_def
  by (intro walk assms) (simp_all add: audio_register_facts not_mai_ctl)

lemma good_hsm:
  assumes "hw_step W s0 s"
  shows "good W s0 (get_hsm_clock_rate s) (\<lambda>_ t. hw_step W s0 t)"
  unfolding get_hsm_clock_rate_def Let_def
  by (intro walk assms) simp_all

lemma good_pixel:
  assumes "clock_advances s0" and "hw_step W s0 s"
  shows "good W s0 (get_pixel_clock_rate vk s) (\<lambda>_ t. hw_step W s0 t)"
  unfolding get_pixel_clock_rate_def Let_def
  by (intro walk assms) (auto split: sum.splits intro!: walk assms(1))

definition enabled_from :: "'a io_state_scheme \<Rightarrow> bool \<Rightarrow> 'a io_state_scheme \<Rightarrow> bool" where
  "enabled_from s0 ok s' \<longleftrightarrow>
     (if ok then \<exists>t. hw_step setup_writes s0 t \<and> hw_step {} (wr32le HD_MAI_CTL MAI_CTL_RUN t) s'
      else hw_step setup_writes s0 s')"

lemma good_rebase: "good V u r Q \<Longrightarrow> good W s0 r Q"
  by (simp add: good_def)

lemma good_finish:
  assumes "clock_advances s0" and "hw_step setup_writes s0 t"
  shows "good setup_writes s0
     (Option.bind (rd32le HD_MAI_CTL (wr32le HD_MAI_CTL MAI_CTL_RUN t))
        (\<lambda>(ctl, s). Option.bind (poc_message vk False fmt [ctl] s) (\<lambda>s. Some (True, s))))
     (enabled_from s0)"
proof -
  let ?u = "wr32le HD_MAI_CTL MAI_CTL_RUN t"
  have u: "clock_advances ?u"
    using hw_step_clock [OF assms(2,1)] by (simp add: wr32le_def clock_advances_def)
  show ?thesis
    by (rule good_rebase [of "{}" ?u], intro walk u hw_step_refl)
       (use assms(2) in \<open>auto simp: enabled_from_def\<close>)
qed

lemma good_start:
  assumes "clock_advances s0" and "hw_step setup_writes s0 s"
  shows "good setup_writes s0 (hdmi_audio_start vk hsm pixel n m s) (enabled_from s0)"
proof -
  have info: "hw_step setup_writes s0 t \<Longrightarrow> (\<And>v u. hw_step setup_writes s0 u \<Longrightarrow> good setup_writes s0 (f v u) Q) \<Longrightarrow>
      good setup_writes s0 (Option.bind (install_audio_infoframe t) (\<lambda>(v, u). f v u)) Q"
    for t f and Q :: "bool \<Rightarrow> 'a diag_state_scheme \<Rightarrow> bool"
    using good_infoframe [OF assms(1), of t] by (auto simp: good_def)
  show ?thesis
    unfolding hdmi_audio_start_def Let_def
    by (intro walk info good_finish assms)
       (simp_all add: enabled_from_def audio_register_facts not_mai_ctl)
qed

lemma good_init:
  assumes "clock_advances s"
  shows "good setup_writes s (hdmi_audio_init vk s) (enabled_from s)"
proof -
  have hsm: "hw_step setup_writes s t \<Longrightarrow> (\<And>v u. hw_step setup_writes s u \<Longrightarrow> good setup_writes s (f v u) Q) \<Longrightarrow>
      good setup_writes s (Option.bind (get_hsm_clock_rate t) (\<lambda>(v, u). f v u)) Q"
    for t f and Q :: "bool \<Rightarrow> 'a diag_state_scheme \<Rightarrow> bool"
    using good_hsm [of setup_writes s t] by (auto simp: good_def)
  have pixel: "hw_step setup_writes s t \<Longrightarrow> (\<And>v u. hw_step setup_writes s u \<Longrightarrow> good setup_writes s (f v u) Q) \<Longrightarrow>
      good setup_writes s (Option.bind (get_pixel_clock_rate vk t) (\<lambda>(v, u). f v u)) Q"
    for t f and Q :: "bool \<Rightarrow> 'a diag_state_scheme \<Rightarrow> bool"
    using good_pixel [OF assms, of setup_writes t vk] by (auto simp: good_def)
  have ratio: "(r = None \<Longrightarrow> good setup_writes s x Q) \<Longrightarrow> (\<And>n m. r = Some (n, m) \<Longrightarrow> good setup_writes s (f n m) Q) \<Longrightarrow>
      good setup_writes s (case r of None \<Rightarrow> x | Some (n, m) \<Rightarrow> f n m) Q"
    for r :: "(u32 \<times> u32) option" and x f and Q :: "bool \<Rightarrow> 'a diag_state_scheme \<Rightarrow> bool"
    by (auto split: option.splits)
  show ?thesis
    unfolding hdmi_audio_init_def
    by (intro walk hsm pixel ratio good_start assms hw_step_refl) (simp_all add: enabled_from_def)
qed

text \<open>
  C15: whatever the hardware answers, initialisation ends and writes audio registers only: no
  clock, PLL or video register is ever written. The audio output is enabled exactly when it
  reports success, as its last write.
\<close>

theorem hdmi_init_safe:
  assumes "clock_advances s"
  shows "\<exists>ok s' ws. hdmi_audio_init vk s = Some (ok, s') \<and> io_writes s' = ws @ io_writes s \<and>
     fst ` set ws \<subseteq> audio_registers \<and>
     ok = ((HD_MAI_CTL, MAI_CTL_RUN) \<in> set ws) \<and>
     (if ok then hd ws = (HD_MAI_CTL, MAI_CTL_RUN) else True)"
proof -
  obtain ok s' where r: "hdmi_audio_init vk s = Some (ok, s')" and e: "enabled_from s ok s'"
    using good_init [OF assms, of vk] by (auto simp: good_def)
  show ?thesis
  proof (cases ok)
    case True
    then obtain t where t: "hw_step setup_writes s t" "hw_step {} (wr32le HD_MAI_CTL MAI_CTL_RUN t) s'"
      using e by (auto simp: enabled_from_def)
    obtain ws where ws: "io_writes t = ws @ io_writes s" "set ws \<subseteq> setup_writes"
      using t(1) by (auto simp: hw_step_def)
    have "io_writes s' = ((HD_MAI_CTL, MAI_CTL_RUN) # ws) @ io_writes s"
      using t(2) ws(1) by (simp add: hw_step_def wr32le_def)
    moreover have "fst ` set ((HD_MAI_CTL, MAI_CTL_RUN) # ws) \<subseteq> audio_registers"
      using ws(2) audio_register_facts(1) by (auto simp: setup_writes_def)
    ultimately show ?thesis
      using r True by (intro exI [of _ ok] exI [of _ s'] exI [of _ "(HD_MAI_CTL, MAI_CTL_RUN) # ws"]) simp
  next
    case False
    then obtain ws where "io_writes s' = ws @ io_writes s" "set ws \<subseteq> setup_writes"
      using e by (auto simp: enabled_from_def hw_step_def)
    then show ?thesis
      using r False by (intro exI [of _ ok] exI [of _ s'] exI [of _ ws]) (auto simp: setup_writes_def)
  qed
qed

theorem hdmi_init_safe_witness:
  "\<exists>ok s'. hdmi_audio_init (\<lambda>f a. []) diag_demo = Some (ok, s') \<and> fst ` set (io_writes s') \<subseteq> audio_registers"
proof -
  have "io_writes diag_demo = []"
    by (simp add: diag_demo_def mirror.defs)
  then show ?thesis
    using hdmi_init_safe [OF counting_clock_advances [OF diag_demo_fields(1)], of "\<lambda>f a. []"] by auto
qed

end
