(* ===== verification/Replay.thy ===== *)
theory Replay
  imports Prelude
begin

text \<open>
  The audio frame clock of \<open>source/src/raspi/paula/paula_replay.h\<close>: the counter value of
  the frame being rendered, advanced by one 48000th of a second with an integer remainder.
\<close>

record paula_replay_clock =
  rc_tick :: u64
  rc_remainder :: u32
  rc_frequency :: u32

definition paula_replay_start :: "u64 \<Rightarrow> u32 \<Rightarrow> u64 \<Rightarrow> paula_replay_clock" where
  "paula_replay_start now frequency latency =
     \<lparr>rc_tick = (if now > latency then now - latency else 0), rc_remainder = 0,
      rc_frequency = frequency\<rparr>"

definition paula_replay_advance :: "paula_replay_clock \<Rightarrow> paula_replay_clock" where
  "paula_replay_advance c =
     (let tick = rc_tick c + ucast (rc_frequency c div 48000);
          remainder = rc_remainder c + rc_frequency c mod 48000
      in if remainder \<ge> 48000
         then c\<lparr>rc_tick := tick + 1, rc_remainder := remainder - 48000\<rparr>
         else c\<lparr>rc_tick := tick, rc_remainder := remainder\<rparr>)"

definition paula_replay_due :: "u64 \<Rightarrow> u64 \<Rightarrow> bool" where
  "paula_replay_due now target \<longleftrightarrow> sint (now - target) \<ge> 0"

definition paula_replay_late :: "paula_replay_clock \<Rightarrow> u64 \<Rightarrow> u64 \<Rightarrow> u64 \<Rightarrow> bool" where
  "paula_replay_late c now latency limit \<longleftrightarrow> sint (now - rc_tick c) > sint (latency + limit)"

section \<open>No drift\<close>

lemma carry_arith:
  fixes t q r m f :: nat
  assumes "f = 48000 * q + m"
  shows "48000 \<le> r + m \<Longrightarrow> (t + q + 1) * 48000 + (r + m - 48000) = t * 48000 + r + f"
    and "(t + q) * 48000 + (r + m) = t * 48000 + r + f"
  using assms by simp_all

lemma quotient_unique:
  fixes t r t0 x :: nat
  assumes "t * 48000 + r = t0 * 48000 + x" and "r < 48000"
  shows "t = t0 + x div 48000"
proof -
  have "t = (t * 48000 + r) div 48000"
    using assms(2) by simp
  also have "\<dots> = t0 + x div 48000"
    unfolding assms(1) by simp
  finally show ?thesis .
qed

lemma advance_step:
  assumes "rc_remainder c < 48000" and "unat (rc_tick c) + unat (rc_frequency c) div 48000 + 1 < 2 ^ 64"
  shows "rc_remainder (paula_replay_advance c) < 48000"
    and "unat (rc_tick (paula_replay_advance c)) * 48000 + unat (rc_remainder (paula_replay_advance c))
           = unat (rc_tick c) * 48000 + unat (rc_remainder c) + unat (rc_frequency c)"
    and "rc_frequency (paula_replay_advance c) = rc_frequency c"
proof -
  let ?f = "unat (rc_frequency c)" and ?r = "unat (rc_remainder c)" and ?t = "unat (rc_tick c)"
  let ?rem = "rc_remainder c + rc_frequency c mod 48000"
  let ?tick = "rc_tick c + ucast (rc_frequency c div 48000) :: u64"
  have r: "?r < 48000"
    using assms(1) by (simp add: word_less_nat_alt)
  have md: "unat (rc_frequency c mod 48000) = ?f mod 48000" and dv: "unat (rc_frequency c div 48000) = ?f div 48000"
    by (simp_all add: unat_mod unat_div)
  have fm: "?f mod 48000 < 48000"
    by simp
  have rem: "unat ?rem = ?r + ?f mod 48000"
    using unat_add_small [of "rc_remainder c" "rc_frequency c mod 48000"] r fm md by simp
  have tick: "unat ?tick = ?t + ?f div 48000"
    using unat_add_small [of "rc_tick c" "ucast (rc_frequency c div 48000)"] dv assms(2) by simp
  have tick1: "unat (?tick + 1) = ?t + ?f div 48000 + 1"
    using unat_add_small [of ?tick 1] tick assms(2) by simp
  have f: "?f = 48000 * (?f div 48000) + ?f mod 48000"
    by simp
  have "rc_remainder (paula_replay_advance c) < 48000 \<and>
      unat (rc_tick (paula_replay_advance c)) * 48000 + unat (rc_remainder (paula_replay_advance c))
           = ?t * 48000 + ?r + ?f"
  proof (cases "?rem \<ge> 48000")
    case True
    then have ge: "48000 \<le> ?r + ?f mod 48000"
      using rem by (simp add: word_le_nat_alt)
    have sub: "unat (?rem - 48000) = ?r + ?f mod 48000 - 48000"
      using True rem by (simp add: unat_sub)
    have "?rem - 48000 < 48000"
      using sub r fm ge by (simp add: word_less_nat_alt)
    moreover have "(?t + ?f div 48000 + 1) * 48000 + (?r + ?f mod 48000 - 48000) = ?t * 48000 + ?r + ?f"
      by (rule carry_arith(1) [OF f ge])
    ultimately show ?thesis
      using True sub tick1 by (simp add: paula_replay_advance_def Let_def)
  next
    case False
    have "(?t + ?f div 48000) * 48000 + (?r + ?f mod 48000) = ?t * 48000 + ?r + ?f"
      by (rule carry_arith(2) [OF f])
    then show ?thesis
      using False rem tick by (simp add: paula_replay_advance_def Let_def)
  qed
  then show "rc_remainder (paula_replay_advance c) < 48000"
    and "unat (rc_tick (paula_replay_advance c)) * 48000 + unat (rc_remainder (paula_replay_advance c))
           = unat (rc_tick c) * 48000 + unat (rc_remainder c) + unat (rc_frequency c)"
    by simp_all
  show "rc_frequency (paula_replay_advance c) = rc_frequency c"
    by (simp add: paula_replay_advance_def Let_def)
qed

text \<open>
  C12: the frame clock does not drift. After \<open>k\<close> frames the clock has advanced by exactly
  \<open>k\<close> 48000ths of the counter frequency: tick and remainder together hold the exact
  rational, with the remainder below one tick, as long as the counter does not wrap.
\<close>

theorem replay_clock_no_drift:
  assumes "unat now * 48000 + k * unat frequency + 48000 * unat frequency + 96000 < 2 ^ 64 * 48000"
  shows "let c = paula_replay_start now frequency latency; c' = (paula_replay_advance ^^ k) c in
     unat (rc_tick c') * 48000 + unat (rc_remainder c') = unat (rc_tick c) * 48000 + k * unat frequency \<and>
     rc_remainder c' < 48000 \<and>
     unat (rc_tick c') = unat (rc_tick c) + k * unat frequency div 48000"
proof -
  let ?c = "paula_replay_start now frequency latency"
  have t0: "unat (rc_tick ?c) \<le> unat now"
    by (auto simp: paula_replay_start_def unat_sub word_less_nat_alt word_le_nat_alt)
  have "unat (rc_tick ((paula_replay_advance ^^ j) ?c)) * 48000 + unat (rc_remainder ((paula_replay_advance ^^ j) ?c))
          = unat (rc_tick ?c) * 48000 + j * unat frequency \<and>
        rc_remainder ((paula_replay_advance ^^ j) ?c) < 48000 \<and>
        rc_frequency ((paula_replay_advance ^^ j) ?c) = frequency" if "j \<le> k" for j
    using that
  proof (induction j)
    case 0
    then show ?case by (simp add: paula_replay_start_def)
  next
    case (Suc j)
    let ?d = "(paula_replay_advance ^^ j) ?c"
    have ih: "unat (rc_tick ?d) * 48000 + unat (rc_remainder ?d) = unat (rc_tick ?c) * 48000 + j * unat frequency"
      "rc_remainder ?d < 48000" "rc_frequency ?d = frequency"
      using Suc by simp_all
    have "j * unat frequency \<le> k * unat frequency"
      using Suc.prems by simp
    then have "unat (rc_tick ?d) * 48000 \<le> unat now * 48000 + k * unat frequency"
      using ih(1) t0 by linarith
    moreover have "unat frequency div 48000 * 48000 \<le> unat frequency"
      by simp
    ultimately have "(unat (rc_tick ?d) + unat frequency div 48000 + 1) * 48000 < 2 ^ 64 * 48000"
      using assms by (simp add: algebra_simps)
    then have "unat (rc_tick ?d) + unat (rc_frequency ?d) div 48000 + 1 < 2 ^ 64"
      using ih(3) by (simp only: mult_less_cancel2)
    from advance_step [OF ih(2) this] ih show ?case
      by (simp add: algebra_simps)
  qed
  from this [of k] have *: "unat (rc_tick ((paula_replay_advance ^^ k) ?c)) * 48000 + unat (rc_remainder ((paula_replay_advance ^^ k) ?c))
          = unat (rc_tick ?c) * 48000 + k * unat frequency" "rc_remainder ((paula_replay_advance ^^ k) ?c) < 48000"
    by simp_all
  have "unat (rc_remainder ((paula_replay_advance ^^ k) ?c)) < 48000"
    using *(2) by (simp add: word_less_nat_alt)
  then have "unat (rc_tick ((paula_replay_advance ^^ k) ?c)) = unat (rc_tick ?c) + k * unat frequency div 48000"
    by (rule quotient_unique [OF *(1)])
  with * show ?thesis by (simp add: Let_def)
qed

theorem replay_clock_no_drift_witness:
  "unat (rc_tick ((paula_replay_advance ^^ 48000) (paula_replay_start 1000000 19200001 0))) = 20200001"
proof -
  have "unat (1000000 :: u64) * 48000 + 48000 * unat (19200001 :: u32) + 48000 * unat (19200001 :: u32)
      + 96000 < 2 ^ 64 * 48000"
    by simp
  note exact = replay_clock_no_drift [OF this, of 0, unfolded Let_def, THEN conjunct2, THEN conjunct2]
  have "unat (rc_tick ((paula_replay_advance ^^ 48000) (paula_replay_start 1000000 19200001 0)))
     = unat (rc_tick (paula_replay_start 1000000 19200001 0)) + 48000 * unat (19200001 :: u32) div 48000"
    by (rule exact)
  also have "\<dots> = 20200001"
    by (simp add: paula_replay_start_def)
  finally show ?thesis .
qed

section \<open>Due and late\<close>

lemma sint_diff:
  fixes a b :: u64
  assumes "\<bar>uint a - uint b\<bar> < 2 ^ 63"
  shows "sint (a - b) = uint a - uint b"
proof -
  have "uint (a - b) = take_bit 64 (uint a - uint b)"
    by (simp add: uint_word_ariths take_bit_eq_mod)
  then have "sint (a - b) = signed_take_bit 63 (uint a - uint b)"
    by (simp add: sint_uint signed_take_bit_take_bit)
  also have "\<dots> = uint a - uint b"
    using assms by (intro signed_take_bit_int_eq_self) auto
  finally show ?thesis .
qed

text \<open>
  The signed difference decides due and late as the comparison of the counter values, for
  values less than \<open>2 ^ 63\<close> ticks apart: an event is due when its time has come, and the
  replay is late when the frame clock is more than latency plus limit behind.
\<close>

theorem replay_due_late:
  assumes "\<bar>uint now - uint (rc_tick c)\<bar> < 2 ^ 63" and "\<bar>uint now - uint target\<bar> < 2 ^ 63"
    and "uint latency + uint limit < 2 ^ 63"
  shows "(paula_replay_due now target \<longleftrightarrow> target \<le> now) \<and>
    (paula_replay_late c now latency limit \<longleftrightarrow>
       uint (rc_tick c) + uint latency + uint limit < uint now)"
proof -
  have "uint (latency + limit) = uint latency + uint limit"
    using assms(3) by (simp add: uint_word_ariths)
  then have "sint (latency + limit) = uint latency + uint limit"
    using assms(3) sint_diff [of "latency + limit" 0] by simp
  then show ?thesis
    using sint_diff [OF assms(1)] sint_diff [OF assms(2)]
    by (auto simp: paula_replay_due_def paula_replay_late_def word_le_def)
qed

theorem replay_due_late_witness:
  "paula_replay_due 5000 4999 \<and> paula_replay_late (paula_replay_start 100 1000 50) 500 50 250"
  using replay_due_late [of 500 "paula_replay_start 100 1000 50" 400 50 250]
    replay_due_late [of 5000 "paula_replay_start 5000 1000 0" 4999 50 250]
  by (simp add: paula_replay_start_def)

end
