(* ===== verification/Paula.thy ===== *)
theory Paula
  imports Complex_Main Prelude
begin

text \<open>
  The sound chip of \<open>source/src/raspi/paula/paula.cpp\<close> and \<open>source/src/raspi/paula/paula.h\<close>: the
  registers, the sample DMA of the four channels, and the mixer. Registers and DMA are
  integers at their width. The mixer computes in \<open>double\<close> and \<open>float\<close>: these are two
  types of any kind, and the operations the source uses on them are the fields of
  \<open>float_unit\<close>, applied in the order of the source, so that what is proved holds for
  every rounding. The two callbacks are \<open>callbacks\<close>; they work on a state of their own, and
  the core on its own, as the callbacks of the firmware never call the core.
\<close>

section \<open>Arithmetic and callbacks\<close>

record ('d, 'f) float_unit =
  d_lit :: "rat \<Rightarrow> 'd"
  d_add :: "'d \<Rightarrow> 'd \<Rightarrow> 'd"
  d_sub :: "'d \<Rightarrow> 'd \<Rightarrow> 'd"
  d_mul :: "'d \<Rightarrow> 'd \<Rightarrow> 'd"
  d_div :: "'d \<Rightarrow> 'd \<Rightarrow> 'd"
  d_le :: "'d \<Rightarrow> 'd \<Rightarrow> bool"
  f_lit :: "rat \<Rightarrow> 'f"
  f_of_d :: "'d \<Rightarrow> 'f"
  f_add :: "'f \<Rightarrow> 'f \<Rightarrow> 'f"
  f_sub :: "'f \<Rightarrow> 'f \<Rightarrow> 'f"
  f_mul :: "'f \<Rightarrow> 'f \<Rightarrow> 'f"
  f_div :: "'f \<Rightarrow> 'f \<Rightarrow> 'f"
  f_neg :: "'f \<Rightarrow> 'f"
  f_less :: "'f \<Rightarrow> 'f \<Rightarrow> bool"
  f_trunc :: "'f \<Rightarrow> int"

text \<open>A null function pointer is \<open>None\<close>.\<close>

record 's callbacks =
  cb_read :: "(u32 \<Rightarrow> 's \<Rightarrow> u8 \<times> 's) option"
  cb_interrupt :: "(u16 \<Rightarrow> 's \<Rightarrow> 's) option"

definition setReadByteCallback :: "(u32 \<Rightarrow> 's \<Rightarrow> u8 \<times> 's) \<Rightarrow> 's callbacks \<Rightarrow> 's callbacks" where
  "setReadByteCallback fn cb = cb\<lparr>cb_read := Some fn\<rparr>"

definition setInterruptCallback :: "(u16 \<Rightarrow> 's \<Rightarrow> 's) \<Rightarrow> 's callbacks \<Rightarrow> 's callbacks" where
  "setInterruptCallback fn cb = cb\<lparr>cb_interrupt := Some fn\<rparr>"

declare setReadByteCallback_def [simp] setInterruptCallback_def [simp]

section \<open>State\<close>

abbreviation (input) kPaulaChannels :: nat where "kPaulaChannels \<equiv> 4"
abbreviation (input) kReg_DMACON :: u32 where "kReg_DMACON \<equiv> 0x096"
abbreviation (input) kReg_DMACONR :: u32 where "kReg_DMACONR \<equiv> 0x002"
abbreviation (input) kReg_INTREQ :: u32 where "kReg_INTREQ \<equiv> 0x09C"
abbreviation (input) kReg_INTREQR :: u32 where "kReg_INTREQR \<equiv> 0x01E"
abbreviation (input) kReg_INTENA :: u32 where "kReg_INTENA \<equiv> 0x09A"
abbreviation (input) kReg_INTENAR :: u32 where "kReg_INTENAR \<equiv> 0x01C"
abbreviation (input) kReg_ADKCON :: u32 where "kReg_ADKCON \<equiv> 0x09E"
abbreviation (input) kReg_ADKCONR :: u32 where "kReg_ADKCONR \<equiv> 0x010"
abbreviation (input) kDmaConMaster :: u16 where "kDmaConMaster \<equiv> 0x0200"

definition kRegAudBase :: "nat \<Rightarrow> u32" where
  "kRegAudBase ch = 0x0A0 + word_of_nat ch * 0x10"

datatype Interp = Nearest | Linear

record ('d, 'f) channel =
  locPtrLatched :: u32
  lenWordsLatched :: u32
  ch_period :: u16
  ch_volume :: u16
  curPtr :: u32
  curWordsLeft :: u32
  curSampleL :: u8
  curSampleH :: u8
  onLowByte :: bool
  ch_phase :: 'd
  dmaWantsRestart :: bool
  curOut :: u8
  nextOut :: u8
  gainSmoothed :: 'f

definition channel_init :: "('d, 'f) float_unit \<Rightarrow> ('d, 'f) channel" where
  "channel_init fu =
     \<lparr>locPtrLatched = 0, lenWordsLatched = 0, ch_period = 1, ch_volume = 0, curPtr = 0,
      curWordsLeft = 0, curSampleL = 0, curSampleH = 0, onLowByte = True, ch_phase = d_lit fu 0,
      dmaWantsRestart = True, curOut = 0, nextOut = 0, gainSmoothed = f_lit fu 0\<rparr>"

record ('d, 'f) paula =
  pa_clockHz :: 'd
  pa_interp :: Interp
  pa_stereoSep :: 'f
  pa_gainSmoothCoeff :: 'f
  pa_channels :: "nat \<Rightarrow> ('d, 'f) channel"
  pa_channelMuted :: "nat \<Rightarrow> bool"
  pa_channelMixGain :: "nat \<Rightarrow> 'f"
  pa_stereoCurrent :: 'f
  pa_dmaCon :: u16
  pa_intReq :: u16
  pa_intEna :: u16
  pa_adkCon :: u16
  pa_vhposr :: u16

definition upd_channel ::
    "nat \<Rightarrow> (('d, 'f) channel \<Rightarrow> ('d, 'f) channel) \<Rightarrow> ('d, 'f) paula \<Rightarrow> ('d, 'f) paula" where
  "upd_channel ch f p = p\<lparr>pa_channels := (pa_channels p)(ch := f (pa_channels p ch))\<rparr>"

definition Paula_reset :: "('d, 'f) float_unit \<Rightarrow> ('d, 'f) paula \<Rightarrow> ('d, 'f) paula" where
  "Paula_reset fu p =
     p\<lparr>pa_channels := (\<lambda>ch. if ch < kPaulaChannels then channel_init fu else pa_channels p ch),
       pa_dmaCon := 0, pa_intReq := 0, pa_intEna := 0, pa_adkCon := 0, pa_vhposr := 0\<rparr>"

text \<open>The constructor: the default member values, then \<open>reset\<close>.\<close>

definition Paula_new :: "('d, 'f) float_unit \<Rightarrow> 'd \<Rightarrow> ('d, 'f) paula" where
  "Paula_new fu clockHz =
     Paula_reset fu
       \<lparr>pa_clockHz = clockHz, pa_interp = Nearest, pa_stereoSep = f_lit fu (85 / 100),
        pa_gainSmoothCoeff = f_lit fu (2 / 100), pa_channels = (\<lambda>_. channel_init fu),
        pa_channelMuted = (\<lambda>_. False), pa_channelMixGain = (\<lambda>_. f_lit fu 1),
        pa_stereoCurrent = f_lit fu 1, pa_dmaCon = 0, pa_intReq = 0, pa_intEna = 0,
        pa_adkCon = 0, pa_vhposr = 0\<rparr>"

section \<open>Registers\<close>

definition dma_enabled :: "u16 \<Rightarrow> nat \<Rightarrow> bool" where
  "dma_enabled dmaCon ch \<longleftrightarrow> dmaCon AND push_bit ch 1 \<noteq> 0 \<and> dmaCon AND kDmaConMaster \<noteq> 0"

definition channel_restart :: "('d, 'f) float_unit \<Rightarrow> ('d, 'f) channel \<Rightarrow> ('d, 'f) channel" where
  "channel_restart fu c =
     (if \<not> dmaWantsRestart c then c
      else c\<lparr>curPtr := locPtrLatched c, curWordsLeft := lenWordsLatched c, onLowByte := True,
             curSampleL := 0, curSampleH := 0, curOut := 0, nextOut := 0, ch_phase := d_lit fu 0,
             dmaWantsRestart := False\<rparr>)"

definition dmacon_channel :: "('d, 'f) float_unit \<Rightarrow> nat \<Rightarrow> ('d, 'f) paula \<Rightarrow> ('d, 'f) paula" where
  "dmacon_channel fu ch p =
     (if dma_enabled (pa_dmaCon p) ch then upd_channel ch (channel_restart fu) p
      else upd_channel ch (\<lambda>c. c\<lparr>dmaWantsRestart := True\<rparr>) p)"

fun channel_register_write ::
    "nat list \<Rightarrow> u32 \<Rightarrow> u16 \<Rightarrow> ('d, 'f) paula \<Rightarrow> ('d, 'f) paula" where
  "channel_register_write [] reg value p = p"
| "channel_register_write (ch # chs) reg value p =
     (if reg = kRegAudBase ch then
        upd_channel ch (\<lambda>c. c\<lparr>locPtrLatched := (locPtrLatched c AND 0x0000FFFF) OR push_bit 16 (ucast value)\<rparr>) p
      else if reg = kRegAudBase ch + 2 then
        upd_channel ch (\<lambda>c. c\<lparr>locPtrLatched := (locPtrLatched c AND 0xFFFF0000) OR ucast value\<rparr>) p
      else if reg = kRegAudBase ch + 4 then
        upd_channel ch (\<lambda>c. c\<lparr>lenWordsLatched := (if value \<noteq> 0 then ucast value else 65536)\<rparr>) p
      else if reg = kRegAudBase ch + 6 then
        upd_channel ch (\<lambda>c. c\<lparr>ch_period := (if value \<noteq> 0 then value else 1)\<rparr>) p
      else if reg = kRegAudBase ch + 8 then
        upd_channel ch (\<lambda>c. c\<lparr>ch_volume := value AND 0x7F\<rparr>) p
      else if reg = kRegAudBase ch + 0xA then p
      else channel_register_write chs reg value p)"

definition writeRegister16 ::
    "('d, 'f) float_unit \<Rightarrow> u32 \<Rightarrow> u16 \<Rightarrow> ('d, 'f) paula \<Rightarrow> ('d, 'f) paula" where
  "writeRegister16 fu addr value p =
     (let reg = addr AND 0xFFF in
      if reg = kReg_DMACON then
        fold (dmacon_channel fu) [0..<kPaulaChannels] (p\<lparr>pa_dmaCon := setclr16 (pa_dmaCon p) value\<rparr>)
      else if reg = kReg_INTREQ then p\<lparr>pa_intReq := setclr16 (pa_intReq p) value\<rparr>
      else if reg = kReg_INTENA then p\<lparr>pa_intEna := setclr16 (pa_intEna p) value\<rparr>
      else if reg = kReg_ADKCON then p\<lparr>pa_adkCon := setclr16 (pa_adkCon p) value\<rparr>
      else channel_register_write [0..<kPaulaChannels] reg value p)"

definition setLoop :: "int \<Rightarrow> u32 \<Rightarrow> u16 \<Rightarrow> ('d, 'f) paula \<Rightarrow> ('d, 'f) paula" where
  "setLoop ch loc lenWords p =
     (if ch < 0 \<or> ch \<ge> int kPaulaChannels then p
      else upd_channel (nat ch)
             (\<lambda>c. c\<lparr>locPtrLatched := loc,
                    lenWordsLatched := (if lenWords \<noteq> 0 then ucast lenWords else 65536)\<rparr>) p)"

text \<open>Reads are \<open>const\<close> in the source but move the \<open>mutable\<close> beam counter.\<close>

definition readRegister16 :: "u32 \<Rightarrow> ('d, 'f) paula \<Rightarrow> u16 \<times> ('d, 'f) paula" where
  "readRegister16 addr p =
     (let reg = addr AND 0xFFF in
      if reg = kReg_DMACONR then (pa_dmaCon p, p)
      else if reg = kReg_INTREQR then (pa_intReq p, p)
      else if reg = kReg_INTENAR then (pa_intEna p, p)
      else if reg = kReg_ADKCONR then (pa_adkCon p, p)
      else if reg = 0x006 then
        let v = (pa_vhposr p + 0x0100) AND 0xFFFF in (v, p\<lparr>pa_vhposr := v\<rparr>)
      else if reg = 0x004 then
        let v = (pa_vhposr p + 0x0100) AND 0xFFFF in (drop_bit 8 v AND 0x00FF, p\<lparr>pa_vhposr := v\<rparr>)
      else (0, p))"

definition setStereoSeparation :: "('d, 'f) float_unit \<Rightarrow> 'f \<Rightarrow> ('d, 'f) paula \<Rightarrow> ('d, 'f) paula" where
  "setStereoSeparation fu x p =
     p\<lparr>pa_stereoSep := (if f_less fu x (f_lit fu 0) then f_lit fu 0
                        else if f_less fu (f_lit fu 1) x then f_lit fu 1 else x)\<rparr>"

definition setClockHz :: "'d \<Rightarrow> ('d, 'f) paula \<Rightarrow> ('d, 'f) paula" where
  "setClockHz hz p = p\<lparr>pa_clockHz := hz\<rparr>"

definition setInterpolation :: "Interp \<Rightarrow> ('d, 'f) paula \<Rightarrow> ('d, 'f) paula" where
  "setInterpolation mode p = p\<lparr>pa_interp := mode\<rparr>"

definition setChannelMuted :: "int \<Rightarrow> bool \<Rightarrow> ('d, 'f) paula \<Rightarrow> ('d, 'f) paula" where
  "setChannelMuted ch muted p =
     (if ch \<ge> 0 \<and> ch < int kPaulaChannels
      then p\<lparr>pa_channelMuted := (pa_channelMuted p)(nat ch := muted)\<rparr> else p)"

section \<open>Peeking at a channel\<close>

record fetch_state =
  fs_enabled :: bool
  fs_cursor :: u32
  fs_words_left :: u32
  fs_loop :: u32
  fs_loop_words :: u32

definition fetchState :: "('d, 'f) paula \<Rightarrow> int \<Rightarrow> fetch_state" where
  "fetchState p ch =
     (if ch < 0 \<or> ch \<ge> int kPaulaChannels
      then \<lparr>fs_enabled = False, fs_cursor = 0, fs_words_left = 0, fs_loop = 0, fs_loop_words = 0\<rparr>
      else
        let c = pa_channels p (nat ch);
            s = \<lparr>fs_enabled = dma_enabled (pa_dmaCon p) (nat ch), fs_cursor = curPtr c,
                 fs_words_left = curWordsLeft c, fs_loop = locPtrLatched c,
                 fs_loop_words = lenWordsLatched c\<rparr>
        in if dmaWantsRestart c \<or> (onLowByte c \<and> fs_words_left s = 0)
           then s\<lparr>fs_cursor := fs_loop s, fs_words_left := fs_loop_words s\<rparr> else s)"

record channel_state =
  cs_locPtr :: u32
  cs_lenWords :: u16
  cs_periodTicks :: u16
  cs_volume :: u16
  cs_dmaEnabled :: bool

definition channelState :: "('d, 'f) paula \<Rightarrow> int \<Rightarrow> channel_state" where
  "channelState p ch =
     (if ch < 0 \<or> ch \<ge> int kPaulaChannels
      then \<lparr>cs_locPtr = 0, cs_lenWords = 0, cs_periodTicks = 0, cs_volume = 0, cs_dmaEnabled = False\<rparr>
      else
        let c = pa_channels p (nat ch)
        in \<lparr>cs_locPtr = locPtrLatched c, cs_lenWords = ucast (lenWordsLatched c),
            cs_periodTicks = ch_period c, cs_volume = ch_volume c,
            cs_dmaEnabled = dma_enabled (pa_dmaCon p) (nat ch)\<rparr>)"

section \<open>Sample DMA\<close>

definition channel_reload ::
    "'s callbacks \<Rightarrow> nat \<Rightarrow> ('d, 'f) paula \<times> 's \<Rightarrow> ('d, 'f) paula \<times> 's" where
  "channel_reload cb chIdx x =
     (let (p, s) = x; intBit = push_bit chIdx 0x80 :: u16;
          p = upd_channel chIdx (\<lambda>c. c\<lparr>curPtr := locPtrLatched c, curWordsLeft := lenWordsLatched c\<rparr>) p;
          p = p\<lparr>pa_intReq := pa_intReq p OR intBit\<rparr>
      in (p, case cb_interrupt cb of Some f \<Rightarrow> f intBit s | None \<Rightarrow> s))"

definition channel_fetch ::
    "(u32 \<Rightarrow> 's \<Rightarrow> u8 \<times> 's) \<Rightarrow> nat \<Rightarrow> ('d, 'f) paula \<times> 's \<Rightarrow> ('d, 'f) paula \<times> 's" where
  "channel_fetch read chIdx x =
     (let (p, s) = x; c = pa_channels p chIdx;
          (l, s) = read (curPtr c) s;
          (h, s) = read (curPtr c + 1) s
      in (upd_channel chIdx
            (\<lambda>c. c\<lparr>curSampleL := l, curSampleH := h, curPtr := curPtr c + 2,
                   curWordsLeft := (if curWordsLeft c > 0 then curWordsLeft c - 1 else curWordsLeft c),
                   curOut := nextOut c, nextOut := l, onLowByte := False\<rparr>) p, s))"

definition advanceOneSourceSample ::
    "'s callbacks \<Rightarrow> nat \<Rightarrow> ('d, 'f) paula \<times> 's \<Rightarrow> ('d, 'f) paula \<times> 's" where
  "advanceOneSourceSample cb chIdx x =
     (let (p, s) = x; c = pa_channels p chIdx;
          silent = upd_channel chIdx (\<lambda>c. c\<lparr>curOut := 0, nextOut := 0\<rparr>) p
      in case cb_read cb of
           None \<Rightarrow> (silent, s)
         | Some read \<Rightarrow>
             if \<not> dma_enabled (pa_dmaCon p) chIdx then (silent, s)
             else if onLowByte c then
               channel_fetch read chIdx
                 (if curWordsLeft c = 0 then channel_reload cb chIdx (p, s) else (p, s))
             else
               (upd_channel chIdx (\<lambda>c. c\<lparr>curOut := nextOut c, nextOut := curSampleH c, onLowByte := True\<rparr>) p, s))"

section \<open>Mixing\<close>

definition volumeToGain :: "('d, 'f) float_unit \<Rightarrow> u16 \<Rightarrow> 'f" where
  "volumeToGain fu vol =
     (let v = (if vol < 64 then vol else 64) in f_div fu (f_lit fu (of_nat (unat v))) (f_lit fu 64))"

definition sampleToFloat :: "('d, 'f) float_unit \<Rightarrow> u8 \<Rightarrow> 'f" where
  "sampleToFloat fu smp = f_div fu (f_lit fu (of_int (sint smp))) (f_lit fu 128)"

definition channelStereoSide :: "nat \<Rightarrow> int" where
  "channelStereoSide ch = (if ch = 0 \<or> ch = 3 then -1 else if ch = 1 \<or> ch = 2 then 1 else 0)"

text \<open>The loop over the source samples of a frame; \<open>None\<close> is a loop that does not end.\<close>

partial_function (option) source_loop ::
    "('d, 'f) float_unit \<Rightarrow> 's callbacks \<Rightarrow> nat \<Rightarrow> ('d, 'f) paula \<times> 's \<Rightarrow>
     (('d, 'f) paula \<times> 's) option" where
  "source_loop fu cb chIdx x =
     (if d_le fu (d_lit fu 1) (ch_phase (pa_channels (fst x) chIdx))
      then source_loop fu cb chIdx
             (advanceOneSourceSample cb chIdx
                (upd_channel chIdx (\<lambda>c. c\<lparr>ch_phase := d_sub fu (ch_phase c) (d_lit fu 1)\<rparr>) (fst x), snd x))
      else Some x)"

definition phase_step :: "('d, 'f) float_unit \<Rightarrow> nat \<Rightarrow> 'd \<Rightarrow> ('d, 'f) paula \<Rightarrow> 'd" where
  "phase_step fu chIdx samplesPerOutFrame p =
     (let per = ch_period (pa_channels p chIdx);
          srcSrHz = d_div fu (pa_clockHz p) (d_lit fu (of_nat (unat (if per \<noteq> 0 then per else 1))))
      in d_mul fu srcSrHz samplesPerOutFrame)"

text \<open>The resampled output of a channel and its gain, added to the mix.\<close>

definition resampled :: "('d, 'f) float_unit \<Rightarrow> nat \<Rightarrow> ('d, 'f) paula \<Rightarrow> 'f" where
  "resampled fu chIdx p =
     (let c = pa_channels p chIdx in
      if pa_interp p = Linear then
        let a = sampleToFloat fu (curOut c); b = sampleToFloat fu (nextOut c)
        in f_add fu a (f_mul fu (f_of_d fu (ch_phase c)) (f_sub fu b a))
      else sampleToFloat fu (curOut c))"

definition mix_service :: "('d, 'f) float_unit \<Rightarrow> nat \<Rightarrow> 'f \<Rightarrow> ('d, 'f) paula \<Rightarrow> ('d, 'f) paula \<times> 'f" where
  "mix_service fu chIdx mixOut p =
     (let interp = resampled fu chIdx p;
          p = upd_channel chIdx
                (\<lambda>c. c\<lparr>gainSmoothed := f_add fu (gainSmoothed c)
                         (f_mul fu (f_sub fu (volumeToGain fu (ch_volume c)) (gainSmoothed c)) (pa_gainSmoothCoeff p))\<rparr>) p
      in (p, if \<not> pa_channelMuted p chIdx
             then f_add fu mixOut (f_mul fu interp (gainSmoothed (pa_channels p chIdx))) else mixOut))"

definition serviceChannel ::
    "('d, 'f) float_unit \<Rightarrow> 's callbacks \<Rightarrow> nat \<Rightarrow> 'd \<Rightarrow> 'f \<Rightarrow> ('d, 'f) paula \<times> 's \<Rightarrow>
     ((('d, 'f) paula \<times> 's) \<times> 'f) option" where
  "serviceChannel fu cb chIdx samplesPerOutFrame mixOut x =
     (let (p, s) = x; step = phase_step fu chIdx samplesPerOutFrame p in
      map_option (\<lambda>(p, s). let (p, mixOut) = mix_service fu chIdx mixOut p in ((p, s), mixOut))
        (source_loop fu cb chIdx (upd_channel chIdx (\<lambda>c. c\<lparr>ch_phase := d_add fu (ch_phase c) step\<rparr>) p, s)))"

text \<open>A transition moves by at most one 96th per frame.\<close>

definition ramp :: "('d, 'f) float_unit \<Rightarrow> 'f \<Rightarrow> 'f \<Rightarrow> 'f" where
  "ramp fu current target =
     (let step = f_div fu (f_lit fu 1) (f_lit fu 96);
          d = f_sub fu target current;
          d = (if f_less fu step d then step else d);
          d = (if f_less fu d (f_neg fu step) then f_neg fu step else d)
      in f_add fu current d)"

definition pan :: "('d, 'f) float_unit \<Rightarrow> nat \<Rightarrow> 'f \<Rightarrow> 'f \<times> 'f \<Rightarrow> ('d, 'f) paula \<Rightarrow> ('d, 'f) paula \<times> 'f \<times> 'f" where
  "pan fu ch tone lr p =
     (let (l, r) = lr;
          toOpp = f_mul fu (f_sub fu (f_lit fu 1) (pa_stereoCurrent p)) (f_lit fu (1 / 2));
          toSame = f_sub fu (f_lit fu 1) toOpp;
          target = (if pa_channelMuted p ch then f_lit fu 0 else f_lit fu 1);
          g = ramp fu (pa_channelMixGain p ch) target;
          p = p\<lparr>pa_channelMixGain := (pa_channelMixGain p)(ch := g)\<rparr>;
          tone = f_mul fu tone g
      in if channelStereoSide ch < 0
         then (p, f_add fu l (f_mul fu tone toSame), f_add fu r (f_mul fu tone toOpp))
         else (p, f_add fu l (f_mul fu tone toOpp), f_add fu r (f_mul fu tone toSame)))"

fun render_channels ::
    "('d, 'f) float_unit \<Rightarrow> 's callbacks \<Rightarrow> 'd \<Rightarrow> nat list \<Rightarrow> ('d, 'f) paula \<times> 's \<Rightarrow> 'f \<times> 'f \<Rightarrow>
     ((('d, 'f) paula \<times> 's) \<times> 'f \<times> 'f) option" where
  "render_channels fu cb secs [] x lr = Some (x, lr)"
| "render_channels fu cb secs (ch # chs) x lr =
     (case serviceChannel fu cb ch secs (f_lit fu 0) x of
        None \<Rightarrow> None
      | Some ((p, s), tone) \<Rightarrow>
          let (p, lr) = pan fu ch tone lr p in render_channels fu cb secs chs (p, s) lr)"

definition frame_start :: "('d, 'f) float_unit \<Rightarrow> ('d, 'f) paula \<Rightarrow> ('d, 'f) paula" where
  "frame_start fu p = p\<lparr>pa_stereoCurrent := ramp fu (pa_stereoCurrent p) (pa_stereoSep p)\<rparr>"

fun render_frames ::
    "('d, 'f) float_unit \<Rightarrow> 's callbacks \<Rightarrow> 'd \<Rightarrow> nat \<Rightarrow> ('d, 'f) paula \<times> 's \<Rightarrow>
     (('f \<times> 'f) list \<times> ('d, 'f) paula \<times> 's) option" where
  "render_frames fu cb secs 0 x = Some ([], x)"
| "render_frames fu cb secs (Suc n) x =
     (case render_channels fu cb secs [0..<kPaulaChannels] (frame_start fu (fst x), snd x)
             (f_lit fu 0, f_lit fu 0) of
        None \<Rightarrow> None
      | Some (x, lr) \<Rightarrow>
          map_option (\<lambda>(out, x). (lr # out, x)) (render_frames fu cb secs n x))"

definition Paula_render ::
    "('d, 'f) float_unit \<Rightarrow> 's callbacks \<Rightarrow> int \<Rightarrow> 'd \<Rightarrow> ('d, 'f) paula \<times> 's \<Rightarrow>
     (('f \<times> 'f) list \<times> ('d, 'f) paula \<times> 's) option" where
  "Paula_render fu cb frames outSr x =
     (if frames \<le> 0 \<or> d_le fu outSr (d_lit fu 0) then Some ([], x)
      else
        let secs = d_div fu (d_lit fu 1) outSr
        in render_frames fu cb secs (nat frames)
             ((fst x)\<lparr>pa_gainSmoothCoeff := f_lit fu (103626011 / 10000000000)\<rparr>, snd x))"

section \<open>What the DMA plays\<close>

text \<open>
  The abstract view of a playing channel: an endless stream of byte addresses, the rest of the
  running block, then the latched block over and over. A latched length of 0, which only a
  channel without a length has after a reset, loops over one word.
\<close>

definition sample_address :: "u32 \<Rightarrow> nat \<Rightarrow> u32 \<Rightarrow> nat \<Rightarrow> nat \<Rightarrow> u32" where
  "sample_address ptr left loc len i =
     (if i < 2 * left then ptr + word_of_nat i
      else loc + word_of_nat ((i - 2 * left) mod (2 * max 1 len)))"

definition channel_address :: "('d, 'f) channel \<Rightarrow> nat \<Rightarrow> u32" where
  "channel_address c =
     sample_address (curPtr c) (unat (curWordsLeft c)) (locPtrLatched c) (unat (lenWordsLatched c))"

text \<open>How often the latched block is loaded within the first words of the stream.\<close>

definition block_loads :: "nat \<Rightarrow> nat \<Rightarrow> nat \<Rightarrow> nat" where
  "block_loads left len words = (words - left + max 1 len - 1) div max 1 len"

text \<open>A constant memory, with a log of the reads and a count of the interrupts.\<close>

definition memory_callbacks :: "(u32 \<Rightarrow> u8) \<Rightarrow> (u32 list \<times> nat) callbacks" where
  "memory_callbacks m =
     \<lparr>cb_read = Some (\<lambda>a (log, n). (m a, log @ [a], n)),
      cb_interrupt = Some (\<lambda>b (log, n). (log, n + 1))\<rparr>"

lemma sample_address_step:
  "sample_address ptr (Suc left) loc len (Suc (Suc i)) = sample_address (ptr + 2) left loc len i"
  "sample_address loc (max 1 len) loc len i = sample_address ptr 0 loc len i"
proof -
  show "sample_address ptr (Suc left) loc len (Suc (Suc i)) = sample_address (ptr + 2) left loc len i"
    by (simp add: sample_address_def algebra_simps)
  show "sample_address loc (max 1 len) loc len i = sample_address ptr 0 loc len i"
    by (auto simp: sample_address_def le_mod_geq)
qed

lemma sample_address_word:
  "sample_address ptr left loc len 0 = (if left = 0 then loc else ptr)"
  "sample_address ptr left loc len (Suc 0) = (if left = 0 then loc else ptr) + 1"
  by (cases left; simp add: sample_address_def)+

lemma block_loads_step:
  "block_loads (Suc left) len (Suc words) = block_loads left len words"
  "Suc (block_loads (max 1 len - 1) len words) = block_loads 0 len (Suc words)"
proof -
  show "block_loads (Suc left) len (Suc words) = block_loads left len words"
    by (simp add: block_loads_def)
  show "Suc (block_loads (max 1 len - 1) len words) = block_loads 0 len (Suc words)"
  proof (cases "words < max 1 len")
    case True
    then have "(words - (max 1 len - 1) + max 1 len - 1) div max 1 len = 0" "words div max 1 len = 0"
      by auto
    then show ?thesis by (simp add: block_loads_def)
  next
    case False
    then have "words - (max 1 len - 1) + max 1 len - 1 = words" by auto
    then show ?thesis by (simp add: block_loads_def)
  qed
qed

lemma block_loads_first: "block_loads left len 0 = 0" "block_loads left len (Suc 0) = (if left = 0 then 1 else 0)"
  by (auto simp: block_loads_def)

lemma channel_upd_simps [simp]:
  "pa_channels (upd_channel ch f p) i = (if i = ch then f (pa_channels p ch) else pa_channels p i)"
  "pa_dmaCon (upd_channel ch f p) = pa_dmaCon p"
  "pa_intReq (upd_channel ch f p) = pa_intReq p"
  "pa_intEna (upd_channel ch f p) = pa_intEna p"
  "pa_adkCon (upd_channel ch f p) = pa_adkCon p"
  "pa_clockHz (upd_channel ch f p) = pa_clockHz p"
  "pa_interp (upd_channel ch f p) = pa_interp p"
  "pa_channelMuted (upd_channel ch f p) = pa_channelMuted p"
  by (simp_all add: upd_channel_def)

text \<open>The channel when its next word is fetched: at the end of its block it is reloaded.\<close>

definition at_word :: "('d, 'f) channel \<Rightarrow> ('d, 'f) channel" where
  "at_word c =
     (if curWordsLeft c = 0 then c\<lparr>curPtr := locPtrLatched c, curWordsLeft := lenWordsLatched c\<rparr> else c)"

lemma first_tick:
  assumes "dma_enabled (pa_dmaCon p) ch" and "onLowByte (pa_channels p ch)"
  defines "c \<equiv> at_word (pa_channels p ch)" and "over \<equiv> curWordsLeft (pa_channels p ch) = 0"
  shows "advanceOneSourceSample (memory_callbacks m) ch (p, lg, k) =
    ((upd_channel ch (\<lambda>_. c\<lparr>curSampleL := m (curPtr c), curSampleH := m (curPtr c + 1), curPtr := curPtr c + 2,
         curWordsLeft := (if curWordsLeft c > 0 then curWordsLeft c - 1 else curWordsLeft c),
         curOut := nextOut c, nextOut := m (curPtr c), onLowByte := False\<rparr>) p)
       \<lparr>pa_intReq := (if over then pa_intReq p OR push_bit ch 0x80 else pa_intReq p)\<rparr>,
     lg @ [curPtr c, curPtr c + 1], if over then Suc k else k)"
  using assms(1,2)
  by (simp add: c_def over_def at_word_def advanceOneSourceSample_def channel_fetch_def channel_reload_def
        memory_callbacks_def upd_channel_def Let_def)

lemma second_tick:
  assumes "dma_enabled (pa_dmaCon p) ch" and "\<not> onLowByte (pa_channels p ch)"
  shows "advanceOneSourceSample (memory_callbacks m) ch (p, lg, k) =
    (upd_channel ch (\<lambda>c. c\<lparr>curOut := nextOut c, nextOut := curSampleH c, onLowByte := True\<rparr>) p, lg, k)"
  using assms by (simp add: advanceOneSourceSample_def memory_callbacks_def Let_def)

text \<open>After a word the stream has moved on by two bytes.\<close>

lemma unat_dec: "w \<noteq> 0 \<Longrightarrow> Suc (unat (w - 1)) = unat (w :: 'a::len word)"
  by (simp add: unat_minus_one unat_gt_0)

lemma word_played:
  fixes c d :: "('d, 'f) channel"
  assumes "curPtr d = curPtr (at_word c) + 2"
    and "curWordsLeft d = (if curWordsLeft (at_word c) > 0 then curWordsLeft (at_word c) - 1 else curWordsLeft (at_word c))"
    and "locPtrLatched d = locPtrLatched c" and "lenWordsLatched d = lenWordsLatched c"
  shows "channel_address d i = channel_address c (Suc (Suc i)) \<and>
    block_loads (unat (curWordsLeft c)) (unat (lenWordsLatched c)) (Suc w)
       = (if curWordsLeft c = 0 then 1 else 0) + block_loads (unat (curWordsLeft d)) (unat (lenWordsLatched d)) w"
proof -
  let ?len = "unat (lenWordsLatched c)" and ?loc = "locPtrLatched c" and ?left = "unat (curWordsLeft c)"
  consider (running) "curWordsLeft c \<noteq> 0" | (empty) "curWordsLeft c = 0" "lenWordsLatched c = 0"
    | (reload) "curWordsLeft c = 0" "lenWordsLatched c \<noteq> 0"
    by blast
  then show ?thesis
  proof cases
    case running
    then have left: "?left = Suc (unat (curWordsLeft d))" and "curPtr d = curPtr c + 2"
      using assms(1,2) by (auto simp: at_word_def unat_dec word_gt_0)
    then show ?thesis
      using running by (simp add: channel_address_def assms(3,4) sample_address_step(1) block_loads_step(1))
  next
    case empty
    then show ?thesis
      using assms by (simp add: channel_address_def at_word_def sample_address_def block_loads_def)
  next
    case reload
    then have left: "?len = Suc (unat (curWordsLeft d))" and "curPtr d = ?loc + 2"
      using assms(1,2) by (auto simp: at_word_def unat_dec word_gt_0)
    moreover have "max 1 ?len = ?len" using left by simp
    ultimately show ?thesis
      using reload sample_address_step(2) [of ?loc ?len "Suc (Suc i)" "curPtr c"] block_loads_step(2) [of ?len w]
      by (simp add: channel_address_def assms(3,4) sample_address_step(1))
  qed
qed

lemma word_start:
  "channel_address c 0 = curPtr (at_word c)" "channel_address c (Suc 0) = curPtr (at_word c) + 1"
  by (auto simp: channel_address_def sample_address_word at_word_def unat_eq_0)

definition dma_ticks :: "'s callbacks \<Rightarrow> nat \<Rightarrow> nat \<Rightarrow> ('d, 'f) paula \<times> 's \<Rightarrow> ('d, 'f) paula \<times> 's" where
  "dma_ticks cb ch n = (advanceOneSourceSample cb ch ^^ n)"

lemma dma_ticks_front:
  "dma_ticks cb ch 0 x = x"
  "dma_ticks cb ch (Suc n) x = dma_ticks cb ch n (advanceOneSourceSample cb ch x)"
  by (simp_all add: dma_ticks_def funpow_swap1)

text \<open>What a number of ticks leaves of a core and adds to the log.\<close>

definition played ::
    "(u32 \<Rightarrow> u8) \<Rightarrow> nat \<Rightarrow> nat \<Rightarrow> ('d, 'f) paula \<times> u32 list \<times> nat \<Rightarrow> ('d, 'f) paula \<times> u32 list \<times> nat \<Rightarrow> bool" where
  "played m ch n x y \<longleftrightarrow>
     (let (p, lg, k) = x; (p', lg', k') = y; c = pa_channels p ch; c' = pa_channels p' ch in
      lg' = lg @ map (channel_address c) [0..<2 * ((n + 1) div 2)] \<and>
      k' = k + block_loads (unat (curWordsLeft c)) (unat (lenWordsLatched c)) ((n + 1) div 2) \<and>
      nextOut c' = (if n = 0 then nextOut c else m (channel_address c (n - 1))) \<and>
      curOut c' = (if n = 0 then curOut c else if n = 1 then nextOut c else m (channel_address c (n - 2))) \<and>
      (onLowByte c' \<longleftrightarrow> even n) \<and> locPtrLatched c' = locPtrLatched c \<and> lenWordsLatched c' = lenWordsLatched c \<and>
      (\<forall>j. j \<noteq> ch \<longrightarrow> pa_channels p' j = pa_channels p j) \<and> pa_dmaCon p' = pa_dmaCon p \<and>
      pa_intReq p' = (if k' = k then pa_intReq p else pa_intReq p OR push_bit ch 0x80))"

lemma dma_ticks_played:
  assumes "dma_enabled (pa_dmaCon p) ch" and "onLowByte (pa_channels p ch)"
  shows "played m ch n (p, lg, k) (dma_ticks (memory_callbacks m) ch n (p, lg, k))"
  using assms
proof (induction n arbitrary: p lg k rule: induct_nat_012)
  case 0
  then show ?case by (simp add: dma_ticks_front played_def block_loads_first)
next
  case 1
  show ?case
    by (simp only: dma_ticks_front first_tick [OF 1])
       (auto simp: played_def word_start block_loads_first unat_eq_0 numeral_2_eq_2 at_word_def)
next
  case (ge2 n)
  let ?c = "pa_channels p ch"
  obtain q lg1 k1 where q: "dma_ticks (memory_callbacks m) ch (Suc (Suc 0)) (p, lg, k) = (q, lg1, k1)"
    by (cases "dma_ticks (memory_callbacks m) ch (Suc (Suc 0)) (p, lg, k)") 
  let ?d = "pa_channels q ch"
  have d: "curPtr ?d = curPtr (at_word ?c) + 2"
    "curWordsLeft ?d = (if curWordsLeft (at_word ?c) > 0 then curWordsLeft (at_word ?c) - 1 else curWordsLeft (at_word ?c))"
    "locPtrLatched ?d = locPtrLatched ?c" "lenWordsLatched ?d = lenWordsLatched ?c" "onLowByte ?d"
    "lg1 = lg @ [channel_address ?c 0, channel_address ?c (Suc 0)]"
    "k1 = (if curWordsLeft ?c = 0 then Suc k else k)"
    "\<forall>j. j \<noteq> ch \<longrightarrow> pa_channels q j = pa_channels p j" "pa_dmaCon q = pa_dmaCon p"
    "curOut ?d = m (channel_address ?c 0)" "nextOut ?d = m (channel_address ?c (Suc 0))"
    "pa_intReq q = (if k1 = k then pa_intReq p else pa_intReq p OR push_bit ch 0x80)"
    using q ge2(3) by (auto simp: dma_ticks_front first_tick [OF ge2(3,4)] second_tick word_start at_word_def)
  note step = word_played [OF d(1-4)]
  have "played m ch n (q, lg1, k1) (dma_ticks (memory_callbacks m) ch n (q, lg1, k1))"
    by (rule ge2) (use d ge2(3) in simp_all)
  moreover have "dma_ticks (memory_callbacks m) ch (Suc (Suc n)) (p, lg, k) = dma_ticks (memory_callbacks m) ch n (q, lg1, k1)"
    using q by (simp add: dma_ticks_front)
  moreover obtain r lg2 k2 where "dma_ticks (memory_callbacks m) ch n (q, lg1, k1) = (r, lg2, k2)"
    by (cases "dma_ticks (memory_callbacks m) ch n (q, lg1, k1)")
  moreover have "map (channel_address ?c) [0..<2 * ((Suc (Suc n) + 1) div 2)] =
    [channel_address ?c 0, channel_address ?c (Suc 0)] @ map (channel_address ?d) [0..<2 * ((n + 1) div 2)]"
    by (simp add: map_upt_Suc step [THEN conjunct1] del: upt_Suc)
  moreover have "n \<noteq> 0 \<Longrightarrow> channel_address ?d (n - 1) = channel_address ?c (Suc n)"
    "1 < n \<Longrightarrow> channel_address ?d (n - 2) = channel_address ?c n"
    using step [THEN conjunct1, of "n - 1"] step [THEN conjunct1, of "n - 2"]
    by (simp_all add: Suc_diff_Suc numeral_2_eq_2)
  moreover have "n = 0 \<or> n = 1 \<or> 1 < n" by auto
  ultimately show ?case
    using d step [THEN conjunct2, of "(n + 1) div 2"]
    by (elim disjE) (simp_all add: played_def Let_def dma_ticks_front split: if_splits)
qed

text \<open>Writing DMACON starts a channel that waits for it and leaves a running one alone.\<close>

lemma dmacon_write:
  fixes p :: "('d, 'f) paula" and v :: u16
  assumes "addr AND 0xFFF = kReg_DMACON"
  defines "d \<equiv> setclr16 (pa_dmaCon p) v"
  shows "pa_channels (writeRegister16 fu addr v p) ch =
     (if ch < 4 then
        if dma_enabled d ch then channel_restart fu (pa_channels p ch)
        else (pa_channels p ch)\<lparr>dmaWantsRestart := True\<rparr>
      else pa_channels p ch)"
    and "pa_dmaCon (writeRegister16 fu addr v p) = d"
proof -
  have step: "pa_dmaCon (dmacon_channel fu c p) = pa_dmaCon p"
    "pa_channels (dmacon_channel fu c p) = (pa_channels p)(c :=
       if dma_enabled (pa_dmaCon p) c then channel_restart fu (pa_channels p c)
       else (pa_channels p c)\<lparr>dmaWantsRestart := True\<rparr>)" for c and p :: "('d, 'f) paula"
    by (auto simp: dmacon_channel_def fun_eq_iff)
  have all: "pa_dmaCon (fold (dmacon_channel fu) cs p) = pa_dmaCon p \<and>
    pa_channels (fold (dmacon_channel fu) cs p) c =
      (if c \<in> set cs then
         if dma_enabled (pa_dmaCon p) c then channel_restart fu (pa_channels p c)
         else (pa_channels p c)\<lparr>dmaWantsRestart := True\<rparr>
       else pa_channels p c)" if "distinct cs" for cs c and p :: "('d, 'f) paula"
    using that by (induction cs arbitrary: p) (auto simp: step)
  show "pa_channels (writeRegister16 fu addr v p) ch =
     (if ch < 4 then
        if dma_enabled d ch then channel_restart fu (pa_channels p ch)
        else (pa_channels p ch)\<lparr>dmaWantsRestart := True\<rparr>
      else pa_channels p ch)" and "pa_dmaCon (writeRegister16 fu addr v p) = d"
    using assms by (simp_all add: writeRegister16_def all del: upt_rec_numeral)
qed

section \<open>What the prefetch is told\<close>

definition fetch_address :: "fetch_state \<Rightarrow> nat \<Rightarrow> u32" where
  "fetch_address f =
     sample_address (fs_cursor f) (unat (fs_words_left f)) (fs_loop f) (unat (fs_loop_words f))"

lemma sample_address_ended: "sample_address loc len loc len i = sample_address ptr 0 loc len i"
proof (cases len)
  case (Suc k)
  then have "max 1 len = len" by simp
  then show ?thesis using sample_address_step(2) [of loc len i ptr] by metis
qed (simp add: sample_address_def)

lemma fetch_address_channel:
  assumes "ch < 4" and "\<not> dmaWantsRestart (pa_channels p ch)"
  shows "fetch_address (fetchState p (int ch)) = channel_address (pa_channels p ch)"
proof -
  have "\<not> (4 \<le> int ch)" using assms(1) by simp
  then show ?thesis
    using assms(2) sample_address_ended [of "locPtrLatched (pa_channels p ch)" "unat (lenWordsLatched (pa_channels p ch))" _
        "curPtr (pa_channels p ch)"]
    by (auto simp: fetchState_def fetch_address_def channel_address_def Let_def fun_eq_iff)
qed

lemma dma_ticks_log:
  assumes "ch < 4" and "dma_enabled (pa_dmaCon p) ch" and "\<not> dmaWantsRestart (pa_channels p ch)"
    and "dma_ticks (memory_callbacks m) ch n (p, [], 0) = (p', reads, irqs)"
  shows "reads = map (fetch_address (fetchState p (int ch)))
     [0..<2 * ((n + (if onLowByte (pa_channels p ch) then 1 else 0)) div 2)]"
proof (cases "onLowByte (pa_channels p ch)")
  case True
  then show ?thesis
    using dma_ticks_played [OF assms(2) True, of m n "[]" 0] assms(4)
    by (simp add: played_def Let_def fetch_address_channel [OF assms(1,3)])
next
  case odd: False
  show ?thesis
  proof (cases n)
    case 0
    then show ?thesis using assms(4) by (simp add: dma_ticks_front)
  next
    case (Suc k)
    let ?q = "upd_channel ch (\<lambda>c. c\<lparr>curOut := nextOut c, nextOut := curSampleH c, onLowByte := True\<rparr>) p"
    have "dma_ticks (memory_callbacks m) ch k (?q, [], 0) = (p', reads, irqs)"
      using assms(4) Suc by (simp add: dma_ticks_front second_tick [OF assms(2) odd])
    moreover have "played m ch k (?q, [], 0) (dma_ticks (memory_callbacks m) ch k (?q, [], 0))"
      by (rule dma_ticks_played) (use assms(2) in simp_all)
    moreover have "channel_address (pa_channels ?q ch) = channel_address (pa_channels p ch)"
      by (simp add: channel_address_def)
    ultimately show ?thesis
      using odd Suc by (simp add: played_def Let_def fetch_address_channel [OF assms(1,3)])
  qed
qed

section \<open>A sample and its loop\<close>

text \<open>Exact arithmetic, for evaluation.\<close>

definition exact_unit :: "(rat, rat) float_unit" where
  "exact_unit =
     \<lparr>d_lit = (\<lambda>x. x), d_add = (+), d_sub = (-), d_mul = (*), d_div = (/), d_le = (\<le>),
      f_lit = (\<lambda>x. x), f_of_d = (\<lambda>x. x), f_add = (+), f_sub = (-), f_mul = (*), f_div = (/),
      f_neg = uminus, f_less = (<),
      f_trunc = (\<lambda>x. if x < 0 then - \<lfloor>- x\<rfloor> else \<lfloor>x\<rfloor>)\<rparr>"

lemma setLoop_channel:
  assumes "ch < 4"
  shows "pa_channels (setLoop (int ch) loc len p) ch =
      (pa_channels p ch)\<lparr>locPtrLatched := loc, lenWordsLatched := (if len \<noteq> 0 then ucast len else 65536)\<rparr>"
    and "pa_dmaCon (setLoop (int ch) loc len p) = pa_dmaCon p"
  using assms by (simp_all add: setLoop_def)

text \<open>
  C4: a sample and its loop. A channel that waits for its DMA plays, from the write to DMACON
  that starts it, the latched block once, byte by byte in memory order, although \<open>setLoop\<close>
  replaces the latched pair before it has played; then it plays the new block over and over. Every
  load of the new block raises one interrupt, and the two samples the mixer sees are the last
  two bytes of this stream.
\<close>

theorem one_shot_then_loop:
  fixes p :: "('d, 'f) paula"
  assumes "ch < 4" and "addr AND 0xFFF = kReg_DMACON"
    and "dmaWantsRestart (pa_channels p ch)" and "dma_enabled (setclr16 (pa_dmaCon p) v) ch"
    and "dma_ticks (memory_callbacks m) ch n (setLoop (int ch) loc len (writeRegister16 fu addr v p), [], 0) = (p', reads, irqs)"
  shows "let first = unat (lenWordsLatched (pa_channels p ch));
             again = (if len = 0 then 65536 else unat len);
             byte_at = (\<lambda>i. if i < 2 * first then locPtrLatched (pa_channels p ch) + word_of_nat i
                            else loc + word_of_nat ((i - 2 * first) mod (2 * again)));
             words = (n + 1) div 2
         in reads = map byte_at [0..<2 * words] \<and>
            irqs = (words - first + again - 1) div again \<and>
            (0 < n \<longrightarrow> nextOut (pa_channels p' ch) = m (byte_at (n - 1))) \<and>
            (1 < n \<longrightarrow> curOut (pa_channels p' ch) = m (byte_at (n - 2)))"
proof -
  let ?q = "setLoop (int ch) loc len (writeRegister16 fu addr v p)"
  let ?c = "pa_channels p ch" and ?again = "if len = 0 then 65536 else unat len"
  have c: "pa_channels ?q ch = (channel_restart fu ?c)\<lparr>locPtrLatched := loc,
      lenWordsLatched := (if len \<noteq> 0 then ucast len else 65536)\<rparr>"
    and d: "dma_enabled (pa_dmaCon ?q) ch"
    using assms(1,4) by (simp_all add: setLoop_channel dmacon_write [OF assms(2)])
  have len: "unat (if len \<noteq> 0 then ucast len else 65536 :: u32) = ?again" "max 1 ?again = ?again"
    and pos: "len \<noteq> 0 \<Longrightarrow> max (Suc 0) (unat len) = unat len"
    using unat_gt_0 [of len] by auto
  have a: "channel_address (pa_channels ?q ch) = (\<lambda>i. if i < 2 * unat (lenWordsLatched ?c)
      then locPtrLatched ?c + word_of_nat i else loc + word_of_nat ((i - 2 * unat (lenWordsLatched ?c)) mod (2 * ?again)))"
    using assms(3) len pos by (simp add: c channel_restart_def channel_address_def sample_address_def fun_eq_iff)
  have "onLowByte (pa_channels ?q ch)" and w: "unat (curWordsLeft (pa_channels ?q ch)) = unat (lenWordsLatched ?c)"
    and l: "unat (lenWordsLatched (pa_channels ?q ch)) = ?again"
    using assms(3) len by (simp_all add: c channel_restart_def)
  from dma_ticks_played [OF d this(1), of m n "[]" 0] assms(5)
  show ?thesis
    by (simp add: played_def a w l len pos block_loads_def Let_def)
qed

definition sample_demo :: "(rat, rat) paula" where
  "sample_demo =
     writeRegister16 exact_unit 0xdff0a4 2 (writeRegister16 exact_unit 0xdff0a2 0x1000 (Paula_new exact_unit 3546895))"

theorem one_shot_then_loop_witness:
  "\<exists>p'. dma_ticks (memory_callbacks ucast) 0 7 (setLoop 0 0x2000 1 (writeRegister16 exact_unit 0xdff096 0x8201 sample_demo), [], 0)
     = (p', [0x1000, 0x1001, 0x1002, 0x1003, 0x2000, 0x2001, 0x2000, 0x2001], 2)"
proof -
  have demo: "dmaWantsRestart (pa_channels sample_demo 0)" "pa_dmaCon sample_demo = 0"
    "lenWordsLatched (pa_channels sample_demo 0) = 2" "locPtrLatched (pa_channels sample_demo 0) = 0x1000"
    by (simp_all add: sample_demo_def writeRegister16_def kRegAudBase_def Paula_new_def Paula_reset_def channel_init_def upt_rec)
  obtain p' reads irqs where r: "dma_ticks (memory_callbacks ucast) 0 7
      (setLoop (int 0) 0x2000 1 (writeRegister16 exact_unit 0xdff096 0x8201 sample_demo), [], 0) = (p', reads, irqs)"
    by (cases "dma_ticks (memory_callbacks ucast) 0 7
      (setLoop (int 0) 0x2000 1 (writeRegister16 exact_unit 0xdff096 0x8201 sample_demo), [], 0 :: nat)")
  have "dma_enabled (setclr16 (pa_dmaCon sample_demo) 0x8201) 0"
    by (simp add: demo(2) dma_enabled_def setclr16_def)
  from one_shot_then_loop [OF _ _ demo(1) this r] show ?thesis
    using r by (simp add: demo upt_rec)
qed

end
