(* ===== verification/HdmiLive.thy ===== *)
theory HdmiLive
  imports HdmiInit Replay Paula
begin

text \<open>
  Replaying captured register writes into the Paula core: \<open>poc_apply_live_event\<close> and
  \<open>poc_restore_live_state\<close> of \<open>source/src/raspi/hdmi_audio_poc.c\<close> and the register
  shadow of \<open>source/src/raspi/paula/paula_live.cpp\<close>. The core is an argument here: a record
  of the operations its users call on a core of any type; \<open>PaulaLive\<close> supplies the core of
  \<open>source/src/raspi/paula/paula.cpp\<close>.
\<close>

section \<open>The core and its register shadow\<close>

record 'c core_ops =
  co_write16 :: "u32 \<Rightarrow> u16 \<Rightarrow> 'c \<Rightarrow> 'c"
  co_reset :: "'c \<Rightarrow> 'c"
  co_fetch :: "'c \<Rightarrow> nat \<Rightarrow> fetch_state"
  co_settings :: "u32 \<Rightarrow> u32 \<Rightarrow> bool \<Rightarrow> u32 \<Rightarrow> 'c \<Rightarrow> 'c"

record 'c live_state = diag_state +
  lv_core :: 'c
  lv_last_mixer :: u32

definition probe_do :: "(metrics \<Rightarrow> metrics) \<Rightarrow> 'a mirror_scheme \<Rightarrow> 'a mirror_scheme" where
  "probe_do f s = s\<lparr>pm_metrics := f (pm_metrics s)\<rparr>"

definition channel_base :: "nat \<Rightarrow> nat" where
  "channel_base ch = PP_CHANNEL_BASE + ch * PP_CHANNEL_STRIDE"

definition paula_live_reset :: "'c core_ops \<Rightarrow> ('c, 'a) live_state_scheme \<Rightarrow> ('c, 'a) live_state_scheme" where
  "paula_live_reset ops s =
     probe_do
       (fold (\<lambda>ch m. paula_probe_set (channel_base ch + PP_CH_FLAGS) 0
                     (paula_probe_set (channel_base ch + PP_CH_DAT) 0
                     (paula_probe_set (channel_base ch + PP_CH_VOL) 0
                     (paula_probe_set (channel_base ch + PP_CH_PER) 1
                     (paula_probe_set (channel_base ch + PP_CH_LEN) 0
                     (paula_probe_set (channel_base ch + PP_CH_LOC) 0 m)))))) [0..<4] \<circ>
        paula_probe_set PP_ADKCON 0 \<circ> paula_probe_set PP_INTREQ 0 \<circ>
        paula_probe_set PP_INTENA 0 \<circ> paula_probe_set PP_DMACON 0)
       (s\<lparr>lv_core := co_reset ops (lv_core s)\<rparr>)"

definition shadow_setclr :: "nat \<Rightarrow> u16 \<Rightarrow> metrics \<Rightarrow> metrics" where
  "shadow_setclr index value m =
     (let b = paula_probe_get m index;
          v = ucast (value AND 0x7fff) :: u32;
          b = (if value AND 0x8000 \<noteq> 0 then b OR v else b AND NOT v)
      in paula_probe_set index b m)"

definition live_shadow :: "u32 \<Rightarrow> u16 \<Rightarrow> metrics \<Rightarrow> metrics" where
  "live_shadow r value m =
     (if r = 0x096 then
        let m = shadow_setclr PP_DMACON value m; dma = paula_probe_get m PP_DMACON
        in fold (\<lambda>ch. paula_probe_set (channel_base ch + PP_CH_FLAGS)
                  (if dma AND 0x0200 \<noteq> 0 \<and> dma AND push_bit ch 1 \<noteq> 0 then 1 else 0)) [0..<4] m
      else if r = 0x09a then shadow_setclr PP_INTENA value m
      else if r = 0x09c then shadow_setclr PP_INTREQ value m
      else if r = 0x09e then shadow_setclr PP_ADKCON value m
      else if r \<ge> 0x0a0 \<and> r \<le> 0x0da then
        let ch = unat (drop_bit 4 (r - 0x0a0)); reg = (r - 0x0a0) AND 15; b = channel_base ch
        in if ch \<ge> 4 then m
           else
             let m = (if reg = 0 then
                        paula_probe_set (b + PP_CH_LOC)
                          ((paula_probe_get m (b + PP_CH_LOC) AND 0xffff) OR push_bit 16 (ucast value)) m
                      else if reg = 2 then
                        paula_probe_set (b + PP_CH_LOC)
                          ((paula_probe_get m (b + PP_CH_LOC) AND 0xffff0000) OR ucast value) m
                      else if reg = 4 then paula_probe_set (b + PP_CH_LEN) (ucast value) m
                      else if reg = 6 then paula_probe_set (b + PP_CH_PER) (ucast value) m
                      else if reg = 8 then paula_probe_set (b + PP_CH_VOL) (ucast (value AND 0x7f)) m
                      else if reg = 10 then
                        paula_probe_add PP_AUDDAT_WRITES 1 (paula_probe_set (b + PP_CH_DAT) (ucast value) m)
                      else paula_probe_add PP_IGNORED 1 m)
             in paula_probe_add (b + PP_CH_WRITES) 1 m
      else paula_probe_add PP_IGNORED 1 m)"

definition paula_live_write ::
    "'c core_ops \<Rightarrow> u32 \<Rightarrow> u16 \<Rightarrow> ('c, 'a) live_state_scheme \<Rightarrow> ('c, 'a) live_state_scheme" where
  "paula_live_write ops address value s =
     probe_do (live_shadow (address AND 0xfff) value \<circ> paula_probe_add PP_APPLIED 1)
       (s\<lparr>lv_core := co_write16 ops address value (lv_core s)\<rparr>)"

definition paula_live_mixer_apply ::
    "'c core_ops \<Rightarrow> ('c, 'a) live_state_scheme \<Rightarrow> ('c, 'a) live_state_scheme" where
  "paula_live_mixer_apply ops s =
     (let word = paula_probe_get (pm_metrics s) PM_REQUEST in
      if word = lv_last_mixer s \<or> \<not> paula_mixer_valid word then s
      else
        probe_do (paula_probe_set PM_APPLIED word)
          (s\<lparr>lv_core := co_settings ops (word AND 127) (drop_bit 7 word AND 127)
                         (drop_bit 14 word AND 1 \<noteq> 0) (drop_bit 15 word AND 15) (lv_core s),
             lv_last_mixer := word\<rparr>))"

definition prefetch_channel_of ::
    "fetch_state \<Rightarrow> 'a mirror_scheme \<Rightarrow> 'a mirror_scheme" where
  "prefetch_channel_of f s =
     (if \<not> fs_enabled f then s
      else
        let bytes = (if fs_words_left f > 512 then 1024 else fs_words_left f * 2);
            s = (if bytes \<noteq> 0 then paula_mirror_prefetch (fs_cursor f) bytes s else s)
        in if bytes < 1024 \<and> fs_loop_words f \<noteq> 0 then
             let remaining = 1024 - bytes;
                 loopbytes = (if fs_loop_words f > 512 then 1024 else fs_loop_words f * 2);
                 remaining = (if remaining > loopbytes then loopbytes else remaining)
             in paula_mirror_prefetch (fs_loop f) remaining s
           else s)"

definition paula_live_prefetch ::
    "'c core_ops \<Rightarrow> ('c, 'a) live_state_scheme \<Rightarrow> ('c, 'a) live_state_scheme" where
  "paula_live_prefetch ops s =
     fold (\<lambda>ch s. prefetch_channel_of (co_fetch ops (lv_core s) ch) s) [0..<4] s"

section \<open>Applying events\<close>

record poc_live_state =
  pl_loc :: "nat \<Rightarrow> u32"
  pl_len :: "nat \<Rightarrow> u16"
  pl_dma :: u16

definition poc_prefetch_channel ::
    "poc_live_state \<Rightarrow> nat \<Rightarrow> 'a mirror_scheme \<Rightarrow> 'a mirror_scheme" where
  "poc_prefetch_channel st ch s =
     (let bytes = (if pl_len st ch \<noteq> 0 then ucast (pl_len st ch) else 65536) * 2
      in paula_mirror_prefetch (pl_loc st ch) (if bytes < 1024 then bytes else 1024) s)"

definition event_value :: "paula_mirror_event \<Rightarrow> u16" where
  "event_value e =
     (if ev_width e = 1 then (ev_value e AND 255) * 0x0101 else ev_value e)"

text \<open>The registers kept for prefetching, and the prefetches a register write starts.\<close>

definition poc_track_write ::
    "u32 \<Rightarrow> u16 \<Rightarrow> poc_live_state \<Rightarrow> 'a mirror_scheme \<Rightarrow> poc_live_state \<times> 'a mirror_scheme" where
  "poc_track_write r value st s =
     (if r \<ge> 0xa0 \<and> r \<le> 0xda then
        let ch = unat (drop_bit 4 (r - 0xa0)); reg = (r - 0xa0) AND 0x0f
        in if ch < 4 then
             if reg = 0 then
               (st\<lparr>pl_loc := (pl_loc st)(ch := (pl_loc st ch AND 0xffff) OR push_bit 16 (ucast value))\<rparr>, s)
             else if reg = 2 then
               let st = st\<lparr>pl_loc := (pl_loc st)(ch := (pl_loc st ch AND 0xffff0000) OR ucast value)\<rparr>
               in (st, if pl_len st ch \<noteq> 0 then poc_prefetch_channel st ch s else s)
             else if reg = 4 then
               let st = st\<lparr>pl_len := (pl_len st)(ch := value)\<rparr>
               in (st, poc_prefetch_channel st ch s)
             else (st, s)
           else (st, s)
      else if r = 0x096 then
        let before = pl_dma st;
            st = st\<lparr>pl_dma := setclr16 before value\<rparr>
        in (st, if pl_dma st AND 0x0200 \<noteq> 0
                then fold (\<lambda>ch s. let msk = 0x0200 OR push_bit ch 1
                                  in if pl_dma st AND msk = msk \<and> before AND msk \<noteq> msk
                                     then poc_prefetch_channel st ch s else s) [0..<4] s
                else s)
      else (st, s))"

definition poc_apply_live_event ::
    "'c core_ops \<Rightarrow> paula_mirror_event \<Rightarrow> poc_live_state \<times> ('c, 'a) live_state_scheme \<Rightarrow>
     poc_live_state \<times> ('c, 'a) live_state_scheme" where
  "poc_apply_live_event ops event x =
     (let (st, s) = x in
      if (ev_width event \<noteq> 1 \<and> ev_width event \<noteq> 2) \<or> (ev_width event = 2 \<and> ev_address event AND 1 \<noteq> 0)
      then (st, probe_do (paula_probe_add PP_IGNORED 1) s)
      else
        let r = ev_address event AND 0xffe;
            value = event_value event;
            (st, s) = poc_track_write r value st s;
            s = paula_live_write ops (0xdff000 OR r) value s
        in (st, if r = 0x096 \<or> (r \<ge> 0x0a0 \<and> r \<le> 0x0da \<and> (r - 0x0a0) AND 15 \<le> 4)
                then paula_live_prefetch ops s else s))"

section \<open>Resynchronisation\<close>

definition poc_live_zero :: poc_live_state where
  "poc_live_zero = \<lparr>pl_loc = (\<lambda>_. 0), pl_len = (\<lambda>_. 0), pl_dma = 0\<rparr>"

definition restore_event :: "paula_mirror_snapshot \<Rightarrow> u32 \<Rightarrow> u16 \<Rightarrow> paula_mirror_event" where
  "restore_event n address value =
     \<lparr>ev_ticks = sn_ticks n, ev_address = address, ev_value = value, ev_width = 2, ev_reserved = 0\<rparr>"

definition restore_channel ::
    "'c core_ops \<Rightarrow> paula_mirror_snapshot \<Rightarrow> nat \<Rightarrow> poc_live_state \<times> ('c, 'a) live_state_scheme \<Rightarrow>
     poc_live_state \<times> ('c, 'a) live_state_scheme" where
  "restore_channel ops n ch =
     fold (\<lambda>reg x. if sn_seen n ch AND push_bit reg 1 = 0 then x
                   else poc_apply_live_event ops
                          (restore_event n (0xdff0a0 + word_of_nat ch * 16 + word_of_nat reg * 2) (sn_reg n ch reg)) x)
          [0..<5]"

definition poc_restore_live_state ::
    "'c core_ops \<Rightarrow> poc_live_state \<Rightarrow> ('c, 'a) live_state_scheme \<Rightarrow>
     paula_mirror_snapshot option \<times> poc_live_state \<times> ('c, 'a) live_state_scheme" where
  "poc_restore_live_state ops st s =
     (case paula_mirror_snapshot_take s of
        (None, s) \<Rightarrow> (None, st, s)
      | (Some n, s) \<Rightarrow>
          let s = probe_do (paula_probe_flag PP_FLAG_CAPTURE_FAILED True) s;
              s = paula_live_reset ops s;
              st = st\<lparr>pl_loc := (\<lambda>i. if i < 4 then 0 else pl_loc st i),
                      pl_len := (\<lambda>i. if i < 4 then 0 else pl_len st i), pl_dma := 0\<rparr>;
              (st, s) = fold (restore_channel ops n) [0..<4] (st, s);
              s = (if sn_seen_global n AND 2 \<noteq> 0 then paula_live_write ops 0xdff09a (0x8000 OR sn_intena n) s else s);
              s = (if sn_seen_global n AND 4 \<noteq> 0 then paula_live_write ops 0xdff09c (0x8000 OR sn_intreq n) s else s);
              s = (if sn_seen_global n AND 8 \<noteq> 0 then paula_live_write ops 0xdff09e (0x8000 OR sn_adkcon n) s else s);
              (st, s) = (if sn_seen_global n AND 1 \<noteq> 0
                         then poc_apply_live_event ops (restore_event n 0xdff096 (0x8000 OR sn_dma n)) (st, s)
                         else (st, s));
              s = probe_do (paula_probe_add PP_RESYNCS 1) s;
              s = probe_do (paula_probe_add PP_RESYNC_SKIPPED (sn_skipped n)) s;
              s = probe_do (paula_probe_flag PP_FLAG_CAPTURE_FAILED False) s
          in (Some n, st, s))"

section \<open>What an event does to the replayed registers\<close>

text \<open>The registers the replay keeps, updated by the word an event carries.\<close>

definition live_write :: "nat \<Rightarrow> u16 \<Rightarrow> poc_live_state \<Rightarrow> poc_live_state" where
  "live_write off v st =
     st\<lparr>pl_loc := (\<lambda>c. if c < 4 \<and> off = 0xa0 + 16 * c then (pl_loc st c AND 0xffff) OR push_bit 16 (ucast v)
                       else if c < 4 \<and> off = 0xa2 + 16 * c then (pl_loc st c AND 0xffff0000) OR ucast v
                       else pl_loc st c),
        pl_len := (\<lambda>c. if c < 4 \<and> off = 0xa4 + 16 * c then v else pl_len st c),
        pl_dma := (if off = 0x096 then setclr16 (pl_dma st) v else pl_dma st)\<rparr>"

definition live_event :: "paula_mirror_event \<Rightarrow> poc_live_state \<Rightarrow> poc_live_state" where
  "live_event e st =
     (if (ev_width e \<noteq> 1 \<and> ev_width e \<noteq> 2) \<or> (ev_width e = 2 \<and> ev_address e AND 1 \<noteq> 0) then st
      else live_write (unat (ev_address e AND 0xffe)) (event_value e) st)"

lemma audio_offset:
  fixes r :: u32
  assumes "r \<ge> 0xa0" and "r \<le> 0xda"
  shows "unat (drop_bit 4 (r - 0xa0)) = (unat r - 0xa0) div 16"
    and "unat ((r - 0xa0) AND 15) = (unat r - 0xa0) mod 16"
    and "unat r \<ge> 0xa0" and "unat r \<le> 0xda"
proof -
  show g: "unat r \<ge> 0xa0" and "unat r \<le> 0xda"
    using assms by (simp_all add: word_le_nat_alt)
  have n: "unat (r - 0xa0) = unat r - 0xa0"
    using assms(1) by (simp add: unat_sub)
  show "unat (drop_bit 4 (r - 0xa0)) = (unat r - 0xa0) div 16"
    unfolding unat_drop_bit_eq n by (simp add: drop_bit_eq_div)
  show "unat ((r - 0xa0) AND 15) = (unat r - 0xa0) mod 16"
    unfolding unat_and_masks n ..
qed

lemma channel_register:
  fixes r :: u32
  assumes "r \<ge> 0xa0" and "r \<le> 0xda" and "k < 16"
  shows "(r - 0xa0) AND 15 = word_of_nat k \<and> unat (drop_bit 4 (r - 0xa0)) = c \<longleftrightarrow> unat r = 0xa0 + 16 * c + k"
proof -
  have w: "unat (word_of_nat k :: u32) = k"
    using assms(3) by (simp add: unat_of_nat)
  have "((r - 0xa0) AND 15 = word_of_nat k) \<longleftrightarrow> (unat r - 0xa0) mod 16 = k"
    unfolding word_unat_eq_iff audio_offset(2) [OF assms(1,2)] w ..
  moreover have "((unat r - 0xa0) mod 16 = k \<and> (unat r - 0xa0) div 16 = c) \<longleftrightarrow> unat r - 0xa0 = 16 * c + k"
    using assms(3) div_mult_mod_eq [of "unat r - 0xa0" 16] by auto
  moreover have "unat r - 0xa0 = 16 * c + k \<longleftrightarrow> unat r = 0xa0 + 16 * c + k"
    using audio_offset(3) [OF assms(1,2)] by linarith
  ultimately show ?thesis
    unfolding audio_offset(1) [OF assms(1,2)] by blast
qed

lemma track_audio:
  assumes "r \<ge> 0xa0" and "r \<le> 0xda"
  shows "fst (poc_track_write r v st s) = live_write (unat r) v st"
proof -
  let ?c = "unat (drop_bit 4 (r - 0xa0))" and ?k = "(r - 0xa0) AND 15"
  have k: "unat r = 0xa0 + 16 * c \<longleftrightarrow> ?k = 0 \<and> ?c = c" "unat r = 0xa2 + 16 * c \<longleftrightarrow> ?k = 2 \<and> ?c = c"
    "unat r = 0xa4 + 16 * c \<longleftrightarrow> ?k = 4 \<and> ?c = c" for c
    using channel_register [OF assms, of 0 c] channel_register [OF assms, of 2 c] channel_register [OF assms, of 4 c]
    by auto
  have nd: "unat r \<noteq> 0x096"
    using audio_offset(3) [OF assms] by simp
  have "fst (poc_track_write r v st s) =
    (if ?c < 4 then
       if ?k = 0 then st\<lparr>pl_loc := (pl_loc st)(?c := (pl_loc st ?c AND 0xffff) OR push_bit 16 (ucast v))\<rparr>
       else if ?k = 2 then st\<lparr>pl_loc := (pl_loc st)(?c := (pl_loc st ?c AND 0xffff0000) OR ucast v)\<rparr>
       else if ?k = 4 then st\<lparr>pl_len := (pl_len st)(?c := v)\<rparr> else st
     else st)"
    using assms by (simp add: poc_track_write_def Let_def)
  also have "\<dots> = live_write (unat r) v st"
    unfolding live_write_def k using nd
    by (cases "?k = 0"; cases "?k = 2"; cases "?k = 4") (auto simp: fun_eq_iff)
  finally show ?thesis .
qed

lemma track_write_state: "fst (poc_track_write r v st s) = live_write (unat r) v st"
proof -
  consider (audio) "r \<ge> 0xa0" "r \<le> 0xda" | (dma) "r = 0x096" | (other) "\<not> (r \<ge> 0xa0 \<and> r \<le> 0xda)" "r \<noteq> 0x096"
    by blast
  then show ?thesis
  proof cases
    case audio
    then show ?thesis by (rule track_audio)
  next
    case dma
    then show ?thesis by (simp add: poc_track_write_def live_write_def Let_def)
  next
    case other
    then have "\<not> (unat r \<ge> 0xa0 \<and> unat r \<le> 0xda)" "unat r \<noteq> 0x096"
      by (auto simp: word_le_nat_alt word_unat_eq_iff)
    then have "\<And>c. c < 4 \<Longrightarrow> unat r \<noteq> 0xa0 + 16 * c" "\<And>c. c < 4 \<Longrightarrow> unat r \<noteq> 0xa2 + 16 * c"
      "\<And>c. c < 4 \<Longrightarrow> unat r \<noteq> 0xa4 + 16 * c"
      by auto
    then have "live_write (unat r) v st = st"
      using \<open>unat r \<noteq> 0x096\<close> by (simp add: live_write_def cong: if_cong conj_cong)
    with other show ?thesis
      by (auto simp: poc_track_write_def)
  qed
qed

lemma apply_live_state:
  "fst (poc_apply_live_event ops e x) = live_event e (fst x)"
  using track_write_state [of "ev_address e AND 0xffe" "event_value e" "fst x" "snd x"]
  by (simp add: poc_apply_live_event_def live_event_def Let_def split_beta)

lemma fold_fst:
  assumes "\<And>a x. fst (f a x) = g a (fst x)"
  shows "fst (fold f as x) = fold g as (fst x)"
  by (induction as arbitrary: x) (simp_all add: assms)

section \<open>Resynchronisation restores what replay would have built\<close>

text \<open>The replay registers a snapshot stands for.\<close>

definition snapshot_loc :: "paula_mirror_snapshot \<Rightarrow> nat \<Rightarrow> u32" where
  "snapshot_loc n c = push_bit 16 (ucast (sn_reg n c 0)) OR ucast (sn_reg n c 1)"

definition snapshot_ok :: "paula_mirror_snapshot \<Rightarrow> bool" where
  "snapshot_ok n \<longleftrightarrow>
     (\<forall>c<4. \<forall>i<6. sn_seen n c AND push_bit i 1 = 0 \<longrightarrow> sn_reg n c i = 0) \<and>
     (sn_seen_global n AND 1 = 0 \<longrightarrow> sn_dma n = 0) \<and> \<not> bit (sn_dma n) 15"

definition live_matches :: "paula_mirror_snapshot \<Rightarrow> poc_live_state \<Rightarrow> bool" where
  "live_matches n st \<longleftrightarrow>
     (\<forall>c<4. pl_loc st c = snapshot_loc n c \<and> pl_len st c = sn_reg n c 2) \<and> pl_dma st = sn_dma n"

lemma loc_words:
  fixes l :: u32 and u v w :: u16
  shows "((l AND 0xffff) OR push_bit 16 (ucast v)) AND 0xffff0000 OR ucast w = push_bit 16 (ucast v) OR (ucast w :: u32)"
    and "((push_bit 16 (ucast v) OR ucast w) AND 0xffff) OR push_bit 16 (ucast u) = push_bit 16 (ucast u) OR (ucast w :: u32)"
    and "(push_bit 16 (ucast v) OR ucast u) AND 0xffff0000 OR ucast w = push_bit 16 (ucast v) OR (ucast w :: u32)"
proof -
  have f: "bit (0xffff0000 :: int) n \<longleftrightarrow> 16 \<le> n \<and> n < 32" for n
    using bit_int_field [of "0xffff0000" 16 16] by simp
  have low: "bit (ucast x :: u32) n \<longleftrightarrow> n < 16 \<and> bit x n" for x :: u16 and n
    using bit_imp_le_length [of x n] by (auto simp: bit_simps)
  show "((l AND 0xffff) OR push_bit 16 (ucast v)) AND 0xffff0000 OR ucast w = push_bit 16 (ucast v) OR (ucast w :: u32)"
    and "((push_bit 16 (ucast v) OR ucast w) AND 0xffff) OR push_bit 16 (ucast u) = push_bit 16 (ucast u) OR (ucast w :: u32)"
    and "(push_bit 16 (ucast v) OR ucast u) AND 0xffff0000 OR ucast w = push_bit 16 (ucast v) OR (ucast w :: u32)"
    by (rule bit_word_eqI; auto simp: bit_or_iff bit_and_iff bit_push_bit_iff low bits f)+
qed

lemma live_write_regs:
  assumes "c < 4"
  shows "live_write (0xa0 + 16 * c) v st
           = st\<lparr>pl_loc := (pl_loc st)(c := (pl_loc st c AND 0xffff) OR push_bit 16 (ucast v))\<rparr>"
    and "live_write (0xa2 + 16 * c) v st
           = st\<lparr>pl_loc := (pl_loc st)(c := (pl_loc st c AND 0xffff0000) OR ucast v)\<rparr>"
    and "live_write (0xa4 + 16 * c) v st = st\<lparr>pl_len := (pl_len st)(c := v)\<rparr>"
    and "live_write (0xa6 + 16 * c) v st = st" and "live_write (0xa8 + 16 * c) v st = st"
    and "live_write 0x096 v st = st\<lparr>pl_dma := setclr16 (pl_dma st) v\<rparr>"
proof -
  have *: "0xa0 + 16 * c \<noteq> 0xa2 + 16 * d" "0xa0 + 16 * c \<noteq> 0xa4 + 16 * d" "0xa2 + 16 * c \<noteq> 0xa0 + 16 * d"
    "0xa2 + 16 * c \<noteq> 0xa4 + 16 * d" "0xa4 + 16 * c \<noteq> 0xa0 + 16 * d" "0xa4 + 16 * c \<noteq> 0xa2 + 16 * d"
    "0xa6 + 16 * c \<noteq> 0xa0 + 16 * d" "0xa6 + 16 * c \<noteq> 0xa2 + 16 * d" "0xa6 + 16 * c \<noteq> 0xa4 + 16 * d"
    "0xa8 + 16 * c \<noteq> 0xa0 + 16 * d" "0xa8 + 16 * c \<noteq> 0xa2 + 16 * d" "0xa8 + 16 * c \<noteq> 0xa4 + 16 * d" for c d :: nat
    by presburger+
  show "live_write (0xa0 + 16 * c) v st
           = st\<lparr>pl_loc := (pl_loc st)(c := (pl_loc st c AND 0xffff) OR push_bit 16 (ucast v))\<rparr>"
    and "live_write (0xa2 + 16 * c) v st
           = st\<lparr>pl_loc := (pl_loc st)(c := (pl_loc st c AND 0xffff0000) OR ucast v)\<rparr>"
    and "live_write (0xa4 + 16 * c) v st = st\<lparr>pl_len := (pl_len st)(c := v)\<rparr>"
    and "live_write (0xa6 + 16 * c) v st = st" and "live_write (0xa8 + 16 * c) v st = st"
    unfolding live_write_def using assms * by (auto simp: fun_eq_iff)
  show "live_write 0x096 v st = st\<lparr>pl_dma := setclr16 (pl_dma st) v\<rparr>"
  proof -
    have "(150::nat) \<noteq> 160 + 16 * c" "(150::nat) \<noteq> 162 + 16 * c" "(150::nat) \<noteq> 164 + 16 * c" for c
      by auto
    then show ?thesis by (simp add: live_write_def)
  qed
qed

text \<open>One channel of the restore loop, and the whole of it, on the replay registers.\<close>

definition restore_regs :: "paula_mirror_snapshot \<Rightarrow> nat \<Rightarrow> poc_live_state \<Rightarrow> poc_live_state" where
  "restore_regs n c =
     fold (\<lambda>i st. if sn_seen n c AND push_bit i 1 = 0 then st
                  else live_write (0xa0 + 16 * c + 2 * i) (sn_reg n c i) st) [0..<5]"

lemma restore_event_live:
  assumes "c < 4" and "i < 5"
  shows "live_event (restore_event n (0xdff0a0 + word_of_nat c * 16 + word_of_nat i * 2) v) st
           = live_write (0xa0 + 16 * c + 2 * i) v st"
proof -
  have "c \<in> {0, 1, 2, 3}" and "i \<in> {0, 1, 2, 3, 4}"
    using assms by auto
  then show ?thesis
    by (auto simp: live_event_def restore_event_def event_value_def)
qed

lemma restore_channel_live:
  assumes "c < 4"
  shows "fst (restore_channel ops n c x) = restore_regs n c (fst x)"
proof -
  have "fst (fold (\<lambda>reg x. if sn_seen n c AND push_bit reg 1 = 0 then x
              else poc_apply_live_event ops
                     (restore_event n (0xdff0a0 + word_of_nat c * 16 + word_of_nat reg * 2) (sn_reg n c reg)) x) is x)
        = fold (\<lambda>i st. if sn_seen n c AND push_bit i 1 = 0 then st
                       else live_write (0xa0 + 16 * c + 2 * i) (sn_reg n c i) st) is (fst x)"
    if "set is \<subseteq> {..<5}" for "is"
    using that by (induction "is" arbitrary: x) (auto simp: apply_live_state restore_event_live [OF assms])
  from this [of "[0..<5]"] show ?thesis
    unfolding restore_channel_def restore_regs_def by (simp add: atLeast0LessThan)
qed

lemma restore_regs_values:
  assumes "snapshot_ok n" and "c < 4" and "pl_loc st c = 0" and "pl_len st c = 0"
  shows "restore_regs n c st =
    st\<lparr>pl_loc := (pl_loc st)(c := snapshot_loc n c), pl_len := (pl_len st)(c := sn_reg n c 2)\<rparr>"
proof -
  have z: "sn_seen n c AND push_bit i 1 = 0 \<Longrightarrow> sn_reg n c i = 0" if "i < 6" for i
    using assms(1,2) that by (auto simp: snapshot_ok_def)
  have five: "[0..<5] = [0, 1, 2, 3, 4::nat]" by (simp add: upt_rec)
  let ?s = "\<lambda>i. sn_seen n c AND push_bit i 1 = 0"
  have off: "160 + 16 * c + 2 * 0 = 160 + 16 * c" "160 + 16 * c + 2 * 1 = 162 + 16 * c"
    "160 + 16 * c + 2 * 2 = 164 + 16 * c" "160 + 16 * c + 2 * 3 = 166 + 16 * c" "160 + 16 * c + 2 * 4 = 168 + 16 * c"
    by simp_all
  have z0: "?s 0 \<Longrightarrow> sn_reg n c 0 = 0" and z1: "?s 1 \<Longrightarrow> sn_reg n c 1 = 0" and z2: "?s 2 \<Longrightarrow> sn_reg n c 2 = 0"
    by (rule z; simp)+
  have l: "(0 :: u32) AND 0xffff = 0" "(0 :: u32) AND 0xffff0000 = 0"
    "(push_bit 16 (ucast v) :: u32) AND 0xffff0000 OR ucast w = push_bit 16 (ucast v) OR ucast w" for v w :: u16
    using loc_words(1) [of 0 v w] by simp_all
  show ?thesis
    unfolding restore_regs_def five fold.simps o_apply id_apply off live_write_regs [OF assms(2)]
    by (rule poc_live_state.equality) (use assms(3,4) z0 z1 z2 in \<open>auto simp: snapshot_loc_def fun_eq_iff l\<close>)
qed

lemma byte_lanes:
  fixes v :: u32
  shows "(ucast v AND 255) * 0x0101 = (ucast ((v AND 255) * 0x0101) :: u16)"
proof -
  have "unat v mod 65536 mod 256 = unat v mod 256"
    by (rule mod_mod_cancel) simp
  then have a: "unat ((ucast v :: u16) AND 255) = unat v mod 256"
    by (simp add: unat_and_masks unsigned_ucast_eq take_bit_eq_mod)
  have b: "unat (v AND 255) = unat v mod 256"
    by (simp add: unat_and_masks)
  have lt: "unat v mod 256 * 257 < 65536"
  proof -
    have "unat v mod 256 \<le> 255" using mod_less_divisor [of 256 "unat v"] by linarith
    then show ?thesis by linarith
  qed
  have "unat (((ucast v :: u16) AND 255) * 0x0101) = unat v mod 256 * 257"
    using unat_mult_small [of "(ucast v :: u16) AND 255" "0x0101"] a lt by simp
  moreover have "unat ((v AND 255) * 0x0101) = unat v mod 256 * 257"
    using unat_mult_small [of "v AND 255" "0x0101"] b lt by simp
  ultimately show ?thesis
    using lt by (simp add: word_unat_eq_iff unsigned_ucast_eq take_bit_nat_eq_self)
qed

text \<open>The writes the bus layer hands to the mirror: bytes, and words at even addresses.\<close>

definition bus_shape :: "bus_write \<Rightarrow> bool" where
  "bus_shape b \<longleftrightarrow> bw_width b = 1 \<or> (bw_width b = 2 \<and> bw_addr b AND 1 = 0)"

lemma replayed_write:
  assumes "bus_shape b"
  shows "live_event (event_of b) st
           = live_write (unat ((bw_addr b AND 0xffffff) AND 0xffe)) (presented_word (bw_value b) (bw_width b)) st"
proof -
  have "(bw_addr b AND 0xffffff) AND 1 = bw_addr b AND 1"
    by (rule bit_word_eqI) (auto simp: bit_simps bits)
  then show ?thesis
    using assms by (auto simp: bus_shape_def live_event_def event_of_def event_value_def presented_word_def byte_lanes)
qed

lemma shadow_word_seen:
  assumes "c < 4" and "i < 6" and "sn_seen (mirror_shadow_word a v l) c AND push_bit i 1 = 0"
  shows "sn_seen l c AND push_bit i 1 = 0 \<and> unat (a AND 0xffe) \<noteq> 0x0a0 + 16 * c + 2 * i"
proof -
  have clear: "x AND push_bit i 1 = 0 \<longleftrightarrow> \<not> bit x i" for x :: u8
  proof -
    have "x AND push_bit i 1 = (if bit x i then push_bit i 1 else 0)"
      by (rule bit_word_eqI) (auto simp: bit_simps)
    moreover have "push_bit i (1 :: u8) \<noteq> 0"
    proof -
      have "bit (push_bit i (1 :: u8)) i"
        using assms(2) by (simp add: bit_exp_iff)
      then show ?thesis by (metis bit_0_eq bot_apply bot_bool_def)
    qed
    ultimately show ?thesis by simp
  qed
  let ?r = "a AND 0xffe"
  show ?thesis
  proof (cases "?r = 0x096 \<or> ?r = 0x09a \<or> ?r = 0x09c \<or> ?r = 0x09e")
    case True
    moreover from this have "unat ?r \<noteq> 0x0a0 + 16 * c + 2 * i"
      by (elim disjE) (simp_all only:, simp_all)
    ultimately show ?thesis
      using assms(3) by (elim disjE) (simp_all add: mirror_shadow_word_def Let_def)
  next
    case False
    note slot = audio_slot [OF assms(1,2), of ?r]
    show ?thesis
      using assms(2,3) False slot unfolding clear mirror_shadow_word_def Let_def
      by (auto simp: bit_or_iff bit_push_bit_iff bit_exp_iff split: if_splits)
  qed
qed

lemma shadow_word_seen_global:
  assumes "sn_seen_global (mirror_shadow_word a v l) AND 1 = 0"
  shows "sn_seen_global l AND 1 = 0 \<and> unat (a AND 0xffe) \<noteq> 0x096"
proof -
  have clear: "x AND 1 = 0 \<longleftrightarrow> \<not> bit x 0" for x :: u32
    by (simp add: bit_0 even_iff_mod_2_eq_zero and_one_eq)
  have n: "unat r = 0x096 \<longleftrightarrow> r = 0x096" for r :: u32
    by (simp add: word_unat_eq_iff)
  show ?thesis
    using assms unfolding clear n mirror_shadow_word_def Let_def
    by (auto simp: bit_or_iff bits split: if_splits)
qed

lemma shadow_write_fields:
  assumes "captures b"
  defines "off \<equiv> unat ((bw_addr b AND 0xffffff) AND 0xffe)" and "v \<equiv> presented_word (bw_value b) (bw_width b)"
  shows "c < 4 \<Longrightarrow> i < 6 \<Longrightarrow>
      sn_reg (shadow_write b n) c i = (if off = 0x0a0 + 16 * c + 2 * i then v else sn_reg n c i)"
    and "sn_dma (shadow_write b n) = (if off = 0x096 then setclr16 (sn_dma n) v else sn_dma n)"
    and "c < 4 \<Longrightarrow> i < 6 \<Longrightarrow> sn_seen (shadow_write b n) c AND push_bit i 1 = 0 \<Longrightarrow>
      sn_seen n c AND push_bit i 1 = 0 \<and> off \<noteq> 0x0a0 + 16 * c + 2 * i"
    and "sn_seen_global (shadow_write b n) AND 1 = 0 \<Longrightarrow> sn_seen_global n AND 1 = 0 \<and> off \<noteq> 0x096"
  using assms shadow_word_audio shadow_word_globals(1) shadow_word_seen shadow_word_seen_global
  by (simp_all add: shadow_write_def)

lemma shadow_and_replay_step:
  assumes "captures b" and "bus_shape b" and "snapshot_ok n" and "live_matches n st"
  shows "snapshot_ok (shadow_write b n)" and "live_matches (shadow_write b n) (live_event (event_of b) st)"
proof -
  note f = shadow_write_fields [OF assms(1)]
  show "snapshot_ok (shadow_write b n)"
    using assms(3) f(1) [of _ _ n] f(3) [of _ _ n] f(2) [of n] f(4) [of n]
    by (auto simp: snapshot_ok_def setclr16_bit15)
  show "live_matches (shadow_write b n) (live_event (event_of b) st)"
    unfolding replayed_write [OF assms(2)]
    using assms(4) f(1) [of _ 0 n] f(1) [of _ 1 n] f(1) [of _ 2 n] f(2) [of n]
    by (auto simp: live_matches_def live_write_def snapshot_loc_def loc_words)
qed

lemma shadow_and_replay:
  assumes "\<forall>b \<in> set bs. captures b \<and> bus_shape b" and "snapshot_ok n" and "live_matches n st"
  shows "snapshot_ok (fold shadow_write bs n) \<and>
    live_matches (fold shadow_write bs n) (fold live_event (map event_of bs) st)"
  using assms
proof (induction bs arbitrary: n st)
  case Nil
  then show ?case by simp
next
  case (Cons b bs)
  then show ?case
    using shadow_and_replay_step [of b n st] by simp
qed

lemma restore_all_channels:
  assumes "snapshot_ok n" and "\<forall>c<4. pl_loc st c = 0 \<and> pl_len st c = 0"
  shows "fold (restore_regs n) [0..<4] st =
    st\<lparr>pl_loc := (\<lambda>c. if c < 4 then snapshot_loc n c else pl_loc st c),
       pl_len := (\<lambda>c. if c < 4 then sn_reg n c 2 else pl_len st c)\<rparr>"
proof -
  have "fold (restore_regs n) [0..<k] st =
    st\<lparr>pl_loc := (\<lambda>c. if c < k then snapshot_loc n c else pl_loc st c),
       pl_len := (\<lambda>c. if c < k then sn_reg n c 2 else pl_len st c)\<rparr>" if "k \<le> 4" for k
    using that
  proof (induction k)
    case 0
    then show ?case by simp
  next
    case (Suc k)
    then show ?case
      using assms(2) restore_regs_values [OF assms(1), of k "fold (restore_regs n) [0..<k] st"]
      by (auto simp: fun_eq_iff less_Suc_eq)
  qed
  then show ?thesis by blast
qed

lemma restore_result:
  fixes s s1 :: "('c, 'a) live_state_scheme"
  assumes "paula_mirror_snapshot_take s = (Some n, s1)"
  shows "\<exists>s2 :: ('c, 'a) live_state_scheme. fst (poc_restore_live_state ops st s) = Some n \<and>
     fst (snd (poc_restore_live_state ops st s)) =
       (let x = fst (fold (restore_channel ops n) [0..<4]
            (st\<lparr>pl_loc := (\<lambda>i. if i < 4 then 0 else pl_loc st i),
                pl_len := (\<lambda>i. if i < 4 then 0 else pl_len st i), pl_dma := 0\<rparr>, s2))
        in if sn_seen_global n AND 1 \<noteq> 0
           then live_event (restore_event n 0xdff096 (0x8000 OR sn_dma n)) x else x)"
  by (intro exI [of _ "paula_live_reset ops (probe_do (paula_probe_flag PP_FLAG_CAPTURE_FAILED True) s1)"])
     (simp add: poc_restore_live_state_def assms Let_def split_beta apply_live_state del: upt_rec_numeral)

text \<open>
  Resynchronisation. After any sequence of audio register writes, the registers restored
  from the snapshot (sample pointers, lengths and DMA control) are those that replaying every
  event of the sequence in order would have left, so dropped events cost nothing but timing.
\<close>

theorem resync_equals_replay:
  fixes s t :: "('c, 'a) live_state_scheme"
  assumes "\<forall>b \<in> set bs. captures b \<and> bus_shape b"
    and "pm_enabled s \<noteq> 0" and "pm_event_lock s = 0" and "pm_latest s = fold shadow_write bs snapshot_zero"
  shows "\<exists>n st' s'. poc_restore_live_state ops st s = (Some n, st', s') \<and>
     (let direct = fst (fold (poc_apply_live_event ops) (map event_of bs) (poc_live_zero, t)) in
      (\<forall>c<4. pl_loc st' c = pl_loc direct c \<and> pl_len st' c = pl_len direct c) \<and>
      pl_dma st' = pl_dma direct)"
proof -
  let ?latest = "fold shadow_write bs snapshot_zero"
  let ?direct = "fold live_event (map event_of bs) poc_live_zero"
  have z: "snapshot_ok snapshot_zero" "live_matches snapshot_zero poc_live_zero"
    by (auto simp: snapshot_ok_def live_matches_def snapshot_zero_def poc_live_zero_def snapshot_loc_def)
  note inv = shadow_and_replay [OF assms(1) z]
  have direct: "fst (fold (poc_apply_live_event ops) (map event_of bs) (poc_live_zero, t)) = ?direct"
    by (subst fold_fst [where g = live_event]) (simp_all add: apply_live_state)
  obtain n s1 where n: "paula_mirror_snapshot_take s = (Some n, s1)"
    and fields: "sn_reg n = sn_reg ?latest" "sn_seen n = sn_seen ?latest" "sn_dma n = sn_dma ?latest"
      "sn_seen_global n = sn_seen_global ?latest"
    using assms(2-4) by (auto simp: paula_mirror_snapshot_take_def Let_def)
  have ok: "snapshot_ok n" and matches: "live_matches n ?direct"
    using inv fields by (simp_all add: snapshot_ok_def live_matches_def snapshot_loc_def)
  let ?st0 = "st\<lparr>pl_loc := (\<lambda>i. if i < 4 then 0 else pl_loc st i),
                  pl_len := (\<lambda>i. if i < 4 then 0 else pl_len st i), pl_dma := 0\<rparr>"
  let ?st1 = "?st0\<lparr>pl_loc := (\<lambda>c. if c < 4 then snapshot_loc n c else pl_loc ?st0 c),
                    pl_len := (\<lambda>c. if c < 4 then sn_reg n c 2 else pl_len ?st0 c)\<rparr>"
  have st1: "fst (fold (restore_channel ops n) [0..<4] (?st0, s2)) = ?st1" for s2
  proof -
    have "fst (fold (restore_channel ops n) cs x) = fold (restore_regs n) cs (fst x)" if "set cs \<subseteq> {..<4}" for cs x
      using that by (induction cs arbitrary: x) (simp_all add: restore_channel_live)
    from this [of "[0..<4]" "(?st0, s2)"]
    have "fst (fold (restore_channel ops n) [0..<4] (?st0, s2)) = fold (restore_regs n) [0..<4] ?st0"
      by (simp add: atLeast0LessThan del: upt_rec_numeral)
    also have "\<dots> = ?st1"
      by (rule restore_all_channels [OF ok]) simp
    finally show ?thesis .
  qed
  have dma: "live_event (restore_event n 0xdff096 (0x8000 OR sn_dma n)) ?st1 = ?st1\<lparr>pl_dma := sn_dma n\<rparr>"
    using live_write_regs(6) [of 0 "0x8000 OR sn_dma n" ?st1] setclr16_restore [of "sn_dma n"] ok
    by (simp add: live_event_def restore_event_def event_value_def snapshot_ok_def)
  have dma0: "sn_seen_global n AND 1 = 0 \<Longrightarrow> sn_dma n = 0"
    using ok by (simp add: snapshot_ok_def)
  obtain s2 :: "('c, 'a) live_state_scheme" where r: "fst (poc_restore_live_state ops st s) = Some n"
    "fst (snd (poc_restore_live_state ops st s)) =
       (let x = fst (fold (restore_channel ops n) [0..<4] (?st0, s2))
        in if sn_seen_global n AND 1 \<noteq> 0
           then live_event (restore_event n 0xdff096 (0x8000 OR sn_dma n)) x else x)"
    using restore_result [OF n, of ops st] by blast
  obtain st' s' where res: "poc_restore_live_state ops st s = (Some n, st', s')"
    using r(1) by (cases "poc_restore_live_state ops st s") auto
  have "st' = ?st1\<lparr>pl_dma := sn_dma n\<rparr>"
    using r(2) res dma dma0 by (simp add: st1 Let_def del: upt_rec_numeral)
  then show ?thesis
    using res matches direct by (intro exI [of _ n] exI [of _ st'] exI [of _ s']) (simp add: live_matches_def Let_def)
qed

definition demo_ops :: "nat core_ops" where
  "demo_ops = \<lparr>co_write16 = (\<lambda>a v c. c + 1), co_reset = (\<lambda>c. 0),
     co_fetch = (\<lambda>c ch. \<lparr>fs_enabled = False, fs_cursor = 0, fs_words_left = 0, fs_loop = 0, fs_loop_words = 0\<rparr>),
     co_settings = (\<lambda>m s l u c. c)\<rparr>"

definition live_demo :: "nat live_state" where
  "live_demo = diag_state.extend diag_demo \<lparr>lv_core = 0, lv_last_mixer = 0\<rparr>"

theorem resync_equals_replay_witness:
  "\<exists>n st' s'. poc_restore_live_state demo_ops poc_live_zero
     (live_demo\<lparr>pm_enabled := 1, pm_latest := shadow_write demo_write snapshot_zero\<rparr>) = (Some n, st', s') \<and>
     pl_len st' 0 = 0x1234"
proof -
  let ?s = "live_demo\<lparr>pm_enabled := 1, pm_latest := shadow_write demo_write snapshot_zero\<rparr>"
  have lock: "pm_event_lock ?s = 0"
    by (simp add: live_demo_def diag_demo_def diag_state.defs io_state.defs mirror.defs mirror_bss_def)
  have b: "\<forall>b \<in> set [demo_write]. captures b \<and> bus_shape b"
    using demo_captures by (simp add: bus_shape_def demo_write_def)
  have "fst (poc_apply_live_event demo_ops (event_of demo_write) (poc_live_zero, live_demo))
      = live_write 0xa4 0x1234 poc_live_zero"
    using b by (simp add: apply_live_state replayed_write) (simp add: demo_write_def presented_word_def)
  moreover have "pl_len (live_write 0xa4 0x1234 poc_live_zero) 0 = 0x1234"
    by (simp add: live_write_def)
  ultimately show ?thesis
    using resync_equals_replay [OF b, of ?s demo_ops poc_live_zero live_demo] lock
    by (fastforce simp: Let_def)
qed

end
