(* ===== verification/HdmiRun.thy ===== *)
theory HdmiRun
  imports HdmiLive
begin

text \<open>
  The renderer loop \<open>hdmi_audio_poc_run\<close> of \<open>source/src/raspi/hdmi_audio_poc.c\<close>:
  recovery, pacing, the bounded replay of due events, and one IEC 60958 frame to the FIFO.
  \<open>render\<close> is \<open>paula_live_render\<close> followed by the conversion to 24-bit PCM, the
  floating-point part: it returns the two samples as 32-bit words. \<open>PaulaLive\<close> supplies it.
\<close>

type_synonym ('c, 'a) renderer = "('c, 'a) live_state_scheme \<Rightarrow> ((u32 \<times> u32) \<times> ('c, 'a) live_state_scheme) option"

record run_vars =
  rv_state :: poc_live_state
  rv_frame :: nat
  rv_frames_written :: u32
  rv_last_drop :: u32
  rv_recovery :: bool
  rv_last_report :: u64
  rv_frequency :: u64
  rv_clock :: paula_replay_clock

definition run_latency :: "run_vars \<Rightarrow> u64" where
  "run_latency v = rv_frequency v div 20"

definition run_max_lag :: "run_vars \<Rightarrow> u64" where
  "run_max_lag v = rv_frequency v div 4"

section \<open>Recovery and pacing\<close>

definition run_recover ::
    "formatter \<Rightarrow> 'c core_ops \<Rightarrow> u64 \<Rightarrow> u32 \<Rightarrow> run_vars \<Rightarrow> ('c, 'a) live_state_scheme \<Rightarrow>
     (run_vars \<times> ('c, 'a) live_state_scheme) option" where
  "run_recover vk ops now drops v s =
     (let v = (if drops \<noteq> rv_last_drop v \<or>
                  paula_mirror_pending s \<ge> PAULA_MIRROR_EVENT_CAPACITY * 3 div 4 \<or>
                  paula_replay_late (rv_clock v) now (run_latency v) (run_max_lag v)
               then v\<lparr>rv_recovery := True\<rparr> else v)
      in if \<not> rv_recovery v then Some (v, s)
         else
           let s = probe_do (paula_probe_flag PP_FLAG_CAPTURE_FAILED True) s in
           case poc_restore_live_state ops (rv_state v) s of
             (Some n, st, s) \<Rightarrow>
               do {
                 (t, s) \<leftarrow> read_cntvct s;
                 let v = v\<lparr>rv_state := st, rv_last_drop := sn_dropped n,
                          rv_clock := paula_replay_start t (ucast (rv_frequency v)) (run_latency v)\<rparr>;
                 s \<leftarrow> poc_message vk False ''Paula replay resync=%u drop=%u''
                        [paula_probe_get (pm_metrics s) PP_RESYNCS, rv_last_drop v] s;
                 Some (v\<lparr>rv_recovery := False\<rparr>, s)
               }
           | (None, st, s) \<Rightarrow> Some (v, probe_do (paula_probe_add PP_SNAPSHOT_RETRIES 1) s))"

partial_function (option) wait_due :: "u64 \<Rightarrow> 'a io_state_scheme \<Rightarrow> 'a io_state_scheme option" where
  "wait_due target s =
     (case read_cntvct s of None \<Rightarrow> None
      | Some (now, s1) \<Rightarrow> if paula_replay_due now target then Some s1 else wait_due target s1)"

section \<open>Replaying due events\<close>

fun apply_events ::
    "'c core_ops \<Rightarrow> u64 \<Rightarrow> nat \<Rightarrow> poc_live_state \<times> ('c, 'a) live_state_scheme \<Rightarrow>
     poc_live_state \<times> ('c, 'a) live_state_scheme" where
  "apply_events ops tick 0 (st, s) = (st, s)"
| "apply_events ops tick (Suc n) (st, s) =
     (case paula_mirror_peek s of None \<Rightarrow> (st, s)
      | Some e \<Rightarrow>
          if \<not> paula_replay_due tick (ev_ticks e) then (st, s)
          else let (st, s) = poc_apply_live_event ops e (st, s)
               in apply_events ops tick n (st, paula_mirror_pop s))"

definition event_backlog :: "u64 \<Rightarrow> 'a mirror_scheme \<Rightarrow> bool" where
  "event_backlog tick s \<longleftrightarrow>
     (case paula_mirror_peek s of None \<Rightarrow> False | Some e \<Rightarrow> paula_replay_due tick (ev_ticks e))"

section \<open>Writing one frame\<close>

definition abs_sample :: "u32 \<Rightarrow> u32" where
  "abs_sample x = (if sint x < 0 then - x else x)"

definition frame_metrics :: "u32 \<Rightarrow> u32 \<Rightarrow> metrics \<Rightarrow> metrics" where
  "frame_metrics l r m =
     (let m = (if l \<noteq> 0 \<or> r \<noteq> 0 then paula_probe_add PP_NONZERO_FRAMES 1 m else m);
          m = (if abs_sample l > paula_probe_get m PP_PEAK_LEFT
               then paula_probe_set PP_PEAK_LEFT (abs_sample l) m else m)
      in if abs_sample r > paula_probe_get m PP_PEAK_RIGHT
         then paula_probe_set PP_PEAK_RIGHT (abs_sample r) m else m)"

text \<open>The branch that stops the renderer: the last state before the core sleeps.\<close>

definition fifo_stalled :: "formatter \<Rightarrow> ('c, 'a) live_state_scheme \<Rightarrow> ('c, 'a) live_state_scheme option" where
  "fifo_stalled vk s =
     do {
       s \<leftarrow> poc_message vk False ''FAIL: MAI FIFO full for 250 ms'' [] s;
       (ctl, s) \<leftarrow> rd32le HD_MAI_CTL s;
       s \<leftarrow> poc_message vk True ''FIFO stalled: ctl=%08x'' [ctl] s;
       let s = probe_do (paula_probe_set PP_MAI_ERROR 2) s;
       let s = probe_do (paula_probe_flag PP_FLAG_MAI_FAILED True) s;
       let s = probe_do (paula_probe_flag PP_FLAG_RENDERING False) s;
       Some (wr32le HD_MAI_CTL 0 s)
     }"

text \<open>\<open>True\<close>: the subframe was written; \<open>False\<close>: the FIFO stalled.\<close>

definition write_subframe ::
    "formatter \<Rightarrow> u32 \<Rightarrow> nat \<Rightarrow> (bool, ('c, 'a) live_state_scheme) prog" where
  "write_subframe vk sample frame s =
     do {
       (ready, s) \<leftarrow> poc_wait_fifo s;
       if ready then Some (True, wr32le HD_MAI_DATA (iec958_word sample frame) s)
       else do { s \<leftarrow> fifo_stalled vk s; Some (False, s) }
     }"

section \<open>One iteration\<close>

text \<open>
  \<open>Inl s\<close>: the FIFO stalled and the core sleeps for good in \<open>s\<close>; \<open>Inr (v, s)\<close>: the
  loop goes on.
\<close>

definition poc_report ::
    "formatter \<Rightarrow> u64 \<Rightarrow> run_vars \<Rightarrow> ('c, 'a) live_state_scheme \<Rightarrow>
     (run_vars \<times> ('c, 'a) live_state_scheme) option" where
  "poc_report vk now v s =
     do {
       let target = rc_tick (rv_clock v) + run_latency v;
       let lag = (if paula_replay_due now target then now - target else 0);
       let s = probe_do (paula_probe_set PP_REPLAY_LAG_US (ucast (lag * 1000000 div rv_frequency v))) s;
       (ctl, s) \<leftarrow> rd32le HD_MAI_CTL s;
       let s = probe_do (paula_probe_set PP_MAI_CTL ctl) s;
       s \<leftarrow> poc_message vk True ''PCM=%u writes=%u miss=%u drop=%u''
              [rv_frames_written v, pm_captured s, pm_misses s, pm_dropped s] s;
       Some (v\<lparr>rv_last_report := now\<rparr>, s)
     }"

definition poc_output ::
    "formatter \<Rightarrow> u32 \<Rightarrow> u32 \<Rightarrow> run_vars \<Rightarrow> ('c, 'a) live_state_scheme \<Rightarrow>
     (('c, 'a) live_state_scheme + run_vars \<times> ('c, 'a) live_state_scheme) option" where
  "poc_output vk l r v s =
     do {
       let s = probe_do (frame_metrics l r) s;
       (ok, s) \<leftarrow> write_subframe vk l (rv_frame v) s;
       if \<not> ok then Some (Inl s)
       else do {
         (ok, s) \<leftarrow> write_subframe vk r (rv_frame v) s;
         if \<not> ok then Some (Inl s)
         else do {
           let v = v\<lparr>rv_frame := (if rv_frame v + 1 = 192 then 0 else rv_frame v + 1),
                    rv_frames_written := rv_frames_written v + 1\<rparr>;
           let s = probe_do (paula_probe_set PP_PCM_FRAMES (rv_frames_written v)) s;
           let v = v\<lparr>rv_clock := paula_replay_advance (rv_clock v)\<rparr>;
           (now, s) \<leftarrow> read_cntvct s;
          if now - rv_last_report v \<ge> rv_frequency v
          then map_option Inr (poc_report vk now v s)
          else Some (Inr (v, s))
         }
       }
     }"

definition poc_iteration ::
    "formatter \<Rightarrow> 'c core_ops \<Rightarrow> ('c, 'a) renderer \<Rightarrow> run_vars \<Rightarrow> ('c, 'a) live_state_scheme \<Rightarrow>
     (('c, 'a) live_state_scheme + run_vars \<times> ('c, 'a) live_state_scheme) option" where
  "poc_iteration vk ops render v s =
     do {
       let s = paula_live_mixer_apply ops s;
       (now, s) \<leftarrow> read_cntvct s;
       (v, s) \<leftarrow> run_recover vk ops now (pm_dropped s) v s;
       let recovering = rv_recovery v;
       s \<leftarrow> (if recovering then Some s else wait_due (rc_tick (rv_clock v) + run_latency v) s);
       let (st, s) = (if recovering then (rv_state v, s)
                      else apply_events ops (rc_tick (rv_clock v)) 128 (rv_state v, s));
       let v = v\<lparr>rv_state := st\<rparr>;
       let backlog = (\<not> recovering \<and> event_backlog (rc_tick (rv_clock v)) s);
       ((l, r), s) \<leftarrow> (if \<not> recovering \<and> \<not> backlog then render s
                       else Some ((0, 0), probe_do (paula_probe_add PP_REPLAY_SILENT_FRAMES 1) s));
       poc_output vk l r v s
     }"

section \<open>Start\<close>

text \<open>From the end of \<open>poc_start\<close> to the loop; \<open>Inl\<close> is the failed initialisation.\<close>

definition poc_run_setup ::
    "formatter \<Rightarrow> ('c, 'a) live_state_scheme \<Rightarrow> 'c \<Rightarrow>
     (('c, 'a) live_state_scheme + run_vars \<times> ('c, 'a) live_state_scheme) option" where
  "poc_run_setup vk s fresh =
     do {
       let s = probe_do paula_probe_init s;
       let s = probe_do (paula_probe_set PP_SAMPLE_RATE 48000) s;
       let s = probe_do (paula_probe_set PP_COUNTER_FREQ (ucast (read_cntfrq s))) s;
       s \<leftarrow> poc_message vk False ''CPU1: live Paula mirror, 48 kHz stereo'' [] s;
       let s = s\<lparr>lv_core := fresh, lv_last_mixer := 0\<rparr>;
       let s = probe_do (fold (\<lambda>ch. paula_probe_set (channel_base ch + PP_CH_PER) 1) [0..<4]) s;
       let s = paula_mirror_enable s;
       s \<leftarrow> poc_message vk False ''Passive registers and Chip RAM reader armed'' [] s;
       (ok, s) \<leftarrow> hdmi_audio_init vk s;
       if \<not> ok
       then do {
         let s = probe_do (paula_probe_set PP_MAI_ERROR 1) s;
         let s = probe_do (paula_probe_flag PP_FLAG_MAI_FAILED True) s;
         s \<leftarrow> poc_message vk True ''FAILED: see last completed stage'' [] s;
         Some (Inl s)
       }
       else do {
         let s = probe_do (paula_probe_flag (PP_FLAG_HDMI_READY OR PP_FLAG_RENDERING) True) s;
         s \<leftarrow> poc_message vk False ''Live source: Amiga CPU writes and Chip RAM'' [] s;
         s \<leftarrow> poc_message vk True ''Waiting for real Paula audio'' [] s;
         (t, s) \<leftarrow> read_cntvct s;
         let f = read_cntfrq s;
         Some (Inr (\<lparr>rv_state = poc_live_zero, rv_frame = 0, rv_frames_written = 0,
                     rv_last_drop = pm_dropped s, rv_recovery = False, rv_last_report = t,
                     rv_frequency = f, rv_clock = paula_replay_start t (ucast f) (f div 20)\<rparr>, s))
       }
     }"

section \<open>Replaying leaves the event ring to the consumer\<close>

definition ring_part :: "'a mirror_scheme \<Rightarrow> (nat \<Rightarrow> paula_mirror_event) \<times> u32 \<times> u32 \<times> u32 \<times> u32" where
  "ring_part s = (pm_events s, pm_event_head s, pm_event_tail s, pm_event_lock s, pm_enabled s)"

lemma ring_part_same:
  assumes "ring_part s' = ring_part s"
  shows "event_queue s' = event_queue s" and "event_ring_inv s' = event_ring_inv s"
    and "paula_mirror_peek s' = paula_mirror_peek s"
  using assms
  by (simp_all add: ring_part_def event_queue_def event_ring_inv_def paula_mirror_pending_def
      paula_mirror_peek_def Let_def)

lemma fold_keeps:
  assumes "\<And>x s. f (g x s) = f s"
  shows "f (fold g xs s) = f s"
  by (induction xs arbitrary: s) (simp_all add: assms)

lemma ring_part_basic [frame]:
  "ring_part (probe_do f s) = ring_part s"
  "ring_part (request_page p s) = ring_part s"
  "ring_part (prefetch_page p s) = ring_part s"
  by (simp_all add: ring_part_def probe_do_def prefetch_page_def request_page_def request_claim_def
      request_enqueue_def Let_def)

lemma ring_part_prefetch [frame]: "ring_part (paula_mirror_prefetch a n s) = ring_part s"
  by (simp add: paula_mirror_prefetch_def Let_def frame fold_keeps [of ring_part])

lemma ring_part_channel [frame]:
  "ring_part (prefetch_channel_of f s) = ring_part s"
  by (simp add: prefetch_channel_of_def Let_def frame)

lemma ring_part_prefetches [frame]: "ring_part (poc_prefetch_channel st ch s) = ring_part s"
  by (simp add: poc_prefetch_channel_def Let_def frame)

lemma ring_part_live [frame]:
  "ring_part (paula_live_write ops a v s) = ring_part s"
  "ring_part (paula_live_prefetch ops s) = ring_part s"
proof -
  show "ring_part (paula_live_write ops a v s) = ring_part s"
    by (simp add: paula_live_write_def frame) (simp add: ring_part_def)
  show "ring_part (paula_live_prefetch ops s) = ring_part s"
    unfolding paula_live_prefetch_def by (rule fold_keeps) (simp add: frame)
qed

lemma ring_part_dma [frame]:
  "ring_part (fold (\<lambda>ch s. if P ch then poc_prefetch_channel st ch s else s) xs s) = ring_part s"
  by (rule fold_keeps) (simp add: frame)

lemma ring_part_track [frame]: "ring_part (snd (poc_track_write r v st s)) = ring_part s"
  by (simp add: poc_track_write_def Let_def frame)

lemma ring_part_apply [frame]: "ring_part (snd (poc_apply_live_event ops e x)) = ring_part (snd x)"
  by (simp add: poc_apply_live_event_def Let_def split_beta frame)

lemma apply_event_queue:
  "event_queue (snd (poc_apply_live_event ops e x)) = event_queue (snd x)"
  "event_ring_inv (snd (poc_apply_live_event ops e x)) = event_ring_inv (snd x)"
  by (rule ring_part_same, rule ring_part_apply)+

text \<open>The events the loop takes: the due ones at the front, \<open>n\<close> at most.\<close>

definition due_prefix :: "u64 \<Rightarrow> nat \<Rightarrow> paula_mirror_event list \<Rightarrow> paula_mirror_event list" where
  "due_prefix tick n q = takeWhile (\<lambda>e. paula_replay_due tick (ev_ticks e)) (take n q)"

lemma apply_events_result:
  assumes "event_ring_inv (snd x)"
  shows "fst (apply_events ops tick n x) = fold live_event (due_prefix tick n (event_queue (snd x))) (fst x) \<and>
     event_queue (snd (apply_events ops tick n x))
       = drop (length (due_prefix tick n (event_queue (snd x)))) (event_queue (snd x)) \<and>
     event_ring_inv (snd (apply_events ops tick n x))"
  using assms
proof (induction n arbitrary: x)
  case 0
  obtain st s where "x = (st, s)" by (cases x)
  with 0 show ?case by (simp add: due_prefix_def)
next
  case (Suc n)
  obtain st s where x: "x = (st, s)" by (cases x)
  show ?case
  proof (cases "event_queue s")
    case Nil
    then show ?thesis using Suc.prems by (simp add: x peek_event_queue due_prefix_def)
  next
    case (Cons e q)
    show ?thesis
    proof (cases "paula_replay_due tick (ev_ticks e)")
      case False
      then show ?thesis using Cons Suc.prems by (simp add: x peek_event_queue due_prefix_def)
    next
      case True
      let ?y = "poc_apply_live_event ops e (st, s)"
      let ?z = "(fst ?y, paula_mirror_pop (snd ?y))"
      have q: "event_queue (snd ?z) = q"
        by (simp add: pop_event_queue apply_event_queue Cons)
      have inv: "event_ring_inv (snd ?z)"
        using Suc.prems by (simp add: x pop_event_ring_inv apply_event_queue)
      have step: "apply_events ops tick (Suc n) x = apply_events ops tick n ?z"
        using True Cons by (simp add: x peek_event_queue split_beta)
      have d: "due_prefix tick (Suc n) (e # q) = e # due_prefix tick n q"
        using True by (simp add: due_prefix_def)
      show ?thesis
        using Suc.IH [OF inv] by (simp only: step q) (simp add: x d Cons apply_live_state)
    qed
  qed
qed

lemma backlog_queue:
  "event_backlog tick s \<longleftrightarrow> (\<exists>e q. event_queue s = e # q \<and> paula_replay_due tick (ev_ticks e))"
  by (simp add: event_backlog_def peek_event_queue split: list.splits)

lemma due_prefix_rest:
  "(\<exists>e r. drop (length (due_prefix tick n q)) q = e # r \<and> paula_replay_due tick (ev_ticks e)) \<longleftrightarrow>
     n < length (takeWhile (\<lambda>e. paula_replay_due tick (ev_ticks e)) q)"
proof (induction q arbitrary: n)
  case Nil
  show ?case by (simp add: due_prefix_def)
next
  case (Cons a q)
  show ?case
    using Cons [of "n - 1"] by (cases n) (auto simp: due_prefix_def)
qed

text \<open>
  One pass of the replay loop applies exactly the due events at the front of the ring, in
  the order they were captured and at most 128 of them, leaves the rest queued, and reports a
  backlog (which makes the frame silent) exactly when more than 128 were due.
\<close>

theorem replay_applies_due_events:
  fixes s :: "('c, 'a) live_state_scheme" and tick :: u64
  assumes "event_ring_inv s"
  defines "q \<equiv> event_queue s"
  defines "due \<equiv> takeWhile (\<lambda>e. paula_replay_due tick (ev_ticks e)) (take 128 q)"
  shows "\<exists>st' s'. apply_events ops tick 128 (st, s) = (st', s') \<and>
     st' = fold live_event due st \<and> event_queue s' = drop (length due) q \<and> event_ring_inv s' \<and>
     event_backlog tick s' = (128 < length (takeWhile (\<lambda>e. paula_replay_due tick (ev_ticks e)) q))"
proof -
  obtain st' s' where r: "apply_events ops tick 128 (st, s) = (st', s')"
    by (metis surj_pair)
  have due: "due = due_prefix tick 128 q"
    by (simp add: due_def due_prefix_def)
  have *: "st' = fold live_event due st \<and> event_queue s' = drop (length due) q \<and> event_ring_inv s'"
    using apply_events_result [of "(st, s)" ops tick 128] assms(1) by (simp add: r due q_def)
  then have "event_backlog tick s' = (128 < length (takeWhile (\<lambda>e. paula_replay_due tick (ev_ticks e)) q))"
    unfolding backlog_queue due_prefix_rest [symmetric] by (simp add: due)
  with * r show ?thesis by blast
qed

theorem replay_applies_due_events_witness:
  "\<exists>st' s'. apply_events demo_ops 5 128 (poc_live_zero, paula_mirror_enable live_demo) = (st', s') \<and>
     event_queue s' = []"
  using replay_applies_due_events [OF enable_event_ring_inv [of live_demo], of demo_ops 5 poc_live_zero]
  by (auto simp: enable_event_queue)

section \<open>A frame is two subframes or a stop\<close>

lemma wait_fifo_steps:
  assumes "\<forall>j<2. io_clock s (io_n s + k + j) - start \<ge> timeout"
  shows "\<exists>b j. wait_fifo_loop start timeout s = Some (b, skip_io j s)"
  using assms
proof (induction k arbitrary: s rule: less_induct)
  case (less k)
  show ?case
  proof (cases "io_read s (io_writes s) (io_n s) HD_MAI_CTL AND MAI_CTL_FULL = 0 \<or>
                io_clock s (Suc (io_n s)) - start \<ge> timeout")
    case True
    then have r: "wait_fifo_loop start timeout s =
        Some (if io_read s (io_writes s) (io_n s) HD_MAI_CTL AND MAI_CTL_FULL = 0 then (True, skip_io 1 s)
              else (False, skip_io 2 s))"
      by (subst wait_fifo_loop.simps) (auto simp: rd32le_def read_cntvct_def)
    show ?thesis
      unfolding r by (simp only: prod.collapse split: if_split) blast
  next
    case False
    then have eq: "wait_fifo_loop start timeout s = wait_fifo_loop start timeout (skip_io 2 s)"
      by (subst wait_fifo_loop.simps) (simp add: rd32le_def read_cntvct_def)
    have "2 \<le> k"
    proof (rule ccontr)
      assume "\<not> 2 \<le> k"
      then have "k = 0 \<or> k = 1" by auto
      then have "io_clock s (Suc (io_n s)) - start \<ge> timeout"
        using less.prems [rule_format, of "1 - k"] by auto
      with False show False by blast
    qed
    then obtain k' where k: "k = Suc (Suc k')"
      by (metis add_2_eq_Suc le_Suc_ex)
    then have "\<forall>j<2. io_clock (skip_io 2 s) (io_n (skip_io 2 s) + k' + j) - start \<ge> timeout"
      using less.prems by simp
    from less.IH [of k' "skip_io 2 s", OF _ this] k
    obtain b j where "wait_fifo_loop start timeout (skip_io 2 s) = Some (b, skip_io j (skip_io 2 s))"
      by auto
    then have "wait_fifo_loop start timeout s = Some (b, skip_io (j + 2) s)"
      by (simp add: eq)
    then show ?thesis by blast
  qed
qed

lemma wait_fifo_ends:
  assumes "clock_advances s"
  shows "\<exists>b j. poc_wait_fifo s = Some (b, skip_io j s)"
proof -
  let ?s1 = "skip_io 1 s"
  have "clock_advances ?s1" using assms by (simp add: frame)
  moreover have "io_freq s div 4 < 2 ^ 63" by (rule div_lt_63) simp
  ultimately obtain k where "\<forall>j<4. io_clock ?s1 (io_n ?s1 + k + j) - io_clock s (io_n s) \<ge> io_freq s div 4"
    unfolding clock_advances_def by blast
  then have k: "\<forall>j<2. io_clock ?s1 (io_n ?s1 + k + j) - io_clock s (io_n s) \<ge> io_freq s div 4"
    by auto
  then obtain b j where w: "wait_fifo_loop (io_clock s (io_n s)) (io_freq s div 4) ?s1 = Some (b, skip_io j ?s1)"
    using wait_fifo_steps [OF k] by auto
  have "poc_wait_fifo s = Some (b, skip_io (Suc j) s)"
    using w by (simp add: poc_wait_fifo_def read_cntvct_def read_cntfrq_def)
  then show ?thesis by blast
qed

lemma message_result:
  assumes "clock_advances s"
  shows "\<exists>t. poc_message vk live fmt args s = Some t \<and> clock_advances t \<and> io_writes t = io_writes s"
  using runs_message [OF assms, of UNIV vk live fmt args] assms hw_step_clock
  by (fastforce simp: runs_to_def)

lemma probe_do_io [frame]:
  "clock_advances (probe_do f s) = clock_advances s"
  "io_writes (probe_do f s) = io_writes s"
  "io_n (probe_do f s) = io_n s"
  "io_clock (probe_do f s) = io_clock s"
  "io_read (probe_do f s) = io_read s"
  by (simp_all add: probe_do_def clock_advances_def)

lemma fifo_stalled_result:
  assumes "clock_advances s"
  shows "\<exists>t. fifo_stalled vk s = Some t \<and> io_writes t = (HD_MAI_CTL, 0) # io_writes s"
proof -
  obtain t where t: "poc_message vk False ''FAIL: MAI FIFO full for 250 ms'' [] s = Some t"
    "clock_advances t" "io_writes t = io_writes s"
    using message_result [OF assms] by blast
  let ?u = "t\<lparr>io_n := Suc (io_n t)\<rparr>" and ?ctl = "io_read t (io_writes t) (io_n t) HD_MAI_CTL"
  obtain w where w: "poc_message vk True ''FIFO stalled: ctl=%08x'' [?ctl] ?u = Some w"
    "io_writes w = io_writes ?u"
    using message_result [of ?u vk True "''FIFO stalled: ctl=%08x''" "[?ctl]"] t(2) by (auto simp: frame)
  show ?thesis
    using t w by (simp add: fifo_stalled_def rd32le_def wr32le_def Let_def frame)
qed

lemma write_subframe_result:
  assumes "clock_advances s"
  shows "\<exists>b t. write_subframe vk x f s = Some (b, t) \<and>
     io_writes t = (if b then (HD_MAI_DATA, iec958_word x f) else (HD_MAI_CTL, 0)) # io_writes s \<and>
     (b \<longrightarrow> clock_advances t)"
proof -
  obtain b j where w: "poc_wait_fifo s = Some (b, skip_io j s)"
    using wait_fifo_ends [OF assms] by blast
  have adv: "clock_advances (skip_io j s)" using assms by (simp add: frame)
  show ?thesis
  proof (cases b)
    case True
    with w adv assms show ?thesis
      by (intro exI [of _ True]) (simp add: write_subframe_def wr32le_def frame)
  next
    case False
    obtain t where "fifo_stalled vk (skip_io j s) = Some t" "io_writes t = (HD_MAI_CTL, 0) # io_writes s"
      using fifo_stalled_result [OF adv, of vk] by auto
    with w False assms show ?thesis
      by (intro exI [of _ False]) (simp add: write_subframe_def frame)
  qed
qed

lemma report_result:
  assumes "clock_advances s"
  shows "\<exists>t. poc_report vk now v s = Some (v\<lparr>rv_last_report := now\<rparr>, t) \<and> io_writes t = io_writes s"
proof -
  define f where "f = paula_probe_set PP_REPLAY_LAG_US
    (ucast ((if paula_replay_due now (rc_tick (rv_clock v) + run_latency v)
             then now - (rc_tick (rv_clock v) + run_latency v) else 0) * 1000000 div rv_frequency v))"
  define g where "g = paula_probe_set PP_MAI_CTL (io_read s (io_writes s) (io_n s) HD_MAI_CTL)"
  define u where "u = probe_do g ((probe_do f s)\<lparr>io_n := Suc (io_n s)\<rparr>)"
  have "clock_advances u" using assms by (simp add: u_def frame)
  moreover have "io_writes u = io_writes s" by (simp add: u_def frame)
  ultimately obtain t where
    "poc_message vk True ''PCM=%u writes=%u miss=%u drop=%u''
       [rv_frames_written v, pm_captured u, pm_misses u, pm_dropped u] u = Some t"
    "io_writes t = io_writes s"
    using message_result [of u] by metis
  then show ?thesis
    by (simp add: poc_report_def rd32le_def Let_def frame f_def [symmetric] g_def [symmetric] u_def [symmetric])
qed

text \<open>
  C14: writing a frame always ends. Either both samples went to the FIFO as the two subframes of
  the current frame, left first, nothing else was written, the frame number advances within
  its block of 192 and the replay clock by one sample; or the FIFO stalled, the renderer
  stops, and the last device write switches the audio output off.
\<close>

theorem frame_written_or_stopped:
  assumes "clock_advances s" and "rv_frame v < 192"
  shows "\<exists>res. poc_output vk l r v s = Some res \<and>
     (case res of
        Inl s' \<Rightarrow> hd (io_writes s') = (HD_MAI_CTL, 0)
      | Inr (v', s') \<Rightarrow>
          io_writes s' = (HD_MAI_DATA, iec958_word r (rv_frame v)) # (HD_MAI_DATA, iec958_word l (rv_frame v))
                         # io_writes s \<and>
          rv_frame v' = (rv_frame v + 1) mod 192 \<and> rv_frame v' < 192 \<and>
          rv_frames_written v' = rv_frames_written v + 1 \<and>
          rv_clock v' = paula_replay_advance (rv_clock v) \<and> rv_state v' = rv_state v)"
proof -
  let ?s0 = "probe_do (frame_metrics l r) s"
  have turn: "(if rv_frame v + 1 = 192 then 0 else rv_frame v + 1) = (rv_frame v + 1) mod 192"
    using assms(2) by auto
  have a0: "clock_advances ?s0" using assms(1) by (simp add: frame)
  obtain b t where s1: "write_subframe vk l (rv_frame v) ?s0 = Some (b, t)" "b \<longrightarrow> clock_advances t"
    "io_writes t = (if b then (HD_MAI_DATA, iec958_word l (rv_frame v)) else (HD_MAI_CTL, 0)) # io_writes s"
    using write_subframe_result [OF a0, of vk l "rv_frame v"] by (auto simp: frame)
  show ?thesis
  proof (cases b)
    case False
    with s1 show ?thesis by (simp add: poc_output_def)
  next
    case first: True
    then have "clock_advances t" using s1 by simp
    then obtain c u where s2: "write_subframe vk r (rv_frame v) t = Some (c, u)" "c \<longrightarrow> clock_advances u"
      "io_writes u = (if c then (HD_MAI_DATA, iec958_word r (rv_frame v)) else (HD_MAI_CTL, 0)) # io_writes t"
      using write_subframe_result [of t vk r "rv_frame v"] by auto
    show ?thesis
    proof (cases c)
      case False
      with s1 s2 first show ?thesis by (simp add: poc_output_def)
    next
      case True
      let ?v = "v\<lparr>rv_frame := (if rv_frame v + 1 = 192 then 0 else rv_frame v + 1), rv_frames_written := rv_frames_written v + 1,
                   rv_clock := paula_replay_advance (rv_clock v)\<rparr>"
      let ?u = "probe_do (paula_probe_set PP_PCM_FRAMES (rv_frames_written v + 1)) u"
      let ?w = "?u\<lparr>io_n := Suc (io_n u)\<rparr>" and ?now = "io_clock u (io_n u)"
      have out: "poc_output vk l r v s =
          (if ?now - rv_last_report v \<ge> rv_frequency v then map_option Inr (poc_report vk ?now ?v ?w)
           else Some (Inr (?v, ?w)))"
        using s1(1) s2(1) first True
        by (simp add: poc_output_def read_cntvct_def Let_def frame)
      have "clock_advances ?w" using s2(2) True by (simp add: frame)
      then obtain x where x: "poc_report vk ?now ?v ?w = Some (?v\<lparr>rv_last_report := ?now\<rparr>, x)"
        "io_writes x = io_writes u"
        using report_result [of ?w vk ?now ?v] by (auto simp: frame)
      show ?thesis
        using s1(3) s2(3) first True assms(2)
        by (cases "?now - rv_last_report v \<ge> rv_frequency v") (simp_all only: out x if_True if_False, auto simp: x(2) frame)
    qed
  qed
qed

definition run_demo :: run_vars where
  "run_demo = \<lparr>rv_state = poc_live_zero, rv_frame = 191, rv_frames_written = 0, rv_last_drop = 0,
     rv_recovery = False, rv_last_report = 0, rv_frequency = 0, rv_clock = paula_replay_start 0 0 0\<rparr>"

theorem frame_written_or_stopped_witness:
  "\<exists>res. poc_output (\<lambda>f a. []) 0 0 run_demo live_demo = Some res \<and>
     (case res of Inl s' \<Rightarrow> hd (io_writes s') = (HD_MAI_CTL, 0) | Inr (v', s') \<Rightarrow> rv_frame v' = 0)"
proof -
  have "io_clock live_demo = word_of_nat"
    using diag_demo_fields(1) by (simp add: live_demo_def diag_state.defs io_state.defs mirror.defs diag_demo_def)
  then have "clock_advances live_demo" by (rule counting_clock_advances)
  moreover have f: "rv_frame run_demo = 191" by (simp add: run_demo_def)
  ultimately show ?thesis
    using frame_written_or_stopped [of live_demo run_demo "\<lambda>f a. []" 0 0]
    by (fastforce split: sum.splits)
qed

end
