(* ===== verification/PaulaMix.thy ===== *)
theory PaulaMix
  imports Paula
begin

text \<open>
  The mixer of \<open>source/src/raspi/paula/paula.cpp\<close> compared across two runs. \<open>render_simulation\<close>
  is the interface: a relation between two cores, each with its callbacks, that every step of
  rendering keeps. Its client lemma lifts the relation to \<open>render\<close>, and the second run returns
  when the first does. The first interpretation shows that the output settings (mutes, stereo
  separation, interpolation) never reach the sample DMA.
\<close>

section \<open>Rendering step by step\<close>

definition mix_channel ::
    "('d, 'f) float_unit \<Rightarrow> nat \<Rightarrow> ('d, 'f) paula \<Rightarrow> 'f \<times> 'f \<Rightarrow> ('d, 'f) paula \<times> 'f \<times> 'f" where
  "mix_channel fu ch p lr = (let (p, tone) = mix_service fu ch (f_lit fu 0) p in pan fu ch tone lr p)"

definition add_phase :: "('d, 'f) float_unit \<Rightarrow> 'd \<Rightarrow> nat \<Rightarrow> ('d, 'f) paula \<Rightarrow> ('d, 'f) paula" where
  "add_phase fu secs ch p = upd_channel ch (\<lambda>c. c\<lparr>ch_phase := d_add fu (ch_phase c) (phase_step fu ch secs p)\<rparr>) p"

definition sub_phase :: "('d, 'f) float_unit \<Rightarrow> nat \<Rightarrow> ('d, 'f) paula \<Rightarrow> ('d, 'f) paula" where
  "sub_phase fu ch p = upd_channel ch (\<lambda>c. c\<lparr>ch_phase := d_sub fu (ch_phase c) (d_lit fu 1)\<rparr>) p"

lemma render_channels_step:
  "render_channels fu cb secs (ch # chs) (p, s) lr =
     (case source_loop fu cb ch (add_phase fu secs ch p, s) of
        None \<Rightarrow> None
      | Some (p, s) \<Rightarrow> let (p, lr) = mix_channel fu ch p lr in render_channels fu cb secs chs (p, s) lr)"
  by (cases "source_loop fu cb ch (add_phase fu secs ch p, s)")
     (auto simp: serviceChannel_def add_phase_def mix_channel_def Let_def split_beta split: option.splits)

lemma source_loop_step:
  "source_loop fu cb ch (p, s) =
     (if d_le fu (d_lit fu 1) (ch_phase (pa_channels p ch))
      then source_loop fu cb ch (advanceOneSourceSample cb ch (sub_phase fu ch p, s)) else Some (p, s))"
  by (subst source_loop.simps) (simp add: sub_phase_def)

text \<open>Induction on a run of the loop that ends.\<close>

lemma source_loop_runs [consumes 1, case_names run]:
  assumes "source_loop fu cb ch x = Some y"
    and step: "\<And>x y. (\<And>z. d_le fu (d_lit fu 1) (ch_phase (pa_channels (fst x) ch)) \<Longrightarrow>
        z = advanceOneSourceSample cb ch (sub_phase fu ch (fst x), snd x) \<Longrightarrow>
        source_loop fu cb ch z = Some y \<and> P z y) \<Longrightarrow>
      (\<not> d_le fu (d_lit fu 1) (ch_phase (pa_channels (fst x) ch)) \<Longrightarrow> y = x) \<Longrightarrow> P x y"
  shows "P x y"
proof -
  let ?P = "\<lambda>fu2 cb2 ch2 x y. fu2 = fu \<longrightarrow> cb2 = cb \<longrightarrow> ch2 = ch \<longrightarrow> source_loop fu cb ch x = Some y \<and> P x y"
  have "?P fu cb ch x y"
  proof (rule source_loop.raw_induct [of ?P "(((fu, cb), ch), x)" y, unfolded prod.case])
    fix loop fu2 cb2 ch2 x y
    assume IH: "\<And>fu2 cb2 ch2 x y. loop fu2 cb2 ch2 x = Some y \<Longrightarrow> ?P fu2 cb2 ch2 x y"
      and body: "(if d_le fu2 (d_lit fu2 1) (ch_phase (pa_channels (fst x) ch2))
       then loop fu2 cb2 ch2 (advanceOneSourceSample cb2 ch2
              (upd_channel ch2 (\<lambda>c. c\<lparr>ch_phase := d_sub fu2 (ch_phase c) (d_lit fu2 1)\<rparr>) (fst x), snd x))
       else Some x) = Some y"
    show "?P fu2 cb2 ch2 x y"
    proof (intro impI)
      assume eqs: "fu2 = fu" "cb2 = cb" "ch2 = ch"
      let ?z = "advanceOneSourceSample cb ch (sub_phase fu ch (fst x), snd x)"
      have step_eq: "source_loop fu cb ch x =
          (if d_le fu (d_lit fu 1) (ch_phase (pa_channels (fst x) ch)) then source_loop fu cb ch ?z else Some x)"
        using source_loop_step [of fu cb ch "fst x" "snd x"] by simp
      show "source_loop fu cb ch x = Some y \<and> P x y"
      proof (cases "d_le fu (d_lit fu 1) (ch_phase (pa_channels (fst x) ch))")
        case True
        then have "source_loop fu cb ch ?z = Some y \<and> P ?z y"
          using body IH [of fu cb ch ?z y] by (simp add: eqs sub_phase_def)
        moreover from this have "P x y"
          by (intro step) (use True in simp_all)
        ultimately show ?thesis
          using True by (simp add: step_eq)
      next
        case False
        then show ?thesis
          using body step_eq step [of x y] False unfolding eqs by (metis option.inject)
      qed
    qed
  qed (rule assms(1))
  then show ?thesis by simp
qed

text \<open>The loop ends when counting down by one falls below one.\<close>

definition counts_down :: "('d, 'f) float_unit \<Rightarrow> bool" where
  "counts_down fu \<longleftrightarrow>
     (\<forall>x. \<exists>n. \<not> d_le fu (d_lit fu 1) (((\<lambda>y. d_sub fu y (d_lit fu 1)) ^^ n) x))"

lemma advance_phase:
  "ch_phase (pa_channels (fst (advanceOneSourceSample cb ch x)) j) = ch_phase (pa_channels (fst x) j)"
  by (cases x)
     (auto simp: advanceOneSourceSample_def channel_fetch_def channel_reload_def Let_def split_beta split: option.splits)

lemma source_loop_ends:
  assumes "counts_down fu"
  shows "source_loop fu cb ch x \<noteq> None"
proof -
  have "source_loop fu cb ch x \<noteq> None"
    if "\<not> d_le fu (d_lit fu 1) (((\<lambda>y. d_sub fu y (d_lit fu 1)) ^^ n) (ch_phase (pa_channels (fst x) ch)))" for n x
    using that
  proof (induction n arbitrary: x)
    case 0
    then show ?case by (cases x) (simp add: source_loop_step)
  next
    case (Suc n)
    let ?z = "advanceOneSourceSample cb ch (sub_phase fu ch (fst x), snd x)"
    have "ch_phase (pa_channels (fst ?z) ch) = d_sub fu (ch_phase (pa_channels (fst x) ch)) (d_lit fu 1)"
      by (simp add: advance_phase sub_phase_def)
    then have "source_loop fu cb ch ?z \<noteq> None"
      using Suc(2) by (intro Suc(1)) (simp add: funpow_Suc_right del: funpow.simps)
    then show ?case by (cases x) (simp add: source_loop_step)
  qed
  then show ?thesis using assms unfolding counts_down_def by blast
qed

lemma render_channels_ends:
  "counts_down fu \<Longrightarrow> render_channels fu cb secs chs x lr \<noteq> None"
  by (induction chs arbitrary: x lr)
     (auto simp: serviceChannel_def source_loop_ends Let_def split_beta split: option.splits)

lemma render_ends:
  assumes "counts_down fu"
  shows "Paula_render fu cb n sr x \<noteq> None"
proof -
  have "render_frames fu cb secs k y \<noteq> None" for secs k y
  proof (induction k arbitrary: y)
    case (Suc k)
    obtain z lr where "render_channels fu cb secs [0..<4] (frame_start fu (fst y), snd y) (f_lit fu 0, f_lit fu 0) = Some (z, lr)"
      using render_channels_ends [OF assms] by (metis option.exhaust surj_pair)
    then show ?case using Suc [of z] by simp
  qed simp
  then show ?thesis by (simp add: Paula_render_def Let_def)
qed

lemma render_length:
  assumes "Paula_render fu cb n sr x = Some (out, y)"
  shows "length out \<le> nat n"
proof -
  have "length o2 = k" if "render_frames fu cb secs k z = Some (o2, y2)" for secs k z o2 y2
    using that by (induction k arbitrary: z o2) (auto split: option.splits)
  then show ?thesis using assms by (auto simp: Paula_render_def Let_def split: if_splits)
qed

lemma exact_counts_down: "counts_down exact_unit"
proof -
  have pow: "((\<lambda>y. y - 1) ^^ n) x = x - of_nat n" for n and x :: rat
    by (induction n) simp_all
  have "\<exists>n. \<not> 1 \<le> ((\<lambda>y. y - 1) ^^ n) x" for x :: rat
  proof -
    obtain n where "x < of_nat n" using reals_Archimedean2 by blast
    then have "\<not> 1 \<le> ((\<lambda>y. y - 1) ^^ n) x" unfolding pow by linarith
    then show ?thesis by blast
  qed
  then show ?thesis by (simp add: counts_down_def exact_unit_def)
qed

section \<open>Two runs\<close>

locale render_simulation =
  fixes R :: "(('d, 'f) paula \<times> 's) \<times> 'f \<times> 'f \<Rightarrow> (('d, 'f) paula \<times> 't) \<times> 'f \<times> 'f \<Rightarrow> bool"
    and fu :: "('d, 'f) float_unit" and cb :: "'s callbacks" and cb' :: "'t callbacks"
  assumes phases: "R ((p, s), lr) ((q, t), lr') \<Longrightarrow> ch_phase (pa_channels p ch) = ch_phase (pa_channels q ch)"
    and add: "R ((p, s), lr) ((q, t), lr') \<Longrightarrow> R ((add_phase fu secs ch p, s), lr) ((add_phase fu secs ch q, t), lr')"
    and sub: "R ((p, s), lr) ((q, t), lr') \<Longrightarrow> R ((sub_phase fu ch p, s), lr) ((sub_phase fu ch q, t), lr')"
    and tick: "R (x, lr) (y, lr') \<Longrightarrow>
      R (advanceOneSourceSample cb ch x, lr) (advanceOneSourceSample cb' ch y, lr')"
    and mix: "R ((p, s), lr) ((q, t), lr') \<Longrightarrow> mix_channel fu ch p lr = (p', l) \<Longrightarrow>
      mix_channel fu ch q lr' = (q', l') \<Longrightarrow> R ((p', s), l) ((q', t), l')"
    and start: "R ((p, s), lr) ((q, t), lr') \<Longrightarrow>
      R ((frame_start fu p, s), (z, z)) ((frame_start fu q, t), (z, z))"
    and coeff: "R ((p, s), lr) ((q, t), lr') \<Longrightarrow>
      R ((p\<lparr>pa_gainSmoothCoeff := g\<rparr>, s), lr) ((q\<lparr>pa_gainSmoothCoeff := g\<rparr>, t), lr')"
begin

lemma loop_related:
  assumes "source_loop fu cb' ch y = Some y'" and "R (x, lr) (y, lr')"
  shows "\<exists>x'. source_loop fu cb ch x = Some x' \<and> R (x', lr) (y', lr')"
proof -
  have "\<forall>x. R (x, lr) (y, lr') \<longrightarrow> (\<exists>x'. source_loop fu cb ch x = Some x' \<and> R (x', lr) (y', lr'))"
    using assms(1)
  proof (induction rule: source_loop_runs)
    case (run y y')
    show ?case
    proof (intro allI impI)
      fix x assume R: "R (x, lr) (y, lr')"
      obtain p s q t where xy: "x = (p, s)" "y = (q, t)" by (cases x; cases y)
      have ph: "ch_phase (pa_channels p ch) = ch_phase (pa_channels q ch)"
        using phases R xy by blast
      have next_R: "R (advanceOneSourceSample cb ch (sub_phase fu ch p, s), lr)
          (advanceOneSourceSample cb' ch (sub_phase fu ch q, t), lr')"
        using R xy by (intro tick sub) simp
      show "\<exists>x'. source_loop fu cb ch x = Some x' \<and> R (x', lr) (y', lr')"
      proof (cases "d_le fu (d_lit fu 1) (ch_phase (pa_channels q ch))")
        case True
        then show ?thesis
          using run(1) next_R unfolding xy source_loop_step [of fu cb ch p s] ph by (metis fst_conv snd_conv)
      next
        case False
        then show ?thesis
          using run(2) R by (auto simp: xy source_loop_step [of fu cb] ph)
      qed
    qed
  qed
  then show ?thesis using assms by blast
qed

lemma channels_related:
  assumes "render_channels fu cb' secs chs y lr' = Some (y', out')" and "R (x, lr) (y, lr')"
  shows "\<exists>x' out. render_channels fu cb secs chs x lr = Some (x', out) \<and> R (x', out) (y', out')"
  using assms
proof (induction chs arbitrary: x y lr lr')
  case (Cons ch chs)
  obtain p s q t where xy: "x = (p, s)" "y = (q, t)" by (cases x; cases y)
  obtain q1 t1 where q1: "source_loop fu cb' ch (add_phase fu secs ch q, t) = Some (q1, t1)"
    using Cons(2) by (auto simp: xy render_channels_step simp del: render_channels.simps split: option.splits)
  moreover have "R ((add_phase fu secs ch p, s), lr) ((add_phase fu secs ch q, t), lr')"
    using Cons(3) xy by (simp add: add)
  ultimately obtain x1 where x1: "source_loop fu cb ch (add_phase fu secs ch p, s) = Some x1" "R (x1, lr) ((q1, t1), lr')"
    using loop_related by blast
  obtain p1 s1 where p1: "x1 = (p1, s1)" by (cases x1)
  obtain p2 l2 q2 l2' where m: "mix_channel fu ch p1 lr = (p2, l2)" "mix_channel fu ch q1 lr' = (q2, l2')"
    by (cases "mix_channel fu ch p1 lr"; cases "mix_channel fu ch q1 lr'")
  have "R ((p2, s1), l2) ((q2, t1), l2')"
    using mix [OF _ m] x1(2) p1 by blast
  moreover have "render_channels fu cb' secs chs (q2, t1) l2' = Some (y', out')"
    using Cons(2) by (simp add: xy render_channels_step q1 m del: render_channels.simps)
  ultimately show ?case
    using Cons(1) by (simp add: xy render_channels_step x1(1) p1 m del: render_channels.simps)
qed auto

lemma frames_related:
  assumes "render_frames fu cb' secs n y = Some (out', y')" and "R (x, lr) (y, lr')"
  shows "\<exists>out x'. render_frames fu cb secs n x = Some (out, x') \<and> length out = length out' \<and>
    R (x', last (lr # out)) (y', last (lr' # out'))"
  using assms
proof (induction n arbitrary: x y lr lr' out')
  case (Suc n)
  obtain p s q t where xy: "x = (p, s)" "y = (q, t)" by (cases x; cases y)
  let ?z = "(f_lit fu 0, f_lit fu 0)"
  obtain y1 l' out1' where y1: "render_channels fu cb' secs [0..<4] (frame_start fu q, t) ?z = Some (y1, l')"
    "render_frames fu cb' secs n y1 = Some (out1', y')" "out' = l' # out1'"
    using Suc(2) by (auto simp: xy split: option.splits)
  obtain x1 l where x1: "render_channels fu cb secs [0..<4] (frame_start fu p, s) ?z = Some (x1, l)" "R (x1, l) (y1, l')"
    using channels_related [OF y1(1) start] Suc(3) xy by blast
  obtain out1 x' where "render_frames fu cb secs n x1 = Some (out1, x')" "length out1 = length out1'"
    "R (x', last (l # out1)) (y', last (l' # out1'))"
    using Suc(1) [OF y1(2) x1(2)] by blast
  then show ?case
    using x1(1) y1(3) by (auto simp: xy)
qed simp

lemma render_related:
  assumes "Paula_render fu cb' n sr y = Some (out', y')" and "R (x, lr) (y, lr')"
  shows "\<exists>out x'. Paula_render fu cb n sr x = Some (out, x') \<and> length out = length out' \<and>
    R (x', last (lr # out)) (y', last (lr' # out'))"
proof (cases "n \<le> 0 \<or> d_le fu sr (d_lit fu 0)")
  case True
  then show ?thesis using assms by (auto simp: Paula_render_def)
next
  case False
  obtain p s q t where xy: "x = (p, s)" "y = (q, t)" by (cases x; cases y)
  let ?g = "f_lit fu (103626011 / 10000000000)" and ?secs = "d_div fu (d_lit fu 1) sr"
  have "render_frames fu cb' ?secs (nat n) (q\<lparr>pa_gainSmoothCoeff := ?g\<rparr>, t) = Some (out', y')"
    using assms(1) False by (simp add: Paula_render_def xy Let_def)
  from frames_related [OF this coeff, of p s lr lr'] assms(2) False
  show ?thesis by (simp add: Paula_render_def xy Let_def)
qed

end

section \<open>Output settings stay out of the DMA\<close>

text \<open>Everything of a core but its output settings, and the gains that follow them.\<close>

definition same_dma :: "(('d, 'f) paula \<times> 's) \<times> 'f \<times> 'f \<Rightarrow> (('d, 'f) paula \<times> 's) \<times> 'f \<times> 'f \<Rightarrow> bool" where
  "same_dma x y \<longleftrightarrow>
     (let ((p, s), lr) = x; ((q, t), lr') = y in
      s = t \<and> pa_channels p = pa_channels q \<and> pa_clockHz p = pa_clockHz q \<and> pa_dmaCon p = pa_dmaCon q \<and>
      pa_intReq p = pa_intReq q \<and> pa_intEna p = pa_intEna q \<and> pa_adkCon p = pa_adkCon q \<and>
      pa_vhposr p = pa_vhposr q \<and> pa_gainSmoothCoeff p = pa_gainSmoothCoeff q)"

lemma mix_channel_dma:
  assumes "mix_channel fu ch p lr = (p', l)"
  shows "pa_channels p' = pa_channels (fst (mix_service fu ch (f_lit fu 0) p))"
    and "pa_clockHz p' = pa_clockHz p" and "pa_dmaCon p' = pa_dmaCon p" and "pa_intReq p' = pa_intReq p"
    and "pa_intEna p' = pa_intEna p" and "pa_adkCon p' = pa_adkCon p" and "pa_vhposr p' = pa_vhposr p"
    and "pa_gainSmoothCoeff p' = pa_gainSmoothCoeff p"
  using assms by (auto simp: mix_channel_def mix_service_def pan_def upd_channel_def Let_def split: prod.splits if_splits)

interpretation output_settings: render_simulation same_dma fu cb cb
  for fu :: "('d, 'f) float_unit" and cb :: "'s callbacks"
proof
  show "ch_phase (pa_channels p ch) = ch_phase (pa_channels q ch)"
    if "same_dma ((p, s), lr) ((q, t), lr')" for p q :: "('d, 'f) paula" and s t :: 's and lr lr' ch
    using that by (simp add: same_dma_def)
  show "same_dma ((add_phase fu secs ch p, s), lr) ((add_phase fu secs ch q, t), lr')"
    if "same_dma ((p, s), lr) ((q, t), lr')" for p q :: "('d, 'f) paula" and s t :: 's and lr lr' ch secs
    using that by (simp add: same_dma_def add_phase_def phase_step_def upd_channel_def Let_def)
  show "same_dma ((sub_phase fu ch p, s), lr) ((sub_phase fu ch q, t), lr')"
    if "same_dma ((p, s), lr) ((q, t), lr')" for p q :: "('d, 'f) paula" and s t :: 's and lr lr' ch
    using that by (simp add: same_dma_def sub_phase_def upd_channel_def)
  show "same_dma (advanceOneSourceSample cb ch x, lr) (advanceOneSourceSample cb ch y, lr')"
    if "same_dma (x, lr) (y, lr')" for x y :: "('d, 'f) paula \<times> 's" and lr lr' ch
    using that
    by (cases x; cases y)
       (auto simp: same_dma_def advanceOneSourceSample_def channel_fetch_def channel_reload_def upd_channel_def
          Let_def split_beta split: option.splits)
  show "same_dma ((p', s), l) ((q', t), l')"
    if "same_dma ((p, s), lr) ((q, t), lr')" "mix_channel fu ch p lr = (p', l)" "mix_channel fu ch q lr' = (q', l')"
    for p q p' q' :: "('d, 'f) paula" and s t :: 's and lr lr' ch l l'
    using that(1) mix_channel_dma [OF that(2)] mix_channel_dma [OF that(3)]
    by (simp add: same_dma_def mix_service_def upd_channel_def Let_def)
  show "same_dma ((frame_start fu p, s), (z, z)) ((frame_start fu q, t), (z, z))"
    if "same_dma ((p, s), lr) ((q, t), lr')" for p q :: "('d, 'f) paula" and s t :: 's and lr lr' z
    using that by (simp add: same_dma_def frame_start_def)
  show "same_dma ((p\<lparr>pa_gainSmoothCoeff := g\<rparr>, s), lr) ((q\<lparr>pa_gainSmoothCoeff := g\<rparr>, t), lr')"
    if "same_dma ((p, s), lr) ((q, t), lr')" for p q :: "('d, 'f) paula" and s t :: 's and lr lr' g
    using that by (simp add: same_dma_def)
qed

text \<open>A core with other output settings, as the mixer panel leaves them.\<close>

definition apply_settings ::
    "('d, 'f) float_unit \<Rightarrow> 'f \<Rightarrow> Interp \<Rightarrow> (nat \<Rightarrow> bool) \<Rightarrow> ('d, 'f) paula \<Rightarrow> ('d, 'f) paula" where
  "apply_settings fu sep mode muted p =
     fold (\<lambda>ch. setChannelMuted (int ch) (muted ch)) [0..<4] (setInterpolation mode (setStereoSeparation fu sep p))"

lemma apply_settings_same_dma:
  "same_dma ((p, s), lr) ((apply_settings fu sep mode muted p, s), lr')"
proof -
  have "same_dma ((p, s), lr) ((fold (\<lambda>ch. setChannelMuted (int ch) (muted ch)) chs q, s), lr')"
    if "same_dma ((p, s), lr) ((q, s), lr')" for chs q
    using that by (induction chs arbitrary: q) (auto simp: same_dma_def setChannelMuted_def)
  moreover have "same_dma ((p, s), lr) ((setInterpolation mode (setStereoSeparation fu sep p), s), lr')"
    by (simp add: same_dma_def setInterpolation_def setStereoSeparation_def)
  ultimately show ?thesis unfolding apply_settings_def by blast
qed

text \<open>
  C7: muting a channel, the stereo separation and the interpolation change what is heard and
  nothing else: over any number of frames the channels, their sample pointers, phases and gains, the
  interrupt requests and every access of the callbacks are those of the unchanged core, so
  that a channel that is audible again continues without a glitch.
\<close>

theorem settings_never_reach_dma:
  assumes "Paula_render fu cb n sr (p, s) = Some (out, p', s')"
  shows "\<exists>out2 q. Paula_render fu cb n sr (apply_settings fu sep mode muted p, s) = Some (out2, q, s') \<and>
     length out2 = length out \<and> pa_channels q = pa_channels p' \<and>
     pa_dmaCon q = pa_dmaCon p' \<and> pa_intReq q = pa_intReq p'"
proof -
  have "same_dma ((apply_settings fu sep mode muted p, s), (f_lit fu 0, f_lit fu 0)) ((p, s), (f_lit fu 0, f_lit fu 0))"
    using apply_settings_same_dma [of p s _ fu sep mode muted] by (auto simp: same_dma_def)
  from output_settings.render_related [OF assms this]
  show ?thesis by (fastforce simp: same_dma_def)
qed

text \<open>Five frames of a started channel, with the panel muting it, and without.\<close>

theorem settings_never_reach_dma_witness:
  "\<exists>out p s out2 q.
     Paula_render exact_unit (memory_callbacks ucast) 5 48000
       (writeRegister16 exact_unit 0xdff096 0x8201 sample_demo, [], 0) = Some (out, p, s) \<and>
     Paula_render exact_unit (memory_callbacks ucast) 5 48000
       (apply_settings exact_unit 0 Linear (\<lambda>ch. ch = 0) (writeRegister16 exact_unit 0xdff096 0x8201 sample_demo), [], 0)
         = Some (out2, q, s) \<and>
     length out2 = length out \<and> pa_channels q = pa_channels p"
proof -
  let ?p = "writeRegister16 exact_unit 0xdff096 0x8201 sample_demo"
  obtain out p s where r: "Paula_render exact_unit (memory_callbacks ucast) 5 48000 (?p, [], 0) = Some (out, p, s)"
    using render_ends [OF exact_counts_down] by (metis option.exhaust surj_pair)
  from settings_never_reach_dma [OF r, of 0 Linear "\<lambda>ch. ch = 0"] r show ?thesis by blast
qed

text \<open>A mute cuts the tone at once; only the gain behind it goes on smoothly.\<close>

lemma muted_is_silent_at_once:
  "pa_channelMuted p ch \<Longrightarrow> snd (mix_service fu ch z p) = z"
  by (simp add: mix_service_def Let_def)

end
