(* ===== verification/PaulaLive.thy ===== *)
theory PaulaLive
  imports HdmiRun PaulaMix
begin

text \<open>
  \<open>source/src/raspi/paula/paula_live.cpp\<close> with its core: the callbacks that connect
  \<open>paula.cpp\<close> with the sample cache, one speculative frame of \<open>paula_live_render\<close>, and
  \<open>poc_float_to_s24\<close> of \<open>source/src/raspi/hdmi_audio_poc.c\<close>. \<open>live_ops\<close> and \<open>live_renderer\<close>
  are the arguments that \<open>HdmiLive\<close> and \<open>HdmiRun\<close> take for the core and the renderer. The lemmas
  compare a frame with one that reads the memory itself, without a cache.
\<close>

section \<open>Static state\<close>

record ('d, 'f) live_core =
  lc_paula :: "('d, 'f) paula"
  lc_master_gain :: 'f
  lc_master_target :: 'f
  lc_render_attempt :: u32
  lc_speculative_irqs :: u32
  lc_waiting_for_cache :: u32
  lc_output_gate :: 'f
  lc_last_left :: 'f
  lc_last_right :: 'f
  lc_prefetch_countdown :: u32

definition live_core_new :: "('d, 'f) float_unit \<Rightarrow> ('d, 'f) live_core" where
  "live_core_new fu =
     \<lparr>lc_paula = setInterpolation Nearest (setStereoSeparation fu (f_lit fu 1) (Paula_new fu (d_lit fu 3546895))),
      lc_master_gain = f_lit fu 1, lc_master_target = f_lit fu 1, lc_render_attempt = 0,
      lc_speculative_irqs = 0, lc_waiting_for_cache = 0, lc_output_gate = f_lit fu 1,
      lc_last_left = f_lit fu 0, lc_last_right = f_lit fu 0, lc_prefetch_countdown = 0\<rparr>"

definition paula_live_init ::
    "('d, 'f) float_unit \<Rightarrow> (('d, 'f) live_core, 'a) live_state_scheme \<Rightarrow> (('d, 'f) live_core, 'a) live_state_scheme" where
  "paula_live_init fu s =
     probe_do (fold (\<lambda>ch. paula_probe_set (channel_base ch + PP_CH_PER) 1) [0..<4])
       (s\<lparr>lv_core := live_core_new fu, lv_last_mixer := 0\<rparr>)"

definition live_core_reset :: "('d, 'f) float_unit \<Rightarrow> ('d, 'f) live_core \<Rightarrow> ('d, 'f) live_core" where
  "live_core_reset fu c =
     c\<lparr>lc_paula := Paula_reset fu (lc_paula c), lc_render_attempt := 0, lc_speculative_irqs := 0,
       lc_waiting_for_cache := 0, lc_output_gate := f_lit fu 1, lc_last_left := f_lit fu 0,
       lc_last_right := f_lit fu 0, lc_prefetch_countdown := 0\<rparr>"

definition live_core_settings ::
    "('d, 'f) float_unit \<Rightarrow> u32 \<Rightarrow> u32 \<Rightarrow> bool \<Rightarrow> u32 \<Rightarrow> ('d, 'f) live_core \<Rightarrow> ('d, 'f) live_core" where
  "live_core_settings fu master stereo lin muted c =
     (let percent = (\<lambda>x. f_mul fu (f_lit fu (of_nat (unat x))) (f_lit fu (1 / 100)))
      in c\<lparr>lc_master_target := percent master,
           lc_paula := apply_settings fu (percent stereo) (if lin then Linear else Nearest)
                         (\<lambda>ch. muted AND push_bit ch 1 \<noteq> 0) (lc_paula c)\<rparr>)"

definition live_ops :: "('d, 'f) float_unit \<Rightarrow> ('d, 'f) live_core core_ops" where
  "live_ops fu =
     \<lparr>co_write16 = (\<lambda>address v c. c\<lparr>lc_paula := writeRegister16 fu address v (lc_paula c)\<rparr>),
      co_reset = live_core_reset fu,
      co_fetch = (\<lambda>c ch. fetchState (lc_paula c) (int ch)),
      co_settings = live_core_settings fu\<rparr>"

definition upd_live ::
    "('c \<Rightarrow> 'c) \<Rightarrow> ('c, 'a) live_state_scheme \<Rightarrow> ('c, 'a) live_state_scheme" where
  "upd_live f s = s\<lparr>lv_core := f (lv_core s)\<rparr>"

definition virtual_irq ::
    "u16 \<Rightarrow> (('d, 'f) live_core, 'a) live_state_scheme \<Rightarrow> (('d, 'f) live_core, 'a) live_state_scheme" where
  "virtual_irq intBit s =
     (if lc_render_attempt (lv_core s) \<noteq> 0
      then upd_live (\<lambda>c. c\<lparr>lc_speculative_irqs := lc_speculative_irqs c + 1\<rparr>) s
      else probe_do (paula_probe_add PP_VIRTUAL_IRQS 1) s)"

definition live_callbacks :: "(('d, 'f) live_core, 'a) live_state_scheme callbacks" where
  "live_callbacks =
     setInterruptCallback virtual_irq
       (setReadByteCallback paula_mirror_read_byte \<lparr>cb_read = None, cb_interrupt = None\<rparr>)"

section \<open>A frame\<close>

text \<open>A frame that missed: the core as it was, and the last output fading.\<close>

definition frame_missed ::
    "('d, 'f) float_unit \<Rightarrow> ('d, 'f) paula \<Rightarrow> 'f \<Rightarrow> (('d, 'f) live_core, 'a) live_state_scheme \<Rightarrow>
     ('f \<times> 'f) \<times> (('d, 'f) live_core, 'a) live_state_scheme" where
  "frame_missed fu saved saved_gain s =
     (let s = upd_live (\<lambda>c. c\<lparr>lc_paula := saved, lc_master_gain := saved_gain, lc_speculative_irqs := 0\<rparr>) s;
          s = (if lc_waiting_for_cache (lv_core s) = 0
               then upd_live (\<lambda>c. c\<lparr>lc_waiting_for_cache := 1, lc_prefetch_countdown := 0\<rparr>) s else s);
          s = probe_do (paula_probe_add PP_CACHE_WAIT_FRAMES 1) s;
          g = f_sub fu (lc_output_gate (lv_core s)) (f_div fu (f_lit fu 1) (f_lit fu 96));
          g = (if f_less fu g (f_lit fu 0) then f_lit fu 0 else g);
          s = upd_live (\<lambda>c. c\<lparr>lc_output_gate := g\<rparr>) s
      in ((f_mul fu (lc_last_left (lv_core s)) g, f_mul fu (lc_last_right (lv_core s)) g), s))"

definition frame_delivered ::
    "('d, 'f) float_unit \<Rightarrow> 'f \<times> 'f \<Rightarrow> (('d, 'f) live_core, 'a) live_state_scheme \<Rightarrow>
     ('f \<times> 'f) \<times> (('d, 'f) live_core, 'a) live_state_scheme" where
  "frame_delivered fu lr s =
     (let irqs = lc_speculative_irqs (lv_core s);
          s = (if irqs \<noteq> 0 then probe_do (paula_probe_add PP_VIRTUAL_IRQS irqs) s else s);
          s = upd_live (\<lambda>c. c\<lparr>lc_speculative_irqs := 0\<rparr>) s;
          s = (if lc_waiting_for_cache (lv_core s) \<noteq> 0
               then probe_do (paula_probe_add PP_CACHE_WAIT_RECOVERIES 1)
                      (upd_live (\<lambda>c. c\<lparr>lc_waiting_for_cache := 0\<rparr>) s) else s);
          gain = ramp fu (lc_master_gain (lv_core s)) (lc_master_target (lv_core s));
          l = f_mul fu (fst lr) gain; r = f_mul fu (snd lr) gain;
          g = lc_output_gate (lv_core s);
          g = (if f_less fu g (f_lit fu 1)
               then let g = f_add fu g (f_div fu (f_lit fu 1) (f_lit fu 96))
                    in if f_less fu (f_lit fu 1) g then f_lit fu 1 else g
               else g);
          s = upd_live (\<lambda>c. c\<lparr>lc_master_gain := gain, lc_last_left := l, lc_last_right := r,
                             lc_output_gate := g\<rparr>) s
      in ((f_mul fu l g, f_mul fu r g), s))"

definition frame_begin ::
    "('d, 'f) float_unit \<Rightarrow> (('d, 'f) live_core, 'a) live_state_scheme \<Rightarrow>
     (('d, 'f) live_core, 'a) live_state_scheme" where
  "frame_begin fu s =
     (let s = (if lc_prefetch_countdown (lv_core s) = 0
               then upd_live (\<lambda>c. c\<lparr>lc_prefetch_countdown := 32\<rparr>) (paula_live_prefetch (live_ops fu) s) else s);
          s = upd_live (\<lambda>c. c\<lparr>lc_prefetch_countdown := lc_prefetch_countdown c - 1, lc_speculative_irqs := 0\<rparr>) s;
          s = paula_mirror_render_begin s
      in upd_live (\<lambda>c. c\<lparr>lc_render_attempt := 1\<rparr>) s)"

definition live_frame ::
    "('d, 'f) float_unit \<Rightarrow> (('d, 'f) live_core, 'a) live_state_scheme \<Rightarrow>
     (('f \<times> 'f) \<times> (('d, 'f) live_core, 'a) live_state_scheme) option" where
  "live_frame fu s =
     (let s = frame_begin fu s;
          saved = lc_paula (lv_core s); saved_gain = lc_master_gain (lv_core s)
      in case Paula_render fu live_callbacks 1 (d_lit fu 48000) (saved, s) of
           None \<Rightarrow> None
         | Some (out, p, s) \<Rightarrow>
             let lr = (case out of [] \<Rightarrow> (f_lit fu 0, f_lit fu 0) | lr # _ \<Rightarrow> lr);
                 s = upd_live (\<lambda>c. c\<lparr>lc_paula := p, lc_render_attempt := 0\<rparr>) s
             in Some (if paula_mirror_render_missed s then frame_missed fu saved saved_gain s
                      else frame_delivered fu lr s))"

fun live_frames ::
    "('d, 'f) float_unit \<Rightarrow> nat \<Rightarrow> (('d, 'f) live_core, 'a) live_state_scheme \<Rightarrow>
     (('f \<times> 'f) list \<times> (('d, 'f) live_core, 'a) live_state_scheme) option" where
  "live_frames fu 0 s = Some ([], s)"
| "live_frames fu (Suc n) s =
     (case live_frame fu s of None \<Rightarrow> None
      | Some (lr, s) \<Rightarrow> map_option (\<lambda>(out, s). (lr # out, s)) (live_frames fu n s))"

definition paula_live_render ::
    "('d, 'f) float_unit \<Rightarrow> nat \<Rightarrow> (('d, 'f) live_core, 'a) live_state_scheme \<Rightarrow>
     (('f \<times> 'f) list \<times> (('d, 'f) live_core, 'a) live_state_scheme) option" where
  "paula_live_render fu frames s =
     map_option (\<lambda>(out, s). (out, probe_do (paula_probe_add PP_RENDER_FRAMES (word_of_nat frames)) s))
       (live_frames fu frames (paula_live_mixer_apply (live_ops fu) s))"

section \<open>24-bit samples\<close>

definition poc_float_to_s24 :: "('d, 'f) float_unit \<Rightarrow> 'f \<Rightarrow> u32" where
  "poc_float_to_s24 fu smp =
     (let smp = (if f_less fu (f_lit fu 1) smp then f_lit fu 1 else smp);
          smp = (if f_less fu smp (f_neg fu (f_lit fu 1)) then f_neg fu (f_lit fu 1) else smp)
      in word_of_int (f_trunc fu (f_mul fu smp (f_lit fu 8388607))))"

definition live_renderer :: "('d, 'f) float_unit \<Rightarrow> (('d, 'f) live_core, 'a) renderer" where
  "live_renderer fu s =
     map_option (\<lambda>(out, s). let (l, r) = (case out of [] \<Rightarrow> (f_lit fu 0, f_lit fu 0) | lr # _ \<Rightarrow> lr)
                            in ((poc_float_to_s24 fu l, poc_float_to_s24 fu r), s))
       (paula_live_render fu 1 s)"

section \<open>Frames without a cache\<close>

text \<open>The cached pages hold what the memory holds.\<close>

definition coherent :: "(nat \<Rightarrow> u8) \<Rightarrow> 'a mirror_scheme \<Rightarrow> bool" where
  "coherent m s \<longleftrightarrow>
     (\<forall>a < PAULA_MIRROR_CHIP_LIMIT.
        page_state (pm_page_meta s (unat (a div 256))) = 3 \<longrightarrow> pm_shadow s (unat a) = m (unat a))"

text \<open>Memory read directly, and the interrupts counted.\<close>

definition chip_byte :: "(nat \<Rightarrow> u8) \<Rightarrow> u32 \<Rightarrow> u8" where
  "chip_byte m a = (if a < PAULA_MIRROR_CHIP_LIMIT then m (unat a) else 0)"

definition chip_callbacks :: "(nat \<Rightarrow> u8) \<Rightarrow> u32 callbacks" where
  "chip_callbacks m =
     \<lparr>cb_read = Some (\<lambda>a k. (chip_byte m a, k)), cb_interrupt = Some (\<lambda>b k. k + 1)\<rparr>"

lemma request_page_ready:
  "page_state (pm_page_meta (request_page q s) p) = 3 \<Longrightarrow> page_state (pm_page_meta s p) = 3"
proof (cases "q < 8192 \<and> page_state (pm_page_meta s q) = 0")
  case True
  then have "pm_page_meta (request_page q s) = (pm_page_meta s)(q := pm_page_meta s q OR 1)"
    by (simp add: request_page_def request_claim_def request_enqueue_def Let_def)
  moreover have "page_state (pm_page_meta s q OR 1) \<noteq> 3"
  proof
    assume "page_state (pm_page_meta s q OR 1) = 3"
    moreover have "bit (3 :: u64) 1" by simp
    ultimately have "bit (page_state (pm_page_meta s q OR 1)) 1" by metis
    then have "bit (page_state (pm_page_meta s q)) 1" by (simp add: page_state_def bit_simps)
    then show False using True by simp
  qed
  ultimately show "page_state (pm_page_meta (request_page q s) p) = 3 \<Longrightarrow> ?thesis"
    by (auto split: if_splits)
qed (auto simp: request_page_def split: if_splits)

lemma coherent_request: "coherent m s \<Longrightarrow> coherent m (request_page q s)"
  using request_page_ready by (auto simp: coherent_def cache_frame)

lemma coherent_irrelevant [simp]:
  "coherent m (s\<lparr>pm_metrics := x\<rparr>) = coherent m s"
  "coherent m (s\<lparr>pm_render_miss := n\<rparr>) = coherent m s"
  "coherent m (s\<lparr>pm_misses := n\<rparr>) = coherent m s"
  "coherent m (s\<lparr>pm_invalid_addresses := n\<rparr>) = coherent m s"
  "coherent m (s\<lparr>pm_page_miss_seen := f\<rparr>) = coherent m s"
  by (simp_all add: coherent_def)

lemma read_byte_coherent:
  assumes "coherent m s" and "paula_mirror_read_byte a s = (v, s')"
  shows "coherent m s'"
    and "\<not> paula_mirror_render_missed s' \<Longrightarrow> \<not> paula_mirror_render_missed s \<and> v = chip_byte m a"
proof -
  have "coherent m s' \<and> (\<not> paula_mirror_render_missed s' \<longrightarrow> \<not> paula_mirror_render_missed s \<and> v = chip_byte m a)"
  proof (cases "a < PAULA_MIRROR_CHIP_LIMIT")
    case False
    then show ?thesis
      using assms(1) assms(2) [symmetric] False [unfolded not_less]
      by (simp add: paula_mirror_read_byte_def chip_byte_def paula_mirror_render_missed_def Let_def)
  next
    case in_chip: True
    show ?thesis
    proof (cases "page_state (pm_page_meta s (unat (a div 256))) = 3")
      case True
      have "pm_shadow s (unat a) = m (unat a)"
        using assms(1) in_chip True by (simp add: coherent_def)
      then show ?thesis
        using assms in_chip [unfolded not_le [symmetric]] True
        by (auto simp: paula_mirror_read_byte_def chip_byte_def paula_mirror_render_missed_def Let_def not_le
            cache_frame intro!: coherent_request split: if_splits)
    next
      case False
      then show ?thesis
        using assms in_chip [unfolded not_le [symmetric]]
        by (auto simp: paula_mirror_read_byte_def paula_mirror_render_missed_def Let_def cache_frame
            intro!: coherent_request)
    qed
  qed
  then show "coherent m s'"
    and "\<not> paula_mirror_render_missed s' \<Longrightarrow> \<not> paula_mirror_render_missed s \<and> v = chip_byte m a"
    by blast+
qed

lemma request_page_core [simp]:
  "lv_core (request_page q s) = lv_core s" "lv_last_mixer (request_page q s) = lv_last_mixer s"
  by (simp_all add: request_page_def request_claim_def request_enqueue_def Let_def)

lemma read_byte_core:
  "paula_mirror_read_byte a s = (v, s') \<Longrightarrow> lv_core s' = lv_core s"
  by (auto simp: paula_mirror_read_byte_def Let_def split: if_splits)

section \<open>A frame and the frame without a cache\<close>

definition same_clock :: "('d, 'f) paula \<Rightarrow> ('d, 'f) paula \<Rightarrow> bool" where
  "same_clock p q \<longleftrightarrow> pa_clockHz p = pa_clockHz q \<and>
     (\<forall>ch. ch_phase (pa_channels p ch) = ch_phase (pa_channels q ch) \<and>
           ch_period (pa_channels p ch) = ch_period (pa_channels q ch))"

text \<open>
  A speculative frame beside the frame without a cache: the clocks agree whatever was
  missed, and until a miss everything agrees.
\<close>

definition speculates ::
    "(nat \<Rightarrow> u8) \<Rightarrow> ('d, 'f) live_core \<Rightarrow>
     (('d, 'f) paula \<times> (('d, 'f) live_core, 'a) live_state_scheme) \<times> 'f \<times> 'f \<Rightarrow>
     (('d, 'f) paula \<times> u32) \<times> 'f \<times> 'f \<Rightarrow> bool" where
  "speculates m c x y \<longleftrightarrow>
     (let ((p, s), lr) = x; ((q, k), lr') = y in
      same_clock p q \<and> coherent m s \<and> (lv_core s)\<lparr>lc_speculative_irqs := 0\<rparr> = c \<and> lc_render_attempt c \<noteq> 0 \<and>
      (\<not> paula_mirror_render_missed s \<longrightarrow> p = q \<and> lr = lr' \<and> lc_speculative_irqs (lv_core s) = k))"

lemma advance_clock:
  "same_clock (fst (advanceOneSourceSample cb ch x)) (fst x)"
  by (cases x)
     (auto simp: same_clock_def advanceOneSourceSample_def channel_fetch_def channel_reload_def Let_def split_beta
        split: option.splits)

lemma same_clock_trans: "same_clock p q \<Longrightarrow> same_clock q r \<Longrightarrow> same_clock p r"
  and same_clock_sym: "same_clock p q \<Longrightarrow> same_clock q p" and same_clock_refl [simp]: "same_clock p p"
  by (auto simp: same_clock_def)

lemma live_fetch:
  assumes "coherent m s" and "channel_fetch paula_mirror_read_byte ch (p, s) = (p', s')"
  shows "coherent m s' \<and> lv_core s' = lv_core s \<and>
    (\<not> paula_mirror_render_missed s' \<longrightarrow> \<not> paula_mirror_render_missed s \<and>
       channel_fetch (\<lambda>a k. (chip_byte m a, k)) ch (p, k) = (p', k))"
proof -
  let ?a = "curPtr (pa_channels p ch)"
  obtain l s1 where l: "paula_mirror_read_byte ?a s = (l, s1)" by (cases "paula_mirror_read_byte ?a s")
  obtain h s2 where h: "paula_mirror_read_byte (?a + 1) s1 = (h, s2)" by (cases "paula_mirror_read_byte (?a + 1) s1")
  show ?thesis
    using read_byte_coherent [OF assms(1) l] read_byte_coherent [OF read_byte_coherent(1) [OF assms(1) l] h]
      read_byte_core [OF l] read_byte_core [OF h] assms(2)
    by (auto simp: channel_fetch_def Let_def l h)
qed

lemma live_reload:
  assumes "lc_render_attempt (lv_core s) \<noteq> 0"
  shows "channel_reload live_callbacks ch (p, s) =
    (fst (channel_reload (chip_callbacks m) ch (p, k)),
     upd_live (\<lambda>c. c\<lparr>lc_speculative_irqs := lc_speculative_irqs c + 1\<rparr>) s)"
    and "snd (channel_reload (chip_callbacks m) ch (p, k)) = k + 1"
  using assms by (simp_all add: channel_reload_def live_callbacks_def chip_callbacks_def virtual_irq_def Let_def)

lemma upd_live_frame [simp]:
  "coherent m (upd_live f s) = coherent m s"
  "paula_mirror_render_missed (upd_live f s) = paula_mirror_render_missed s"
  "lv_core (upd_live f s) = f (lv_core s)"
  "pm_render_miss (upd_live f s) = pm_render_miss s"
  by (simp_all add: upd_live_def coherent_def paula_mirror_render_missed_def)

lemma callbacks_read:
  "cb_read live_callbacks = Some paula_mirror_read_byte"
  "cb_read (chip_callbacks m) = Some (\<lambda>a k. (chip_byte m a, k))"
  by (simp_all add: live_callbacks_def chip_callbacks_def)

lemma speculates_tick:
  assumes "speculates m c (x, lr) (y, lr')"
  shows "speculates m c (advanceOneSourceSample live_callbacks ch x, lr) (advanceOneSourceSample (chip_callbacks m) ch y, lr')"
proof -
  obtain p s q k where xy: "x = (p, s)" "y = (q, k)" by (cases x; cases y)
  obtain p' s' q' k' where adv: "advanceOneSourceSample live_callbacks ch (p, s) = (p', s')"
    "advanceOneSourceSample (chip_callbacks m) ch (q, k) = (q', k')"
    by (cases "advanceOneSourceSample live_callbacks ch (p, s)"; cases "advanceOneSourceSample (chip_callbacks m) ch (q, k)")
  have R: "same_clock p q" "coherent m s" "(lv_core s)\<lparr>lc_speculative_irqs := 0\<rparr> = c" "lc_render_attempt c \<noteq> 0"
    "\<not> paula_mirror_render_missed s \<Longrightarrow> p = q \<and> lr = lr' \<and> lc_speculative_irqs (lv_core s) = k"
    using assms by (auto simp: speculates_def xy)
  have attempt: "lc_render_attempt (lv_core s) \<noteq> 0"
    using R(3,4) by auto
  have clock: "same_clock p' q'"
    using advance_clock [of live_callbacks ch "(p, s)"] advance_clock [of "chip_callbacks m" ch "(q, k)"] R(1)
    by (simp add: adv) (blast intro: same_clock_trans same_clock_sym)
  have "coherent m s' \<and> (lv_core s')\<lparr>lc_speculative_irqs := 0\<rparr> = c \<and>
    (\<not> paula_mirror_render_missed s' \<longrightarrow> \<not> paula_mirror_render_missed s \<and>
       (p = q \<longrightarrow> lc_speculative_irqs (lv_core s) = k \<longrightarrow> p' = q' \<and> lc_speculative_irqs (lv_core s') = k'))"
  proof (cases "dma_enabled (pa_dmaCon p) ch \<and> onLowByte (pa_channels p ch)")
    case False
    then show ?thesis
      using adv R by (auto simp: advanceOneSourceSample_def live_callbacks_def chip_callbacks_def Let_def split: if_splits)
  next
    case True
    define x1 where "x1 = (if curWordsLeft (pa_channels p ch) = 0 then channel_reload live_callbacks ch (p, s) else (p, s))"
    define y1 where "y1 = (if curWordsLeft (pa_channels p ch) = 0 then channel_reload (chip_callbacks m) ch (p, k) else (p, k))"
    have x1: "coherent m (snd x1)" "(lv_core (snd x1))\<lparr>lc_speculative_irqs := 0\<rparr> = c"
      "paula_mirror_render_missed (snd x1) = paula_mirror_render_missed s" "fst x1 = fst y1"
      "lc_speculative_irqs (lv_core s) = k \<Longrightarrow> lc_speculative_irqs (lv_core (snd x1)) = snd y1"
      using R live_reload(2) [OF attempt, of m ch p k]
      by (auto simp: x1_def y1_def live_reload(1) [OF attempt, of ch p m k])
    have live: "channel_fetch paula_mirror_read_byte ch (fst x1, snd x1) = (p', s')"
      using adv(1) True by (simp add: advanceOneSourceSample_def callbacks_read x1_def Let_def split del: if_split)
    have "advanceOneSourceSample (chip_callbacks m) ch (p, k) = channel_fetch (\<lambda>a k. (chip_byte m a, k)) ch (fst y1, snd y1)"
      using True by (simp add: advanceOneSourceSample_def callbacks_read y1_def Let_def split del: if_split)
    then have chip: "p = q \<Longrightarrow> channel_fetch (\<lambda>a k. (chip_byte m a, k)) ch (fst y1, snd y1) = (q', k')"
      using adv(2) by simp
    note fetched = live_fetch [OF x1(1) live, of "snd y1"]
    then have "coherent m s'" "(lv_core s')\<lparr>lc_speculative_irqs := 0\<rparr> = c"
      using x1(2) by simp_all
    moreover have "\<not> paula_mirror_render_missed s \<and>
        (p = q \<longrightarrow> lc_speculative_irqs (lv_core s) = k \<longrightarrow> p' = q' \<and> lc_speculative_irqs (lv_core s') = k')"
      if "\<not> paula_mirror_render_missed s'"
      using that fetched x1(3-5) chip by auto
    ultimately show ?thesis by blast
  qed
  then show ?thesis
    using R clock by (auto simp: speculates_def xy adv)
qed

lemma mix_channel_core:
  assumes "mix_channel fu ch p lr = (p', l)"
  shows "same_clock p' p"
  using mix_channel_dma(1,2) [OF assms] by (simp add: same_clock_def mix_service_def Let_def)

interpretation speculation: render_simulation "speculates m c" fu live_callbacks "chip_callbacks m"
  for m :: "nat \<Rightarrow> u8" and c :: "('d, 'f) live_core" and fu :: "('d, 'f) float_unit"
proof
  show "ch_phase (pa_channels p ch) = ch_phase (pa_channels q ch)"
    if "speculates m c ((p, s), lr) ((q, t), lr')"
    for p q :: "('d, 'f) paula" and s :: "(('d, 'f) live_core, 'z) live_state_scheme" and t lr lr' ch
    using that by (simp add: speculates_def same_clock_def)
  show "speculates m c ((add_phase fu secs ch p, s), lr) ((add_phase fu secs ch q, t), lr')"
    if "speculates m c ((p, s), lr) ((q, t), lr')"
    for p q :: "('d, 'f) paula" and s :: "(('d, 'f) live_core, 'z) live_state_scheme" and t lr lr' ch secs
    using that by (auto simp: speculates_def same_clock_def add_phase_def phase_step_def Let_def)
  show "speculates m c ((sub_phase fu ch p, s), lr) ((sub_phase fu ch q, t), lr')"
    if "speculates m c ((p, s), lr) ((q, t), lr')"
    for p q :: "('d, 'f) paula" and s :: "(('d, 'f) live_core, 'z) live_state_scheme" and t lr lr' ch
    using that by (auto simp: speculates_def same_clock_def sub_phase_def)
  show "speculates m c (advanceOneSourceSample live_callbacks ch x, lr) (advanceOneSourceSample (chip_callbacks m) ch y, lr')"
    if "speculates m c (x, lr) (y, lr')"
    for x :: "('d, 'f) paula \<times> (('d, 'f) live_core, 'z) live_state_scheme" and y lr lr' ch
    using that by (rule speculates_tick)
  show "speculates m c ((p', s), l) ((q', t), l')"
    if "speculates m c ((p, s), lr) ((q, t), lr')" "mix_channel fu ch p lr = (p', l)" "mix_channel fu ch q lr' = (q', l')"
    for p q p' q' :: "('d, 'f) paula" and s :: "(('d, 'f) live_core, 'z) live_state_scheme" and t lr lr' ch l l'
    using that mix_channel_core [OF that(2)] mix_channel_core [OF that(3)]
    by (auto simp: speculates_def intro: same_clock_trans same_clock_sym)
  show "speculates m c ((frame_start fu p, s), (z, z)) ((frame_start fu q, t), (z, z))"
    if "speculates m c ((p, s), lr) ((q, t), lr')"
    for p q :: "('d, 'f) paula" and s :: "(('d, 'f) live_core, 'z) live_state_scheme" and t lr lr' z
    using that by (auto simp: speculates_def same_clock_def frame_start_def)
  show "speculates m c ((p\<lparr>pa_gainSmoothCoeff := g\<rparr>, s), lr) ((q\<lparr>pa_gainSmoothCoeff := g\<rparr>, t), lr')"
    if "speculates m c ((p, s), lr) ((q, t), lr')"
    for p q :: "('d, 'f) paula" and s :: "(('d, 'f) live_core, 'z) live_state_scheme" and t lr lr' g
    using that by (auto simp: speculates_def same_clock_def)
qed

text \<open>Prefetching only requests pages.\<close>

lemma prefetch_keeps:
  fixes s :: "('c, 'a) live_state_scheme"
  shows "coherent m s \<Longrightarrow> coherent m (paula_mirror_prefetch a n s)"
    and "lv_core (paula_mirror_prefetch a n s) = lv_core s"
proof -
  have page: "coherent m t \<Longrightarrow> coherent m (prefetch_page p t)" "lv_core (prefetch_page p t) = lv_core t"
    for p and t :: "('c, 'a) live_state_scheme"
    by (auto simp: prefetch_page_def coherent_request)
  have all: "coherent m t \<Longrightarrow> coherent m (fold prefetch_page ps t)" "lv_core (fold prefetch_page ps t) = lv_core t"
    for ps and t :: "('c, 'a) live_state_scheme"
    by (induction ps arbitrary: t) (simp_all add: page)
  show "coherent m s \<Longrightarrow> coherent m (paula_mirror_prefetch a n s)"
    and "lv_core (paula_mirror_prefetch a n s) = lv_core s"
    by (simp_all add: paula_mirror_prefetch_def all Let_def)
qed

lemma live_prefetch_keeps:
  fixes s :: "('c, 'a) live_state_scheme"
  shows "coherent m s \<Longrightarrow> coherent m (paula_live_prefetch ops s)" and "lv_core (paula_live_prefetch ops s) = lv_core s"
proof -
  have channel: "coherent m t \<Longrightarrow> coherent m (prefetch_channel_of f t)" "lv_core (prefetch_channel_of f t) = lv_core t"
    for f and t :: "('c, 'a) live_state_scheme"
    by (simp_all add: prefetch_channel_of_def prefetch_keeps Let_def)
  have "coherent m t \<Longrightarrow> coherent m (fold (\<lambda>ch s. prefetch_channel_of (co_fetch ops (lv_core s) ch) s) chs t)"
    "lv_core (fold (\<lambda>ch s. prefetch_channel_of (co_fetch ops (lv_core s) ch) s) chs t) = lv_core t"
    for chs and t :: "('c, 'a) live_state_scheme"
    by (induction chs arbitrary: t) (simp_all add: channel)
  then show "coherent m s \<Longrightarrow> coherent m (paula_live_prefetch ops s)" and "lv_core (paula_live_prefetch ops s) = lv_core s"
    by (simp_all add: paula_live_prefetch_def del: upt_rec_numeral)
qed

lemma frame_begin_keeps:
  "coherent m s \<Longrightarrow> coherent m (frame_begin fu s)"
  "lc_paula (lv_core (frame_begin fu s)) = lc_paula (lv_core s)"
  "lc_master_gain (lv_core (frame_begin fu s)) = lc_master_gain (lv_core s)"
  "lc_master_target (lv_core (frame_begin fu s)) = lc_master_target (lv_core s)"
  "lc_last_left (lv_core (frame_begin fu s)) = lc_last_left (lv_core s)"
  "lc_last_right (lv_core (frame_begin fu s)) = lc_last_right (lv_core s)"
  "lc_render_attempt (lv_core (frame_begin fu s)) = 1"
  "lc_speculative_irqs (lv_core (frame_begin fu s)) = 0"
  "\<not> paula_mirror_render_missed (frame_begin fu s)"
  by (simp_all add: frame_begin_def paula_mirror_render_begin_def live_prefetch_keeps Let_def)
     (simp_all add: paula_mirror_render_missed_def upd_live_def)

lemma frame_missed_keeps:
  assumes "frame_missed fu p g s = (lr, s')"
  shows "coherent m s' = coherent m s" and "paula_mirror_render_missed s' = paula_mirror_render_missed s"
    and "lc_paula (lv_core s') = p" and "lc_master_gain (lv_core s') = g"
    and "lc_last_left (lv_core s') = lc_last_left (lv_core s)" and "lc_last_right (lv_core s') = lc_last_right (lv_core s)"
  using assms by (auto simp: frame_missed_def Let_def probe_do_def paula_mirror_render_missed_def split: if_splits)

lemma frame_delivered_keeps:
  assumes "frame_delivered fu x s = (lr, s')"
  defines "gain \<equiv> ramp fu (lc_master_gain (lv_core s)) (lc_master_target (lv_core s))"
  shows "coherent m s' = coherent m s" and "paula_mirror_render_missed s' = paula_mirror_render_missed s"
    and "lc_paula (lv_core s') = lc_paula (lv_core s)" and "lc_master_gain (lv_core s') = gain"
    and "lc_last_left (lv_core s') = f_mul fu (fst x) gain" and "lc_last_right (lv_core s') = f_mul fu (snd x) gain"
  using assms by (auto simp: frame_delivered_def Let_def probe_do_def paula_mirror_render_missed_def split: if_splits)

text \<open>What a frame leaves, by whether a sample was missing.\<close>

lemma live_frame_result:
  fixes s :: "(('d, 'f) live_core, 'a) live_state_scheme"
  assumes "coherent m s"
    and "Paula_render fu (chip_callbacks m) 1 (d_lit fu 48000) (lc_paula (lv_core s), 0) = Some (out, p, k)"
  defines "lr \<equiv> last ((f_lit fu 0, f_lit fu 0) # out)"
    and "gain \<equiv> ramp fu (lc_master_gain (lv_core s)) (lc_master_target (lv_core s))"
  shows "\<exists>res s'. live_frame fu s = Some (res, s') \<and> coherent m s' \<and>
    (if paula_mirror_render_missed s'
     then lc_paula (lv_core s') = lc_paula (lv_core s) \<and> lc_master_gain (lv_core s') = lc_master_gain (lv_core s) \<and>
          lc_last_left (lv_core s') = lc_last_left (lv_core s) \<and> lc_last_right (lv_core s') = lc_last_right (lv_core s)
     else lc_paula (lv_core s') = p \<and> lc_master_gain (lv_core s') = gain \<and>
          lc_last_left (lv_core s') = f_mul fu (fst lr) gain \<and> lc_last_right (lv_core s') = f_mul fu (snd lr) gain)"
proof -
  let ?s = "frame_begin fu s" and ?z = "(f_lit fu 0, f_lit fu 0)"
  let ?c = "(lv_core ?s)\<lparr>lc_speculative_irqs := 0\<rparr>"
  have "speculates m ?c ((lc_paula (lv_core ?s), ?s), ?z) ((lc_paula (lv_core s), 0), ?z)"
    using frame_begin_keeps(1) [OF assms(1)] by (simp add: speculates_def frame_begin_keeps)
  from speculation.render_related [OF assms(2) this]
  obtain o2 q t where r: "Paula_render fu live_callbacks 1 (d_lit fu 48000) (lc_paula (lv_core ?s), ?s) = Some (o2, q, t)"
    "length o2 = length out" "speculates m ?c ((q, t), last (?z # o2)) ((p, k), lr)"
    unfolding lr_def by fastforce
  have t: "coherent m t" "(lv_core t)\<lparr>lc_speculative_irqs := 0\<rparr> = ?c"
    "\<not> paula_mirror_render_missed t \<Longrightarrow> q = p \<and> last (?z # o2) = lr"
    using r(3) by (auto simp: speculates_def)
  have t2: "lc_master_gain (lv_core t) = lc_master_gain (lv_core s)" "lc_master_target (lv_core t) = lc_master_target (lv_core s)"
    "lc_last_left (lv_core t) = lc_last_left (lv_core s)" "lc_last_right (lv_core t) = lc_last_right (lv_core s)"
    using arg_cong [OF t(2), of lc_master_gain] arg_cong [OF t(2), of lc_master_target]
      arg_cong [OF t(2), of lc_last_left] arg_cong [OF t(2), of lc_last_right]
    by (simp_all add: frame_begin_keeps)
  let ?t = "upd_live (\<lambda>c. c\<lparr>lc_paula := q, lc_render_attempt := 0\<rparr>) t"
  have "length o2 \<le> 1" using render_length [OF r(1)] by simp
  then have o2: "(case o2 of [] \<Rightarrow> ?z | x # _ \<Rightarrow> x) = last (?z # o2)"
    by (cases o2) auto
  have run: "live_frame fu s = Some (if paula_mirror_render_missed t
      then frame_missed fu (lc_paula (lv_core s)) (lc_master_gain (lv_core s)) ?t
      else frame_delivered fu (last (?z # o2)) ?t)"
    using r(1) by (simp add: live_frame_def Let_def frame_begin_keeps o2)
  show ?thesis
  proof (cases "paula_mirror_render_missed t")
    case True
    obtain res s' where f: "frame_missed fu (lc_paula (lv_core s)) (lc_master_gain (lv_core s)) ?t = (res, s')"
      by (cases "frame_missed fu (lc_paula (lv_core s)) (lc_master_gain (lv_core s)) ?t")
    have "live_frame fu s = Some (res, s')" by (simp only: run True if_True f)
    then show ?thesis
      using True t(1) by (intro exI [of _ res] exI [of _ s']) (simp add: frame_missed_keeps [OF f] t2)
  next
    case False
    obtain res s' where f: "frame_delivered fu (last (?z # o2)) ?t = (res, s')"
      by (cases "frame_delivered fu (last (?z # o2)) ?t")
    have "live_frame fu s = Some (res, s')" by (simp only: run False if_False f)
    then show ?thesis
      using False t(1) t(3) [OF False]
      by (intro exI [of _ res] exI [of _ s']) (simp add: frame_delivered_keeps [OF f] t2 gain_def del: last.simps)
  qed
qed

section \<open>A run of frames\<close>

text \<open>
  Frames with a step of the surroundings (the other cores) before each; the booleans say which
  frames were delivered.
\<close>

fun live_run ::
    "('d, 'f) float_unit \<Rightarrow> ((('d, 'f) live_core, 'a) live_state_scheme \<Rightarrow> (('d, 'f) live_core, 'a) live_state_scheme) list \<Rightarrow>
     (('d, 'f) live_core, 'a) live_state_scheme \<Rightarrow> (bool list \<times> (('d, 'f) live_core, 'a) live_state_scheme) option" where
  "live_run fu [] s = Some ([], s)"
| "live_run fu (e # es) s =
     (case live_frame fu (e s) of None \<Rightarrow> None
      | Some (_, t) \<Rightarrow> map_option (\<lambda>(ds, u). ((\<not> paula_mirror_render_missed t) # ds, u)) (live_run fu es t))"

text \<open>Frames of a core that reads the memory itself.\<close>

fun direct_frames :: "('d, 'f) float_unit \<Rightarrow> (nat \<Rightarrow> u8) \<Rightarrow> nat \<Rightarrow> ('d, 'f) paula \<Rightarrow> ('d, 'f) paula option" where
  "direct_frames fu m 0 p = Some p"
| "direct_frames fu m (Suc n) p =
     (case Paula_render fu (chip_callbacks m) 1 (d_lit fu 48000) (p, 0) of
        None \<Rightarrow> None | Some (_, q, _) \<Rightarrow> direct_frames fu m n q)"

lemma direct_frames_prefix: "direct_frames fu m (Suc n) p \<noteq> None \<Longrightarrow> direct_frames fu m n p \<noteq> None"
proof (induction n arbitrary: p)
  case (Suc n)
  then obtain out q k where "Paula_render fu (chip_callbacks m) 1 (d_lit fu 48000) (p, 0) = Some (out, q, k)"
    "direct_frames fu m (Suc n) q \<noteq> None"
    by (auto simp del: direct_frames.simps(2) simp: direct_frames.simps(2) [of fu m "Suc n"] split: option.splits)
  then show ?case using Suc(1) [of q] by simp
qed simp

text \<open>
  C3: missing samples only delay. While the other cores fill and empty the sample cache as they
  like, as long as what is cached is what the memory holds, any number of output frames leaves the core
  exactly as the delivered frames alone would on a core that reads the memory itself: no
  source sample is lost, repeated or replaced by silence, and every frame returns.
\<close>

theorem misses_only_delay:
  fixes s :: "(('d, 'f) live_core, 'a) live_state_scheme"
  assumes "coherent m s"
    and "\<forall>e \<in> set es. \<forall>t. coherent m t \<longrightarrow> coherent m (e t) \<and> lv_core (e t) = lv_core t"
    and "direct_frames fu m (length es) (lc_paula (lv_core s)) \<noteq> None"
  shows "\<exists>ds s'. live_run fu es s = Some (ds, s') \<and> length ds = length es \<and>
     direct_frames fu m (length (filter (\<lambda>d. d) ds)) (lc_paula (lv_core s)) = Some (lc_paula (lv_core s'))"
  using assms
proof (induction es arbitrary: s)
  case (Cons e es)
  let ?p = "lc_paula (lv_core s)"
  have e: "coherent m (e s)" "lv_core (e s) = lv_core s"
    using Cons(2,3) by simp_all
  obtain out q k where q: "Paula_render fu (chip_callbacks m) 1 (d_lit fu 48000) (?p, 0) = Some (out, q, k)"
    "direct_frames fu m (length es) q \<noteq> None"
    using Cons(4) by (auto split: option.splits)
  obtain res t where t: "live_frame fu (e s) = Some (res, t)" "coherent m t"
    "lc_paula (lv_core t) = (if paula_mirror_render_missed t then ?p else q)"
    using live_frame_result [OF e(1), of fu out q k] q(1) by (auto simp: e(2) split: if_splits)
  have "direct_frames fu m (length es) (lc_paula (lv_core t)) \<noteq> None"
    using direct_frames_prefix [of fu m "length es" ?p] Cons(4) q(2) t(3) by simp
  with Cons(1) [OF t(2)] Cons(3)
  obtain ds s' where "live_run fu es t = Some (ds, s')" "length ds = length es"
    "direct_frames fu m (length (filter (\<lambda>d. d) ds)) (lc_paula (lv_core t)) = Some (lc_paula (lv_core s'))"
    by auto
  moreover from this have "live_run fu (e # es) s = Some ((\<not> paula_mirror_render_missed t) # ds, s')"
    using t(1) by simp
  ultimately show ?case
    using t(3) q(1) by (cases "paula_mirror_render_missed t") simp_all
qed simp

lemma direct_frames_end: "counts_down fu \<Longrightarrow> direct_frames fu m n p \<noteq> None"
  by (induction n arbitrary: p) (auto simp: render_ends split: option.splits)

definition live_demo_state :: "(rat, rat) live_core live_state" where
  "live_demo_state = diag_state.extend diag_demo \<lparr>lv_core = live_core_new exact_unit, lv_last_mixer = 0\<rparr>"

lemma live_demo_coherent: "coherent m live_demo_state"
  by (simp add: coherent_def live_demo_state_def diag_demo_def diag_state.defs io_state.defs mirror.defs
      mirror_bss_def page_state_def)

theorem misses_only_delay_witness:
  "\<exists>ds s'. live_run exact_unit [\<lambda>s. s, paula_mirror_render_begin] live_demo_state = Some (ds, s') \<and> length ds = 2"
  using misses_only_delay [OF live_demo_coherent [of "\<lambda>_. 0"], of "[\<lambda>s. s, paula_mirror_render_begin]" exact_unit]
    direct_frames_end [OF exact_counts_down]
  by (fastforce simp: paula_mirror_render_begin_def)

end
