(* ===== verification/PaulaAhead.thy ===== *)
theory PaulaAhead
  imports PaulaLive
begin

text \<open>
  The lookahead of \<open>paula_live_prefetch\<close> in \<open>source/src/raspi/paula/paula_live.cpp\<close> against what the
  sample DMA of \<open>paula.cpp\<close> reads next: the windows the prefetch asks for contain the next 1024
  bytes of every playing channel.
\<close>

section \<open>Pages asked for\<close>

definition asked :: "nat \<Rightarrow> 'a mirror_scheme \<Rightarrow> bool" where
  "asked page s \<longleftrightarrow> page_state (pm_page_meta s page) \<noteq> 0"

lemma request_page_asked:
  "q < 8192 \<Longrightarrow> asked q (request_page q s)" "asked p s \<Longrightarrow> asked p (request_page q s)"
proof -
  have bit1: "page_state (w OR 1) \<noteq> 0" for w
  proof
    assume "page_state (w OR 1) = 0"
    then have "bit (page_state (w OR 1)) 0 = bit (0 :: u64) 0" by simp
    then show False by (simp add: page_state_def bit_simps)
  qed
  show "q < 8192 \<Longrightarrow> asked q (request_page q s)"
    using bit1 by (simp add: asked_def request_page_def request_claim_def request_enqueue_def Let_def)
  show "asked p s \<Longrightarrow> asked p (request_page q s)"
    using bit1 by (auto simp: asked_def request_page_def request_claim_def request_enqueue_def Let_def)
qed

lemma prefetch_page_asked:
  "q < 8192 \<Longrightarrow> asked q (prefetch_page q s)" "asked p s \<Longrightarrow> asked p (prefetch_page q s)"
proof -
  have metrics: "asked p (s\<lparr>pm_metrics := m\<rparr>) = asked p s" for m
    by (simp add: asked_def)
  show "q < 8192 \<Longrightarrow> asked q (prefetch_page q s)" "asked p s \<Longrightarrow> asked p (prefetch_page q s)"
    by (simp_all add: prefetch_page_def request_page_asked metrics)
qed

lemma prefetch_pages_asked:
  "q \<in> set qs \<Longrightarrow> \<forall>p \<in> set qs. p < 8192 \<Longrightarrow> asked q (fold prefetch_page qs s)"
  "asked q s \<Longrightarrow> asked q (fold prefetch_page qs s)"
proof -
  show more: "asked q s \<Longrightarrow> asked q (fold prefetch_page qs s)" for s :: "'a mirror_scheme" and qs
    by (induction qs arbitrary: s) (simp_all add: prefetch_page_asked)
  show "q \<in> set qs \<Longrightarrow> \<forall>p \<in> set qs. p < 8192 \<Longrightarrow> asked q (fold prefetch_page qs s)"
    by (induction qs arbitrary: s) (auto simp: prefetch_page_asked more)
qed

lemma prefetch_asked:
  fixes a n :: u32
  assumes "a < PAULA_MIRROR_CHIP_LIMIT" and "j < unat n" and "unat a + j < 0x200000"
  shows "asked ((unat a + j) div 256) (paula_mirror_prefetch a n s)"
proof -
  let ?n = "if n > PAULA_MIRROR_CHIP_LIMIT - a then PAULA_MIRROR_CHIP_LIMIT - a else n"
  have a: "unat a < 0x200000"
    using assms(1) by (simp add: word_less_nat_alt)
  have "unat (PAULA_MIRROR_CHIP_LIMIT - a) = 0x200000 - unat a"
    using assms(1) by (simp add: unat_sub)
  then have n: "unat ?n = min (unat n) (0x200000 - unat a)"
    by (auto simp: word_less_nat_alt min_def)
  then have pos: "0 < unat ?n" "j < unat ?n" "unat a + unat ?n \<le> 0x200000"
    using assms a by auto
  have "unat (a + ?n - 1) = unat a + unat ?n - 1"
  proof -
    have "unat (a + ?n) = unat a + unat ?n"
      by (rule unat_add_small) (use pos(3) in simp)
    moreover from this have "a + ?n \<noteq> 0"
      using pos(1) by (metis add_is_0 less_not_refl unat_0)
    ultimately show ?thesis by (simp add: unat_minus_one)
  qed
  then have l: "unat ((a + ?n - 1) div 256) = (unat a + unat ?n - 1) div 256" "unat (a div 256) = unat a div 256"
    by (simp_all add: unat_div)
  have "(unat a + j) div 256 \<in> set [unat (a div 256)..<Suc (unat ((a + ?n - 1) div 256))]"
    using pos unfolding l by (auto simp: less_Suc_eq_le intro!: div_le_mono)
  moreover have "\<forall>p \<in> set [unat (a div 256)..<Suc (unat ((a + ?n - 1) div 256))]. p < 8192"
    using pos unfolding l by (auto simp: less_Suc_eq_le)
  moreover have "paula_mirror_prefetch a n s =
      fold prefetch_page [unat (a div 256)..<Suc (unat ((a + ?n - 1) div 256))] s"
    using assms(1,2) by (auto simp: paula_mirror_prefetch_def Let_def not_le [symmetric])
  ultimately show ?thesis
    using prefetch_pages_asked(1) by metis
qed

lemma prefetch_more: "asked q s \<Longrightarrow> asked q (paula_mirror_prefetch a n s)"
  by (auto simp: paula_mirror_prefetch_def prefetch_pages_asked(2) Let_def)

section \<open>The windows of a channel\<close>

lemma unat_chip_offset:
  fixes a :: u32
  assumes "a < PAULA_MIRROR_CHIP_LIMIT" and "k < 1024"
  shows "unat (a + word_of_nat k) = unat a + k"
  using assms by (intro trans [OF unat_add_small]) (simp_all add: unat_of_nat word_less_nat_alt)

lemma fetch_window:
  assumes "fs_enabled f" and "fs_cursor f < PAULA_MIRROR_CHIP_LIMIT" and "fs_loop f < PAULA_MIRROR_CHIP_LIMIT"
    and "fs_loop_words f \<noteq> 0" and "i < 1024" and "fetch_address f i < PAULA_MIRROR_CHIP_LIMIT"
  shows "asked (unat (fetch_address f i div 256)) (prefetch_channel_of f s)"
proof -
  let ?w = "unat (fs_words_left f)" and ?k = "unat (fs_loop_words f)"
  define bytes where "bytes = (if fs_words_left f > 512 then 1024 else fs_words_left f * 2)"
  define loopbytes where "loopbytes = (if fs_loop_words f > 512 then 1024 else fs_loop_words f * 2)"
  define rest where "rest = (if 1024 - bytes > loopbytes then loopbytes else 1024 - bytes)"
  define t where "t = (if bytes \<noteq> 0 then paula_mirror_prefetch (fs_cursor f) bytes s else s)"
  have small: "unat (x * 2) = unat x * 2" if "\<not> x > 512" for x :: u32
    using that by (intro trans [OF unat_mult_small]) (simp_all add: word_less_nat_alt)
  have bytes: "unat bytes = (if ?w > 512 then 1024 else ?w * 2)"
    using small [of "fs_words_left f"] by (simp add: bytes_def word_less_nat_alt)
  have loopbytes: "unat loopbytes = (if ?k > 512 then 1024 else ?k * 2)"
    using small [of "fs_loop_words f"] by (simp add: loopbytes_def word_less_nat_alt)
  have pre: "prefetch_channel_of f s =
      (if bytes < 1024 \<and> fs_loop_words f \<noteq> 0 then paula_mirror_prefetch (fs_loop f) rest t else t)"
    using assms(1) by (simp add: prefetch_channel_of_def bytes_def loopbytes_def rest_def t_def Let_def)
  show ?thesis
  proof (cases "i < 2 * ?w")
    case True
    then have a: "fetch_address f i = fs_cursor f + word_of_nat i"
      by (simp add: fetch_address_def sample_address_def)
    have n: "unat (fetch_address f i) = unat (fs_cursor f) + i"
      unfolding a using assms(2,5) by (rule unat_chip_offset)
    have "i < unat bytes" and "bytes \<noteq> 0" using True assms(5) bytes by (auto split: if_splits)
    moreover have "unat (fs_cursor f) + i < 0x200000"
      using n assms(6) by (simp add: word_less_nat_alt)
    ultimately have "asked ((unat (fs_cursor f) + i) div 256) t"
      using prefetch_asked [OF assms(2)] by (simp add: t_def)
    then show ?thesis
      using n by (simp add: pre prefetch_more unat_div)
  next
    case False
    let ?j = "(i - 2 * ?w) mod (2 * ?k)"
    have "0 < ?k" using assms(4) by (simp add: unat_gt_0)
    then have k: "max 1 ?k = ?k" by simp
    have j: "?j < 2 * ?k" "?j \<le> i - 2 * ?w"
      using \<open>0 < ?k\<close> by simp_all
    have a: "fetch_address f i = fs_loop f + word_of_nat ?j"
      using False by (simp add: fetch_address_def sample_address_def k [simplified])
    have n: "unat (fetch_address f i) = unat (fs_loop f) + ?j"
      unfolding a using assms(3) by (rule unat_chip_offset) (use j(2) assms(5) in linarith)
    have "bytes < 1024" and b: "unat bytes = ?w * 2"
      using False assms(5) bytes by (auto simp: word_less_nat_alt)
    then have "unat (1024 - bytes) = 1024 - ?w * 2"
      by (simp add: unat_sub)
    then have "unat rest = min (unat loopbytes) (1024 - ?w * 2)"
      by (auto simp: rest_def word_less_nat_alt min_def)
    moreover have "?j < 1024 - ?w * 2"
      using j(2) False assms(5) by linarith
    ultimately have "?j < unat rest"
      using j(1) loopbytes by auto
    moreover have "unat (fs_loop f) + ?j < 0x200000"
      using n assms(6) by (simp add: word_less_nat_alt)
    ultimately have "asked ((unat (fs_loop f) + ?j) div 256) (paula_mirror_prefetch (fs_loop f) rest t)"
      using prefetch_asked [OF assms(3)] by blast
    then show ?thesis
      using n \<open>bytes < 1024\<close> assms(4) by (simp add: pre unat_div)
  qed
qed

lemma channel_more: "asked q s \<Longrightarrow> asked q (prefetch_channel_of f s)"
  by (simp add: prefetch_channel_of_def prefetch_more Let_def)

lemma live_prefetch_asked:
  fixes s :: "('c, 'a) live_state_scheme"
  assumes "ch < 4" and "\<And>t :: ('c, 'a) live_state_scheme. asked q (prefetch_channel_of (co_fetch ops (lv_core s) ch) t)"
  shows "asked q (paula_live_prefetch ops s)"
proof -
  let ?f = "\<lambda>ch s. prefetch_channel_of (co_fetch ops (lv_core s) ch) s"
  have core: "lv_core (prefetch_channel_of f t) = lv_core t" for f and t :: "('c, 'a) live_state_scheme"
    by (simp add: prefetch_channel_of_def prefetch_keeps Let_def)
  have more: "asked q t \<Longrightarrow> asked q (fold ?f chs t)" for chs and t :: "('c, 'a) live_state_scheme"
    by (induction chs arbitrary: t) (simp_all add: channel_more)
  have "ch \<in> set chs \<Longrightarrow> lv_core t = lv_core s \<Longrightarrow> asked q (fold ?f chs t)" for chs and t :: "('c, 'a) live_state_scheme"
  proof (induction chs arbitrary: t)
    case (Cons c chs)
    then show ?case
      using more [of "prefetch_channel_of (co_fetch ops (lv_core s) ch) t" chs] assms(2) [of t]
      by (cases "c = ch") (simp_all add: core)
  qed simp
  then show ?thesis
    using assms(1) by (simp add: paula_live_prefetch_def del: upt_rec_numeral)
qed

text \<open>
  C5: the lookahead is enough. After a prefetch every one of the next 1024 bytes that the DMA of
  a playing channel reads, through the end of its block and as many rounds of its loop as
  that takes, lies in a page that is cached, being loaded, or requested.
\<close>

theorem samples_requested_ahead:
  fixes s :: "(('d, 'f) live_core, 'a) live_state_scheme"
  defines "p \<equiv> lc_paula (lv_core s)"
  assumes "ch < 4" and "dma_enabled (pa_dmaCon p) ch" and "\<not> dmaWantsRestart (pa_channels p ch)"
    and "fs_cursor (fetchState p (int ch)) < PAULA_MIRROR_CHIP_LIMIT"
    and "locPtrLatched (pa_channels p ch) < PAULA_MIRROR_CHIP_LIMIT" and "lenWordsLatched (pa_channels p ch) \<noteq> 0"
    and "dma_ticks (memory_callbacks m) ch n (p, [], 0) = (p', reads, irqs)"
  shows "\<forall>a \<in> set (take 1024 reads). a < PAULA_MIRROR_CHIP_LIMIT \<longrightarrow>
     page_state (pm_page_meta (paula_live_prefetch (live_ops fu) s) (unat (a div 256))) \<noteq> 0"
proof (intro ballI impI)
  fix a :: u32 assume a: "a \<in> set (take 1024 reads)" and chip: "a < PAULA_MIRROR_CHIP_LIMIT"
  let ?f = "fetchState p (int ch)"
  have f: "fs_enabled ?f" "fs_loop ?f = locPtrLatched (pa_channels p ch)" "fs_loop_words ?f = lenWordsLatched (pa_channels p ch)"
    using assms(2,3) by (auto simp: fetchState_def Let_def)
  have "reads = map (fetch_address ?f) [0..<2 * ((n + (if onLowByte (pa_channels p ch) then 1 else 0)) div 2)]"
    using dma_ticks_log assms(2-4,8) by blast
  then obtain i where "i < 1024" "a = fetch_address ?f i"
    using a by (fastforce simp: in_set_conv_nth)
  then have "asked (unat (a div 256)) (prefetch_channel_of ?f t)" for t :: "(('d, 'f) live_core, 'a) live_state_scheme"
    using fetch_window [of ?f i t] f assms(5-7) chip by simp
  then have "asked (unat (a div 256)) (paula_live_prefetch (live_ops fu) s)"
    by (intro live_prefetch_asked [OF assms(2)]) (simp add: live_ops_def p_def)
  then show "page_state (pm_page_meta (paula_live_prefetch (live_ops fu) s) (unat (a div 256))) \<noteq> 0"
    by (simp add: asked_def)
qed

definition ahead_demo :: "(rat, rat) live_core live_state" where
  "ahead_demo = live_demo_state\<lparr>lv_core := (lv_core live_demo_state)
     \<lparr>lc_paula := writeRegister16 exact_unit 0xdff096 0x8201 sample_demo\<rparr>\<rparr>"

theorem samples_requested_ahead_witness:
  "page_state (pm_page_meta (paula_live_prefetch (live_ops exact_unit) ahead_demo) 16) \<noteq> 0"
proof -
  let ?p = "writeRegister16 exact_unit 0xdff096 0x8201 sample_demo"
  have p: "lc_paula (lv_core ahead_demo) = ?p" by (simp add: ahead_demo_def)
  have demo: "dmaWantsRestart (pa_channels sample_demo 0)" "pa_dmaCon sample_demo = 0"
    "lenWordsLatched (pa_channels sample_demo 0) = 2" "locPtrLatched (pa_channels sample_demo 0) = 0x1000"
    by (simp_all add: sample_demo_def writeRegister16_def kRegAudBase_def Paula_new_def Paula_reset_def channel_init_def upt_rec)
  have on: "dma_enabled (setclr16 0 0x8201) 0"
    by (simp add: dma_enabled_def setclr16_def)
  have c: "pa_channels ?p 0 = channel_restart exact_unit (pa_channels sample_demo 0)" "pa_dmaCon ?p = setclr16 0 0x8201"
    using on by (simp_all add: dmacon_write demo)
  have fields: "\<not> dmaWantsRestart (pa_channels ?p 0)" "locPtrLatched (pa_channels ?p 0) = 0x1000"
    "lenWordsLatched (pa_channels ?p 0) = 2" "curPtr (pa_channels ?p 0) = 0x1000" "onLowByte (pa_channels ?p 0)"
    "curWordsLeft (pa_channels ?p 0) = 2"
    by (simp_all add: c channel_restart_def demo)
  obtain p' reads irqs where r: "dma_ticks (memory_callbacks ucast) 0 1 (?p, [], 0 :: nat) = (p', reads, irqs)"
    by (cases "dma_ticks (memory_callbacks ucast) 0 1 (?p, [], 0 :: nat)")
  have "dma_enabled (pa_dmaCon ?p) 0" using on by (simp add: c)
  from dma_ticks_log [OF _ this fields(1) r]
  have reads: "reads = [0x1000, 0x1001]"
    using fields fetch_address_channel [of 0 ?p] by (simp add: channel_address_def sample_address_def upt_rec)
  from samples_requested_ahead [of 0 ahead_demo ucast 1 p' reads irqs exact_unit, unfolded p]
  show ?thesis
    using on fields r reads by (simp add: c(2) fetchState_def Let_def unat_div)
qed

end
