(* ===== verification/PaulaBank.thy ===== *)
theory PaulaBank
  imports PaulaLive
begin

text \<open>
  The register bank the Amiga reads against the registers of the core. \<open>paula_live.cpp\<close> keeps
  the two apart: it writes every register to the core and, by its own decoding, to the bank of
  \<open>paula_probe.c\<close>. The invariant \<open>bank_shows\<close> relates them, and every operation of
  \<open>paula_live.cpp\<close> keeps it.
\<close>

section \<open>The relation\<close>

definition channel_shown :: "metrics \<Rightarrow> nat \<Rightarrow> ('d, 'f) paula \<Rightarrow> bool" where
  "channel_shown m ch p \<longleftrightarrow>
     (let b = channel_base ch; c = channelState p (int ch) in
      paula_probe_get m (b + PP_CH_LOC) = cs_locPtr c \<and>
      paula_probe_get m (b + PP_CH_LEN) = ucast (cs_lenWords c) \<and>
      cs_periodTicks c = (if paula_probe_get m (b + PP_CH_PER) = 0 then 1 else ucast (paula_probe_get m (b + PP_CH_PER))) \<and>
      paula_probe_get m (b + PP_CH_VOL) = ucast (cs_volume c) \<and>
      paula_probe_get m (b + PP_CH_FLAGS) = (if cs_dmaEnabled c then 1 else 0))"

definition bank_shows :: "metrics \<Rightarrow> ('d, 'f) paula \<Rightarrow> bool" where
  "bank_shows m p \<longleftrightarrow>
     (\<forall>ch < 4. channel_shown m ch p) \<and>
     paula_probe_get m PP_DMACON = ucast (pa_dmaCon p) \<and>
     paula_probe_get m PP_INTENA = ucast (pa_intEna p) \<and>
     paula_probe_get m PP_ADKCON = ucast (pa_adkCon p) \<and>
     paula_probe_get m PP_INTREQ AND NOT (ucast (pa_intReq p)) = 0"

text \<open>The words of the bank that show registers.\<close>

definition shown_index :: "nat \<Rightarrow> bool" where
  "shown_index j \<longleftrightarrow> 22 \<le> j \<and> j \<le> 25 \<or> 64 \<le> j \<and> j < 96"

definition same_bank :: "metrics \<Rightarrow> metrics \<Rightarrow> bool" where
  "same_bank m m' \<longleftrightarrow> (\<forall>j. shown_index j \<longrightarrow> paula_probe_get m j = paula_probe_get m' j)"

definition same_latches :: "('d, 'f) paula \<Rightarrow> ('d, 'f) paula \<Rightarrow> bool" where
  "same_latches p q \<longleftrightarrow>
     (\<forall>ch. locPtrLatched (pa_channels p ch) = locPtrLatched (pa_channels q ch) \<and>
           lenWordsLatched (pa_channels p ch) = lenWordsLatched (pa_channels q ch) \<and>
           ch_period (pa_channels p ch) = ch_period (pa_channels q ch) \<and>
           ch_volume (pa_channels p ch) = ch_volume (pa_channels q ch)) \<and>
     pa_dmaCon p = pa_dmaCon q \<and> pa_intEna p = pa_intEna q \<and> pa_adkCon p = pa_adkCon q \<and>
     pa_intReq p AND NOT (pa_intReq q) = 0"

lemma channel_index:
  "k < 8 \<Longrightarrow> k' < 8 \<Longrightarrow> channel_base c + k = channel_base c' + k' \<longleftrightarrow> c = c' \<and> k = k'"
  "k' < 8 \<Longrightarrow> channel_base c = channel_base c' + k' \<longleftrightarrow> c = c' \<and> k' = 0"
  "k < 8 \<Longrightarrow> channel_base c + k = channel_base c' \<longleftrightarrow> c = c' \<and> k = 0"
  "channel_base c = channel_base c' \<longleftrightarrow> c = c'"
proof -
  have *: "c * 8 + k = c' * 8 + k' \<longleftrightarrow> c = c' \<and> k = k'" if "k < 8" "k' < 8" for c c' k k' :: nat
  proof
    assume eq: "c * 8 + k = c' * 8 + k'"
    then have "(c * 8 + k) mod 8 = (c' * 8 + k') mod 8" by simp
    then have "k = k'" using that by (simp add: mod_mult_self3)
    then show "c = c' \<and> k = k'" using eq by simp
  qed simp
  show "k < 8 \<Longrightarrow> k' < 8 \<Longrightarrow> channel_base c + k = channel_base c' + k' \<longleftrightarrow> c = c' \<and> k = k'"
    using * [of k k' c c'] by (simp add: channel_base_def)
  show "k' < 8 \<Longrightarrow> channel_base c = channel_base c' + k' \<longleftrightarrow> c = c' \<and> k' = 0"
    using * [of 0 k' c c'] by (auto simp: channel_base_def)
  show "k < 8 \<Longrightarrow> channel_base c + k = channel_base c' \<longleftrightarrow> c = c' \<and> k = 0"
    using * [of k 0 c c'] by (auto simp: channel_base_def)
  show "channel_base c = channel_base c' \<longleftrightarrow> c = c'"
    by (simp add: channel_base_def)
qed

lemma channel_index_range:
  "c < 4 \<Longrightarrow> k < 8 \<Longrightarrow> 64 \<le> channel_base c + k \<and> channel_base c + k < 96"
  "c < 4 \<Longrightarrow> 64 \<le> channel_base c \<and> channel_base c < 96"
  by (simp_all add: channel_base_def)

lemma probe_get_upd:
  assumes "shown_index j"
  shows "paula_probe_get (paula_probe_set i v m) j = (if i = j then v else paula_probe_get m j)"
    and "paula_probe_get (paula_probe_add i v m) j = (if i = j then paula_probe_get m j + v else paula_probe_get m j)"
    and "paula_probe_get (paula_probe_flag w b m) j = paula_probe_get m j"
  using assms by (auto simp: shown_index_def paula_probe_get_def paula_probe_set_def paula_probe_add_def paula_probe_flag_def)

lemma shown_words: "shown_index 22" "shown_index 23" "shown_index 24" "shown_index 25"
  "\<not> shown_index 13" "\<not> shown_index 15" "\<not> shown_index 18" "\<not> shown_index 19" "\<not> shown_index 20"
  "\<not> shown_index 21" "\<not> shown_index 33" "\<not> shown_index 34" "\<not> shown_index 35" "\<not> shown_index 36"
  "\<not> shown_index 45" "\<not> shown_index 47" "\<not> shown_index 48" "\<not> shown_index 49" "\<not> shown_index 99"
  by (simp_all add: shown_index_def)

lemma shown_channel: "c < 4 \<Longrightarrow> k < 8 \<Longrightarrow> shown_index (channel_base c + k)" "c < 4 \<Longrightarrow> shown_index (channel_base c)"
  by (simp_all add: shown_index_def channel_index_range)

text \<open>Indices are kept as sums.\<close>

lemmas index_sums = One_nat_def add_2_eq_Suc add_2_eq_Suc'

lemma same_bank_upd:
  "\<not> shown_index i \<Longrightarrow> same_bank (paula_probe_set i v m) m' = same_bank m m'"
  "\<not> shown_index i \<Longrightarrow> same_bank (paula_probe_add i v m) m' = same_bank m m'"
  by (auto simp: same_bank_def probe_get_upd)

lemma same_bank_shows:
  assumes "bank_shows m p" and "same_bank m' m" and "same_latches p q"
  shows "bank_shows m' q"
proof -
  have g: "paula_probe_get m' j = paula_probe_get m j" if "shown_index j" for j
    using assms(2) that by (simp add: same_bank_def)
  have "channel_shown m' ch q" if "ch < 4" for ch
  proof -
    have "channel_shown m ch p" using assms(1) that by (simp add: bank_shows_def)
    then show ?thesis
      using assms(3) that by (simp add: channel_shown_def channelState_def same_latches_def g shown_channel Let_def del: index_sums)
  qed
  moreover have "paula_probe_get m PP_INTREQ AND NOT (ucast (pa_intReq q)) = 0"
    if "paula_probe_get m PP_INTREQ AND NOT (ucast (pa_intReq p)) = 0" "pa_intReq p AND NOT (pa_intReq q) = 0"
  proof (rule bit_word_eqI)
    fix n
    assume "n < LENGTH(32)"
    have "\<not> bit (paula_probe_get m PP_INTREQ AND NOT (ucast (pa_intReq p))) n" "\<not> bit (pa_intReq p AND NOT (pa_intReq q)) n"
      using that by simp_all
    then show "bit (paula_probe_get m PP_INTREQ AND NOT (ucast (pa_intReq q))) n = bit (0 :: u32) n"
      by (auto simp: bit_simps dest: bit_imp_le_length)
  qed
  ultimately show ?thesis
    using assms by (simp add: bank_shows_def same_latches_def g shown_words)
qed

section \<open>Writes\<close>

text \<open>The two decoders of an audio register.\<close>

definition audio_write :: "nat \<Rightarrow> u16 \<Rightarrow> ('d, 'f) channel \<Rightarrow> ('d, 'f) channel" where
  "audio_write d v c =
     (if d = 0 then c\<lparr>locPtrLatched := (locPtrLatched c AND 0x0000FFFF) OR push_bit 16 (ucast v)\<rparr>
      else if d = 2 then c\<lparr>locPtrLatched := (locPtrLatched c AND 0xFFFF0000) OR ucast v\<rparr>
      else if d = 4 then c\<lparr>lenWordsLatched := (if v \<noteq> 0 then ucast v else 65536)\<rparr>
      else if d = 6 then c\<lparr>ch_period := (if v \<noteq> 0 then v else 1)\<rparr>
      else if d = 8 then c\<lparr>ch_volume := v AND 0x7F\<rparr> else c)"

definition audio_shadow :: "nat \<Rightarrow> u16 \<Rightarrow> nat \<Rightarrow> metrics \<Rightarrow> metrics" where
  "audio_shadow d v b m =
     (if d = 0 then paula_probe_set (b + PP_CH_LOC) ((paula_probe_get m (b + PP_CH_LOC) AND 0xffff) OR push_bit 16 (ucast v)) m
      else if d = 2 then paula_probe_set (b + PP_CH_LOC) ((paula_probe_get m (b + PP_CH_LOC) AND 0xffff0000) OR ucast v) m
      else if d = 4 then paula_probe_set (b + PP_CH_LEN) (ucast v) m
      else if d = 6 then paula_probe_set (b + PP_CH_PER) (ucast v) m
      else if d = 8 then paula_probe_set (b + PP_CH_VOL) (ucast (v AND 0x7f)) m
      else if d = 10 then paula_probe_add PP_AUDDAT_WRITES 1 (paula_probe_set (b + PP_CH_DAT) (ucast v) m)
      else paula_probe_add PP_IGNORED 1 m)"

lemma aud_base: "c < 4 \<Longrightarrow> d < 16 \<Longrightarrow> r = kRegAudBase c + word_of_nat d \<longleftrightarrow> unat r = 0xa0 + 16 * c + d"
proof -
  assume "c < 4" "d < 16"
  then have "unat (kRegAudBase c + word_of_nat d) = 0xa0 + 16 * c + d"
    by (simp add: kRegAudBase_def unat_word_ariths unat_of_nat)
  then show ?thesis by (metis word_unat_eq_iff)
qed

lemma shadow_audio:
  fixes r :: u32
  assumes "c < 4" and "d < 16" and "unat r = 0xa0 + 16 * c + d" and "r \<le> 0xda"
  shows "live_shadow r v m = paula_probe_add (channel_base c + PP_CH_WRITES) 1 (audio_shadow d v (channel_base c) m)"
proof -
  have r: "r \<ge> 0xa0" using assms(3) by (simp add: word_le_nat_alt)
  have c: "unat (drop_bit 4 (r - 0xa0)) = c" and k: "unat ((r - 0xa0) AND 15) = d"
    using audio_offset(1,2) [OF r assms(4)] assms(2,3) by simp_all
  have d: "(r - 0xa0) AND 15 = x \<longleftrightarrow> d = unat x" for x
    unfolding word_unat_eq_iff k ..
  have "r \<noteq> 0x096" "r \<noteq> 0x09a" "r \<noteq> 0x09c" "r \<noteq> 0x09e"
    using assms(3) by (auto simp: word_unat_eq_iff)
  then show ?thesis
    using r assms(1,4) by (simp add: live_shadow_def audio_shadow_def Let_def c d)
qed

lemma upd_channel_same [simp]: "upd_channel c (\<lambda>c. c) p = p"
  by (simp add: upd_channel_def)

lemma reg_match:
  assumes "ch < 4" and "unat r = 0xa0 + 16 * c + d" and "d < 16"
  shows "r = kRegAudBase ch \<longleftrightarrow> c = ch \<and> d = 0"
    and "r = kRegAudBase ch + 2 \<longleftrightarrow> c = ch \<and> d = 2" and "r = kRegAudBase ch + 4 \<longleftrightarrow> c = ch \<and> d = 4"
    and "r = kRegAudBase ch + 6 \<longleftrightarrow> c = ch \<and> d = 6" and "r = kRegAudBase ch + 8 \<longleftrightarrow> c = ch \<and> d = 8"
    and "r = kRegAudBase ch + 0xA \<longleftrightarrow> c = ch \<and> d = 10"
proof -
  have *: "0xa0 + 16 * c + d = 0xa0 + 16 * ch + k \<longleftrightarrow> c = ch \<and> d = k" if "k < 16" for k
  proof
    assume eq: "0xa0 + 16 * c + d = 0xa0 + 16 * ch + k"
    then have "(16 * c + d) mod 16 = (16 * ch + k) mod 16" by simp
    then have "d = k" using that assms(3) by simp
    then show "c = ch \<and> d = k" using eq by simp
  qed simp
  show "r = kRegAudBase ch \<longleftrightarrow> c = ch \<and> d = 0"
    using aud_base [OF assms(1), of 0 r] * [of 0] assms(2) by simp
  show "r = kRegAudBase ch + 2 \<longleftrightarrow> c = ch \<and> d = 2" "r = kRegAudBase ch + 4 \<longleftrightarrow> c = ch \<and> d = 4"
    "r = kRegAudBase ch + 6 \<longleftrightarrow> c = ch \<and> d = 6" "r = kRegAudBase ch + 8 \<longleftrightarrow> c = ch \<and> d = 8"
    "r = kRegAudBase ch + 0xA \<longleftrightarrow> c = ch \<and> d = 10"
    using aud_base [OF assms(1), of 2 r] aud_base [OF assms(1), of 4 r] aud_base [OF assms(1), of 6 r]
      aud_base [OF assms(1), of 8 r] aud_base [OF assms(1), of 10 r] * [of 2] * [of 4] * [of 6] * [of 8] * [of 10]
    by (simp_all add: assms(2))
qed

lemma core_audio:
  assumes "\<forall>x \<in> set cs. x < 4" and "unat r = 0xa0 + 16 * c + d" and "d < 16"
  shows "channel_register_write cs r v p =
    (if c \<in> set cs \<and> d \<in> {0, 2, 4, 6, 8} then upd_channel c (audio_write d v) p else p)"
  using assms(1)
proof (induction cs)
  case (Cons ch chs)
  then have "ch < 4" by simp
  note m = reg_match [OF this assms(2,3)]
  have IH: "channel_register_write chs r v p =
      (if c \<in> set chs \<and> d \<in> {0, 2, 4, 6, 8} then upd_channel c (audio_write d v) p else p)"
    using Cons by simp
  consider "d = 0" | "d = 2" | "d = 4" | "d = 6" | "d = 8" | "d = 10" | "d \<notin> {0, 2, 4, 6, 8, 10}"
    by blast
  then show ?case
    by cases (simp_all add: m IH audio_write_def [abs_def])
qed simp

lemma core_other:
  assumes "\<forall>x \<in> set cs. x < 4" and "unat r < 0xa0 \<or> 0xe0 \<le> unat r"
  shows "channel_register_write cs r v p = p"
  using assms(1)
proof (induction cs)
  case (Cons ch chs)
  then have ch: "ch < 4" by simp
  have "r \<noteq> kRegAudBase ch + word_of_nat d" if "d < 16" for d
    using aud_base [OF ch that, of r] assms(2) ch that by auto
  from this [of 0] this [of 2] this [of 4] this [of 6] this [of 8] this [of 10]
  show ?case using Cons by simp
qed simp

lemma channel_shown_iff:
  assumes "ch < 4"
  shows "channel_shown m ch p \<longleftrightarrow>
    (let b = channel_base ch; c = pa_channels p ch in
     paula_probe_get m b = locPtrLatched c \<and> paula_probe_get m (b + 1) = ucast (ucast (lenWordsLatched c) :: u16) \<and>
     ch_period c = (if paula_probe_get m (b + 2) = 0 then 1 else ucast (paula_probe_get m (b + 2))) \<and>
     paula_probe_get m (b + 3) = ucast (ch_volume c) \<and>
     paula_probe_get m (b + 5) = (if dma_enabled (pa_dmaCon p) ch then 1 else 0))"
  using assms by (simp add: channel_shown_def channelState_def Let_def del: index_sums)

lemma ucast_setclr:
  fixes d v :: u16
  shows "ucast (setclr16 d v) =
    (if v AND 0x8000 \<noteq> 0 then (ucast d :: u32) OR ucast (v AND 0x7fff) else ucast d AND NOT (ucast (v AND 0x7fff)))"
proof (rule bit_word_eqI)
  fix n assume "n < LENGTH(32)"
  show "bit (ucast (setclr16 d v) :: u32) n = bit (if v AND 0x8000 \<noteq> 0 then (ucast d :: u32) OR ucast (v AND 0x7fff)
      else ucast d AND NOT (ucast (v AND 0x7fff))) n"
    using \<open>n < LENGTH(32)\<close> by (auto simp: setclr16_def bit_simps dest: bit_imp_le_length)
qed

lemma dma_flag:
  assumes "ch < 4"
  shows "(ucast d :: u32) AND 0x0200 \<noteq> 0 \<and> (ucast d :: u32) AND push_bit ch 1 \<noteq> 0 \<longleftrightarrow> dma_enabled d ch"
proof -
  have "(ucast d :: u32) AND 0x200 = ucast (d AND 0x200)" "(ucast d :: u32) AND push_bit ch 1 = ucast (d AND push_bit ch 1)"
    using assms by (auto intro!: bit_word_eqI simp: bit_simps bits dest: bit_imp_le_length)
  moreover have "ucast x = (0 :: u32) \<longleftrightarrow> x = 0" for x :: u16
    by (metis unat_eq_0 unat_ucasts(4))
  ultimately show ?thesis by (auto simp: dma_enabled_def)
qed

lemma setclr_shown:
  assumes "shown_index j"
  shows "paula_probe_get (shadow_setclr i v m) j =
    (if i = j then if v AND 0x8000 \<noteq> 0 then paula_probe_get m i OR ucast (v AND 0x7fff)
                   else paula_probe_get m i AND NOT (ucast (v AND 0x7fff))
     else paula_probe_get m j)"
  using assms by (simp add: shadow_setclr_def probe_get_upd Let_def)

text \<open>The registers of DMA and interrupts.\<close>

lemma dmacon_shows:
  fixes fu :: "('d, 'f) float_unit"
  assumes "bank_shows m p" and "a AND 0xfff = 0x096"
  shows "bank_shows (live_shadow 0x096 v m) (writeRegister16 fu a v p)"
proof -
  let ?m = "shadow_setclr PP_DMACON v m" and ?d = "setclr16 (pa_dmaCon p) v"
  let ?flag = "\<lambda>ch. if paula_probe_get ?m PP_DMACON AND 0x0200 \<noteq> 0 \<and> paula_probe_get ?m PP_DMACON AND push_bit ch 1 \<noteq> 0
    then 1 else 0 :: u32"
  have d: "paula_probe_get ?m PP_DMACON = ucast ?d"
    using assms(1) by (simp add: bank_shows_def setclr_shown shown_words ucast_setclr)
  have fl: "paula_probe_get (fold (\<lambda>ch. paula_probe_set (channel_base ch + PP_CH_FLAGS) (g ch)) cs n) j =
      (if \<exists>c \<in> set cs. j = channel_base c + PP_CH_FLAGS then g ((j - 69) div 8) else paula_probe_get n j)"
    if "shown_index j" for cs n j and g :: "nat \<Rightarrow> u32"
  proof (induction cs arbitrary: n)
    case (Cons c cs)
    then show ?case using that by (auto simp: probe_get_upd channel_base_def)
  qed simp
  let ?m' = "live_shadow 0x096 v m" and ?p = "writeRegister16 fu a v p"
  have m': "?m' = fold (\<lambda>ch. paula_probe_set (channel_base ch + PP_CH_FLAGS) (?flag ch)) [0..<4] ?m"
    by (simp add: live_shadow_def Let_def del: upt_rec_numeral)
  have flags: "paula_probe_get ?m' (channel_base ch + 5) = ?flag ch" if "ch < 4" for ch
  proof -
    have "\<exists>c \<in> set [0..<4]. channel_base ch + 5 = channel_base c + 5"
      using that by auto
    moreover have "(channel_base ch + 5 - 69) div 8 = ch" by (simp add: channel_base_def)
    ultimately show ?thesis
      unfolding m' fl [OF shown_channel(1) [OF that, of 5, simplified]] by simp
  qed
  have other: "paula_probe_get ?m' j = paula_probe_get ?m j" if "shown_index j" "\<forall>c < 4. j \<noteq> channel_base c + 5" for j
    unfolding m' fl [OF that(1)] using that(2) by auto
  have low: "\<forall>c < 4. j \<noteq> channel_base c + 5" if "j < 64" for j
    using that by (auto simp: channel_base_def)
  have rest: "paula_probe_get ?m' (channel_base ch + k) = paula_probe_get m (channel_base ch + k)" if "ch < 4" "k < 5" for ch k
  proof -
    have "\<forall>c < 4. channel_base ch + k \<noteq> channel_base c + 5"
      using that channel_index(1) [of k 5] by auto
    moreover have "22 \<noteq> channel_base ch + k" by (simp add: channel_base_def)
    ultimately show ?thesis
      using other shown_channel(1) [of ch k] that by (simp add: setclr_shown)
  qed
  have keep: "pa_intReq ?p = pa_intReq p" "pa_intEna ?p = pa_intEna p" "pa_adkCon ?p = pa_adkCon p"
  proof -
    have "pa_intReq (fold (dmacon_channel fu) cs q) = pa_intReq q \<and> pa_intEna (fold (dmacon_channel fu) cs q) = pa_intEna q \<and>
      pa_adkCon (fold (dmacon_channel fu) cs q) = pa_adkCon q" for cs and q :: "('d, 'f) paula"
      by (induction cs arbitrary: q) (auto simp: dmacon_channel_def)
    then show "pa_intReq ?p = pa_intReq p" "pa_intEna ?p = pa_intEna p" "pa_adkCon ?p = pa_adkCon p"
      using assms(2) by (simp_all add: writeRegister16_def del: upt_rec_numeral)
  qed
  note core = dmacon_write [OF assms(2), of fu v p]
  have "channel_shown ?m' ch ?p" if "ch < 4" for ch
  proof -
    have c: "channel_shown m ch p" using assms(1) that by (simp add: bank_shows_def)
    have f: "?flag ch = (if dma_enabled ?d ch then 1 else 0)"
      using dma_flag [OF that, of ?d] by (simp only: d)
    have fg: "paula_probe_get ?m' (channel_base ch + 5) = (if dma_enabled ?d ch then 1 else 0)"
      using flags [OF that] f by (simp only:)
    show ?thesis
      using c rest [OF that, of 0] rest [OF that, of 1] rest [OF that, of 2] rest [OF that, of 3] fg
      unfolding channel_shown_iff [OF that] core
      by (simp add: channel_restart_def Let_def that del: index_sums)
  qed
  moreover have "paula_probe_get ?m' PP_DMACON = ucast ?d"
    using other [of 22] low [of 22] d by (simp add: shown_words)
  moreover have "paula_probe_get ?m' j = paula_probe_get m j" if "j \<in> {23, 24, 25}" for j
    using other [of j] low [of j] that shown_words by (auto simp: setclr_shown)
  ultimately show ?thesis
    using assms(1) by (simp add: bank_shows_def core(2) keep)
qed

lemma subset_setclr:
  fixes w :: u32 and q v :: u16
  assumes "w AND NOT (ucast q) = 0"
  shows "(if v AND 0x8000 \<noteq> 0 then w OR ucast (v AND 0x7fff) else w AND NOT (ucast (v AND 0x7fff)))
    AND NOT (ucast (setclr16 q v)) = 0"
proof (rule bit_word_eqI)
  fix n assume n: "n < LENGTH(32)"
  have "\<not> bit (w AND NOT (ucast q)) n" using assms by simp
  then have "bit w n \<Longrightarrow> bit q n"
    using n by (auto simp: bit_simps)
  then show "bit ((if v AND 0x8000 \<noteq> 0 then w OR ucast (v AND 0x7fff) else w AND NOT (ucast (v AND 0x7fff)))
    AND NOT (ucast (setclr16 q v))) n = bit (0 :: u32) n"
    using n by (auto simp: ucast_setclr bit_simps dest: bit_imp_le_length)
qed

lemma control_shows:
  assumes "bank_shows m p"
  shows "bank_shows (shadow_setclr PP_INTENA v m) (p\<lparr>pa_intEna := setclr16 (pa_intEna p) v\<rparr>)"
    and "bank_shows (shadow_setclr PP_INTREQ v m) (p\<lparr>pa_intReq := setclr16 (pa_intReq p) v\<rparr>)"
    and "bank_shows (shadow_setclr PP_ADKCON v m) (p\<lparr>pa_adkCon := setclr16 (pa_adkCon p) v\<rparr>)"
proof -
  have ch: "channel_shown (shadow_setclr i v m) ch (f p)" if "i < 64" "ch < 4" "pa_channels (f p) = pa_channels p" "pa_dmaCon (f p) = pa_dmaCon p"
    for i ch and f :: "('a, 'b) paula \<Rightarrow> ('a, 'b) paula"
  proof -
    have "i \<noteq> channel_base ch + k" for k using that(1) by (simp add: channel_base_def)
    then have "paula_probe_get (shadow_setclr i v m) (channel_base ch + k) = paula_probe_get m (channel_base ch + k)" if "k < 8" for k
      using shown_channel(1) [OF \<open>ch < 4\<close> that] by (simp add: setclr_shown)
    from this [of 0] this [of 1] this [of 2] this [of 3] this [of 5] assms that
    show ?thesis by (simp add: bank_shows_def channel_shown_iff Let_def del: index_sums)
  qed
  show "bank_shows (shadow_setclr PP_INTENA v m) (p\<lparr>pa_intEna := setclr16 (pa_intEna p) v\<rparr>)"
    "bank_shows (shadow_setclr PP_INTREQ v m) (p\<lparr>pa_intReq := setclr16 (pa_intReq p) v\<rparr>)"
    "bank_shows (shadow_setclr PP_ADKCON v m) (p\<lparr>pa_adkCon := setclr16 (pa_adkCon p) v\<rparr>)"
    using assms ch [of _ _ "\<lambda>p. p\<lparr>pa_intEna := setclr16 (pa_intEna p) v\<rparr>"] ch [of _ _ "\<lambda>p. p\<lparr>pa_intReq := setclr16 (pa_intReq p) v\<rparr>"]
      ch [of _ _ "\<lambda>p. p\<lparr>pa_adkCon := setclr16 (pa_adkCon p) v\<rparr>"] subset_setclr [of "paula_probe_get m PP_INTREQ" "pa_intReq p" v]
    by (simp_all add: bank_shows_def setclr_shown shown_words ucast_setclr)
qed

lemma ucast_back: "ucast (ucast (v :: u16) :: u32) = v"
  by (rule bit_word_eqI) (simp add: bit_simps)

lemma len_shown: "(ucast (ucast (if v \<noteq> 0 then ucast v else 65536 :: u32) :: u16) :: u32) = ucast (v :: u16)"
proof -
  have "unat (ucast (65536 :: u32) :: u16) = 0"
    by (simp only: unsigned_ucast_eq take_bit_eq_mod) simp
  then have "(ucast (65536 :: u32) :: u16) = 0" by (simp only: unat_eq_0)
  then show ?thesis by (simp add: ucast_back)
qed

lemma audio_shows:
  assumes "bank_shows m p" and "c < 4"
  shows "bank_shows (paula_probe_add (channel_base c + PP_CH_WRITES) 1 (audio_shadow d v (channel_base c) m))
    (if d \<in> {0, 2, 4, 6, 8} then upd_channel c (audio_write d v) p else p)"
proof -
  let ?m = "paula_probe_add (channel_base c + PP_CH_WRITES) 1 (audio_shadow d v (channel_base c) m)"
  let ?p = "if d \<in> {0, 2, 4, 6, 8} then upd_channel c (audio_write d v) p else p"
  have global: "paula_probe_get ?m j = paula_probe_get m j" if "j \<in> {22, 23, 24, 25}" for j
  proof -
    have "channel_base c + k \<noteq> j" for k using that by (auto simp: channel_base_def)
    from this [of 0] this [of 1] this [of 2] this [of 3] this [of 4] this [of 6] that
    show ?thesis by (auto simp: audio_shadow_def simp del: index_sums)
  qed
  have get: "paula_probe_get ?m (channel_base ch + k) = (if ch \<noteq> c then paula_probe_get m (channel_base ch + k)
      else if k = 0 \<and> d = 0 then (paula_probe_get m (channel_base c) AND 0xffff) OR push_bit 16 (ucast v)
      else if k = 0 \<and> d = 2 then (paula_probe_get m (channel_base c) AND 0xffff0000) OR ucast v
      else if k = 1 \<and> d = 4 \<or> k = 2 \<and> d = 6 then ucast v
      else if k = 3 \<and> d = 8 then ucast (v AND 0x7f) else paula_probe_get m (channel_base ch + k))"
    if "ch < 4" "k \<in> {0, 1, 2, 3, 5}" for ch k
  proof -
    have "shown_index (channel_base ch + k)" using shown_channel(1) [OF that(1), of k] that(2) by auto
    note upd = probe_get_upd [OF this]
    have i: "channel_base c + n = channel_base ch + k \<longleftrightarrow> ch = c \<and> k = n" if "n < 8" for n
      using channel_index(1) [of n k c ch] that \<open>k \<in> {0, 1, 2, 3, 5}\<close> by auto
    have no: "channel_base c + 4 \<noteq> channel_base ch + k" "channel_base c + 6 \<noteq> channel_base ch + k"
      "21 \<noteq> channel_base ch + k" "20 \<noteq> channel_base ch + k"
      using i [of 4] i [of 6] that(2) by (auto simp: channel_base_def)
    have eq: "channel_base c = channel_base ch + k \<longleftrightarrow> ch = c \<and> k = 0"
      "channel_base c + 1 = channel_base ch + k \<longleftrightarrow> ch = c \<and> k = 1"
      "channel_base c + 2 = channel_base ch + k \<longleftrightarrow> ch = c \<and> k = 2"
      "channel_base c + 3 = channel_base ch + k \<longleftrightarrow> ch = c \<and> k = 3"
      using i [of 0] i [of 1] i [of 2] i [of 3] by simp_all
    consider "d = 0" | "d = 2" | "d = 4" | "d = 6" | "d = 8" | "d = 10" | "d \<notin> {0, 2, 4, 6, 8, 10}"
      by blast
    then show ?thesis
      by cases (simp_all add: audio_shadow_def upd no eq del: index_sums)
  qed
  have "channel_shown ?m ch ?p" if "ch < 4" for ch
  proof (cases "ch = c")
    case False
    then have "pa_channels ?p ch = pa_channels p ch" by simp
    then show ?thesis
      using assms(1) that False get [OF that, of 0] get [OF that, of 1] get [OF that, of 2] get [OF that, of 3] get [OF that, of 5]
      by (simp add: bank_shows_def channel_shown_iff Let_def del: index_sums)
  next
    case True
    have v: "ucast v = (0 :: u32) \<longleftrightarrow> v = 0"
      by (metis unat_eq_0 unat_ucasts(4))
    have shown: "channel_shown m c p" using assms by (simp add: bank_shows_def)
    have c: "pa_channels ?p c = (if d \<in> {0, 2, 4, 6, 8} then audio_write d v (pa_channels p c) else pa_channels p c)"
      "pa_dmaCon ?p = pa_dmaCon p"
      by simp_all
    note g = get [OF assms(2), of 0] get [OF assms(2), of 1] get [OF assms(2), of 2] get [OF assms(2), of 3] get [OF assms(2), of 5]
    consider "d = 0" | "d = 2" | "d = 4" | "d = 6" | "d = 8" | "d \<notin> {0, 2, 4, 6, 8}"
      by blast
    then show ?thesis
      using shown g unfolding True channel_shown_iff [OF assms(2)] c Let_def
      by cases (simp_all add: audio_write_def v ucast_back len_shown [simplified] del: index_sums)
  qed
  moreover have "pa_dmaCon ?p = pa_dmaCon p" "pa_intEna ?p = pa_intEna p" "pa_adkCon ?p = pa_adkCon p" "pa_intReq ?p = pa_intReq p"
    by simp_all
  ultimately show ?thesis
    using assms(1) global by (simp add: bank_shows_def)
qed

lemma same_latches_refl [simp]: "same_latches p p"
  by (simp add: same_latches_def)

lemma same_bank_refl [simp]: "same_bank m m"
  by (simp add: same_bank_def)

lemma write_shows:
  assumes "bank_shows m p"
  shows "bank_shows (live_shadow (a AND 0xfff) v m) (writeRegister16 fu a v p)"
proof -
  let ?r = "a AND 0xfff"
  have ignored: "bank_shows (paula_probe_add PP_IGNORED 1 m) p"
    by (rule same_bank_shows [OF assms]) (simp_all add: same_bank_upd shown_words)
  consider (dma) "?r = 0x096" | (control) "?r = 0x09a \<or> ?r = 0x09c \<or> ?r = 0x09e"
    | (audio) "0xa0 \<le> unat ?r" "unat ?r \<le> 0xda"
    | (other) "unat ?r < 0xa0 \<or> 0xda < unat ?r" "?r \<noteq> 0x096" "?r \<noteq> 0x09a" "?r \<noteq> 0x09c" "?r \<noteq> 0x09e"
    by linarith
  then show ?thesis
  proof cases
    case dma
    then show ?thesis using dmacon_shows [OF assms dma] by simp
  next
    case control
    then show ?thesis
      using control_shows [OF assms, of v] by (auto simp: live_shadow_def writeRegister16_def)
  next
    case audio
    define c d where "c = (unat ?r - 0xa0) div 16" and "d = (unat ?r - 0xa0) mod 16"
    have r: "unat ?r = 0xa0 + 16 * c + d" "d < 16" "c < 4"
      using audio by (simp_all add: c_def d_def)
    have rr: "?r \<le> 0xda" using audio(2) by (simp add: word_le_nat_alt)
    have nr: "?r \<noteq> 0x096" "?r \<noteq> 0x09a" "?r \<noteq> 0x09c" "?r \<noteq> 0x09e"
      using r(1) by (auto simp: word_unat_eq_iff)
    have "writeRegister16 fu a v p = (if d \<in> {0, 2, 4, 6, 8} then upd_channel c (audio_write d v) p else p)"
      using nr core_audio [OF _ r(1,2), of "[0..<4]" v p] r(3) by (simp add: writeRegister16_def Let_def del: upt_rec_numeral)
    then show ?thesis
      using audio_shows [OF assms r(3), of d v] shadow_audio [OF r(3,2,1) rr] by simp
  next
    case other
    have "channel_register_write [0..<4] ?r v p = p"
    proof (cases "unat ?r < 0xe0 \<and> 0xda < unat ?r")
      case True
      define e where "e = unat ?r - 0xd0"
      have e: "unat ?r = 0xa0 + 16 * 3 + e" "e < 16" "e \<notin> {0, 2, 4, 6, 8}"
        using True by (auto simp: e_def)
      show ?thesis using core_audio [OF _ e(1,2), of "[0..<4]" v p] e(3) by (simp del: upt_rec_numeral)
    next
      case False
      then show ?thesis using other(1) by (intro core_other) auto
    qed
    then have "writeRegister16 fu a v p = p"
      using other(2-5) by (simp add: writeRegister16_def Let_def del: upt_rec_numeral)
    moreover have "live_shadow ?r v m = paula_probe_add PP_IGNORED 1 m"
      using other by (auto simp: live_shadow_def word_le_nat_alt)
    ultimately show ?thesis using ignored by simp
  qed
qed

text \<open>The bank and the core of a state.\<close>

definition state_shows :: "(('d, 'f) live_core, 'a) live_state_scheme \<Rightarrow> bool" where
  "state_shows s \<longleftrightarrow> bank_shows (pm_metrics s) (lc_paula (lv_core s))"

lemma live_write_shows:
  assumes "state_shows s"
  shows "state_shows (paula_live_write (live_ops fu) a v s)"
proof -
  have "bank_shows (paula_probe_add PP_APPLIED 1 (pm_metrics s)) (lc_paula (lv_core s))"
    by (rule same_bank_shows [of "pm_metrics s" "lc_paula (lv_core s)"])
      (use assms in \<open>simp_all add: state_shows_def same_bank_upd shown_words\<close>)
  moreover have "pm_metrics (paula_live_write (live_ops fu) a v s) =
      live_shadow (a AND 0xfff) v (paula_probe_add PP_APPLIED 1 (pm_metrics s))"
    "lc_paula (lv_core (paula_live_write (live_ops fu) a v s)) = writeRegister16 fu a v (lc_paula (lv_core s))"
    by (simp_all add: paula_live_write_def probe_do_def live_ops_def)
  ultimately show ?thesis
    unfolding state_shows_def using write_shows by (simp only:)
qed

lemma live_settings_shows:
  assumes "state_shows s"
  shows "state_shows (paula_live_mixer_apply (live_ops fu) s)"
proof -
  have latches: "same_latches p (apply_settings fu sep mode muted p)" for sep mode muted and p :: "('a, 'b) paula"
    using apply_settings_same_dma [of p "()" "(f_lit fu 0, f_lit fu 0)" fu sep mode muted]
    by (auto simp: same_dma_def same_latches_def)
  have "bank_shows (paula_probe_set PM_APPLIED w (pm_metrics s)) (apply_settings fu sep mode muted (lc_paula (lv_core s)))"
    for w sep mode muted
    by (rule same_bank_shows [OF _ _ latches, of "pm_metrics s"]) (use assms in \<open>simp_all add: state_shows_def same_bank_upd shown_words\<close>)
  then show ?thesis
    using assms by (simp add: state_shows_def paula_live_mixer_apply_def probe_do_def live_ops_def live_core_settings_def Let_def)
qed

text \<open>A reset makes the two agree, whatever they were.\<close>

lemma live_reset_shows: "state_shows (paula_live_reset (live_ops fu) s)"
proof -
  let ?f = "\<lambda>ch m. paula_probe_set (channel_base ch + PP_CH_FLAGS) 0
     (paula_probe_set (channel_base ch + PP_CH_DAT) 0 (paula_probe_set (channel_base ch + PP_CH_VOL) 0
     (paula_probe_set (channel_base ch + PP_CH_PER) 1 (paula_probe_set (channel_base ch + PP_CH_LEN) 0
     (paula_probe_set (channel_base ch + PP_CH_LOC) 0 m)))))"
  let ?m0 = "paula_probe_set PP_ADKCON 0 (paula_probe_set PP_INTREQ 0 (paula_probe_set PP_INTENA 0
     (paula_probe_set PP_DMACON 0 (pm_metrics s))))"
  have m: "pm_metrics (paula_live_reset (live_ops fu) s) = fold ?f [0..<4] ?m0"
    and p: "lc_paula (lv_core (paula_live_reset (live_ops fu) s)) = Paula_reset fu (lc_paula (lv_core s))"
    by (simp_all add: paula_live_reset_def probe_do_def live_ops_def live_core_reset_def del: upt_rec_numeral)
  have low: "paula_probe_get (fold ?f cs n) j = paula_probe_get n j" if "j \<in> {22, 23, 24, 25}" for j n cs
  proof -
    have "channel_base c + k \<noteq> j" for c k using that by (auto simp: channel_base_def)
    from this [of _ 0] this [of _ 1] this [of _ 2] this [of _ 3] this [of _ 4] this [of _ 5]
    show ?thesis by (induction cs arbitrary: n) (simp_all del: index_sums)
  qed
  have one: "paula_probe_get (?f c n) (channel_base ch + k) =
      (if c = ch then if k = 2 then 1 else 0 else paula_probe_get n (channel_base ch + k))"
    if "ch < 4" "k \<in> {0, 1, 2, 3, 5}" for c ch k n
  proof -
    have "shown_index (channel_base ch + k)" using shown_channel(1) [OF that(1), of k] that(2) by auto
    note upd = probe_get_upd [OF this]
    have i: "channel_base c + n = channel_base ch + k \<longleftrightarrow> c = ch \<and> k = n" if "n < 8" for n
      using channel_index(1) [of n k c ch] that \<open>k \<in> {0, 1, 2, 3, 5}\<close> by auto
    show ?thesis
      using i [of 0] that(2) unfolding upd by (simp add: i del: index_sums) auto
  qed
  have all: "paula_probe_get (fold ?f cs n) (channel_base ch + k) =
      (if ch \<in> set cs then if k = 2 then 1 else 0 else paula_probe_get n (channel_base ch + k))"
    if "ch < 4" "k \<in> {0, 1, 2, 3, 5}" for ch k cs n
    by (induction cs arbitrary: n) (simp_all only: fold.simps o_apply id_apply one [OF that] list.set insert_iff empty_iff if_False, auto)
  have off: "\<not> dma_enabled 0 ch" for ch by (simp add: dma_enabled_def)
  have "channel_shown (fold ?f [0..<4] ?m0) ch (Paula_reset fu (lc_paula (lv_core s)))" if "ch < 4" for ch
    using all [OF that, of 0 "[0..<4]" ?m0] all [OF that, of 1 "[0..<4]" ?m0] all [OF that, of 2 "[0..<4]" ?m0]
      all [OF that, of 3 "[0..<4]" ?m0] all [OF that, of 5 "[0..<4]" ?m0] that
    unfolding channel_shown_iff [OF that] Let_def
    by (simp add: Paula_reset_def channel_init_def off del: index_sums upt_rec_numeral)
  moreover have "paula_probe_get (fold ?f [0..<4] ?m0) j = 0" if "j \<in> {22, 23, 24, 25}" for j
    using that unfolding low [OF that] by (auto simp: probe_get_upd shown_words)
  ultimately show ?thesis
    unfolding state_shows_def m p bank_shows_def by (simp add: Paula_reset_def del: upt_rec_numeral)
qed

section \<open>Frames\<close>

text \<open>Rendering keeps the latched registers and the words of the bank that show them.\<close>

definition keeps_registers ::
    "metrics \<Rightarrow> ('d, 'f) paula \<Rightarrow>
     (('d, 'f) paula \<times> (('d, 'f) live_core, 'a) live_state_scheme) \<times> 'f \<times> 'f \<Rightarrow>
     (('d, 'f) paula \<times> (('d, 'f) live_core, 'a) live_state_scheme) \<times> 'f \<times> 'f \<Rightarrow> bool" where
  "keeps_registers m0 p0 x y \<longleftrightarrow>
     x = y \<and> same_latches p0 (fst (fst x)) \<and> same_bank (pm_metrics (snd (fst x))) m0 \<and>
     lc_render_attempt (lv_core (snd (fst x))) \<noteq> 0"

lemma request_bank [simp]: "same_bank (pm_metrics (request_page q s)) m = same_bank (pm_metrics s) m"
  by (simp add: request_page_def request_claim_def request_enqueue_def same_bank_upd shown_words Let_def)

lemma read_byte_bank:
  assumes "paula_mirror_read_byte a s = (v, s')"
  shows "same_bank (pm_metrics s') m = same_bank (pm_metrics s) m"
  using assms
  by (auto simp: paula_mirror_read_byte_def same_bank_upd shown_words Let_def split: if_splits)

lemma latches_upd:
  "same_latches p0 p \<Longrightarrow> (\<And>c. locPtrLatched (f c) = locPtrLatched c \<and> lenWordsLatched (f c) = lenWordsLatched c \<and>
     ch_period (f c) = ch_period c \<and> ch_volume (f c) = ch_volume c) \<Longrightarrow> same_latches p0 (upd_channel ch f p)"
  by (simp add: same_latches_def)

lemma latches_request: "same_latches p0 p \<Longrightarrow> i = pa_intReq p \<Longrightarrow> same_latches p0 (p\<lparr>pa_intReq := i OR b\<rparr>)"
proof -
  have "a AND NOT (q OR b) = 0" if "a AND NOT q = 0" for a q b :: u16
  proof (rule bit_word_eqI)
    fix n assume "n < LENGTH(16)"
    have "\<not> bit (a AND NOT q) n" using that by simp
    then show "bit (a AND NOT (q OR b)) n = bit (0 :: u16) n"
      using \<open>n < LENGTH(16)\<close> by (auto simp: bit_simps)
  qed
  then show "same_latches p0 p \<Longrightarrow> i = pa_intReq p \<Longrightarrow> same_latches p0 (p\<lparr>pa_intReq := i OR b\<rparr>)"
    by (auto simp: same_latches_def)
qed

lemma tick_registers:
  assumes "same_latches p0 p" and "same_bank (pm_metrics s) m0" and "lc_render_attempt (lv_core s) \<noteq> 0"
    and "advanceOneSourceSample live_callbacks ch (p, s) = (p', s')"
  shows "same_latches p0 p' \<and> same_bank (pm_metrics s') m0 \<and> lc_render_attempt (lv_core s') \<noteq> 0"
proof (cases "dma_enabled (pa_dmaCon p) ch \<and> onLowByte (pa_channels p ch)")
  case False
  then show ?thesis
    using assms by (auto simp: advanceOneSourceSample_def callbacks_read Let_def intro!: latches_upd split: if_splits)
next
  case True
  obtain q t where x: "(if curWordsLeft (pa_channels p ch) = 0 then channel_reload live_callbacks ch (p, s) else (p, s)) = (q, t)"
    by (metis surj_pair)
  have q: "same_latches p0 q" "same_bank (pm_metrics t) m0" "lc_render_attempt (lv_core t) \<noteq> 0"
    using x assms(1-3)
    by (auto simp: channel_reload_def live_callbacks_def virtual_irq_def upd_live_def Let_def
        intro!: latches_upd latches_request split: if_splits)
  obtain l t1 h t2 where r: "paula_mirror_read_byte (curPtr (pa_channels q ch)) t = (l, t1)"
    "paula_mirror_read_byte (curPtr (pa_channels q ch) + 1) t1 = (h, t2)"
    by (metis surj_pair)
  have "advanceOneSourceSample live_callbacks ch (p, s) = channel_fetch paula_mirror_read_byte ch (q, t)"
    using True x by (simp add: advanceOneSourceSample_def callbacks_read Let_def split del: if_split)
  then have "(p', s') = channel_fetch paula_mirror_read_byte ch (q, t)" using assms(4) by simp
  then show ?thesis
    using q read_byte_bank [OF r(1), of m0] read_byte_bank [OF r(2), of m0] read_byte_core [OF r(1)] read_byte_core [OF r(2)]
    by (auto simp: channel_fetch_def r Let_def intro!: latches_upd)
qed

lemma mix_latches:
  assumes "mix_channel fu ch p lr = (p', l)" and "same_latches p0 p"
  shows "same_latches p0 p'"
  using mix_channel_dma [OF assms(1)] assms(2) by (simp add: same_latches_def mix_service_def Let_def)

interpretation registers: render_simulation "keeps_registers m0 p0" fu live_callbacks live_callbacks
  for m0 :: metrics and p0 :: "('d, 'f) paula" and fu :: "('d, 'f) float_unit"
proof
  show "ch_phase (pa_channels p ch) = ch_phase (pa_channels q ch)"
    if "keeps_registers m0 p0 ((p, s), lr) ((q, t), lr')"
    for p q :: "('d, 'f) paula" and s t :: "(('d, 'f) live_core, 'z) live_state_scheme" and lr lr' ch
    using that by (simp add: keeps_registers_def)
  show "keeps_registers m0 p0 ((add_phase fu secs ch p, s), lr) ((add_phase fu secs ch q, t), lr')"
    if "keeps_registers m0 p0 ((p, s), lr) ((q, t), lr')"
    for p q :: "('d, 'f) paula" and s t :: "(('d, 'f) live_core, 'z) live_state_scheme" and lr lr' ch secs
    using that by (auto simp: keeps_registers_def add_phase_def intro!: latches_upd)
  show "keeps_registers m0 p0 ((sub_phase fu ch p, s), lr) ((sub_phase fu ch q, t), lr')"
    if "keeps_registers m0 p0 ((p, s), lr) ((q, t), lr')"
    for p q :: "('d, 'f) paula" and s t :: "(('d, 'f) live_core, 'z) live_state_scheme" and lr lr' ch
    using that by (auto simp: keeps_registers_def sub_phase_def intro!: latches_upd)
  show "keeps_registers m0 p0 (advanceOneSourceSample live_callbacks ch x, lr) (advanceOneSourceSample live_callbacks ch y, lr')"
    if "keeps_registers m0 p0 (x, lr) (y, lr')"
    for x y :: "('d, 'f) paula \<times> (('d, 'f) live_core, 'z) live_state_scheme" and lr lr' ch
    using that tick_registers [of p0 "fst x" "snd x" m0 ch "fst (advanceOneSourceSample live_callbacks ch x)"
        "snd (advanceOneSourceSample live_callbacks ch x)"]
    by (auto simp: keeps_registers_def)
  show "keeps_registers m0 p0 ((p', s), l) ((q', t), l')"
    if "keeps_registers m0 p0 ((p, s), lr) ((q, t), lr')" "mix_channel fu ch p lr = (p', l)" "mix_channel fu ch q lr' = (q', l')"
    for p q p' q' :: "('d, 'f) paula" and s t :: "(('d, 'f) live_core, 'z) live_state_scheme" and lr lr' ch l l'
    using that mix_latches [OF that(2)] by (auto simp: keeps_registers_def)
  show "keeps_registers m0 p0 ((frame_start fu p, s), (z, z)) ((frame_start fu q, t), (z, z))"
    if "keeps_registers m0 p0 ((p, s), lr) ((q, t), lr')"
    for p q :: "('d, 'f) paula" and s t :: "(('d, 'f) live_core, 'z) live_state_scheme" and lr lr' z
    using that by (auto simp: keeps_registers_def frame_start_def same_latches_def)
  show "keeps_registers m0 p0 ((p\<lparr>pa_gainSmoothCoeff := g\<rparr>, s), lr) ((q\<lparr>pa_gainSmoothCoeff := g\<rparr>, t), lr')"
    if "keeps_registers m0 p0 ((p, s), lr) ((q, t), lr')"
    for p q :: "('d, 'f) paula" and s t :: "(('d, 'f) live_core, 'z) live_state_scheme" and lr lr' g
    using that by (auto simp: keeps_registers_def same_latches_def)
qed

lemma prefetch_bank:
  fixes s :: "('c, 'a) live_state_scheme"
  shows "same_bank (pm_metrics (paula_live_prefetch ops s)) m = same_bank (pm_metrics s) m"
proof -
  have pages: "same_bank (pm_metrics (fold prefetch_page ps t)) m = same_bank (pm_metrics t) m"
    for ps and t :: "('c, 'a) live_state_scheme"
    by (induction ps arbitrary: t) (simp_all add: prefetch_page_def same_bank_upd shown_words)
  have channel: "same_bank (pm_metrics (prefetch_channel_of f t)) m = same_bank (pm_metrics t) m"
    for f and t :: "('c, 'a) live_state_scheme"
    by (simp add: prefetch_channel_of_def paula_mirror_prefetch_def pages Let_def)
  have "same_bank (pm_metrics (fold (\<lambda>ch s. prefetch_channel_of (co_fetch ops (lv_core s) ch) s) chs t)) m
      = same_bank (pm_metrics t) m" for chs and t :: "('c, 'a) live_state_scheme"
    by (induction chs arbitrary: t) (simp_all add: channel)
  then show ?thesis by (simp add: paula_live_prefetch_def del: upt_rec_numeral)
qed

lemma live_frame_run:
  assumes "Paula_render fu live_callbacks 1 (d_lit fu 48000) (lc_paula (lv_core s), frame_begin fu s) = Some (out, q, t)"
  shows "live_frame fu s = Some (if paula_mirror_render_missed t
      then frame_missed fu (lc_paula (lv_core s)) (lc_master_gain (lv_core s)) (upd_live (\<lambda>c. c\<lparr>lc_paula := q, lc_render_attempt := 0\<rparr>) t)
      else frame_delivered fu (case out of [] \<Rightarrow> (f_lit fu 0, f_lit fu 0) | lr # _ \<Rightarrow> lr)
             (upd_live (\<lambda>c. c\<lparr>lc_paula := q, lc_render_attempt := 0\<rparr>) t))"
  using assms by (simp add: live_frame_def Let_def frame_begin_keeps)

lemma live_frame_shows:
  fixes s :: "(('d, 'f) live_core, 'a) live_state_scheme"
  assumes "state_shows s" and "live_frame fu s = Some (res, s')"
  shows "state_shows s'"
proof -
  let ?s = "frame_begin fu s" and ?p = "lc_paula (lv_core s)" and ?m = "pm_metrics s" and ?z = "(f_lit fu 0, f_lit fu 0)"
  have bank: "same_bank (pm_metrics ?s) ?m"
    by (simp add: frame_begin_def upd_live_def paula_mirror_render_begin_def prefetch_bank Let_def)
  have "Paula_render fu live_callbacks 1 (d_lit fu 48000) (?p, ?s) \<noteq> None"
  proof
    assume "Paula_render fu live_callbacks 1 (d_lit fu 48000) (?p, ?s) = None"
    then have "live_frame fu s = None" by (simp add: live_frame_def frame_begin_keeps Let_def)
    then show False using assms(2) by simp
  qed
  then obtain out q t where r: "Paula_render fu live_callbacks 1 (d_lit fu 48000) (?p, ?s) = Some (out, q, t)"
    by auto
  have s': "(res, s') = (if paula_mirror_render_missed t
      then frame_missed fu ?p (lc_master_gain (lv_core s)) (upd_live (\<lambda>c. c\<lparr>lc_paula := q, lc_render_attempt := 0\<rparr>) t)
      else frame_delivered fu (case out of [] \<Rightarrow> ?z | lr # _ \<Rightarrow> lr) (upd_live (\<lambda>c. c\<lparr>lc_paula := q, lc_render_attempt := 0\<rparr>) t))"
    using live_frame_run [OF r] assms(2) by simp
  have "keeps_registers ?m ?p ((?p, ?s), ?z) ((?p, ?s), ?z)"
    using bank by (simp add: keeps_registers_def frame_begin_keeps)
  from registers.render_related [OF r this]
  have q: "same_latches ?p q" "same_bank (pm_metrics t) ?m"
    by (auto simp: keeps_registers_def)
  have "same_latches ?p (lc_paula (lv_core s'))" "same_bank (pm_metrics s') ?m"
    using s' q
    by (auto simp: frame_missed_def frame_delivered_def probe_do_def same_bank_upd shown_words upd_live_def Let_def
        split: if_splits)
  then show ?thesis
    using same_bank_shows assms(1) unfolding state_shows_def by blast
qed

section \<open>Any sequence of operations\<close>

datatype live_op = WriteOp u32 u16 | ResetOp | SettingsOp | FrameOp

fun live_op_run ::
    "('d, 'f) float_unit \<Rightarrow> live_op \<Rightarrow> (('d, 'f) live_core, 'a) live_state_scheme \<Rightarrow>
     (('d, 'f) live_core, 'a) live_state_scheme option" where
  "live_op_run fu (WriteOp a v) s = Some (paula_live_write (live_ops fu) a v s)"
| "live_op_run fu ResetOp s = Some (paula_live_reset (live_ops fu) s)"
| "live_op_run fu SettingsOp s = Some (paula_live_mixer_apply (live_ops fu) s)"
| "live_op_run fu FrameOp s = map_option snd (live_frame fu s)"

fun live_ops_run ::
    "('d, 'f) float_unit \<Rightarrow> live_op list \<Rightarrow> (('d, 'f) live_core, 'a) live_state_scheme \<Rightarrow>
     (('d, 'f) live_core, 'a) live_state_scheme option" where
  "live_ops_run fu [] s = Some s"
| "live_ops_run fu (op # os) s = (case live_op_run fu op s of None \<Rightarrow> None | Some s \<Rightarrow> live_ops_run fu os s)"

lemma live_op_shows:
  assumes "counts_down fu" and "state_shows s"
  shows "\<exists>t. live_op_run fu op s = Some t \<and> state_shows t"
proof (cases op)
  case FrameOp
  obtain res t where "live_frame fu s = Some (res, t)"
  proof -
    have "Paula_render fu live_callbacks 1 (d_lit fu 48000) (lc_paula (lv_core s), frame_begin fu s) \<noteq> None"
      by (rule render_ends [OF assms(1)])
    then obtain out q u where "Paula_render fu live_callbacks 1 (d_lit fu 48000) (lc_paula (lv_core s), frame_begin fu s)
        = Some (out, q, u)"
      by auto
    from live_frame_run [OF this] show ?thesis
      using that by (metis surj_pair)
  qed
  then show ?thesis
    using live_frame_shows [OF assms(2)] FrameOp by auto
qed (simp_all add: live_write_shows live_reset_shows live_settings_shows assms(2))

text \<open>
  C6: the Amiga sees the registers of the core. After a reset, whatever the state was before,
  any sequence of register writes, resets, settings and rendered frames returns and leaves in the bank, for
  every channel, the sample pointer, length, period, volume and DMA state that the core uses, and
  its DMACON, INTENA and ADKCON; the interrupt requests in the bank are pending in the core.
\<close>

theorem bank_shows_core:
  fixes s :: "(('d, 'f) live_core, 'a) live_state_scheme"
  assumes "counts_down fu"
  shows "\<exists>t. live_ops_run fu ops (paula_live_reset (live_ops fu) s) = Some t \<and>
     (let m = pm_metrics t; p = lc_paula (lv_core t) in
      (\<forall>ch < 4. channel_shown m ch p) \<and>
      paula_probe_get m PP_DMACON = ucast (pa_dmaCon p) \<and> paula_probe_get m PP_INTENA = ucast (pa_intEna p) \<and>
      paula_probe_get m PP_ADKCON = ucast (pa_adkCon p) \<and>
      paula_probe_get m PP_INTREQ AND NOT (ucast (pa_intReq p)) = 0)"
proof -
  have "\<exists>t. live_ops_run fu ops u = Some t \<and> state_shows t"
    if "state_shows u" for u :: "(('d, 'f) live_core, 'a) live_state_scheme"
    using that
  proof (induction ops arbitrary: u)
    case (Cons op os)
    then show ?case using live_op_shows [OF assms Cons(2), of op] by auto
  qed simp
  from this [OF live_reset_shows [of fu s]]
  show ?thesis by (simp add: state_shows_def bank_shows_def Let_def)
qed

theorem bank_shows_core_witness:
  "\<exists>t. live_ops_run exact_unit [WriteOp 0xdff0a8 0x40, WriteOp 0xdff096 0x8201, FrameOp]
        (paula_live_reset (live_ops exact_unit) live_demo_state) = Some t \<and>
     paula_probe_get (pm_metrics t) PP_DMACON = ucast (pa_dmaCon (lc_paula (lv_core t)))"
  using bank_shows_core [OF exact_counts_down, of "[WriteOp 0xdff0a8 0x40, WriteOp 0xdff096 0x8201, FrameOp]" live_demo_state]
  by (auto simp: Let_def)

end
