(* ===== verification/PaulaResync.thy ===== *)
theory PaulaResync
  imports PaulaBank
begin

text \<open>
  Resynchronisation carried through to the core: \<open>poc_restore_live_state\<close> of
  \<open>source/src/raspi/hdmi_audio_poc.c\<close> with the core of \<open>paula.cpp\<close>. The registers of the core
  after a resynchronisation are those that a core has to which every captured write was replayed.
\<close>

section \<open>Registers a snapshot stands for\<close>

definition core_matches :: "paula_mirror_snapshot \<Rightarrow> ('d, 'f) paula \<Rightarrow> bool" where
  "core_matches n p \<longleftrightarrow>
     (\<forall>c<4. let r = pa_channels p c in
        locPtrLatched r = snapshot_loc n c \<and>
        lenWordsLatched r = (if \<not> bit (sn_seen n c) 2 then 0 else if sn_reg n c 2 = 0 then 65536 else ucast (sn_reg n c 2)) \<and>
        ch_period r = (if sn_reg n c 3 = 0 then 1 else sn_reg n c 3) \<and>
        ch_volume r = sn_reg n c 4 AND 0x7F) \<and>
     pa_dmaCon p = sn_dma n \<and> pa_intEna p = sn_intena n \<and> pa_intReq p = sn_intreq n \<and> pa_adkCon p = sn_adkcon n"

definition snapshot_globals_ok :: "paula_mirror_snapshot \<Rightarrow> bool" where
  "snapshot_globals_ok n \<longleftrightarrow>
     (sn_seen_global n AND 2 = 0 \<longrightarrow> sn_intena n = 0) \<and> (sn_seen_global n AND 4 = 0 \<longrightarrow> sn_intreq n = 0) \<and>
     (sn_seen_global n AND 8 = 0 \<longrightarrow> sn_adkcon n = 0) \<and>
     \<not> bit (sn_intena n) 15 \<and> \<not> bit (sn_intreq n) 15 \<and> \<not> bit (sn_adkcon n) 15"

lemma seen_iff:
  assumes "c < 4" and "i < 6"
  shows "bit (sn_seen (mirror_shadow_word a v l) c) i \<longleftrightarrow>
     bit (sn_seen l c) i \<or> unat (a AND 0xffe) = 0x0a0 + 16 * c + 2 * i"
proof -
  let ?r = "a AND 0xffe"
  show ?thesis
  proof (cases "?r = 0x096 \<or> ?r = 0x09a \<or> ?r = 0x09c \<or> ?r = 0x09e")
    case True
    moreover from this have "unat ?r \<noteq> 0x0a0 + 16 * c + 2 * i"
      by (elim disjE) (simp_all only:, simp_all)
    ultimately show ?thesis
      by (elim disjE) (simp_all add: mirror_shadow_word_def Let_def)
  next
    case False
    note slot = audio_slot [OF assms(1,2), of ?r]
    show ?thesis
      using assms(2) False slot unfolding mirror_shadow_word_def Let_def
      by (auto simp: bit_or_iff bit_push_bit_iff bit_exp_iff split: if_splits)
  qed
qed

lemma seen_global_bits:
  "sn_seen_global (mirror_shadow_word a v l) AND 2 = 0 \<Longrightarrow> sn_seen_global l AND 2 = 0 \<and> unat (a AND 0xffe) \<noteq> 0x09a"
  "sn_seen_global (mirror_shadow_word a v l) AND 4 = 0 \<Longrightarrow> sn_seen_global l AND 4 = 0 \<and> unat (a AND 0xffe) \<noteq> 0x09c"
  "sn_seen_global (mirror_shadow_word a v l) AND 8 = 0 \<Longrightarrow> sn_seen_global l AND 8 = 0 \<and> unat (a AND 0xffe) \<noteq> 0x09e"
proof -
  have single: "x AND push_bit k 1 = 0 \<longleftrightarrow> \<not> bit x k" if "k < 32" for x :: u32 and k
  proof -
    have "x AND push_bit k 1 = (if bit x k then push_bit k 1 else 0)"
      by (rule bit_word_eqI) (auto simp: bit_simps)
    moreover have "bit (push_bit k (1 :: u32)) k" using that by (simp add: bit_simps)
    ultimately show ?thesis by (metis bit_0_eq bot_apply bot_bool_def)
  qed
  have clear: "x AND 2 = 0 \<longleftrightarrow> \<not> bit x 1" "x AND 4 = 0 \<longleftrightarrow> \<not> bit x 2" "x AND 8 = 0 \<longleftrightarrow> \<not> bit x 3" for x :: u32
    using single [of 1 x] single [of 2 x] single [of 3 x] by (simp_all add: push_bit_eq_mult)
  have n: "unat r = 0x09a \<longleftrightarrow> r = 0x09a" "unat r = 0x09c \<longleftrightarrow> r = 0x09c" "unat r = 0x09e \<longleftrightarrow> r = 0x09e" for r :: u32
    by (simp_all add: word_unat_eq_iff)
  show "sn_seen_global (mirror_shadow_word a v l) AND 2 = 0 \<Longrightarrow> sn_seen_global l AND 2 = 0 \<and> unat (a AND 0xffe) \<noteq> 0x09a"
    and "sn_seen_global (mirror_shadow_word a v l) AND 4 = 0 \<Longrightarrow> sn_seen_global l AND 4 = 0 \<and> unat (a AND 0xffe) \<noteq> 0x09c"
    and "sn_seen_global (mirror_shadow_word a v l) AND 8 = 0 \<Longrightarrow> sn_seen_global l AND 8 = 0 \<and> unat (a AND 0xffe) \<noteq> 0x09e"
    unfolding clear n mirror_shadow_word_def Let_def by (auto simp: bit_or_iff bits split: if_splits)
qed

lemma globals_step:
  assumes "snapshot_globals_ok n"
  shows "snapshot_globals_ok (shadow_write b n)"
proof -
  have "snapshot_globals_ok (mirror_shadow_word a v n)" for a v
    using assms seen_global_bits [of a v n]
    by (auto simp: snapshot_globals_ok_def shadow_word_globals setclr16_bit15)
  then show ?thesis
    by (auto simp: shadow_write_def snapshot_globals_ok_def assms [unfolded snapshot_globals_ok_def])
qed

section \<open>What a write does to the core\<close>

lemma core_write_fields:
  fixes p :: "('d, 'f) paula"
  defines "off a \<equiv> unat (a AND 0xfff)"
  assumes "c < 4"
  shows "locPtrLatched (pa_channels (writeRegister16 fu a v p) c) =
      (if off a = 0xa0 + 16 * c then (locPtrLatched (pa_channels p c) AND 0xFFFF) OR push_bit 16 (ucast v)
       else if off a = 0xa2 + 16 * c then (locPtrLatched (pa_channels p c) AND 0xFFFF0000) OR ucast v
       else locPtrLatched (pa_channels p c))"
    and "lenWordsLatched (pa_channels (writeRegister16 fu a v p) c) =
      (if off a = 0xa4 + 16 * c then if v = 0 then 65536 else ucast v else lenWordsLatched (pa_channels p c))"
    and "ch_period (pa_channels (writeRegister16 fu a v p) c) =
      (if off a = 0xa6 + 16 * c then if v = 0 then 1 else v else ch_period (pa_channels p c))"
    and "ch_volume (pa_channels (writeRegister16 fu a v p) c) =
      (if off a = 0xa8 + 16 * c then v AND 0x7F else ch_volume (pa_channels p c))"
    and "pa_dmaCon (writeRegister16 fu a v p) = (if off a = 0x096 then setclr16 (pa_dmaCon p) v else pa_dmaCon p)"
    and "pa_intEna (writeRegister16 fu a v p) = (if off a = 0x09a then setclr16 (pa_intEna p) v else pa_intEna p)"
    and "pa_intReq (writeRegister16 fu a v p) = (if off a = 0x09c then setclr16 (pa_intReq p) v else pa_intReq p)"
    and "pa_adkCon (writeRegister16 fu a v p) = (if off a = 0x09e then setclr16 (pa_adkCon p) v else pa_adkCon p)"
proof -
  let ?r = "a AND 0xfff" and ?p = "writeRegister16 fu a v p"
  have n: "off a = 0x096 \<longleftrightarrow> ?r = 0x096" "off a = 0x09a \<longleftrightarrow> ?r = 0x09a" "off a = 0x09c \<longleftrightarrow> ?r = 0x09c"
    "off a = 0x09e \<longleftrightarrow> ?r = 0x09e"
    by (simp_all add: off_def word_unat_eq_iff)
  let ?c = "pa_channels p c" and ?q = "pa_channels ?p c"
  have "locPtrLatched ?q = (if off a = 0xa0 + 16 * c then (locPtrLatched ?c AND 0xFFFF) OR push_bit 16 (ucast v)
       else if off a = 0xa2 + 16 * c then (locPtrLatched ?c AND 0xFFFF0000) OR ucast v else locPtrLatched ?c) \<and>
    lenWordsLatched ?q = (if off a = 0xa4 + 16 * c then if v = 0 then 65536 else ucast v else lenWordsLatched ?c) \<and>
    ch_period ?q = (if off a = 0xa6 + 16 * c then if v = 0 then 1 else v else ch_period ?c) \<and>
    ch_volume ?q = (if off a = 0xa8 + 16 * c then v AND 0x7F else ch_volume ?c) \<and>
    pa_dmaCon ?p = (if off a = 0x096 then setclr16 (pa_dmaCon p) v else pa_dmaCon p) \<and>
    pa_intEna ?p = (if off a = 0x09a then setclr16 (pa_intEna p) v else pa_intEna p) \<and>
    pa_intReq ?p = (if off a = 0x09c then setclr16 (pa_intReq p) v else pa_intReq p) \<and>
    pa_adkCon ?p = (if off a = 0x09e then setclr16 (pa_adkCon p) v else pa_adkCon p)"
  proof -
    consider (dma) "off a = 0x096" | (control) "off a = 0x09a \<or> off a = 0x09c \<or> off a = 0x09e"
      | (audio) "0xa0 \<le> off a" "off a < 0xe0"
      | (other) "off a < 0xa0 \<or> 0xe0 \<le> off a" "off a \<noteq> 0x096" "off a \<noteq> 0x09a" "off a \<noteq> 0x09c" "off a \<noteq> 0x09e"
      by linarith
    then show ?thesis
    proof cases
      case dma
      then have r: "?r = 0x096" using n by simp
      have "pa_intEna (fold (dmacon_channel fu) cs q) = pa_intEna q \<and> pa_intReq (fold (dmacon_channel fu) cs q) = pa_intReq q \<and>
        pa_adkCon (fold (dmacon_channel fu) cs q) = pa_adkCon q" for cs and q :: "('d, 'f) paula"
        by (induction cs arbitrary: q) (auto simp: dmacon_channel_def)
      then have "pa_intEna ?p = pa_intEna p" "pa_intReq ?p = pa_intReq p" "pa_adkCon ?p = pa_adkCon p"
        using r by (simp_all add: writeRegister16_def del: upt_rec_numeral)
      then show ?thesis
        using dma assms(2) dmacon_write [OF r, of fu v p] by (simp add: channel_restart_def)
    next
      case control
      then show ?thesis unfolding n by (elim disjE) (simp_all add: writeRegister16_def n [symmetric])
    next
      case audio
      define c0 d where "c0 = (off a - 0xa0) div 16" and "d = (off a - 0xa0) mod 16"
      have o: "off a = 0xa0 + 16 * c0 + d" "d < 16" "c0 < 4"
        using audio by (simp_all add: c0_def d_def)
      have w: "?p = (if d \<in> {0, 2, 4, 6, 8} then upd_channel c0 (audio_write d v) p else p)"
        using audio n core_audio [OF _ o(1) [unfolded off_def] o(2), of "[0..<4]" v p] o(3)
        by (simp add: writeRegister16_def Let_def del: upt_rec_numeral)
      have "off a = 0xa0 + k + 16 * c \<longleftrightarrow> c = c0 \<and> d = k" if "k < 16" for k
      proof
        assume "off a = 0xa0 + k + 16 * c"
        then have eq: "16 * c0 + d = 16 * c + k" using o(1) by simp
        then have "(16 * c0 + d) mod 16 = (16 * c + k) mod 16" by simp
        then have "d = k" using that o(2) by simp
        then show "c = c0 \<and> d = k" using eq by simp
      qed (use o in simp)
      from this [of 0] this [of 2] this [of 4] this [of 6] this [of 8]
      have eqs: "off a = 0xa0 + 16 * c \<longleftrightarrow> c = c0 \<and> d = 0" "off a = 0xa2 + 16 * c \<longleftrightarrow> c = c0 \<and> d = 2"
        "off a = 0xa4 + 16 * c \<longleftrightarrow> c = c0 \<and> d = 4" "off a = 0xa6 + 16 * c \<longleftrightarrow> c = c0 \<and> d = 6"
        "off a = 0xa8 + 16 * c \<longleftrightarrow> c = c0 \<and> d = 8"
        by simp_all
      have ne: "off a \<noteq> 0x096" "off a \<noteq> 0x09a" "off a \<noteq> 0x09c" "off a \<noteq> 0x09e" using audio by auto
      consider "d = 0" | "d = 2" | "d = 4" | "d = 6" | "d = 8" | "d \<notin> {0, 2, 4, 6, 8}" by blast
      then show ?thesis
        unfolding w eqs by cases (simp_all add: ne audio_write_def)
    next
      case other
      have "?p = p"
        using other n core_other [of "[0..<4]" ?r v p]
        by (simp add: writeRegister16_def Let_def off_def del: upt_rec_numeral)
      moreover have "off a \<noteq> 0xa0 + 16 * c" "off a \<noteq> 0xa2 + 16 * c" "off a \<noteq> 0xa4 + 16 * c"
        "off a \<noteq> 0xa6 + 16 * c" "off a \<noteq> 0xa8 + 16 * c"
        using other(1) assms(2) by auto
      ultimately show ?thesis using other by simp
    qed
  qed
  then show "locPtrLatched ?q = (if off a = 0xa0 + 16 * c then (locPtrLatched ?c AND 0xFFFF) OR push_bit 16 (ucast v)
       else if off a = 0xa2 + 16 * c then (locPtrLatched ?c AND 0xFFFF0000) OR ucast v else locPtrLatched ?c)"
    "lenWordsLatched ?q = (if off a = 0xa4 + 16 * c then if v = 0 then 65536 else ucast v else lenWordsLatched ?c)"
    "ch_period ?q = (if off a = 0xa6 + 16 * c then if v = 0 then 1 else v else ch_period ?c)"
    "ch_volume ?q = (if off a = 0xa8 + 16 * c then v AND 0x7F else ch_volume ?c)"
    "pa_dmaCon ?p = (if off a = 0x096 then setclr16 (pa_dmaCon p) v else pa_dmaCon p)"
    "pa_intEna ?p = (if off a = 0x09a then setclr16 (pa_intEna p) v else pa_intEna p)"
    "pa_intReq ?p = (if off a = 0x09c then setclr16 (pa_intReq p) v else pa_intReq p)"
    "pa_adkCon ?p = (if off a = 0x09e then setclr16 (pa_adkCon p) v else pa_adkCon p)"
    by blast+
qed

section \<open>Replay\<close>

text \<open>The core after one event: prefetching does not touch it.\<close>

definition core_event ::
    "('d, 'f) float_unit \<Rightarrow> paula_mirror_event \<Rightarrow> ('d, 'f) paula \<Rightarrow> ('d, 'f) paula" where
  "core_event fu e p =
     (if (ev_width e \<noteq> 1 \<and> ev_width e \<noteq> 2) \<or> (ev_width e = 2 \<and> ev_address e AND 1 \<noteq> 0) then p
      else writeRegister16 fu (0xdff000 OR (ev_address e AND 0xffe)) (event_value e) p)"

lemma write_core:
  "lc_paula (lv_core (paula_live_write (live_ops fu) a v s)) = writeRegister16 fu a v (lc_paula (lv_core s))"
  by (simp add: paula_live_write_def probe_do_def live_ops_def)

lemma track_core:
  fixes s :: "('c, 'a) live_state_scheme"
  shows "lv_core (snd (poc_track_write r v st s)) = lv_core s"
proof -
  have ch: "lv_core (poc_prefetch_channel st ch t) = lv_core t" for st ch and t :: "('c, 'a) live_state_scheme"
    by (simp add: poc_prefetch_channel_def prefetch_keeps Let_def)
  have all: "lv_core (fold (\<lambda>ch s. if P ch then poc_prefetch_channel st ch s else s) cs t) = lv_core t"
    for P st cs and t :: "('c, 'a) live_state_scheme"
    by (induction cs arbitrary: t) (simp_all add: ch)
  show ?thesis
    by (simp add: poc_track_write_def ch all Let_def del: upt_rec_numeral)
qed

lemma event_core:
  "lc_paula (lv_core (snd (poc_apply_live_event (live_ops fu) e x))) = core_event fu e (lc_paula (lv_core (snd x)))"
  using track_core [of "ev_address e AND 0xffe" "event_value e" "fst x" "snd x"]
  by (auto simp: poc_apply_live_event_def core_event_def Let_def split_beta write_core live_prefetch_keeps probe_do_def)

lemma fold_core:
  "lc_paula (lv_core (snd (fold (poc_apply_live_event (live_ops fu)) es x))) = fold (core_event fu) es (lc_paula (lv_core (snd x)))"
  by (induction es arbitrary: x) (simp_all add: event_core)

lemma even_offset:
  fixes a :: u32
  shows "unat ((0xdff000 OR (a AND 0xffe)) AND 0xfff) = unat (a AND 0xffe)"
proof -
  have "(0xdff000 OR (a AND 0xffe)) AND 0xfff = (0xdff000 AND 0xfff) OR (a AND (0xffe AND 0xfff))"
    by (simp only: bit.conj_disj_distrib2 and.assoc)
  then show ?thesis by simp
qed

lemma core_step:
  fixes p :: "('d, 'f) paula"
  assumes "captures b" and "bus_shape b" and "core_matches n p"
  shows "core_matches (shadow_write b n) (core_event fu (event_of b) p)"
proof -
  let ?a = "bw_addr b AND 0xffffff" and ?v = "presented_word (bw_value b) (bw_width b)"
  let ?off = "unat (?a AND 0xffe)"
  have even: "?a AND 1 = bw_addr b AND 1"
    by (rule bit_word_eqI) (auto simp: bit_simps bits)
  then have ev: "core_event fu (event_of b) p = writeRegister16 fu (0xdff000 OR (?a AND 0xffe)) ?v p"
    using assms(2) by (auto simp: bus_shape_def core_event_def event_of_def event_value_def presented_word_def byte_lanes)
  have sh: "sn_reg (shadow_write b n) = sn_reg (mirror_shadow_word ?a ?v n)" "sn_seen (shadow_write b n) = sn_seen (mirror_shadow_word ?a ?v n)"
    "sn_dma (shadow_write b n) = sn_dma (mirror_shadow_word ?a ?v n)" "sn_intena (shadow_write b n) = sn_intena (mirror_shadow_word ?a ?v n)"
    "sn_intreq (shadow_write b n) = sn_intreq (mirror_shadow_word ?a ?v n)" "sn_adkcon (shadow_write b n) = sn_adkcon (mirror_shadow_word ?a ?v n)"
    using assms(1) by (simp_all add: shadow_write_def)
  have reg: "sn_reg (shadow_write b n) c i = (if ?off = 0xa0 + 2 * i + 16 * c then ?v else sn_reg n c i)" if "c < 4" "i < 6" for c i
    unfolding sh shadow_word_audio [OF that] by (simp add: algebra_simps)
  have seen: "bit (sn_seen (shadow_write b n) c) 2 \<longleftrightarrow> bit (sn_seen n c) 2 \<or> ?off = 0xa4 + 16 * c" if "c < 4" for c
    unfolding sh using seen_iff [OF that, of 2 ?a ?v n] by (simp add: algebra_simps)
  note w = core_write_fields [of _ fu "0xdff000 OR (?a AND 0xffe)" ?v p, unfolded even_offset]
  have old: "locPtrLatched (pa_channels p c) = snapshot_loc n c"
    "lenWordsLatched (pa_channels p c) = (if \<not> bit (sn_seen n c) 2 then 0 else if sn_reg n c 2 = 0 then 65536 else ucast (sn_reg n c 2))"
    "ch_period (pa_channels p c) = (if sn_reg n c 3 = 0 then 1 else sn_reg n c 3)"
    "ch_volume (pa_channels p c) = sn_reg n c 4 AND 0x7F" if "c < 4" for c
    using assms(3) that by (auto simp: core_matches_def Let_def)
  have "locPtrLatched (pa_channels (core_event fu (event_of b) p) c) = snapshot_loc (shadow_write b n) c" if "c < 4" for c
    unfolding ev w(1) [OF that] old(1) [OF that] snapshot_loc_def using reg [OF that, of 0] reg [OF that, of 1]
    by (auto simp: loc_words)
  moreover have "lenWordsLatched (pa_channels (core_event fu (event_of b) p) c) =
      (if \<not> bit (sn_seen (shadow_write b n) c) 2 then 0
       else if sn_reg (shadow_write b n) c 2 = 0 then 65536 else ucast (sn_reg (shadow_write b n) c 2))" if "c < 4" for c
    unfolding ev w(2) [OF that] old(2) [OF that] seen [OF that] using reg [OF that, of 2] by simp
  moreover have "ch_period (pa_channels (core_event fu (event_of b) p) c) =
      (if sn_reg (shadow_write b n) c 3 = 0 then 1 else sn_reg (shadow_write b n) c 3)" if "c < 4" for c
    unfolding ev w(3) [OF that] old(3) [OF that] using reg [OF that, of 3] by simp
  moreover have "ch_volume (pa_channels (core_event fu (event_of b) p) c) = sn_reg (shadow_write b n) c 4 AND 0x7F" if "c < 4" for c
    unfolding ev w(4) [OF that] old(4) [OF that] using reg [OF that, of 4] by simp
  moreover have "pa_dmaCon (core_event fu (event_of b) p) = sn_dma (shadow_write b n)"
    "pa_intEna (core_event fu (event_of b) p) = sn_intena (shadow_write b n)"
    "pa_intReq (core_event fu (event_of b) p) = sn_intreq (shadow_write b n)"
    "pa_adkCon (core_event fu (event_of b) p) = sn_adkcon (shadow_write b n)"
    unfolding ev w(5-8) [of 0, simplified] sh shadow_word_globals using assms(3) by (simp_all add: core_matches_def)
  ultimately show ?thesis by (simp add: core_matches_def Let_def)
qed

lemma core_replay:
  assumes "\<forall>b \<in> set bs. captures b \<and> bus_shape b" and "core_matches n p" and "snapshot_ok n" and "snapshot_globals_ok n"
  shows "core_matches (fold shadow_write bs n) (fold (core_event fu) (map event_of bs) p) \<and>
    snapshot_ok (fold shadow_write bs n) \<and> snapshot_globals_ok (fold shadow_write bs n)"
  using assms
proof (induction bs arbitrary: n p)
  case (Cons b bs)
  let ?st = "\<lparr>pl_loc = snapshot_loc n, pl_len = (\<lambda>c. sn_reg n c 2), pl_dma = sn_dma n\<rparr>"
  have "live_matches n ?st" by (simp add: live_matches_def)
  then have "snapshot_ok (shadow_write b n)"
    using Cons(2,4) by (intro shadow_and_replay_step(1) [of b n ?st]) simp_all
  then show ?case
    using Cons(1) [of "shadow_write b n" "core_event fu (event_of b) p"] Cons(2-5) core_step [of b n p fu] globals_step [of n b]
    by simp
qed simp

section \<open>Restoring\<close>

lemma restore_event_fields:
  fixes p :: "('d, 'f) paula" and v :: u16
  assumes "d < 4" and "i < 5" and "c < 4"
    and q_def: "q = core_event fu (restore_event n (0xdff0a0 + word_of_nat d * 16 + word_of_nat i * 2) v) p"
  shows "locPtrLatched (pa_channels q c) =
      (if c = d \<and> i = 0 then (locPtrLatched (pa_channels p c) AND 0xFFFF) OR push_bit 16 (ucast v)
       else if c = d \<and> i = 1 then (locPtrLatched (pa_channels p c) AND 0xFFFF0000) OR ucast v
       else locPtrLatched (pa_channels p c))"
    and "lenWordsLatched (pa_channels q c) =
      (if c = d \<and> i = 2 then if v = 0 then 65536 else ucast v else lenWordsLatched (pa_channels p c))"
    and "ch_period (pa_channels q c) = (if c = d \<and> i = 3 then if v = 0 then 1 else v else ch_period (pa_channels p c))"
    and "ch_volume (pa_channels q c) = (if c = d \<and> i = 4 then v AND 0x7F else ch_volume (pa_channels p c))"
    and "pa_dmaCon q = pa_dmaCon p" and "pa_intEna q = pa_intEna p" and "pa_intReq q = pa_intReq p" and "pa_adkCon q = pa_adkCon p"
proof -
  let ?a = "0xdff0a0 + word_of_nat d * 16 + word_of_nat i * 2 :: u32"
  have cases: "d \<in> {0, 1, 2, 3}" "i \<in> {0, 1, 2, 3, 4}" using assms(1,2) by auto
  have a: "unat (?a AND 0xffe) = 0xa0 + 16 * d + 2 * i"
    using cases by auto
  have q: "q = writeRegister16 fu (0xdff000 OR (?a AND 0xffe)) v p"
    using cases by (auto simp: q_def core_event_def restore_event_def event_value_def)
  note w = core_write_fields [OF assms(3), of fu "0xdff000 OR (?a AND 0xffe)" v p, unfolded even_offset a q [symmetric]]
  have offs: "0xa0 + 16 * d + 2 * i = 0xa0 + 16 * c \<longleftrightarrow> c = d \<and> i = 0" "0xa0 + 16 * d + 2 * i = 0xa2 + 16 * c \<longleftrightarrow> c = d \<and> i = 1"
    "0xa0 + 16 * d + 2 * i = 0xa4 + 16 * c \<longleftrightarrow> c = d \<and> i = 2" "0xa0 + 16 * d + 2 * i = 0xa6 + 16 * c \<longleftrightarrow> c = d \<and> i = 3"
    "0xa0 + 16 * d + 2 * i = 0xa8 + 16 * c \<longleftrightarrow> c = d \<and> i = 4"
    using assms(2) by presburger+
  have ne: "0xa0 + 16 * d + 2 * i \<noteq> 0x096" "0xa0 + 16 * d + 2 * i \<noteq> 0x09a" "0xa0 + 16 * d + 2 * i \<noteq> 0x09c"
    "0xa0 + 16 * d + 2 * i \<noteq> 0x09e"
    by simp_all
  show "locPtrLatched (pa_channels q c) =
      (if c = d \<and> i = 0 then (locPtrLatched (pa_channels p c) AND 0xFFFF) OR push_bit 16 (ucast v)
       else if c = d \<and> i = 1 then (locPtrLatched (pa_channels p c) AND 0xFFFF0000) OR ucast v
       else locPtrLatched (pa_channels p c))"
    "lenWordsLatched (pa_channels q c) =
      (if c = d \<and> i = 2 then if v = 0 then 65536 else ucast v else lenWordsLatched (pa_channels p c))"
    "ch_period (pa_channels q c) = (if c = d \<and> i = 3 then if v = 0 then 1 else v else ch_period (pa_channels p c))"
    "ch_volume (pa_channels q c) = (if c = d \<and> i = 4 then v AND 0x7F else ch_volume (pa_channels p c))"
    "pa_dmaCon q = pa_dmaCon p" "pa_intEna q = pa_intEna p" "pa_intReq q = pa_intReq p" "pa_adkCon q = pa_adkCon p"
    unfolding w offs using ne by simp_all
qed

definition core_restore_reg ::
    "('d, 'f) float_unit \<Rightarrow> paula_mirror_snapshot \<Rightarrow> nat \<Rightarrow> nat \<Rightarrow> ('d, 'f) paula \<Rightarrow> ('d, 'f) paula" where
  "core_restore_reg fu n d i p =
     (if sn_seen n d AND push_bit i 1 = 0 then p
      else core_event fu (restore_event n (0xdff0a0 + word_of_nat d * 16 + word_of_nat i * 2) (sn_reg n d i)) p)"

definition core_restore_channel ::
    "('d, 'f) float_unit \<Rightarrow> paula_mirror_snapshot \<Rightarrow> nat \<Rightarrow> ('d, 'f) paula \<Rightarrow> ('d, 'f) paula" where
  "core_restore_channel fu n d = fold (core_restore_reg fu n d) [0..<5]"

lemma restore_channel_core:
  "lc_paula (lv_core (snd (restore_channel (live_ops fu) n d x))) = core_restore_channel fu n d (lc_paula (lv_core (snd x)))"
proof -
  have "lc_paula (lv_core (snd (fold (\<lambda>reg x. if sn_seen n d AND push_bit reg 1 = 0 then x
          else poc_apply_live_event (live_ops fu)
                 (restore_event n (0xdff0a0 + word_of_nat d * 16 + word_of_nat reg * 2) (sn_reg n d reg)) x) is x)))
      = fold (core_restore_reg fu n d) is (lc_paula (lv_core (snd x)))" for "is"
    by (induction "is" arbitrary: x) (simp_all add: core_restore_reg_def event_core)
  then show ?thesis by (simp add: restore_channel_def core_restore_channel_def del: upt_rec_numeral)
qed

lemma restore_channels_core:
  "lc_paula (lv_core (snd (fold (restore_channel (live_ops fu) n) ds x))) = fold (core_restore_channel fu n) ds (lc_paula (lv_core (snd x)))"
  by (induction ds arbitrary: x) (simp_all add: restore_channel_core)

text \<open>The registers of a channel as a snapshot has them, and as they are after a reset.\<close>

definition channel_matches :: "paula_mirror_snapshot \<Rightarrow> nat \<Rightarrow> ('d, 'f) channel \<Rightarrow> bool" where
  "channel_matches n c r \<longleftrightarrow>
     locPtrLatched r = snapshot_loc n c \<and>
     lenWordsLatched r = (if \<not> bit (sn_seen n c) 2 then 0 else if sn_reg n c 2 = 0 then 65536 else ucast (sn_reg n c 2)) \<and>
     ch_period r = (if sn_reg n c 3 = 0 then 1 else sn_reg n c 3) \<and> ch_volume r = sn_reg n c 4 AND 0x7F"

definition channel_cleared :: "('d, 'f) channel \<Rightarrow> bool" where
  "channel_cleared r \<longleftrightarrow> locPtrLatched r = 0 \<and> lenWordsLatched r = 0 \<and> ch_period r = 1 \<and> ch_volume r = 0"

definition same_settings :: "('d, 'f) channel \<Rightarrow> ('d, 'f) channel \<Rightarrow> bool" where
  "same_settings r t \<longleftrightarrow> locPtrLatched r = locPtrLatched t \<and> lenWordsLatched r = lenWordsLatched t \<and>
     ch_period r = ch_period t \<and> ch_volume r = ch_volume t"

definition same_control :: "('d, 'f) paula \<Rightarrow> ('d, 'f) paula \<Rightarrow> bool" where
  "same_control p q \<longleftrightarrow> pa_dmaCon p = pa_dmaCon q \<and> pa_intEna p = pa_intEna q \<and> pa_intReq p = pa_intReq q \<and>
     pa_adkCon p = pa_adkCon q"

lemma core_restore_channel_result:
  assumes "snapshot_ok n" and "d < 4" and "channel_cleared (pa_channels p d)"
    and q_def: "q = core_restore_channel fu n d p"
  shows "channel_matches n d (pa_channels q d)" and "c < 4 \<Longrightarrow> c \<noteq> d \<Longrightarrow> same_settings (pa_channels q c) (pa_channels p c)"
    and "same_control q p"
proof -
  let ?R = "core_restore_reg fu n d"
  have five: "[0..<5] = [0, 1, 2, 3, 4::nat]" by (simp add: upt_rec)
  have q: "q = ?R 4 (?R 3 (?R 2 (?R 1 (?R 0 p))))"
    unfolding q_def core_restore_channel_def five by simp
  have z: "sn_seen n d AND push_bit i 1 = 0 \<Longrightarrow> sn_reg n d i = 0" if "i < 6" for i
    using assms(1,2) that by (auto simp: snapshot_ok_def)
  have f: "locPtrLatched (pa_channels (?R i r) c) = (if sn_seen n d AND push_bit i 1 = 0 then locPtrLatched (pa_channels r c)
       else if c = d \<and> i = 0 then (locPtrLatched (pa_channels r c) AND 0xFFFF) OR push_bit 16 (ucast (sn_reg n d i))
       else if c = d \<and> i = 1 then (locPtrLatched (pa_channels r c) AND 0xFFFF0000) OR ucast (sn_reg n d i)
       else locPtrLatched (pa_channels r c))"
    "lenWordsLatched (pa_channels (?R i r) c) = (if sn_seen n d AND push_bit i 1 \<noteq> 0 \<and> c = d \<and> i = 2
       then if sn_reg n d i = 0 then 65536 else ucast (sn_reg n d i) else lenWordsLatched (pa_channels r c))"
    "ch_period (pa_channels (?R i r) c) = (if sn_seen n d AND push_bit i 1 \<noteq> 0 \<and> c = d \<and> i = 3
       then if sn_reg n d i = 0 then 1 else sn_reg n d i else ch_period (pa_channels r c))"
    "ch_volume (pa_channels (?R i r) c) = (if sn_seen n d AND push_bit i 1 \<noteq> 0 \<and> c = d \<and> i = 4
       then sn_reg n d i AND 0x7F else ch_volume (pa_channels r c))"
    "same_control (?R i r) r"
    if "i < 5" "c < 4" for i c r
    unfolding core_restore_reg_def same_control_def
    by (atomize (full), cases "sn_seen n d AND push_bit i 1 = 0")
       (simp_all only: restore_event_fields [OF assms(2) that refl] if_True if_False simp_thms)
  have clear: "x AND push_bit i 1 = 0 \<longleftrightarrow> \<not> bit x i" if "i < 8" for x :: u8 and i
  proof -
    have "x AND push_bit i 1 = (if bit x i then push_bit i 1 else 0)"
      by (rule bit_word_eqI) (auto simp: bit_simps)
    moreover have "bit (push_bit i (1 :: u8)) i" using that by (simp add: bit_simps)
    ultimately show ?thesis by (metis bit_0_eq bot_apply bot_bool_def)
  qed
  have seen2: "sn_seen n d AND push_bit 2 1 = 0 \<longleftrightarrow> \<not> bit (sn_seen n d) 2"
    by (rule clear) simp
  have l: "(0 :: u32) AND 0xffff = 0" "(0 :: u32) AND 0xffff0000 = 0"
    "(push_bit 16 (ucast v) :: u32) AND 0xffff0000 OR ucast w = push_bit 16 (ucast v) OR ucast w" for v w :: u16
    using loc_words(1) [of 0 v w] by simp_all
  have low: "push_bit 16 (ucast (sn_reg n d 0)) AND 0xffff0000 = (push_bit 16 (ucast (sn_reg n d 0)) :: u32)"
    using loc_words(1) [of 0 "sn_reg n d 0" 0] by simp
  show "channel_matches n d (pa_channels q d)"
    using assms(2,3) z [of 0] z [of 1] z [of 2] z [of 3] z [of 4]
    by (simp add: q f channel_matches_def channel_cleared_def snapshot_loc_def seen2 [symmetric] l low)
  show "c < 4 \<Longrightarrow> c \<noteq> d \<Longrightarrow> same_settings (pa_channels q c) (pa_channels p c)"
    by (simp add: q f same_settings_def)
  show "same_control q p"
    using f(5) [of _ 0] unfolding q same_control_def by simp
qed

lemma settings_transfer:
  assumes "same_settings r t"
  shows "channel_matches n c t \<Longrightarrow> channel_matches n c r" and "channel_cleared t \<Longrightarrow> channel_cleared r"
  using assms by (simp_all add: same_settings_def channel_matches_def channel_cleared_def)

lemma core_restore_channels_result:
  assumes "snapshot_ok n" and "distinct ds" and "set ds \<subseteq> {..<4}" and "\<forall>d \<in> set ds. channel_cleared (pa_channels p d)"
    and q_def: "q = fold (core_restore_channel fu n) ds p"
  shows "\<forall>d \<in> set ds. channel_matches n d (pa_channels q d)"
    and "\<forall>c < 4. c \<notin> set ds \<longrightarrow> same_settings (pa_channels q c) (pa_channels p c)" and "same_control q p"
proof -
  have "(\<forall>d \<in> set ds. channel_matches n d (pa_channels q d)) \<and>
    (\<forall>c < 4. c \<notin> set ds \<longrightarrow> same_settings (pa_channels q c) (pa_channels p c)) \<and> same_control q p"
    using assms(2-5)
  proof (induction ds arbitrary: p)
    case Nil
    then show ?case by (simp add: same_settings_def same_control_def)
  next
    case (Cons d ds)
    let ?p = "core_restore_channel fu n d p"
    have d: "d < 4" "channel_cleared (pa_channels p d)" using Cons(3,4) by simp_all
    note one = core_restore_channel_result [OF assms(1) d refl, where fu = fu]
    have "\<forall>c \<in> set ds. channel_cleared (pa_channels ?p c)"
    proof
      fix c assume "c \<in> set ds"
      then have "c < 4" "c \<noteq> d" "channel_cleared (pa_channels p c)" using Cons(2-4) by auto
      then show "channel_cleared (pa_channels ?p c)" using one(2) settings_transfer(2) by blast
    qed
    then have rest: "\<forall>c \<in> set ds. channel_matches n c (pa_channels q c)"
      "\<forall>c < 4. c \<notin> set ds \<longrightarrow> same_settings (pa_channels q c) (pa_channels ?p c)" "same_control q ?p"
      using Cons(1) [of ?p] Cons(2,3,5) by simp_all
    have "channel_matches n d (pa_channels q d)"
      by (rule settings_transfer(1) [OF _ one(1)]) (use rest(2) d(1) Cons(2) in simp)
    moreover have "same_settings (pa_channels q c) (pa_channels p c)" if "c < 4" "c \<notin> set (d # ds)" for c
      using rest(2) one(2) that by (simp add: same_settings_def)
    ultimately show ?case
      using rest one(3) by (simp add: same_control_def)
  qed
  then show "\<forall>d \<in> set ds. channel_matches n d (pa_channels q d)"
    "\<forall>c < 4. c \<notin> set ds \<longrightarrow> same_settings (pa_channels q c) (pa_channels p c)" "same_control q p"
    by simp_all
qed

text \<open>A control register written back.\<close>

lemma control_write:
  fixes p :: "('d, 'f) paula"
  assumes "unat (a AND 0xfff) < 0xa0" and "c < 4"
  shows "same_settings (pa_channels (writeRegister16 fu a v p) c) (pa_channels p c)"
  using assms(1) core_write_fields [OF assms(2), of fu a v p] by (simp add: same_settings_def)

definition control_restore ::
    "('d, 'f) float_unit \<Rightarrow> paula_mirror_snapshot \<Rightarrow> ('d, 'f) paula \<Rightarrow> ('d, 'f) paula" where
  "control_restore fu n p =
     (let g = sn_seen_global n;
          p = (if g AND 2 \<noteq> 0 then writeRegister16 fu 0xdff09a (0x8000 OR sn_intena n) p else p);
          p = (if g AND 4 \<noteq> 0 then writeRegister16 fu 0xdff09c (0x8000 OR sn_intreq n) p else p);
          p = (if g AND 8 \<noteq> 0 then writeRegister16 fu 0xdff09e (0x8000 OR sn_adkcon n) p else p)
      in if g AND 1 \<noteq> 0 then writeRegister16 fu 0xdff096 (0x8000 OR sn_dma n) p else p)"

lemma control_restore_result:
  assumes "snapshot_ok n" and "snapshot_globals_ok n" and "\<forall>c < 4. channel_matches n c (pa_channels p c)"
    and "pa_dmaCon p = 0" "pa_intEna p = 0" "pa_intReq p = 0" "pa_adkCon p = 0"
  shows "core_matches n (control_restore fu n p)"
proof -
  have s: "same_settings (pa_channels (control_restore fu n p) c) (pa_channels p c)" if "c < 4" for c
    by (simp add: control_restore_def Let_def control_write [unfolded same_settings_def, OF _ that] same_settings_def)
  have r: "setclr16 0 (0x8000 OR v) = v" if "\<not> bit v 15" for v
    using setclr16_restore [OF that] by simp
  have "pa_dmaCon (control_restore fu n p) = sn_dma n" "pa_intEna (control_restore fu n p) = sn_intena n"
    "pa_intReq (control_restore fu n p) = sn_intreq n" "pa_adkCon (control_restore fu n p) = sn_adkcon n"
    using assms(1,2,4-7)
    by (simp_all add: control_restore_def snapshot_ok_def snapshot_globals_ok_def r Let_def core_write_fields(5-8) [of 0])
  moreover have "channel_matches n c (pa_channels (control_restore fu n p) c)" if "c < 4" for c
    using s [OF that] settings_transfer(1) assms(3) that by blast
  ultimately show ?thesis by (simp add: core_matches_def channel_matches_def Let_def)
qed

section \<open>The restored core\<close>

lemma reset_core: "lc_paula (lv_core (paula_live_reset (live_ops fu) s)) = Paula_reset fu (lc_paula (lv_core s))"
  by (simp add: paula_live_reset_def live_ops_def live_core_reset_def probe_do_def)

lemma reset_cleared:
  "c < 4 \<Longrightarrow> channel_cleared (pa_channels (Paula_reset fu p) c)"
  "core_matches snapshot_zero (Paula_reset fu p)"
  by (simp_all add: Paula_reset_def channel_init_def channel_cleared_def core_matches_def snapshot_zero_def snapshot_loc_def)

lemma probe_do_core: "lv_core (probe_do f s) = lv_core s"
  by (simp add: probe_do_def)

lemma restore_state_core:
  assumes "paula_mirror_snapshot_take s = (Some n, s1)"
  shows "lc_paula (lv_core (snd (snd (poc_restore_live_state (live_ops fu) st s)))) =
    control_restore fu n (fold (core_restore_channel fu n) [0..<4] (Paula_reset fu (lc_paula (lv_core s1))))"
proof -
  have e: "core_event fu (restore_event n 0xdff096 v) p = writeRegister16 fu 0xdff096 v p" for v and p :: "('a, 'b) paula"
    by (simp add: core_event_def restore_event_def event_value_def)
  show ?thesis
    by (simp add: poc_restore_live_state_def assms control_restore_def Let_def split_beta write_core event_core
        restore_channels_core probe_do_core reset_core e del: upt_rec_numeral)
qed

lemma restored_core_matches:
  assumes "paula_mirror_snapshot_take s = (Some n, s1)" and "snapshot_ok n" and "snapshot_globals_ok n"
  shows "core_matches n (lc_paula (lv_core (snd (snd (poc_restore_live_state (live_ops fu) st s)))))"
proof -
  let ?p = "Paula_reset fu (lc_paula (lv_core s1))"
  let ?q = "fold (core_restore_channel fu n) [0..<4] ?p"
  have clear: "\<forall>c \<in> set [0..<4]. channel_cleared (pa_channels ?p c)"
    by (simp add: reset_cleared(1))
  have four: "distinct [0..<4]" "set [0..<4] \<subseteq> {..<4::nat}" by auto
  note all = core_restore_channels_result [OF assms(2) four clear refl]
  have "pa_dmaCon ?q = 0" "pa_intEna ?q = 0" "pa_intReq ?q = 0" "pa_adkCon ?q = 0"
    using all(3) by (simp_all add: same_control_def Paula_reset_def del: upt_rec_numeral)
  moreover have "\<forall>c < 4. channel_matches n c (pa_channels ?q c)"
    using all(1) by (simp del: upt_rec_numeral)
  ultimately show ?thesis
    unfolding restore_state_core [OF assms(1)] by (intro control_restore_result assms(2,3)) simp_all
qed

text \<open>
  C13: resynchronisation. After any sequence of audio register writes the core that is restored from
  the snapshot has, for every channel, the sample pointer, length, period, volume and DMA state
  that replaying every event of the sequence in order would have left in a core that was
  reset, and the same control registers and prefetch registers, so dropped events cost nothing but timing.
\<close>

theorem resync_restores_core:
  fixes s t :: "(('d, 'f) live_core, 'a) live_state_scheme"
  assumes "\<forall>b \<in> set bs. captures b \<and> bus_shape b"
    and "pm_enabled s \<noteq> 0" and "pm_event_lock s = 0" and "pm_latest s = fold shadow_write bs snapshot_zero"
  shows "\<exists>n st' s'. poc_restore_live_state (live_ops fu) st s = (Some n, st', s') \<and>
     (let direct = fold (poc_apply_live_event (live_ops fu)) (map event_of bs) (poc_live_zero, paula_live_reset (live_ops fu) t);
          p = lc_paula (lv_core s'); q = lc_paula (lv_core (snd direct)) in
      (\<forall>c<4. channelState p (int c) = channelState q (int c) \<and>
             lenWordsLatched (pa_channels p c) = lenWordsLatched (pa_channels q c) \<and>
             pl_loc st' c = pl_loc (fst direct) c \<and> pl_len st' c = pl_len (fst direct) c) \<and>
      pa_dmaCon p = pa_dmaCon q \<and> pa_intEna p = pa_intEna q \<and> pa_intReq p = pa_intReq q \<and> pa_adkCon p = pa_adkCon q \<and>
      pl_dma st' = pl_dma (fst direct))"
proof -
  let ?latest = "fold shadow_write bs snapshot_zero" and ?t = "paula_live_reset (live_ops fu) t"
  obtain n st' s' where r: "poc_restore_live_state (live_ops fu) st s = (Some n, st', s')"
    "let direct = fst (fold (poc_apply_live_event (live_ops fu)) (map event_of bs) (poc_live_zero, ?t)) in
      (\<forall>c<4. pl_loc st' c = pl_loc direct c \<and> pl_len st' c = pl_len direct c) \<and> pl_dma st' = pl_dma direct"
    using resync_equals_replay [OF assms] by blast
  obtain n2 s1 where take: "paula_mirror_snapshot_take s = (Some n2, s1)"
    using assms(2,3) by (auto simp: paula_mirror_snapshot_take_def Let_def)
  then have n: "paula_mirror_snapshot_take s = (Some n, s1)"
    using restore_result [OF take, of "live_ops fu" st] r(1) by auto
  have fields: "sn_reg n = sn_reg ?latest" "sn_seen n = sn_seen ?latest" "sn_dma n = sn_dma ?latest"
    "sn_seen_global n = sn_seen_global ?latest" "sn_intena n = sn_intena ?latest" "sn_intreq n = sn_intreq ?latest"
    "sn_adkcon n = sn_adkcon ?latest"
    using n assms(2-4) by (auto simp: paula_mirror_snapshot_take_def Let_def)
  have z: "snapshot_ok snapshot_zero" "snapshot_globals_ok snapshot_zero"
    by (simp_all add: snapshot_ok_def snapshot_globals_ok_def snapshot_zero_def)
  let ?q = "fold (core_event fu) (map event_of bs) (Paula_reset fu (lc_paula (lv_core t)))"
  have same: "core_matches n p = core_matches ?latest p" "snapshot_ok n = snapshot_ok ?latest"
    "snapshot_globals_ok n = snapshot_globals_ok ?latest" for p :: "('d, 'f) paula"
    by (simp_all only: core_matches_def snapshot_ok_def snapshot_globals_ok_def snapshot_loc_def fields)
  have "core_matches n ?q" "snapshot_ok n" "snapshot_globals_ok n"
    unfolding same using core_replay [OF assms(1) reset_cleared(2) [of fu "lc_paula (lv_core t)"] z, where fu = fu] by blast+
  then have "core_matches n (lc_paula (lv_core s'))" and "core_matches n ?q"
    using restored_core_matches [OF n, of fu st] r(1) by simp_all
  moreover have "lc_paula (lv_core (snd (fold (poc_apply_live_event (live_ops fu)) (map event_of bs) (poc_live_zero, ?t)))) = ?q"
    by (simp only: fold_core reset_core snd_conv)
  ultimately show ?thesis
    using r by (intro exI [of _ n] exI [of _ st'] exI [of _ s'])
      (simp add: core_matches_def channelState_def Let_def)
qed

theorem resync_restores_core_witness:
  "\<exists>n st' s'. poc_restore_live_state (live_ops exact_unit) poc_live_zero
     (live_demo_state\<lparr>pm_enabled := 1, pm_latest := fold shadow_write [demo_write, demo_dmacon] snapshot_zero\<rparr>) = (Some n, st', s') \<and>
     lenWordsLatched (pa_channels (lc_paula (lv_core s')) 0) = 0x1234 \<and> pa_dmaCon (lc_paula (lv_core s')) = 0x201"
proof -
  let ?bs = "[demo_write, demo_dmacon]"
  let ?s = "live_demo_state\<lparr>pm_enabled := 1, pm_latest := fold shadow_write ?bs snapshot_zero\<rparr>"
  let ?q = "fold (core_event exact_unit) (map event_of ?bs) (Paula_reset exact_unit (lc_paula (lv_core ?s)))"
  have b: "\<forall>b \<in> set ?bs. captures b \<and> bus_shape b"
    using demo_captures by (simp add: bus_shape_def demo_write_def demo_dmacon_def)
  have s: "pm_enabled ?s \<noteq> 0" "pm_event_lock ?s = 0" "pm_latest ?s = fold shadow_write ?bs snapshot_zero"
    by (simp_all add: live_demo_state_def diag_demo_def diag_state.defs io_state.defs mirror.defs mirror_bss_def)
  have q: "?q = writeRegister16 exact_unit 0xdff096 0x8201 (writeRegister16 exact_unit 0xdff0a4 0x1234 (Paula_reset exact_unit (lc_paula (lv_core ?s))))"
    by (simp add: core_event_def event_of_def event_value_def demo_write_def demo_dmacon_def presented_word_def)
  have "lenWordsLatched (pa_channels ?q 0) = 0x1234" "pa_dmaCon ?q = 0x201"
    unfolding q by (simp_all add: core_write_fields(2,5) [of 0] Paula_reset_def setclr16_def)
  moreover have "lc_paula (lv_core (snd (fold (poc_apply_live_event (live_ops exact_unit)) (map event_of ?bs)
      (poc_live_zero, paula_live_reset (live_ops exact_unit) ?s)))) = ?q"
    by (simp only: fold_core reset_core snd_conv)
  ultimately show ?thesis
    using resync_restores_core [OF b s, of exact_unit poc_live_zero ?s] unfolding Let_def by (metis zero_less_numeral)
qed

end
