(* ===== verification/PsBus.thy ===== *)
theory PsBus
  imports Device
begin

text \<open>
  The PiStorm bus driver \<open>source/src/pistorm/ps_classic_protocol.c\<close>: delays, the GPIO
  bus cycles, the write buffer and the accessors of every width.

  Pin numbers, register numbers, GPIO function words and delays come from headers that are
  not part of the repository (\<open>ps_protocol.h\<close>, \<open>config.h\<close>): they are the record
  \<open>ps_config\<close>, an argument of every operation. \<open>cf_write_buffer\<close> is the build option
  \<open>PISTORM_WRITE_BUFFER\<close>. A register of the GPIO block is written with
  \<open>*(gpio + k) = LE32(v)\<close>, which is \<open>wr32le\<close> at the block plus \<open>4 * k\<close>.
\<close>

record ps_config =
  cf_gpio :: u64
  cf_gpclk :: u64
  cf_pin_clk :: nat
  cf_pin_a0 :: nat
  cf_pin_wr :: nat
  cf_pin_rd :: nat
  cf_pin_txn :: nat
  cf_pin_reset :: nat
  cf_pin_ipl_zero :: nat
  cf_reg_data :: u32
  cf_reg_addr_lo :: u32
  cf_reg_addr_hi :: u32
  cf_reg_status :: u32
  cf_status_init :: u32
  cf_status_reset :: u32
  cf_clear_bits :: "bool \<Rightarrow> u32"
  cf_output :: "bool \<Rightarrow> nat \<Rightarrow> u32"
  cf_input :: "bool \<Rightarrow> nat \<Rightarrow> u32"
  cf_clk_passwd :: u32
  cf_clk_gp0_ctl :: u64
  cf_clk_gp0_div :: u64
  cf_bitbang_speed :: u64
  cf_cia_delay :: u64
  cf_chipset_delay :: u64
  cf_write_buffer :: bool
  cf_write_buffer_size :: u32

record write_request =
  wr_addr :: u32
  wr_value :: u32
  wr_size :: u8

record bus_state = io_state +
  bs_output :: "nat \<Rightarrow> u32"
  bs_input :: "nat \<Rightarrow> u32"
  bs_clear_bits :: u32
  bs_bitbang_delay :: u32
  bs_blitwait :: bool
  bs_overlay :: u32
  bs_board :: nat
  bs_board_idx :: nat
  bs_ignore_reset :: bool
  bs_ipl :: u8
  bs_icache :: "(u32 \<times> nat) list"
  wb_buffer :: "nat \<Rightarrow> write_request"
  wb_head :: u32
  wb_tail :: u32

text \<open>\<open>bs_blitwait\<close> is \<open>__m68k_state && JIT_CONTROL2 & JC2F_BLITWAIT\<close>; \<open>bs_icache\<close> logs
  the ranges invalidated in the instruction cache.\<close>

text \<open>The faster models have a counter above 20 MHz.\<close>

definition pi4 :: "'a io_state_scheme \<Rightarrow> bool" where
  "pi4 s \<longleftrightarrow> read_cntfrq s > 20000000"

section \<open>Delays\<close>

definition SYSTIMER_LO :: u64 where "SYSTIMER_LO = 0xf2003004"
definition SYSTIMER_HI :: u64 where "SYSTIMER_HI = 0xf2003008"

definition read_systimer :: "(u64, 'a io_state_scheme) prog" where
  "read_systimer s =
     do {
       (hi, s) \<leftarrow> rd32le SYSTIMER_HI s;
       (lo, s) \<leftarrow> rd32le SYSTIMER_LO s;
       (again, s) \<leftarrow> rd32le SYSTIMER_HI s;
       if hi \<noteq> again
       then do {
         (hi, s) \<leftarrow> rd32le SYSTIMER_HI s;
         (lo, s) \<leftarrow> rd32le SYSTIMER_LO s;
         Some (push_bit 32 (ucast hi) OR ucast lo, s)
       }
       else Some (push_bit 32 (ucast hi) OR ucast lo, s)
     }"

partial_function (option) usleep_loop :: "u64 \<Rightarrow> 'a io_state_scheme \<Rightarrow> 'a io_state_scheme option" where
  "usleep_loop t1 s =
     (case read_systimer s of None \<Rightarrow> None
      | Some (t2, s) \<Rightarrow> if t2 < t1 then usleep_loop t1 s else Some s)"

definition usleep :: "u64 \<Rightarrow> 'a io_state_scheme \<Rightarrow> 'a io_state_scheme option" where
  "usleep delta s = do { (t, s) \<leftarrow> read_systimer s; usleep_loop (t + delta) s }"

text \<open>\<open>CNTPCT_EL0\<close> is read like the virtual counter: every access has a value of its own.\<close>

partial_function (option) ticks_until :: "u64 \<Rightarrow> 'a io_state_scheme \<Rightarrow> 'a io_state_scheme option" where
  "ticks_until t0 s =
     (case read_cntvct s of None \<Rightarrow> None
      | Some (t1, s) \<Rightarrow> if t1 < t0 then ticks_until t0 s else Some s)"

definition ticksleep :: "u64 \<Rightarrow> 'a io_state_scheme \<Rightarrow> 'a io_state_scheme option" where
  "ticksleep ticks s = do { (t0, s) \<leftarrow> read_cntvct s; ticks_until (t0 + ticks) s }"

section \<open>GPIO registers\<close>

definition gpio_fsel :: "ps_config \<Rightarrow> nat \<Rightarrow> u32 \<Rightarrow> 'a io_state_scheme \<Rightarrow> 'a io_state_scheme" where
  "gpio_fsel cf k v = wr32le (cf_gpio cf + 4 * word_of_nat k) v"

definition gpio_set :: "ps_config \<Rightarrow> u32 \<Rightarrow> 'a io_state_scheme \<Rightarrow> 'a io_state_scheme" where
  "gpio_set cf v = wr32le (cf_gpio cf + 4 * 7) v"

definition gpio_clear :: "ps_config \<Rightarrow> u32 \<Rightarrow> 'a io_state_scheme \<Rightarrow> 'a io_state_scheme" where
  "gpio_clear cf v = wr32le (cf_gpio cf + 4 * 10) v"

definition gpio_level :: "ps_config \<Rightarrow> (u32, 'a io_state_scheme) prog" where
  "gpio_level cf = rd32le (cf_gpio cf + 4 * 13)"

definition pin :: "nat \<Rightarrow> u32" where
  "pin n = push_bit n 1"

definition bus_direction :: "ps_config \<Rightarrow> (nat \<Rightarrow> u32) \<Rightarrow> 'a io_state_scheme \<Rightarrow> 'a io_state_scheme" where
  "bus_direction cf fsel s = gpio_fsel cf 2 (fsel 2) (gpio_fsel cf 1 (fsel 1) (gpio_fsel cf 0 (fsel 0) s))"

text \<open>A word on the data and register pins, strobed into the interface by the write pin.\<close>

definition data_pins :: "ps_config \<Rightarrow> u32 \<Rightarrow> u32 \<Rightarrow> u32" where
  "data_pins cf v reg = push_bit 8 v OR push_bit (cf_pin_a0 cf) reg"

definition bus_strobe :: "ps_config \<Rightarrow> u32 \<Rightarrow> 'a bus_state_scheme \<Rightarrow> 'a bus_state_scheme" where
  "bus_strobe cf word s =
     (let wr = pin (cf_pin_wr cf);
          s = gpio_set cf word s;
          s = (if pi4 s
               then gpio_clear cf wr (gpio_clear cf wr (gpio_set cf wr (gpio_set cf wr (gpio_set cf wr s))))
               else gpio_clear cf wr (gpio_set cf wr s))
      in gpio_clear cf (bs_clear_bits s) s)"

partial_function (option) txn_wait :: "ps_config \<Rightarrow> 'a io_state_scheme \<Rightarrow> 'a io_state_scheme option" where
  "txn_wait cf s =
     (case gpio_level cf s of None \<Rightarrow> None
      | Some (v, s) \<Rightarrow> if v AND pin (cf_pin_txn cf) \<noteq> 0 then txn_wait cf s else Some s)"

section \<open>Bus cycles\<close>

text \<open>\<open>op\<close> is the upper byte of the high address word: 0 word write, 1 byte write, 2 word
  read, 3 byte read.\<close>

definition write_cycle ::
    "ps_config \<Rightarrow> u32 \<Rightarrow> u32 \<Rightarrow> u32 \<Rightarrow> 'a bus_state_scheme \<Rightarrow> 'a bus_state_scheme option" where
  "write_cycle cf op address data s =
     (let s = bus_direction cf (bs_output s) s;
          s = bus_strobe cf (data_pins cf (data AND 0xffff) (cf_reg_data cf)) s;
          s = bus_strobe cf (data_pins cf (address AND 0xffff) (cf_reg_addr_lo cf)) s;
          s = bus_strobe cf (data_pins cf (op OR (drop_bit 16 address AND 0x00ff)) (cf_reg_addr_hi cf)) s;
          s = bus_direction cf (bs_input s) s
      in txn_wait cf s)"

definition read_cycle ::
    "ps_config \<Rightarrow> u32 \<Rightarrow> u32 \<Rightarrow> (u32, 'a bus_state_scheme) prog" where
  "read_cycle cf op address s =
     (let s = bus_direction cf (bs_output s) s;
          s = bus_strobe cf (data_pins cf (address AND 0xffff) (cf_reg_addr_lo cf)) s;
          s = bus_strobe cf (data_pins cf (op OR (drop_bit 16 address AND 0x00ff)) (cf_reg_addr_hi cf)) s;
          s = bus_direction cf (bs_input s) s;
          s = gpio_set cf (data_pins cf 0 (cf_reg_data cf)) s;
          rd = pin (cf_pin_rd cf);
          s = gpio_set cf rd s;
          s = (if pi4 s then gpio_set cf rd (gpio_set cf rd (gpio_set cf rd s)) else s)
      in do {
           s \<leftarrow> txn_wait cf s;
           (v, s) \<leftarrow> gpio_level cf s;
           let s = gpio_clear cf (bs_clear_bits s) s;
           Some (drop_bit 8 v AND 0xffff, s)
         })"

text \<open>The mirror is told of every completed write; both of its counter reads are accesses.\<close>

definition mirror_write :: "u32 \<Rightarrow> u32 \<Rightarrow> u32 \<Rightarrow> 'a io_state_scheme \<Rightarrow> 'a io_state_scheme" where
  "mirror_write address data width s =
     paula_mirror_invalidate address width
       (paula_mirror_capture (io_clock s (io_n s)) (io_clock s (Suc (io_n s))) address data width
         (s\<lparr>io_n := io_n s + 2\<rparr>))"

definition ps_write_8_int :: "ps_config \<Rightarrow> u32 \<Rightarrow> u32 \<Rightarrow> 'a bus_state_scheme \<Rightarrow> 'a bus_state_scheme option" where
  "ps_write_8_int cf address data s =
     do {
       let address = address AND 0xffffff;
       let original_byte = data AND 0xff;
       let data = (data AND 0xff) OR push_bit 8 data;
       s \<leftarrow> write_cycle cf 0x0100 address data s;
       Some (mirror_write address original_byte 1 s)
     }"

definition ps_write_16_int :: "ps_config \<Rightarrow> u32 \<Rightarrow> u32 \<Rightarrow> 'a bus_state_scheme \<Rightarrow> 'a bus_state_scheme option" where
  "ps_write_16_int cf address data s =
     do {
       let address = address AND 0xffffff;
       if address AND 1 \<noteq> 0
       then do {
         s \<leftarrow> ps_write_8_int cf address (drop_bit 8 data) s;
         ps_write_8_int cf (address + 1) (data AND 0xff) s
       }
       else do {
         s \<leftarrow> write_cycle cf 0x0000 address data s;
         Some (mirror_write address data 2 s)
       }
     }"

definition ps_write_32_int :: "ps_config \<Rightarrow> u32 \<Rightarrow> u32 \<Rightarrow> 'a bus_state_scheme \<Rightarrow> 'a bus_state_scheme option" where
  "ps_write_32_int cf address value s =
     (if address AND 1 \<noteq> 0
      then do {
        s \<leftarrow> ps_write_8_int cf address (drop_bit 24 value) s;
        s \<leftarrow> ps_write_16_int cf (address + 1) (drop_bit 8 value) s;
        ps_write_8_int cf (address + 3) (value AND 0xff) s
      }
      else do {
        s \<leftarrow> ps_write_16_int cf address (drop_bit 16 value) s;
        ps_write_16_int cf (address + 2) value s
      })"

section \<open>Reading\<close>

text \<open>
  \<open>wb_waitfree\<close> waits until the other core has emptied the write buffer: it goes on at once
  when the buffer is empty and does not return while this core alone runs otherwise.
\<close>

definition wb_waitfree :: "ps_config \<Rightarrow> 'a bus_state_scheme \<Rightarrow> 'a bus_state_scheme option" where
  "wb_waitfree cf s = (if cf_write_buffer cf \<and> wb_tail s \<noteq> wb_head s then None else Some s)"

definition ps_read_8_int :: "ps_config \<Rightarrow> u32 \<Rightarrow> (u32, 'a bus_state_scheme) prog" where
  "ps_read_8_int cf address s =
     do {
       s \<leftarrow> wb_waitfree cf s;
       let address = address AND 0xffffff;
       (value, s) \<leftarrow> read_cycle cf 0x0300 address s;
       Some (if address AND 1 = 0 then drop_bit 8 value AND 0xff else value AND 0xff, s)
     }"

definition bus_delay :: "ps_config \<Rightarrow> u32 \<Rightarrow> 'a bus_state_scheme \<Rightarrow> 'a bus_state_scheme option" where
  "bus_delay cf address s =
     do {
       s \<leftarrow> (if cf_cia_delay cf \<noteq> 0 \<and> address \<ge> 0xbf0000 \<and> address \<le> 0xbfffff
            then ticksleep (cf_cia_delay cf) s else Some s);
       if cf_chipset_delay cf \<noteq> 0 \<and> address \<ge> 0xa00000
       then ticksleep (cf_chipset_delay cf) s else Some s
     }"

definition ps_read_8 :: "ps_config \<Rightarrow> u32 \<Rightarrow> (u32, 'a bus_state_scheme) prog" where
  "ps_read_8 cf address s =
     do { (val, s) \<leftarrow> ps_read_8_int cf address s; s \<leftarrow> bus_delay cf address s; Some (val, s) }"

definition ps_read_16_int_nowbwait :: "ps_config \<Rightarrow> u32 \<Rightarrow> (u32, 'a bus_state_scheme) prog" where
  "ps_read_16_int_nowbwait cf address s =
     do {
       let address = address AND 0xffffff;
       if address AND 1 \<noteq> 0
       then do {
         (hi, s) \<leftarrow> ps_read_8 cf address s;
         (lo, s) \<leftarrow> ps_read_8 cf (address + 1) s;
         Some (push_bit 8 hi OR lo, s)
       }
       else read_cycle cf 0x0200 address s
     }"

definition ps_read_16_int :: "ps_config \<Rightarrow> u32 \<Rightarrow> (u32, 'a bus_state_scheme) prog" where
  "ps_read_16_int cf address s = do { s \<leftarrow> wb_waitfree cf s; ps_read_16_int_nowbwait cf address s }"

definition ps_read_16 :: "ps_config \<Rightarrow> u32 \<Rightarrow> (u32, 'a bus_state_scheme) prog" where
  "ps_read_16 cf address s =
     do { (val, s) \<leftarrow> ps_read_16_int cf address s; s \<leftarrow> bus_delay cf address s; Some (val, s) }"

definition ps_read_32_int :: "ps_config \<Rightarrow> u32 \<Rightarrow> (u32, 'a bus_state_scheme) prog" where
  "ps_read_32_int cf address s =
     do {
       s \<leftarrow> wb_waitfree cf s;
       if address AND 1 \<noteq> 0
       then do {
         (a, s) \<leftarrow> ps_read_8 cf address s;
         (b, s) \<leftarrow> ps_read_16 cf (address + 1) s;
         (c, s) \<leftarrow> ps_read_8 cf (address + 3) s;
         Some (push_bit 24 a OR push_bit 8 b OR c, s)
       }
       else do {
         (a, s) \<leftarrow> ps_read_16 cf address s;
         (b, s) \<leftarrow> ps_read_16 cf (address + 2) s;
         Some (push_bit 16 a OR b, s)
       }
     }"

definition ps_read_32 :: "ps_config \<Rightarrow> u32 \<Rightarrow> (u32, 'a bus_state_scheme) prog" where
  "ps_read_32 cf address s =
     do { (val, s) \<leftarrow> ps_read_32_int cf address s; s \<leftarrow> bus_delay cf address s; Some (val, s) }"

definition ps_read_64 :: "ps_config \<Rightarrow> u32 \<Rightarrow> (u64, 'a bus_state_scheme) prog" where
  "ps_read_64 cf address s =
     do {
       (hi, s) \<leftarrow> ps_read_32 cf address s;
       (lo, s) \<leftarrow> ps_read_32 cf (address + 4) s;
       Some (push_bit 32 (ucast hi) OR ucast lo, s)
     }"

definition ps_read_128 :: "ps_config \<Rightarrow> u32 \<Rightarrow> (u64 \<times> u64, 'a bus_state_scheme) prog" where
  "ps_read_128 cf address s =
     do {
       (hi, s) \<leftarrow> ps_read_32 cf address s;
       (lo, s) \<leftarrow> ps_read_32 cf (address + 4) s;
       let res_hi = (push_bit 32 (ucast hi) OR ucast lo :: u64);
       (hi, s) \<leftarrow> ps_read_32 cf (address + 8) s;
       (lo, s) \<leftarrow> ps_read_32 cf (address + 12) s;
       Some ((res_hi, push_bit 32 (ucast hi) OR ucast lo), s)
     }"

section \<open>Waiting for the blitter\<close>

partial_function (option) blit_wait :: "ps_config \<Rightarrow> 'a bus_state_scheme \<Rightarrow> 'a bus_state_scheme option" where
  "blit_wait cf s =
     (case ps_read_16_int_nowbwait cf 0xdff002 s of None \<Rightarrow> None
      | Some (v, s) \<Rightarrow>
          if v AND 0x4240 = 0x4240
          then (case ps_read_16_int_nowbwait cf 0x00f00000 s of None \<Rightarrow> None
                | Some (_, s) \<Rightarrow>
                    (case ps_read_16_int_nowbwait cf 0x00f00000 s of None \<Rightarrow> None
                     | Some (_, s) \<Rightarrow> blit_wait cf s))
          else Some s)"

definition check_blit_active :: "ps_config \<Rightarrow> u32 \<Rightarrow> u32 \<Rightarrow> 'a bus_state_scheme \<Rightarrow> 'a bus_state_scheme option" where
  "check_blit_active cf addr len s =
     (if \<not> bs_blitwait s then Some s
      else
        let addr = addr AND 0xffffff in
        if addr \<ge> 0xDFF076 \<or> addr + len \<le> 0xDFF040 then Some s
        else blit_wait cf s)"

section \<open>The write buffer\<close>

text \<open>Both waits end at once or not while this core alone runs, like \<open>wb_waitfree\<close>.\<close>

definition wb_slot :: "ps_config \<Rightarrow> u32 \<Rightarrow> nat" where
  "wb_slot cf w = unat (w AND (cf_write_buffer_size cf - 1))"

definition wb_push :: "ps_config \<Rightarrow> u32 \<Rightarrow> u32 \<Rightarrow> u8 \<Rightarrow> 'a bus_state_scheme \<Rightarrow> 'a bus_state_scheme option" where
  "wb_push cf address value len s =
     (if wb_tail s + cf_write_buffer_size cf \<le> wb_head s then None
      else Some (s\<lparr>wb_buffer := (wb_buffer s)(wb_slot cf (wb_head s) :=
                      \<lparr>wr_addr = address, wr_value = value, wr_size = len\<rparr>),
                   wb_head := wb_head s + 1\<rparr>))"

definition wb_peek :: "ps_config \<Rightarrow> 'a bus_state_scheme \<Rightarrow> write_request option" where
  "wb_peek cf s = (if wb_tail s = wb_head s then None else Some (wb_buffer s (wb_slot cf (wb_tail s))))"

definition wb_pop :: "ps_config \<Rightarrow> (write_request, 'a bus_state_scheme) prog" where
  "wb_pop cf s =
     (if wb_tail s = wb_head s then None
      else Some (wb_buffer s (wb_slot cf (wb_tail s)), s\<lparr>wb_tail := wb_tail s + 1\<rparr>))"

definition wb_init :: "ps_config \<Rightarrow> 'a bus_state_scheme \<Rightarrow> 'a bus_state_scheme" where
  "wb_init cf s = (if cf_write_buffer cf then s\<lparr>wb_head := 0, wb_tail := 0\<rparr> else s)"

text \<open>One turn of the loop of \<open>wb_task\<close>, which runs on the other core.\<close>

definition wb_dispatch :: "ps_config \<Rightarrow> write_request \<Rightarrow> 'a bus_state_scheme \<Rightarrow> 'a bus_state_scheme option" where
  "wb_dispatch cf req s =
     (if wr_size req = 1 then ps_write_8_int cf (wr_addr req) (wr_value req) s
      else if wr_size req = 2 then ps_write_16_int cf (wr_addr req) (wr_value req) s
      else if wr_size req = 4 then ps_write_32_int cf (wr_addr req) (wr_value req) s
      else Some s)"

definition wb_task_turn :: "ps_config \<Rightarrow> 'a bus_state_scheme \<Rightarrow> 'a bus_state_scheme option" where
  "wb_task_turn cf s =
     do {
       req \<leftarrow> wb_peek cf s;
       s \<leftarrow> check_blit_active cf (wr_addr req) (ucast (wr_size req)) s;
       s \<leftarrow> wb_dispatch cf req s;
       s \<leftarrow> bus_delay cf (wr_addr req) s;
       (_, s) \<leftarrow> wb_pop cf s;
       Some s
     }"

section \<open>Writes from the emulated processor\<close>

definition cache_invalidate_range :: "u32 \<Rightarrow> nat \<Rightarrow> 'a bus_state_scheme \<Rightarrow> 'a bus_state_scheme" where
  "cache_invalidate_range address len s = s\<lparr>bs_icache := (address, len) # bs_icache s\<rparr>"

definition buffered_write :: "ps_config \<Rightarrow> u32 \<Rightarrow> u32 \<Rightarrow> u8 \<Rightarrow> 'a bus_state_scheme \<Rightarrow> 'a bus_state_scheme option" where
  "buffered_write cf address data len s =
     (if address < 0xa00000 then wb_push cf address data len s
      else do { s \<leftarrow> wb_push cf address data len s; wb_waitfree cf s })"

definition ps_write_8 :: "ps_config \<Rightarrow> u32 \<Rightarrow> u32 \<Rightarrow> 'a bus_state_scheme \<Rightarrow> 'a bus_state_scheme option" where
  "ps_write_8 cf address data s =
     do {
       s \<leftarrow> (if cf_write_buffer cf then buffered_write cf address data 1 s
            else do { s \<leftarrow> ps_write_8_int cf address data s; bus_delay cf address s });
       Some (cache_invalidate_range address 1 s)
     }"

definition ps_write_16 :: "ps_config \<Rightarrow> u32 \<Rightarrow> u32 \<Rightarrow> 'a bus_state_scheme \<Rightarrow> 'a bus_state_scheme option" where
  "ps_write_16 cf address data s =
     do {
       s \<leftarrow> (if cf_write_buffer cf then buffered_write cf address data 2 s
            else do {
              s \<leftarrow> check_blit_active cf address 2 s;
              s \<leftarrow> ps_write_16_int cf address data s;
              bus_delay cf address s
            });
       Some (cache_invalidate_range address 2 s)
     }"

definition ps_write_32 :: "ps_config \<Rightarrow> u32 \<Rightarrow> u32 \<Rightarrow> 'a bus_state_scheme \<Rightarrow> 'a bus_state_scheme option" where
  "ps_write_32 cf address data s =
     do {
       s \<leftarrow> (if cf_write_buffer cf then buffered_write cf address data 4 s
            else do {
              s \<leftarrow> check_blit_active cf address 4 s;
              s \<leftarrow> ps_write_32_int cf address data s;
              bus_delay cf address s
            });
       Some (cache_invalidate_range address 4 s)
     }"

definition ps_write_64 :: "ps_config \<Rightarrow> u32 \<Rightarrow> u64 \<Rightarrow> 'a bus_state_scheme \<Rightarrow> 'a bus_state_scheme option" where
  "ps_write_64 cf address data s =
     do {
       s \<leftarrow> ps_write_32 cf address (ucast (drop_bit 32 data)) s;
       s \<leftarrow> ps_write_32 cf (address + 4) (ucast data) s;
       Some (cache_invalidate_range address 8 s)
     }"

definition ps_write_128 :: "ps_config \<Rightarrow> u32 \<Rightarrow> u64 \<times> u64 \<Rightarrow> 'a bus_state_scheme \<Rightarrow> 'a bus_state_scheme option" where
  "ps_write_128 cf address data s =
     do {
       s \<leftarrow> ps_write_32 cf address (ucast (drop_bit 32 (fst data))) s;
       s \<leftarrow> ps_write_32 cf (address + 4) (ucast (fst data)) s;
       s \<leftarrow> ps_write_32 cf (address + 8) (ucast (drop_bit 32 (snd data))) s;
       s \<leftarrow> ps_write_32 cf (address + 12) (ucast (snd data)) s;
       Some (cache_invalidate_range address 16 s)
     }"

section \<open>Setup, the status register and reset\<close>

partial_function (option) gpclk_wait :: "ps_config \<Rightarrow> bool \<Rightarrow> 'a io_state_scheme \<Rightarrow> 'a io_state_scheme option" where
  "gpclk_wait cf busy s =
     (case rd32le (cf_gpclk cf + cf_clk_gp0_ctl cf) s of None \<Rightarrow> None
      | Some (v, s) \<Rightarrow> if (v AND 0x80 \<noteq> 0) = busy then gpclk_wait cf busy s else Some s)"

text \<open>\<open>SET_GPIO_ALT(PIN_CLK, 0)\<close>, a macro of the header, is not modelled.\<close>

definition setup_gpclk :: "ps_config \<Rightarrow> 'a io_state_scheme \<Rightarrow> 'a io_state_scheme option" where
  "setup_gpclk cf s =
     do {
       let s = wr32le (cf_gpclk cf + cf_clk_gp0_ctl cf) (cf_clk_passwd cf OR 0x20) s;
       s \<leftarrow> usleep 10 s;
       s \<leftarrow> gpclk_wait cf True s;
       s \<leftarrow> usleep 100 s;
       let s = wr32le (cf_gpclk cf + cf_clk_gp0_div cf)
                 (cf_clk_passwd cf OR (if pi4 s then push_bit 12 5 else push_bit 12 6)) s;
       s \<leftarrow> usleep 10 s;
       let s = wr32le (cf_gpclk cf + cf_clk_gp0_ctl cf) (cf_clk_passwd cf OR 5 OR 0x10) s;
       s \<leftarrow> usleep 10 s;
       s \<leftarrow> gpclk_wait cf False s;
       usleep 100 s
     }"

definition TXD_BIT :: u32 where "TXD_BIT = push_bit 26 1"

definition ps_setup_protocol :: "ps_config \<Rightarrow> 'a bus_state_scheme \<Rightarrow> 'a bus_state_scheme option" where
  "ps_setup_protocol cf s =
     do {
       let clock = read_cntfrq s;
       let s = s\<lparr>bs_bitbang_delay := ucast ((clock + cf_bitbang_speed cf div 2) div cf_bitbang_speed cf)\<rparr>;
       s \<leftarrow> setup_gpclk cf s;
       let s = s\<lparr>bs_clear_bits := cf_clear_bits cf (clock > 20000000),
                bs_output := cf_output cf (clock > 20000000),
                bs_input := cf_input cf (clock > 20000000)\<rparr>;
       let s = gpio_clear cf (bs_clear_bits s) s;
       let s = bus_direction cf (bs_input s) s;
       Some (gpio_set cf TXD_BIT s)
     }"

definition ps_write_status_reg :: "ps_config \<Rightarrow> u32 \<Rightarrow> 'a bus_state_scheme \<Rightarrow> 'a bus_state_scheme" where
  "ps_write_status_reg cf value s =
     (let wr = pin (cf_pin_wr cf);
          s = bus_direction cf (bs_output s) s;
          s = gpio_set cf (data_pins cf (value AND 0xffff) (cf_reg_status cf)) s;
          s = gpio_set cf wr (gpio_set cf wr s);
          s = (if pi4 s then gpio_set cf wr (gpio_set cf wr s) else s);
          s = gpio_clear cf wr s;
          s = (if pi4 s then gpio_clear cf wr (gpio_clear cf wr s) else s);
          s = gpio_clear cf (bs_clear_bits s) s
      in bus_direction cf (bs_input s) s)"

definition ps_read_status_reg :: "ps_config \<Rightarrow> (u32, 'a bus_state_scheme) prog" where
  "ps_read_status_reg cf s =
     (let rd = pin (cf_pin_rd cf);
          s = gpio_set cf (data_pins cf 0 (cf_reg_status cf)) s;
          s = (gpio_set cf rd ^^ 4) s;
          s = (if pi4 s then (gpio_set cf rd ^^ 4) s else s)
      in do {
           (value, s) \<leftarrow> gpio_level cf s;
           let s = gpio_clear cf (bs_clear_bits s) s;
           Some (drop_bit 8 value AND 0xffff, s)
         })"

definition ps_reset_state_machine :: "ps_config \<Rightarrow> 'a bus_state_scheme \<Rightarrow> 'a bus_state_scheme option" where
  "ps_reset_state_machine cf s =
     do {
       s \<leftarrow> usleep 1500 (ps_write_status_reg cf (cf_status_init cf) s);
       usleep 100 (ps_write_status_reg cf 0 s)
     }"

partial_function (option) reset_line_wait :: "ps_config \<Rightarrow> 'a io_state_scheme \<Rightarrow> 'a io_state_scheme option" where
  "reset_line_wait cf s =
     (case gpio_level cf s of None \<Rightarrow> None
      | Some (v, s) \<Rightarrow> if v AND pin (cf_pin_reset cf) = 0 then reset_line_wait cf s else Some s)"

definition ps_pulse_reset :: "ps_config \<Rightarrow> 'a bus_state_scheme \<Rightarrow> 'a bus_state_scheme option" where
  "ps_pulse_reset cf s =
     do {
       s \<leftarrow> reset_line_wait cf s;
       let s = s\<lparr>bs_ignore_reset := True\<rparr>;
       s \<leftarrow> usleep 30000 (ps_write_status_reg cf 0 s);
       let s = ps_write_status_reg cf (cf_status_reset cf) s;
       let s = s\<lparr>bs_overlay := 1, bs_board := 0, bs_board_idx := 0\<rparr>;
       s \<leftarrow> usleep 10000 s;
       Some (s\<lparr>bs_ignore_reset := False\<rparr>)
     }"

definition ps_get_ipl_zero :: "ps_config \<Rightarrow> (u32, 'a bus_state_scheme) prog" where
  "ps_get_ipl_zero cf s =
     do { (value, s) \<leftarrow> gpio_level cf s; Some (LE32 value AND LE32 (pin (cf_pin_ipl_zero cf)), s) }"

definition PM_RSTC :: u64 where "PM_RSTC = 0xf210001c"
definition PM_RSTS :: u64 where "PM_RSTS = 0xf2100020"
definition PM_WDOG :: u64 where "PM_WDOG = 0xf2100024"

text \<open>One turn of the housekeeper loop; \<open>True\<close> when it has restarted the machine.\<close>

definition housekeeper_turn :: "ps_config \<Rightarrow> (bool, 'a bus_state_scheme) prog" where
  "housekeeper_turn cf s =
     do {
       (p, s) \<leftarrow> gpio_level cf s;
       let s = s\<lparr>bs_ipl := (if p AND pin (cf_pin_ipl_zero cf) \<noteq> 0 then 0 else 1)\<rparr>;
       if p AND pin (cf_pin_reset cf) = 0 \<and> \<not> bs_ignore_reset s
       then do {
         (r, s) \<leftarrow> rd32le PM_RSTS s;
         let r = r AND NOT 0xfffffaaa;
         let s = wr32le PM_RSTS (0x5a000000 OR r) s;
         let s = wr32le PM_WDOG (0x5a000000 OR 10) s;
         Some (True, wr32le PM_RSTC (0x5a000000 OR 0x20) s)
       }
       else Some (False, s)
     }"

end
