(* ===== verification/BusSpec.thy ===== *)
theory BusSpec
  imports PsBus
begin

text \<open>
  What the GPIO writes of the bus driver mean to the interface on the other side, and the
  theorem that every write of the driver is the big-endian store of its value. The interface
  is the documented one of the PiStorm: a rising edge of the write pin latches the data pins
  into the register selected by the two register pins, and a write to the high address
  register starts the transaction its upper byte names.
\<close>

section \<open>The interface\<close>

record pin_view =
  pv_pins :: u32
  pv_reg :: "u32 \<Rightarrow> u16"
  pv_mem :: "u32 \<Rightarrow> u8"

definition latched_address :: "ps_config \<Rightarrow> pin_view \<Rightarrow> u32" where
  "latched_address cf p =
     push_bit 16 (ucast (pv_reg p (cf_reg_addr_hi cf)) AND 0xff) OR ucast (pv_reg p (cf_reg_addr_lo cf))"

definition start_transaction :: "ps_config \<Rightarrow> pin_view \<Rightarrow> pin_view" where
  "start_transaction cf p =
     (let op = drop_bit 8 (pv_reg p (cf_reg_addr_hi cf)); a = latched_address cf p;
          d = pv_reg p (cf_reg_data cf); hi = ucast (drop_bit 8 d); lo = ucast d
      in if op = 0 then p\<lparr>pv_mem := (pv_mem p)(a := hi, a + 1 := lo)\<rparr>
         else if op = 1 then p\<lparr>pv_mem := (pv_mem p)(a := (if bit a 0 then lo else hi))\<rparr>
         else p)"

definition latch :: "ps_config \<Rightarrow> u32 \<Rightarrow> u16 \<Rightarrow> pin_view \<Rightarrow> pin_view" where
  "latch cf reg v p =
     (let p = p\<lparr>pv_reg := (pv_reg p)(reg := v)\<rparr>
      in if reg = cf_reg_addr_hi cf then start_transaction cf p else p)"

definition pin_step :: "ps_config \<Rightarrow> u64 \<times> u32 \<Rightarrow> pin_view \<Rightarrow> pin_view" where
  "pin_step cf w p =
     (if fst w = cf_gpio cf + 4 * 7 then
        let q = pv_pins p OR (snd w) in
        (if \<not> bit (pv_pins p) (cf_pin_wr cf) \<and> bit q (cf_pin_wr cf)
         then latch cf (drop_bit (cf_pin_a0 cf) q AND 3) (ucast (drop_bit 8 q)) (p\<lparr>pv_pins := q\<rparr>)
         else p\<lparr>pv_pins := q\<rparr>)
      else if fst w = cf_gpio cf + 4 * 10 then p\<lparr>pv_pins := pv_pins p AND NOT (snd w)\<rparr>
      else p)"

definition pin_view_of :: "ps_config \<Rightarrow> (u32 \<Rightarrow> u8) \<Rightarrow> (u64 \<times> u32) list \<Rightarrow> pin_view" where
  "pin_view_of cf m ws = foldr (pin_step cf) ws \<lparr>pv_pins = 0, pv_reg = (\<lambda>_. 0), pv_mem = m\<rparr>"

abbreviation view :: "ps_config \<Rightarrow> (u32 \<Rightarrow> u8) \<Rightarrow> 'a io_state_scheme \<Rightarrow> pin_view" where
  "view cf m s \<equiv> pin_view_of cf m (io_writes s)"

text \<open>The Amiga memory after all bus writes of the state, starting from \<open>m\<close>.\<close>

definition bus_memory :: "ps_config \<Rightarrow> (u32 \<Rightarrow> u8) \<Rightarrow> 'a io_state_scheme \<Rightarrow> u32 \<Rightarrow> u8" where
  "bus_memory cf m s = pv_mem (view cf m s)"

fun store_be :: "nat \<Rightarrow> u32 \<Rightarrow> u32 \<Rightarrow> (u32 \<Rightarrow> u8) \<Rightarrow> u32 \<Rightarrow> u8" where
  "store_be 0 a v m = m"
| "store_be (Suc n) a v m = store_be n (a + 1) v (m((a AND 0xffffff) := ucast (drop_bit (8 * n) v)))"

section \<open>Pins and configuration\<close>

definition bus_pins :: "ps_config \<Rightarrow> nat set" where
  "bus_pins cf = {8..<24} \<union> {cf_pin_a0 cf, Suc (cf_pin_a0 cf), cf_pin_wr cf, cf_pin_rd cf}"

definition config_ok :: "ps_config \<Rightarrow> bool" where
  "config_ok cf \<longleftrightarrow>
     cf_pin_a0 cf < 7 \<and> cf_pin_wr cf < 8 \<and> cf_pin_rd cf < 8 \<and>
     cf_pin_wr cf \<notin> {cf_pin_a0 cf, Suc (cf_pin_a0 cf)} \<and>
     cf_pin_rd cf \<notin> {cf_pin_a0 cf, Suc (cf_pin_a0 cf), cf_pin_wr cf} \<and>
     distinct [cf_reg_data cf, cf_reg_addr_lo cf, cf_reg_addr_hi cf] \<and>
     cf_reg_data cf < 4 \<and> cf_reg_addr_lo cf < 4 \<and> cf_reg_addr_hi cf < 4"

definition pins_idle :: "ps_config \<Rightarrow> u32 \<Rightarrow> bool" where
  "pins_idle cf p \<longleftrightarrow> (\<forall>i \<in> bus_pins cf. \<not> bit p i)"

text \<open>Transactions end: the busy pin is low at some later access, whatever was written.\<close>

definition transactions_end :: "ps_config \<Rightarrow> 'a io_state_scheme \<Rightarrow> bool" where
  "transactions_end cf s \<longleftrightarrow>
     (\<forall>ws n. \<exists>k. io_read s ws (n + k) (cf_gpio cf + 4 * 13) AND pin (cf_pin_txn cf) = 0)"

definition bus_ready :: "ps_config \<Rightarrow> 'a bus_state_scheme \<Rightarrow> bool" where
  "bus_ready cf s \<longleftrightarrow>
     config_ok cf \<and> (\<forall>m. pins_idle cf (pv_pins (view cf m s))) \<and>
     (\<forall>i \<in> bus_pins cf. bit (bs_clear_bits s) i) \<and> transactions_end cf s"

lemma bit_pin [simp]: "bit (pin k) i \<longleftrightarrow> i = k \<and> i < 32"
  by (auto simp: pin_def bit_exp_iff)

lemma small_bits:
  assumes "(r :: u32) < 2 ^ k" and "k \<le> i"
  shows "\<not> bit r i"
  using assms
  by (metis bit_take_bit_iff less_mask_eq linorder_not_le take_bit_eq_mask)

lemma reg_bits: "(r :: u32) < 4 \<Longrightarrow> 2 \<le> i \<Longrightarrow> \<not> bit r i"
  by (rule small_bits [of r 2]) simp_all

section \<open>One strobe latches one word\<close>

lemma bit_data_pins:
  assumes "reg < 4" and "v < 0x10000" and "cf_pin_a0 cf < 7"
  shows "bit (data_pins cf v reg) i \<longleftrightarrow>
     8 \<le> i \<and> bit v (i - 8) \<or> cf_pin_a0 cf \<le> i \<and> i < cf_pin_a0 cf + 2 \<and> bit reg (i - cf_pin_a0 cf)"
proof -
  have v: "bit v j \<Longrightarrow> j < 16" for j
    using small_bits [of v 16 j] assms(2) by fastforce
  have r: "bit reg j \<Longrightarrow> j < 2" for j
    using reg_bits [OF assms(1), of j] by fastforce
  show ?thesis
    using assms(3) v r
    by (auto simp: data_pins_def bit_or_iff bit_push_bit_iff dest: v r; fastforce dest: v r)
qed

lemma latch_fields:
  assumes "config_ok cf" and "pins_idle cf p" and "reg < 4" and "v < 0x10000"
  defines "q \<equiv> (p OR data_pins cf v reg) OR pin (cf_pin_wr cf)"
  shows "drop_bit (cf_pin_a0 cf) q AND 3 = reg" and "(ucast (drop_bit 8 q) :: u16) = ucast v"
proof -
  have c: "cf_pin_a0 cf < 7" "cf_pin_wr cf < 8" "cf_pin_wr cf \<noteq> cf_pin_a0 cf" "cf_pin_wr cf \<noteq> Suc (cf_pin_a0 cf)"
    using assms(1) by (auto simp: config_ok_def)
  have p: "\<not> bit p i" if "i \<in> bus_pins cf" for i
    using assms(2) that by (simp add: pins_idle_def)
  have q: "bit q i \<longleftrightarrow> bit p i \<or> bit (data_pins cf v reg) i \<or> (i = cf_pin_wr cf \<and> i < 32)" for i
    by (simp add: q_def bit_or_iff)
  note dp = bit_data_pins [OF assms(3,4) c(1)]
  show "drop_bit (cf_pin_a0 cf) q AND 3 = reg"
  proof (rule bit_word_eqI)
    fix i assume "i < LENGTH(32)"
    have "bit (drop_bit (cf_pin_a0 cf) q AND 3) i \<longleftrightarrow> bit q (cf_pin_a0 cf + i) \<and> i < 2"
      by (auto simp: bit_and_iff bit_drop_bit_eq bits add.commute numeral_eq_Suc bit_Suc)
    also have "\<dots> \<longleftrightarrow> bit reg i"
    proof (cases "i < 2")
      case True
      then show ?thesis
        using c p [of "cf_pin_a0 cf + i"] by (auto simp: q dp bus_pins_def less_2_cases_iff)
    next
      case False
      then show ?thesis using reg_bits [OF assms(3), of i] by simp
    qed
    finally show "bit (drop_bit (cf_pin_a0 cf) q AND 3) i \<longleftrightarrow> bit reg i" .
  qed
  show "(ucast (drop_bit 8 q) :: u16) = ucast v"
  proof (rule bit_word_eqI)
    fix i assume "i < LENGTH(16)"
    then have i: "i < 16" by simp
    have "bit q (8 + i) \<longleftrightarrow> bit v i"
      using c i p [of "8 + i"] by (auto simp: q dp bus_pins_def)
    then show "bit (ucast (drop_bit 8 q) :: u16) i \<longleftrightarrow> bit (ucast v :: u16) i"
      using i by (simp add: bit_ucast_iff bit_drop_bit_eq add.commute)
  qed
qed

lemma view_writes:
  "view cf m (gpio_set cf v s) = pin_step cf (cf_gpio cf + 4 * 7, v) (view cf m s)"
  "view cf m (gpio_clear cf v s) = pin_step cf (cf_gpio cf + 4 * 10, v) (view cf m s)"
  by (simp_all add: pin_view_of_def gpio_set_def gpio_clear_def wr32le_def)

lemma view_direction [frame]: "view cf m (bus_direction cf f s) = view cf m s"
  by (simp add: pin_view_of_def bus_direction_def gpio_fsel_def wr32le_def pin_step_def)

text \<open>The fields of the bus driver do not depend on the writes and accesses.\<close>

definition bus_part where
  "bus_part s = (io_read s, io_clock s, io_freq s, bs_output s, bs_input s, bs_clear_bits s,
     bs_blitwait s, bs_icache s, wb_buffer s, wb_head s, wb_tail s, bs_bitbang_delay s, bs_overlay s,
     bs_board s, bs_board_idx s, bs_ignore_reset s, bs_ipl s, bus_state.more s)"

lemma bus_part_gpio [frame]:
  "bus_part (gpio_set cf v s) = bus_part s"
  "bus_part (gpio_clear cf v s) = bus_part s"
  "bus_part (bus_direction cf f s) = bus_part s"
  "bus_part (s\<lparr>io_n := n\<rparr>) = bus_part s"
  by (simp_all add: bus_part_def gpio_set_def gpio_clear_def bus_direction_def gpio_fsel_def wr32le_def)

lemma bus_part_same:
  assumes "bus_part s = bus_part t"
  shows "bs_clear_bits s = bs_clear_bits t" "bs_output s = bs_output t" "bs_input s = bs_input t"
    "pi4 s = pi4 t" "transactions_end cf s = transactions_end cf t" "bs_blitwait s = bs_blitwait t"
    "wb_head s = wb_head t" "wb_tail s = wb_tail t" "wb_buffer s = wb_buffer t" "io_read s = io_read t"
    "io_clock s = io_clock t" "io_freq s = io_freq t"
  using assms by (simp_all add: bus_part_def pi4_def read_cntfrq_def transactions_end_def)

lemma set_step:
  assumes "bit p (cf_pin_wr cf) \<or> \<not> bit v (cf_pin_wr cf)" and "pv_pins V = p"
  shows "pin_step cf (cf_gpio cf + 4 * 7, v) V = V\<lparr>pv_pins := p OR v\<rparr>"
  using assms by (auto simp: pin_step_def bit_or_iff Let_def)

lemma clear_step: "pin_step cf (cf_gpio cf + 4 * 10, v) V = V\<lparr>pv_pins := pv_pins V AND NOT v\<rparr>"
  by (simp add: pin_step_def)

lemma bus_strobe_part [frame]: "bus_part (bus_strobe cf w s) = bus_part s"
  by (simp add: bus_strobe_def Let_def frame)

lemma latch_pins: "latch cf reg v (p\<lparr>pv_pins := q\<rparr>) = (latch cf reg v p)\<lparr>pv_pins := q\<rparr>"
  by (simp add: latch_def start_transaction_def latched_address_def Let_def)

lemma view_strobe:
  assumes c: "config_ok cf" and idle: "pins_idle cf (pv_pins (view cf m s))"
    and cl: "\<forall>i \<in> bus_pins cf. bit (bs_clear_bits s) i" and r: "reg < 4" and v: "v < 0x10000"
  shows "\<exists>p. pins_idle cf p \<and>
     view cf m (bus_strobe cf (data_pins cf v reg) s) = (latch cf reg (ucast v) (view cf m s))\<lparr>pv_pins := p\<rparr>"
proof -
  let ?V = "view cf m s" and ?w = "data_pins cf v reg" and ?wr = "pin (cf_pin_wr cf)"
  let ?p = "pv_pins ?V"
  let ?q = "(?p OR ?w) OR ?wr"
  let ?L = "latch cf reg (ucast v) ?V"
  have wr: "bit ?wr (cf_pin_wr cf)" "\<not> bit ?p (cf_pin_wr cf)" "\<not> bit ?w (cf_pin_wr cf)"
    using c idle by (auto simp: config_ok_def pins_idle_def bus_pins_def bit_data_pins [OF r v])
  have s1: "pin_step cf (cf_gpio cf + 4 * 7, ?w) ?V = ?V\<lparr>pv_pins := ?p OR ?w\<rparr>"
    by (rule set_step) (use wr in auto)
  have s2: "pin_step cf (cf_gpio cf + 4 * 7, ?wr) (?V\<lparr>pv_pins := ?p OR ?w\<rparr>) = ?L\<lparr>pv_pins := ?q\<rparr>"
    using wr latch_fields [OF c idle r v] by (simp add: pin_step_def bit_or_iff Let_def latch_pins)
  have s3: "pin_step cf (cf_gpio cf + 4 * 7, ?wr) (?L\<lparr>pv_pins := ?q\<rparr>) = ?L\<lparr>pv_pins := ?q\<rparr>"
    by (subst set_step [where p = ?q]) (use wr in \<open>auto simp: bit_or_iff or.assoc\<close>)
  define u where "u = (if pi4 (gpio_set cf ?w s)
      then gpio_clear cf ?wr (gpio_clear cf ?wr (gpio_set cf ?wr (gpio_set cf ?wr (gpio_set cf ?wr (gpio_set cf ?w s)))))
      else gpio_clear cf ?wr (gpio_set cf ?wr (gpio_set cf ?w s)))"
  have u: "\<exists>p. view cf m u = ?L\<lparr>pv_pins := p\<rparr>"
    by (cases "pi4 (gpio_set cf ?w s)")
      (simp_all only: u_def view_writes s1 s2 s3 clear_step if_True if_False, simp_all, blast+)
  then obtain p where p: "view cf m u = ?L\<lparr>pv_pins := p\<rparr>" by blast
  have "bus_part u = bus_part s" by (simp add: u_def frame)
  then have clr: "bs_clear_bits u = bs_clear_bits s" by (rule bus_part_same)
  have st: "bus_strobe cf ?w s = gpio_clear cf (bs_clear_bits s) u"
    by (simp add: bus_strobe_def Let_def u_def [symmetric] clr)
  have "pins_idle cf (p AND NOT (bs_clear_bits s))"
    using cl by (auto simp: pins_idle_def bit_and_iff bit_not_iff)
  then show ?thesis
    by (intro exI [of _ "p AND NOT (bs_clear_bits s)"]) (simp only: st view_writes clear_step p, simp)
qed

section \<open>One cycle is one transaction\<close>

lemma txn_wait_steps:
  assumes "io_read s (io_writes s) (io_n s + k) (cf_gpio cf + 4 * 13) AND pin (cf_pin_txn cf) = 0"
  shows "\<exists>j. txn_wait cf s = Some (skip_io j s)"
  using assms
proof (induction k arbitrary: s)
  case 0
  then have "txn_wait cf s = Some (skip_io 1 s)"
    by (subst txn_wait.simps) (simp add: gpio_level_def rd32le_def)
  then show ?case by blast
next
  case (Suc k)
  show ?case
  proof (cases "io_read s (io_writes s) (io_n s) (cf_gpio cf + 4 * 13) AND pin (cf_pin_txn cf) = 0")
    case True
    then have "txn_wait cf s = Some (skip_io 1 s)"
      by (subst txn_wait.simps) (simp add: gpio_level_def rd32le_def)
    then show ?thesis by blast
  next
    case False
    then have eq: "txn_wait cf s = txn_wait cf (skip_io 1 s)"
      by (subst txn_wait.simps) (simp add: gpio_level_def rd32le_def)
    obtain j where "txn_wait cf (skip_io 1 s) = Some (skip_io j (skip_io 1 s))"
      using Suc.IH [of "skip_io 1 s"] Suc.prems by auto
    then have "txn_wait cf s = Some (skip_io (Suc j) s)"
      by (simp add: eq)
    then show ?thesis by blast
  qed
qed

lemma txn_wait_ends: "transactions_end cf s \<Longrightarrow> \<exists>j. txn_wait cf s = Some (skip_io j s)"
  unfolding transactions_end_def using txn_wait_steps by blast

lemma truncate_gpio [frame]:
  "mirror.truncate (gpio_set cf v s) = mirror.truncate s"
  "mirror.truncate (gpio_clear cf v s) = mirror.truncate s"
  "mirror.truncate (bus_direction cf f s) = mirror.truncate s"
  "mirror.truncate (s\<lparr>io_n := n\<rparr>) = mirror.truncate s"
  by (simp_all add: mirror.truncate_def gpio_set_def gpio_clear_def bus_direction_def gpio_fsel_def wr32le_def)

lemma truncate_strobe [frame]: "mirror.truncate (bus_strobe cf w s) = mirror.truncate s"
  by (simp add: bus_strobe_def Let_def frame)

lemma same_mirror:
  assumes "mirror.truncate s = mirror.truncate t"
  shows "event_queue s = event_queue t" and "event_ring_inv s = event_ring_inv t"
    and "pm_page_meta s = pm_page_meta t" and "pm_enabled s = pm_enabled t" and "pm_latest s = pm_latest t"
  using assms
  by (simp_all add: mirror.truncate_def event_queue_def event_ring_inv_def paula_mirror_pending_def)

lemma view_skip [frame]: "view cf m (s\<lparr>io_n := n\<rparr>) = view cf m s"
  by simp

lemma masked_bits:
  "(a :: u32) AND 0xffffff = a \<Longrightarrow> bit a i \<Longrightarrow> i < 24"
proof -
  assume "a AND 0xffffff = a" "bit a i"
  then have "bit (a AND 0xffffff) i" by simp
  then show ?thesis by (simp add: bit_and_iff bits)
qed

lemma address_parts:
  assumes "(a :: u32) AND 0xffffff = a" and "op = 0 \<or> op = 0x0100 \<or> op = 0x0200 \<or> op = 0x0300"
  shows "push_bit 16 (ucast (ucast (op OR (drop_bit 16 a AND 0x00ff)) :: u16) AND 0xff)
           OR ucast (ucast (a AND 0xffff) :: u16) = a"
    and "drop_bit 8 (ucast (op OR (drop_bit 16 a AND 0x00ff)) :: u16) = ucast (drop_bit 8 op)"
    and "op OR (drop_bit 16 a AND 0x00ff) < 0x10000"
proof -
  note a = masked_bits [OF assms(1)]
  have o: "\<not> bit op i" if "i < 8 \<or> 10 \<le> i" for i
  proof -
    have "bit (768 :: int) i \<longleftrightarrow> 8 \<le> i \<and> i < 10" using bit_int_field [of 768 2 8 i] by simp
    with assms(2) that show ?thesis by (auto simp: bits)
  qed
  have o1: "\<not> bit op (i - 16)" if "i < 24" for i
  proof -
    have "i - 16 < 8" using that by arith
    then show ?thesis using o by blast
  qed
  have o2: "n < 8" if "bit op (8 + n)" for n
  proof (rule ccontr)
    assume "\<not> n < 8"
    then have "10 \<le> 8 + n" by arith
    with o that show False by blast
  qed
  have o3: "n < 16" if "bit op n" for n
  proof (rule ccontr)
    assume "\<not> n < 16"
    then have "10 \<le> n" by arith
    with o that show False by blast
  qed
  have f: "bit (16711680 :: int) i \<longleftrightarrow> 16 \<le> i \<and> i < 24" for i
    using bit_int_field [of 16711680 8 16 i] by simp
  show "push_bit 16 (ucast (ucast (op OR (drop_bit 16 a AND 0x00ff)) :: u16) AND 0xff)
           OR ucast (ucast (a AND 0xffff) :: u16) = a"
    by (rule bit_word_eqI)
      (auto simp: bit_or_iff bit_push_bit_iff bit_ucast_iff bit_and_iff bit_drop_bit_eq bits o o1 f dest: a o2)
  show "drop_bit 8 (ucast (op OR (drop_bit 16 a AND 0x00ff)) :: u16) = ucast (drop_bit 8 op)"
    by (rule bit_word_eqI)
      (auto simp: bit_or_iff bit_push_bit_iff bit_ucast_iff bit_and_iff bit_drop_bit_eq bits o o1 f dest: a o2)
  show "op OR (drop_bit 16 a AND 0x00ff) < 0x10000"
  proof -
    have "op OR (drop_bit 16 a AND 0x00ff) = (op OR (drop_bit 16 a AND 0x00ff)) AND 0xffff"
      by (rule bit_word_eqI)
        (auto simp: bit_or_iff bit_and_iff bits dest: o3)
    also have "\<dots> < 0x10000"
      by (simp add: word_less_nat_alt unat_and_masks)
    finally show ?thesis .
  qed
qed

lemma low_24: "(x :: u32) AND 0xffffff = take_bit 24 x"
  by (simp add: take_bit_eq_mask mask_eq_exp_minus_1)

lemma masked_add: "((a :: u32) AND 0xffffff) + b AND 0xffffff = a + b AND 0xffffff"
proof -
  have m: "(x :: nat) mod 2 ^ 32 mod 2 ^ 24 = x mod 2 ^ 24" for x
    by (rule mod_mod_cancel) simp
  have "unat ((a AND 0xffffff) + b AND 0xffffff) = ((unat a mod 2 ^ 24 + unat b) mod 2 ^ 32) mod 2 ^ 24"
    by (simp add: unat_and_masks unat_word_ariths)
  also have "\<dots> = ((unat a + unat b) mod 2 ^ 32) mod 2 ^ 24"
    unfolding m by (rule mod_add_left_eq)
  also have "\<dots> = unat (a + b AND 0xffffff)"
    by (simp add: unat_and_masks unat_word_ariths)
  finally show ?thesis by (rule unsigned_word_eqI)
qed

lemma masked_twice [simp]: "((a :: u32) AND 0xffffff) AND 0xffffff = a AND 0xffffff"
  by (simp add: and.assoc)

lemma masked_odd [simp]: "((a :: u32) AND 0xffffff) AND 1 = a AND 1"
  by (simp add: and.assoc)

lemma low_bit: "(x :: u32) AND 1 = 0 \<longleftrightarrow> even x"
  by (simp add: and_one_eq even_iff_mod_2_eq_zero)

lemma odd_next: "(a :: u32) AND 1 \<noteq> 0 \<Longrightarrow> (a + 1) AND 1 = 0"
  unfolding low_bit by simp

lemma even_next2: "(a :: u32) AND 1 = 0 \<Longrightarrow> (a + 2) AND 1 = 0"
  unfolding low_bit by simp

lemma even_unat: "(a :: u32) AND 1 = 0 \<Longrightarrow> even (unat a)"
proof -
  assume "a AND 1 = 0"
  then have "even a" by (simp add: and_one_eq even_iff_mod_2_eq_zero)
  then have "\<not> bit a 0" by (simp add: bit_0)
  then have "\<not> bit (unat a) 0" by (simp add: bit_unsigned_iff)
  then show ?thesis by (simp add: bit_0)
qed

lemma even_succ:
  assumes "(a :: u32) AND 1 = 0" and "a AND 0xffffff = a"
  shows "unat (a + 1) = unat a + 1" and "unat a + 1 < 2 ^ 24"
proof -
  have "unat (a AND 0xffffff) < 2 ^ 24" by (simp add: unat_and_masks)
  then have "unat a < 2 ^ 24" using assms(2) by simp
  moreover have "unat a \<noteq> 16777215"
  proof
    assume "unat a = 16777215"
    with even_unat [OF assms(1)] show False by (simp only: odd_numeral)
  qed
  ultimately show "unat a + 1 < 2 ^ 24" by simp
  then show "unat (a + 1) = unat a + 1" by (simp add: unat_add_small)
qed

lemma even_next:
  assumes "(a :: u32) AND 1 = 0"
  shows "(a AND 0xffffff) + 1 = (a + 1) AND 0xffffff"
proof -
  let ?x = "a AND 0xffffff"
  have "?x AND 1 = 0" using assms by simp
  then have "?x + 1 < 2 ^ 24"
    using even_succ [of ?x] by (simp add: word_less_nat_alt)
  then have "(?x + 1) AND 0xffffff = ?x + 1"
    by (metis (no_types) low_24 less_mask_eq take_bit_eq_mask)
  then show ?thesis
    using masked_add [of a 1] by simp
qed

lemma even_same_page:
  assumes "(a :: u32) AND 1 = 0" and "a AND 0xffffff = a"
  shows "(a + 1) div 256 = a div 256"
proof -
  obtain k where k: "unat a = 2 * k" using even_unat [OF assms(1)] by (elim evenE)
  have "(2 * k + 1) div (2 * 128) = 2 * k div (2 * 128)"
    by (simp only: div_mult2_eq) simp
  then have "(unat a + 1) div 256 = unat a div 256" by (simp add: k)
  then show ?thesis
    by (simp add: word_unat_eq_iff unat_div even_succ [OF assms])
qed

text \<open>What both cycles do before the wait: the address is latched with the operation on top.\<close>

lemma low_word_less: "(x :: u32) AND 0xffff < 0x10000"
  by (simp add: word_less_nat_alt unat_and_masks)

lemma ready_parts:
  assumes "bus_ready cf s"
  shows "config_ok cf" and "pins_idle cf (pv_pins (view cf m s))"
    and "\<forall>i \<in> bus_pins cf. bit (bs_clear_bits s) i" and "transactions_end cf s"
    and "cf_reg_data cf < 4" "cf_reg_addr_lo cf < 4" "cf_reg_addr_hi cf < 4"
    and "cf_reg_data cf \<noteq> cf_reg_addr_lo cf" "cf_reg_data cf \<noteq> cf_reg_addr_hi cf" "cf_reg_addr_lo cf \<noteq> cf_reg_addr_hi cf"
  using assms by (auto simp: bus_ready_def config_ok_def)

lemma strobe_ready:
  assumes "bus_ready cf s" and "reg < 4" and "v < 0x10000"
  shows "bus_ready cf (bus_strobe cf (data_pins cf v reg) s)"
    and "\<exists>p. view cf m (bus_strobe cf (data_pins cf v reg) s) = (latch cf reg (ucast v) (view cf m s))\<lparr>pv_pins := p\<rparr>"
proof -
  note r = ready_parts [OF assms(1)]
  have "bus_part (bus_strobe cf (data_pins cf v reg) s) = bus_part s" by (simp add: frame)
  note same = bus_part_same [OF this]
  have idle: "pins_idle cf (pv_pins (view cf m (bus_strobe cf (data_pins cf v reg) s)))" for m
    using view_strobe [OF r(1,2,3) assms(2,3), of m] by auto
  then show "bus_ready cf (bus_strobe cf (data_pins cf v reg) s)"
    using r same by (simp add: bus_ready_def)
  show "\<exists>p. view cf m (bus_strobe cf (data_pins cf v reg) s) = (latch cf reg (ucast v) (view cf m s))\<lparr>pv_pins := p\<rparr>"
    using view_strobe [OF r(1,2,3) assms(2,3), of m] by blast
qed

lemma same_ready:
  assumes "bus_part t = bus_part s" and "\<And>m. view cf m t = view cf m s" and "bus_ready cf s"
  shows "bus_ready cf t"
  using assms(3) by (simp add: bus_ready_def assms(2) bus_part_same(1) [OF assms(1)] bus_part_same(5) [OF assms(1)])

lemma direction_ready: "bus_ready cf s \<Longrightarrow> bus_ready cf (bus_direction cf f s)"
  by (rule same_ready) (simp_all add: frame)

lemma skip_ready: "bus_ready cf s \<Longrightarrow> bus_ready cf (s\<lparr>io_n := n\<rparr>)"
  by (rule same_ready) (simp_all add: frame)

text \<open>The memory after the transaction a write cycle starts.\<close>

definition cycle_store :: "u32 \<Rightarrow> u32 \<Rightarrow> u32 \<Rightarrow> (u32 \<Rightarrow> u8) \<Rightarrow> u32 \<Rightarrow> u8" where
  "cycle_store op a d m =
     (if op = 0 then m(a := ucast (drop_bit 8 d), a + 1 := ucast d)
      else m(a := (if bit a 0 then ucast d else ucast (drop_bit 8 d))))"

lemma latch_transaction:
  assumes "bus_ready cf s" and a: "a AND 0xffffff = a" and op: "op = 0 \<or> op = 0x0100"
    and lo: "pv_reg V (cf_reg_addr_lo cf) = ucast (a AND 0xffff)"
    and d: "pv_reg V (cf_reg_data cf) = ucast (d AND 0xffff)"
  shows "pv_mem (latch cf (cf_reg_addr_hi cf) (ucast (op OR (drop_bit 16 a AND 0x00ff))) V)
           = cycle_store op a d (pv_mem V)"
proof -
  note r = ready_parts [OF assms(1)]
  have op4: "op = 0 \<or> op = 0x0100 \<or> op = 0x0200 \<or> op = 0x0300" using op by blast
  note ap = address_parts [OF a op4]
  let ?V = "V\<lparr>pv_reg := (pv_reg V)(cf_reg_addr_hi cf := ucast (op OR (drop_bit 16 a AND 0x00ff)))\<rparr>"
  have adr: "latched_address cf ?V = a"
    using ap(1) r(10) by (simp add: latched_address_def lo)
  have hi: "(ucast (drop_bit 8 (ucast (d AND 0xffff) :: u16)) :: u8) = ucast (drop_bit 8 d)"
    by (rule bit_word_eqI) (auto simp: bit_ucast_iff bit_drop_bit_eq bit_and_iff bits)
  have low: "(ucast (ucast (d AND 0xffff) :: u16) :: u8) = ucast d"
    by (rule bit_word_eqI) (auto simp: bit_ucast_iff bit_and_iff bits)
  have regs: "pv_reg ?V (cf_reg_data cf) = ucast (d AND 0xffff)"
    "drop_bit 8 (pv_reg ?V (cf_reg_addr_hi cf)) = ucast (drop_bit 8 op)" "pv_mem ?V = pv_mem V"
    using r(9) d ap(2) by simp_all
  have "latch cf (cf_reg_addr_hi cf) (ucast (op OR (drop_bit 16 a AND 0x00ff))) V = start_transaction cf ?V"
    by (simp add: latch_def Let_def)
  moreover have "pv_mem (start_transaction cf ?V) = cycle_store op a d (pv_mem V)"
    unfolding start_transaction_def Let_def adr regs using op
    by (elim disjE) (simp_all add: hi low cycle_store_def)
  ultimately show ?thesis by simp
qed

lemma write_cycle_result:
  assumes ready: "bus_ready cf s" and a: "a AND 0xffffff = a" and op: "op = 0 \<or> op = 0x0100"
  shows "\<exists>t. write_cycle cf op a d s = Some t \<and> bus_ready cf t \<and> bus_part t = bus_part s \<and>
     mirror.truncate t = mirror.truncate s \<and> (\<forall>m. bus_memory cf m t = cycle_store op a d (bus_memory cf m s))"
proof -
  have op4: "op = 0 \<or> op = 0x0100 \<or> op = 0x0200 \<or> op = 0x0300" using op by blast
  note r = ready_parts [OF ready] and ap = address_parts [OF a op4]
  define s0 where "s0 = bus_direction cf (bs_output s) s"
  define s1 where "s1 = bus_strobe cf (data_pins cf (d AND 0xffff) (cf_reg_data cf)) s0"
  define s2 where "s2 = bus_strobe cf (data_pins cf (a AND 0xffff) (cf_reg_addr_lo cf)) s1"
  define s3 where "s3 = bus_strobe cf (data_pins cf (op OR (drop_bit 16 a AND 0x00ff)) (cf_reg_addr_hi cf)) s2"
  define s4 where "s4 = bus_direction cf (bs_input s3) s3"
  have b0: "bus_ready cf s0" unfolding s0_def by (rule direction_ready) (rule ready)
  have b1: "bus_ready cf s1" unfolding s1_def by (rule strobe_ready [OF b0 r(5) low_word_less])
  have b2: "bus_ready cf s2" unfolding s2_def by (rule strobe_ready [OF b1 r(6) low_word_less])
  have b3: "bus_ready cf s3" unfolding s3_def by (rule strobe_ready [OF b2 r(7) ap(3)])
  have b4: "bus_ready cf s4" unfolding s4_def by (rule direction_ready) (rule b3)
  obtain j where j: "txn_wait cf s4 = Some (skip_io j s4)"
    using txn_wait_ends [OF ready_parts(4) [OF b4]] by blast
  have cyc: "write_cycle cf op a d s = Some (skip_io j s4)"
    unfolding write_cycle_def Let_def
    by (simp only: s0_def [symmetric] s1_def [symmetric] s2_def [symmetric] s3_def [symmetric] s4_def [symmetric] j)
  have mem: "bus_memory cf m s4 = cycle_store op a d (bus_memory cf m s)" for m
  proof -
    have v0: "view cf m s0 = view cf m s" by (simp only: s0_def frame)
    obtain p1 where v1: "view cf m s1 = (latch cf (cf_reg_data cf) (ucast (d AND 0xffff)) (view cf m s0))\<lparr>pv_pins := p1\<rparr>"
      unfolding s1_def using strobe_ready(2) [OF b0 r(5) low_word_less] by blast
    obtain p2 where v2: "view cf m s2 = (latch cf (cf_reg_addr_lo cf) (ucast (a AND 0xffff)) (view cf m s1))\<lparr>pv_pins := p2\<rparr>"
      unfolding s2_def using strobe_ready(2) [OF b1 r(6) low_word_less] by blast
    obtain p3 where v3: "view cf m s3 = (latch cf (cf_reg_addr_hi cf) (ucast (op OR (drop_bit 16 a AND 0x00ff)))
        (view cf m s2))\<lparr>pv_pins := p3\<rparr>"
      unfolding s3_def using strobe_ready(2) [OF b2 r(7) ap(3)] by blast
    have lo: "pv_reg (view cf m s2) (cf_reg_addr_lo cf) = ucast (a AND 0xffff)"
      and dat: "pv_reg (view cf m s2) (cf_reg_data cf) = ucast (d AND 0xffff)"
      and mem2: "pv_mem (view cf m s2) = pv_mem (view cf m s)"
      using r by (simp_all add: v2 v1 v0 latch_def)
    have "view cf m s4 = view cf m s3" by (simp only: s4_def frame)
    then show ?thesis
      using latch_transaction [OF ready a op lo dat] by (simp add: bus_memory_def v3 mem2)
  qed
  have "bus_part (skip_io j s4) = bus_part s" and "mirror.truncate (skip_io j s4) = mirror.truncate s"
    by (simp_all add: s4_def s3_def s2_def s1_def s0_def frame)
  moreover have "bus_ready cf (skip_io j s4)" by (rule skip_ready) (rule b4)
  moreover have "bus_memory cf m (skip_io j s4) = bus_memory cf m s4" for m
    by (simp add: bus_memory_def)
  ultimately show ?thesis using cyc mem by simp
qed

section \<open>The mirror sees every write\<close>

lemma capture_more [frame]: "mirror.more (paula_mirror_capture n1 n2 a v w s) = mirror.more s"
  by (simp add: paula_mirror_capture_def capture_dropped_def Let_def)

lemma invalidate_page_more: "mirror.more (invalidate_page p s) = mirror.more s"
  by (simp add: invalidate_page_def invalidate_cas_def invalidate_account_def Let_def)

lemma fold_invariant: "(\<And>x s. f (g x s) = f s) \<Longrightarrow> f (fold g xs s) = f s"
  by (induction xs arbitrary: s) simp_all

lemma invalidate_more [frame]: "mirror.more (paula_mirror_invalidate a w s) = mirror.more s"
  by (simp add: paula_mirror_invalidate_def Let_def fold_invariant [of mirror.more, OF invalidate_page_more])

lemma more_bus:
  fixes s t :: "'a bus_state_scheme"
  assumes "mirror.more s = mirror.more t"
  shows "bus_part s = bus_part t" and "io_writes s = io_writes t" and "io_n s = io_n t"
  using assms by (cases s; cases t; simp add: bus_part_def)+

lemma mirror_write_bus [frame]:
  fixes s :: "'a bus_state_scheme"
  shows "bus_part (mirror_write a v w s) = bus_part s" and "io_writes (mirror_write a v w s) = io_writes s"
proof -
  have m: "mirror.more (mirror_write a v w s) = mirror.more (s\<lparr>io_n := io_n s + 2\<rparr>)"
    by (simp add: mirror_write_def frame)
  show "bus_part (mirror_write a v w s) = bus_part s"
    using more_bus(1) [OF m] by (simp add: frame)
  show "io_writes (mirror_write a v w s) = io_writes s"
    using more_bus(2) [OF m] by simp
qed

lemma mirror_write_ready: "bus_ready cf s \<Longrightarrow> bus_ready cf (mirror_write a v w s)"
  by (rule same_ready) (simp_all add: frame)

lemma mirror_write_memory: "bus_memory cf m (mirror_write a v w (s :: 'a bus_state_scheme)) = bus_memory cf m s"
  by (simp add: bus_memory_def frame)

lemma capture_pages [frame]:
  "pm_page_meta (paula_mirror_capture n1 n2 a v w s) = pm_page_meta s"
  "pm_enabled (paula_mirror_capture n1 n2 a v w s) = pm_enabled s"
  by (simp_all add: paula_mirror_capture_def capture_dropped_def Let_def)

lemma invalidate_page_meta:
  "pm_page_meta (invalidate_page p s) = (pm_page_meta s)(p := invalidate_next (pm_page_meta s p))"
  "pm_enabled (invalidate_page p s) = pm_enabled s"
  "event_queue (invalidate_page p s) = event_queue s"
  "event_ring_inv (invalidate_page p s) = event_ring_inv s"
  by (simp_all add: invalidate_page_def invalidate_cas_def invalidate_account_def Let_def event_queue_def
      event_ring_inv_def paula_mirror_pending_def)

lemma invalidate_next_not_ready: "page_state (invalidate_next w) \<noteq> 3"
  using invalidate_next_words [of w] by (cases "page_state w = 3") auto

lemma invalidate_pages_meta:
  "page_state (pm_page_meta (fold invalidate_page ps s) p) \<noteq> 3
     \<longleftrightarrow> p \<in> set ps \<or> page_state (pm_page_meta s p) \<noteq> 3"
proof (induction ps arbitrary: s)
  case Nil
  show ?case by simp
next
  case (Cons q ps)
  show ?case
    using invalidate_next_not_ready [of "pm_page_meta s p"]
    by (auto simp: Cons invalidate_page_meta(1) invalidate_next_words)
qed

text \<open>No cached copy of these bytes is in use.\<close>

definition not_cached :: "u32 set \<Rightarrow> 'a mirror_scheme \<Rightarrow> bool" where
  "not_cached A s \<longleftrightarrow>
     (\<forall>a\<in>A. a < PAULA_MIRROR_CHIP_LIMIT \<longrightarrow> page_state (pm_page_meta s (unat (a div PAULA_MIRROR_PAGE_SIZE))) \<noteq> 3)"

lemma mirror_write_events:
  assumes "event_ring_inv s" and "length (event_queue s) < 8192"
  shows "event_ring_inv (mirror_write a v w s)"
    and "event_queue (mirror_write a v w s) =
      event_queue s @ (let b = \<lparr>bw_now1 = io_clock s (io_n s), bw_now2 = io_clock s (Suc (io_n s)), bw_addr = a,
                               bw_value = v, bw_width = w\<rparr>
                       in if captures b then [event_of b] else [])"
proof -
  let ?b = "\<lparr>bw_now1 = io_clock s (io_n s), bw_now2 = io_clock s (Suc (io_n s)), bw_addr = a,
             bw_value = v, bw_width = w\<rparr>"
  let ?s = "s\<lparr>io_n := io_n s + 2\<rparr>"
  have c: "mirror_write a v w s = paula_mirror_invalidate a w (capture_write ?b ?s)"
    by (simp add: mirror_write_def capture_write_def)
  have q: "event_queue (paula_mirror_invalidate a w t) = event_queue t"
    and i: "event_ring_inv (paula_mirror_invalidate a w t) = event_ring_inv t" for t :: "'b mirror_scheme"
    by (simp_all add: paula_mirror_invalidate_def Let_def
        fold_invariant [of event_queue] fold_invariant [of event_ring_inv] invalidate_page_meta)
  have s: "event_ring_inv ?s" "event_queue ?s = event_queue s"
    using assms(1) by (simp_all add: event_ring_inv_def event_queue_def paula_mirror_pending_def)
  show "event_ring_inv (mirror_write a v w s)"
    using event_queue_capture(2) [OF s(1), of ?b] capture_idle [of ?b ?s] s assms(2)
    by (cases "captures ?b") (simp_all add: c i)
  show "event_queue (mirror_write a v w s) = event_queue s @ (let b = ?b in if captures b then [event_of b] else [])"
    using event_queue_capture(1) [OF s(1), of ?b] capture_idle [of ?b ?s] s assms(2)
    by (cases "captures ?b") (simp_all add: c q)
qed

lemma mirror_write_pages:
  shows "pm_enabled (mirror_write a v w s) = pm_enabled s"
    and "not_cached B s \<Longrightarrow> not_cached B (mirror_write a v w s)"
    and "pm_enabled s \<noteq> 0 \<Longrightarrow> a AND 0xffffff = a \<Longrightarrow> w = 1 \<or> w = 2 \<and> a AND 1 = 0 \<Longrightarrow>
           not_cached ({a} \<union> (if w = 2 then {a + 1} else {})) (mirror_write a v w s)"
proof -
  let ?s = "s\<lparr>io_n := io_n s + 2\<rparr>"
  have en: "pm_enabled (paula_mirror_invalidate a w t) = pm_enabled t" for t :: "'b mirror_scheme"
    by (simp add: paula_mirror_invalidate_def Let_def fold_invariant [of pm_enabled] invalidate_page_meta)
  show e: "pm_enabled (mirror_write a v w s) = pm_enabled s"
    by (simp add: mirror_write_def en frame)
  have keep: "not_cached B t \<Longrightarrow> not_cached B (paula_mirror_invalidate a w t)" for t :: "'b mirror_scheme"
    by (auto simp: not_cached_def paula_mirror_invalidate_def Let_def invalidate_pages_meta)
  show "not_cached B s \<Longrightarrow> not_cached B (mirror_write a v w s)"
    unfolding mirror_write_def by (rule keep) (simp add: not_cached_def frame)
  assume on: "pm_enabled s \<noteq> 0" and a: "a AND 0xffffff = a" and w: "w = 1 \<or> w = 2 \<and> a AND 1 = 0"
  define u where "u = paula_mirror_capture (io_clock s (io_n s)) (io_clock s (Suc (io_n s))) a v w ?s"
  have on': "pm_enabled u \<noteq> 0" using on by (simp add: u_def frame)
  have range: "invalidate_range a w = [unat (a div 256)]" if "a < 0x200000"
  proof -
    have "a + w - 1 = a \<or> a + w - 1 = a + 1 \<and> a AND 1 = 0" using w by auto
    then have "(a + w - 1) div 256 = a div 256" using even_same_page [OF _ a] by (auto simp: add.commute)
    moreover have "\<not> 8192 \<le> a div 256"
      using that by (simp add: word_le_nat_alt word_less_nat_alt unat_div)
    ultimately show ?thesis by (simp add: invalidate_range_def)
  qed
  have up: "a < 0x200000 \<and> (a + 1) div 256 = a div 256" if "w = 2" "a + 1 < 0x200000"
    using that w even_succ [OF _ a] even_same_page [OF _ a] by (auto simp: word_less_nat_alt)
  have "not_cached ({a} \<union> (if w = 2 then {a + 1} else {})) (paula_mirror_invalidate a w u)"
  proof (cases "a < 0x200000")
    case True
    then have "paula_mirror_invalidate a w u = fold invalidate_page [unat (a div 256)] u"
      using on' w range by (auto simp: paula_mirror_invalidate_def Let_def a)
    then show ?thesis
      using up invalidate_next_not_ready by (auto simp: not_cached_def invalidate_page_meta)
  next
    case False
    then show ?thesis using up by (auto simp: not_cached_def)
  qed
  then show "not_cached ({a} \<union> (if w = 2 then {a + 1} else {})) (mirror_write a v w s)"
    by (simp only: mirror_write_def u_def)
qed

section \<open>Writes of every width\<close>

definition event_key :: "paula_mirror_event \<Rightarrow> u32 \<times> u16 \<times> u8" where
  "event_key e = (ev_address e, ev_value e, ev_width e)"

text \<open>The bus transactions of a write: masked address, value and width of each.\<close>

definition transaction_key :: "u32 \<times> u32 \<times> u32 \<Rightarrow> u32 \<times> u16 \<times> u8" where
  "transaction_key x = (case x of (a, v, w) \<Rightarrow> (a AND 0xffffff, ucast v, ucast w))"

definition audio_transaction :: "u32 \<times> u32 \<times> u32 \<Rightarrow> bool" where
  "audio_transaction x =
     (let a = fst x AND 0xffffff in a AND 0xfff000 = 0xdff000 \<and> is_audio_register a)"

definition wrote ::
    "ps_config \<Rightarrow> u32 set \<Rightarrow> (u32 \<times> u32 \<times> u32) list \<Rightarrow> 'a bus_state_scheme \<Rightarrow> 'a bus_state_scheme \<Rightarrow> bool" where
  "wrote cf A xs s t \<longleftrightarrow>
     bus_ready cf t \<and> bus_part t = bus_part s \<and> pm_enabled t = pm_enabled s \<and>
     (\<forall>B. not_cached B s \<longrightarrow> not_cached B t) \<and> (pm_enabled s \<noteq> 0 \<longrightarrow> not_cached A t) \<and>
     (event_ring_inv s \<and> length (event_queue s) + length xs \<le> 8192 \<longrightarrow>
        event_ring_inv t \<and> map event_key (event_queue t)
          = map event_key (event_queue s) @ map transaction_key (filter audio_transaction xs))"

lemma wrote_trans:
  assumes "wrote cf A xs s t" and "wrote cf B ys t u"
  shows "wrote cf (A \<union> B) (xs @ ys) s u"
proof -
  have nc: "not_cached (A \<union> B) u" if "pm_enabled s \<noteq> 0"
    using assms that by (auto simp: wrote_def not_cached_def)
  have ev: "event_ring_inv u \<and> map event_key (event_queue u)
      = map event_key (event_queue s) @ map transaction_key (filter audio_transaction (xs @ ys))"
    if r: "event_ring_inv s" "length (event_queue s) + length (xs @ ys) \<le> 8192"
  proof -
    have t: "event_ring_inv t" "map event_key (event_queue t)
        = map event_key (event_queue s) @ map transaction_key (filter audio_transaction xs)"
      using assms(1) r by (auto simp: wrote_def)
    have "length (event_queue t) = length (event_queue s) + length (filter audio_transaction xs)"
      using arg_cong [OF t(2), of length] by simp
    then have "length (event_queue t) + length ys \<le> 8192"
      using r(2) length_filter_le [of audio_transaction xs] unfolding length_append by linarith
    with t show ?thesis using assms(2) by (auto simp: wrote_def)
  qed
  show ?thesis
    using assms nc ev by (simp add: wrote_def)
qed

lemma mirror_write_wrote:
  assumes ready: "bus_ready cf t" and part: "bus_part t = bus_part s" and mir: "mirror.truncate t = mirror.truncate s"
    and a: "a AND 0xffffff = a" and w: "w = 1 \<or> w = 2 \<and> a AND 1 = 0"
  shows "wrote cf ({a} \<union> (if w = 2 then {a + 1} else {})) [(a, v, w)] s (mirror_write a v w t)"
proof -
  note m = same_mirror [OF mir]
  have nc: "not_cached B t = not_cached B s" for B
    by (simp add: not_cached_def m)
  let ?b = "\<lparr>bw_now1 = io_clock t (io_n t), bw_now2 = io_clock t (Suc (io_n t)), bw_addr = a,
             bw_value = v, bw_width = w\<rparr>"
  have ev: "event_ring_inv (mirror_write a v w t) \<and> map event_key (event_queue (mirror_write a v w t))
      = map event_key (event_queue s) @ map transaction_key (filter audio_transaction [(a, v, w)])"
    if "event_ring_inv s" "length (event_queue s) + 1 \<le> 8192"
  proof -
    have r: "event_ring_inv t" "length (event_queue t) < 8192" using that m by simp_all
    have "captures ?b = audio_transaction (a, v, w)"
      by (simp add: captures_def audio_transaction_def)
    moreover have "event_key (event_of ?b) = transaction_key (a, v, w)"
      by (simp add: event_key_def event_of_def transaction_key_def)
    ultimately show ?thesis
      using mirror_write_events [OF r] m by (simp add: Let_def)
  qed
  show ?thesis
    unfolding wrote_def
    using mirror_write_ready [OF ready] mirror_write_pages(1) [of a v w t] mirror_write_pages(2) [of _ t a v w]
      mirror_write_pages(3) [of t a w v] part nc m(4) ev a w
    by (auto simp: frame)
qed

lemma write_8_result:
  assumes "bus_ready cf s"
  shows "\<exists>t. ps_write_8_int cf a d s = Some t \<and> wrote cf {a AND 0xffffff} [(a AND 0xffffff, d AND 0xff, 1)] s t \<and>
     (\<forall>m. bus_memory cf m t = store_be 1 a d (bus_memory cf m s))"
proof -
  let ?a = "a AND 0xffffff" and ?d = "(d AND 0xff) OR push_bit 8 d"
  obtain t where t: "write_cycle cf 0x0100 ?a ?d s = Some t" "bus_ready cf t" "bus_part t = bus_part s"
    "mirror.truncate t = mirror.truncate s" "\<forall>m. bus_memory cf m t = cycle_store 0x0100 ?a ?d (bus_memory cf m s)"
    using write_cycle_result [OF assms, of ?a "0x0100" ?d] by auto
  have lane: "(ucast ?d :: u8) = ucast d" "(ucast (drop_bit 8 ?d) :: u8) = ucast d"
    by (rule bit_word_eqI; auto simp: bit_ucast_iff bit_or_iff bit_and_iff bit_push_bit_iff bit_drop_bit_eq bits)+
  have "wrote cf {?a} [(?a, d AND 0xff, 1)] s (mirror_write ?a (d AND 0xff) 1 t)"
    using mirror_write_wrote [OF t(2,3,4), of ?a 1 "d AND 0xff"] by simp
  moreover have "bus_memory cf m (mirror_write ?a (d AND 0xff) 1 t) = store_be 1 a d (bus_memory cf m s)" for m
    using t(5) lane by (simp add: mirror_write_memory cycle_store_def)
  ultimately show ?thesis
    using t(1) by (simp add: ps_write_8_int_def Let_def)
qed

lemma write_16_even:
  assumes "bus_ready cf s" and "a AND 1 = 0"
  shows "\<exists>t. ps_write_16_int cf a d s = Some t \<and>
     wrote cf {a AND 0xffffff, (a + 1) AND 0xffffff} [(a AND 0xffffff, d, 2)] s t \<and>
     (\<forall>m. bus_memory cf m t = store_be 2 a d (bus_memory cf m s))"
proof -
  let ?a = "a AND 0xffffff"
  obtain t where t: "write_cycle cf 0 ?a d s = Some t" "bus_ready cf t" "bus_part t = bus_part s"
    "mirror.truncate t = mirror.truncate s" "\<forall>m. bus_memory cf m t = cycle_store 0 ?a d (bus_memory cf m s)"
    using write_cycle_result [OF assms(1), of ?a 0 d] by auto
  have "wrote cf {?a, ?a + 1} [(?a, d, 2)] s (mirror_write ?a d 2 t)"
    using mirror_write_wrote [OF t(2,3,4), of ?a 2 d] assms(2) by (simp add: insert_commute)
  moreover have "bus_memory cf m (mirror_write ?a d 2 t) = store_be 2 a d (bus_memory cf m s)" for m
    using t(5) by (simp add: mirror_write_memory cycle_store_def numeral_2_eq_2 even_next [OF assms(2)])
  ultimately show ?thesis
    using t(1) assms(2) by (simp add: ps_write_16_int_def Let_def even_next)
qed

lemma store_be_byte: "store_be 1 a v m = m((a AND 0xffffff) := ucast v)"
  by simp

lemma store_be_add: "store_be (i + j) a v m = store_be j (a + word_of_nat i) v (store_be i a (drop_bit (8 * j) v) m)"
proof (induction i arbitrary: a m)
  case 0
  show ?case by simp
next
  case (Suc i)
  have "a + 1 + word_of_nat i = a + word_of_nat (Suc i)" by simp
  moreover have "drop_bit (8 * (i + j)) v = drop_bit (8 * i) (drop_bit (8 * j) v)"
    by (simp add: algebra_simps)
  ultimately show ?case
    by (simp only: add_Suc store_be.simps Suc.IH)
qed

lemma store_be_long:
  "store_be 4 a v m = m((a AND 0xffffff) := ucast (drop_bit 24 v), ((a + 1) AND 0xffffff) := ucast (drop_bit 16 v),
     ((a + 2) AND 0xffffff) := ucast (drop_bit 8 v), ((a + 3) AND 0xffffff) := ucast v)"
proof -
  have "store_be 4 a v m = store_be (Suc (Suc (Suc (Suc 0)))) a v m" by (simp add: numeral_eq_Suc)
  then show ?thesis by (simp add: add.assoc)
qed

lemma store_be_masked: "store_be n (a AND 0xffffff) v m = store_be n a v m"
proof (induction n arbitrary: a m)
  case 0
  show ?case by simp
next
  case (Suc n)
  have "store_be n ((a AND 0xffffff) + 1) v m' = store_be n (a + 1) v m'" for m'
    using Suc.IH [of "(a AND 0xffffff) + 1"] Suc.IH [of "a + 1"] by (simp add: masked_add)
  then show ?case by simp
qed

text \<open>The transactions of a write.\<close>

definition transactions_16 :: "u32 \<Rightarrow> u32 \<Rightarrow> (u32 \<times> u32 \<times> u32) list" where
  "transactions_16 a d =
     (if a AND 1 = 0 then [(a AND 0xffffff, d, 2)]
      else [(a AND 0xffffff, drop_bit 8 d AND 0xff, 1), ((a + 1) AND 0xffffff, d AND 0xff, 1)])"

definition transactions_32 :: "u32 \<Rightarrow> u32 \<Rightarrow> (u32 \<times> u32 \<times> u32) list" where
  "transactions_32 a d =
     (if a AND 1 = 0 then transactions_16 a (drop_bit 16 d) @ transactions_16 (a + 2) d
      else [(a AND 0xffffff, drop_bit 24 d AND 0xff, 1)] @ transactions_16 (a + 1) (drop_bit 8 d)
           @ [((a + 3) AND 0xffffff, d AND 0xff, 1)])"

definition written :: "u32 \<Rightarrow> nat \<Rightarrow> u32 set" where
  "written a n = (\<lambda>i. (a + word_of_nat i) AND 0xffffff) ` {..<n}"

lemma written_add: "written a (i + j) = written a i \<union> written (a + word_of_nat i) j"
proof -
  have "{..<i + j} = {..<i} \<union> {i..<i + j}" by auto
  also have "{i..<i + j} = (\<lambda>k. k + i) ` {..<j}"
    by (simp add: lessThan_atLeast0 image_add_atLeastLessThan' add.commute)
  finally show ?thesis
    by (simp add: written_def image_Un image_image add.commute add.left_commute)
qed

lemma written_small: "written a 1 = {a AND 0xffffff}" "written a 2 = {a AND 0xffffff, (a + 1) AND 0xffffff}"
  "written a (Suc 0) = {a AND 0xffffff}"
  by (auto simp: written_def lessThan_Suc numeral_2_eq_2)

lemma write_16_result:
  assumes "bus_ready cf s"
  shows "\<exists>t. ps_write_16_int cf a d s = Some t \<and> wrote cf (written a 2) (transactions_16 a d) s t \<and>
     (\<forall>m. bus_memory cf m t = store_be 2 a d (bus_memory cf m s))"
proof (cases "a AND 1 = 0")
  case True
  then show ?thesis
    using write_16_even [OF assms True] by (simp add: transactions_16_def written_small)
next
  case False
  let ?a = "a AND 0xffffff"
  obtain t where t: "ps_write_8_int cf ?a (drop_bit 8 d) s = Some t"
    "wrote cf {?a} [(?a, drop_bit 8 d AND 0xff, 1)] s t"
    "\<forall>m. bus_memory cf m t = store_be 1 ?a (drop_bit 8 d) (bus_memory cf m s)"
    using write_8_result [OF assms, of ?a "drop_bit 8 d"] by auto
  have "bus_ready cf t" using t(2) by (simp add: wrote_def)
  then obtain u where u: "ps_write_8_int cf (?a + 1) (d AND 0xff) t = Some u"
    "wrote cf {(a + 1) AND 0xffffff} [((a + 1) AND 0xffffff, d AND 0xff, 1)] t u"
    "\<forall>m. bus_memory cf m u = store_be 1 (?a + 1) (d AND 0xff) (bus_memory cf m t)"
    using write_8_result [of cf t "?a + 1" "d AND 0xff"] by (auto simp: masked_add and.assoc)
  have "wrote cf (written a 2) (transactions_16 a d) s u"
    using wrote_trans [OF t(2) u(2)] False by (simp add: transactions_16_def written_small insert_commute)
  moreover have "(ucast (d AND 0xff) :: u8) = ucast d"
    by (rule bit_word_eqI) (auto simp: bit_ucast_iff bit_and_iff bits)
  then have "bus_memory cf m u = store_be 2 a d (bus_memory cf m s)" for m
    using t(3) u(3) by (simp add: numeral_2_eq_2 masked_add)
  ultimately show ?thesis
    using t(1) u(1) False by (simp add: ps_write_16_int_def Let_def)
qed

lemma write_32_result:
  assumes "bus_ready cf s"
  shows "\<exists>t. ps_write_32_int cf a d s = Some t \<and> wrote cf (written a 4) (transactions_32 a d) s t \<and>
     (\<forall>m. bus_memory cf m t = store_be 4 a d (bus_memory cf m s))"
proof (cases "a AND 1 = 0")
  case True
  obtain t where t: "ps_write_16_int cf a (drop_bit 16 d) s = Some t"
    "wrote cf (written a 2) (transactions_16 a (drop_bit 16 d)) s t"
    "\<forall>m. bus_memory cf m t = store_be 2 a (drop_bit 16 d) (bus_memory cf m s)"
    using write_16_result [OF assms] by blast
  have "bus_ready cf t" using t(2) by (simp add: wrote_def)
  then obtain u where u: "ps_write_16_int cf (a + 2) d t = Some u"
    "wrote cf (written (a + 2) 2) (transactions_16 (a + 2) d) t u"
    "\<forall>m. bus_memory cf m u = store_be 2 (a + 2) d (bus_memory cf m t)"
    using write_16_result by blast
  have "wrote cf (written a 4) (transactions_32 a d) s u"
    using wrote_trans [OF t(2) u(2)] True written_add [of a 2 2] by (simp add: transactions_32_def)
  moreover have "bus_memory cf m u = store_be 4 a d (bus_memory cf m s)" for m
    using t(3) u(3) store_be_add [of 2 2 a d] by simp
  ultimately show ?thesis
    using t(1) u(1) True by (simp add: ps_write_32_int_def)
next
  case False
  obtain t where t: "ps_write_8_int cf a (drop_bit 24 d) s = Some t"
    "wrote cf {a AND 0xffffff} [(a AND 0xffffff, drop_bit 24 d AND 0xff, 1)] s t"
    "\<forall>m. bus_memory cf m t = store_be 1 a (drop_bit 24 d) (bus_memory cf m s)"
    using write_8_result [OF assms] by blast
  have "bus_ready cf t" using t(2) by (simp add: wrote_def)
  then obtain u where u: "ps_write_16_int cf (a + 1) (drop_bit 8 d) t = Some u"
    "wrote cf (written (a + 1) 2) (transactions_16 (a + 1) (drop_bit 8 d)) t u"
    "\<forall>m. bus_memory cf m u = store_be 2 (a + 1) (drop_bit 8 d) (bus_memory cf m t)"
    using write_16_result by blast
  have "bus_ready cf u" using u(2) by (simp add: wrote_def)
  then obtain v where v: "ps_write_8_int cf (a + 3) (d AND 0xff) u = Some v"
    "wrote cf {(a + 3) AND 0xffffff} [((a + 3) AND 0xffffff, (d AND 0xff) AND 0xff, 1)] u v"
    "\<forall>m. bus_memory cf m v = store_be 1 (a + 3) (d AND 0xff) (bus_memory cf m u)"
    using write_8_result by blast
  have w4: "written a 4 = ({a AND 0xffffff} \<union> written (a + 1) 2) \<union> {(a + 3) AND 0xffffff}"
    using written_add [of a 1 3] written_add [of "a + 1" 2 1] by (auto simp: written_small add.assoc)
  have "wrote cf (written a 4) (transactions_32 a d) s v"
    using wrote_trans [OF wrote_trans [OF t(2) u(2)] v(2)] False
    unfolding w4 by (simp add: transactions_32_def and.assoc)
  moreover have "(ucast (d AND 0xff) :: u8) = ucast d"
    by (rule bit_word_eqI) (auto simp: bit_ucast_iff bit_and_iff bits)
  then have "store_be 1 (a + 3) (d AND 0xff) m = store_be 1 (a + 3) d m" for m
    by simp
  then have "bus_memory cf m v = store_be 4 a d (bus_memory cf m s)" for m
    using t(3) u(3) v(3) store_be_add [of 1 3 a d] store_be_add [of 2 1 "a + 1" d] by (simp del: store_be.simps add: add.assoc)
  ultimately show ?thesis
    using t(1) u(1) v(1) False by (simp add: ps_write_32_int_def)
qed

text \<open>
  C17: every write of the driver is the big-endian store of its value: whatever the alignment,
  the GPIO accesses of a byte, word or long write latch exactly the transactions that put its
  bytes, most significant first, at consecutive addresses of the 24-bit bus, and it returns.
\<close>

theorem bus_write_big_endian:
  assumes "bus_ready cf s"
  shows "\<exists>s8 s16 s32.
     ps_write_8_int cf a d s = Some s8 \<and> bus_memory cf m s8 = store_be 1 a d (bus_memory cf m s) \<and>
     ps_write_16_int cf a d s = Some s16 \<and> bus_memory cf m s16 = store_be 2 a d (bus_memory cf m s) \<and>
     ps_write_32_int cf a d s = Some s32 \<and> bus_memory cf m s32 = store_be 4 a d (bus_memory cf m s) \<and>
     bus_ready cf s8 \<and> bus_ready cf s16 \<and> bus_ready cf s32"
proof -
  have r: "wrote cf A xs s t \<Longrightarrow> bus_ready cf t" for A xs and t :: "'a bus_state_scheme"
    by (simp add: wrote_def)
  show ?thesis
    using write_8_result [OF assms, of a d] write_16_result [OF assms, of a d] write_32_result [OF assms, of a d]
      r by blast
qed


section \<open>An instance\<close>

text \<open>The pin assignment of the PiStorm and a bus whose transactions end at once.\<close>

definition bus_word :: "ps_config \<Rightarrow> pin_view \<Rightarrow> u16" where
  "bus_word cf V =
     (let a = latched_address cf V; b = pv_mem V a
      in if drop_bit 8 (pv_reg V (cf_reg_addr_hi cf)) = 2 then push_bit 8 (ucast b) OR ucast (pv_mem V (a + 1))
         else push_bit 8 (ucast b) OR ucast b)"

definition pi_config :: ps_config where
  "pi_config = \<lparr>cf_gpio = 0xf2200000, cf_gpclk = 0xf2101000, cf_pin_clk = 4, cf_pin_a0 = 2, cf_pin_wr = 7,
     cf_pin_rd = 6, cf_pin_txn = 0, cf_pin_reset = 5, cf_pin_ipl_zero = 1, cf_reg_data = 0, cf_reg_addr_lo = 1,
     cf_reg_addr_hi = 2, cf_reg_status = 3, cf_status_init = 1, cf_status_reset = 2,
     cf_clear_bits = (\<lambda>_. 0xffffec), cf_output = (\<lambda>_ _. 0), cf_input = (\<lambda>_ _. 0), cf_clk_passwd = 0x5a000000,
     cf_clk_gp0_ctl = 0x70, cf_clk_gp0_div = 0x74, cf_bitbang_speed = 115200, cf_cia_delay = 0,
     cf_chipset_delay = 0, cf_write_buffer = False, cf_write_buffer_size = 256\<rparr>"

definition bus_demo :: "(u32 \<Rightarrow> u8) \<Rightarrow> bus_state" where
  "bus_demo m = io_state.extend (mirror.extend mirror_bss
     \<lparr>io_read = (\<lambda>ws n a. push_bit 8 (ucast (bus_word pi_config (pin_view_of pi_config m ws)))),
      io_clock = word_of_nat, io_freq = 19200000, io_held = (\<lambda>_. False), io_n = 0, io_writes = []\<rparr>)
     \<lparr>bs_output = (\<lambda>_. 0), bs_input = (\<lambda>_. 0), bs_clear_bits = 0xffffec, bs_bitbang_delay = 0, bs_blitwait = False,
      bs_overlay = 0, bs_board = 0, bs_board_idx = 0, bs_ignore_reset = False, bs_ipl = 0, bs_icache = [],
      wb_buffer = (\<lambda>_. \<lparr>wr_addr = 0, wr_value = 0, wr_size = 0\<rparr>), wb_head = 0, wb_tail = 0\<rparr>"

lemma bus_demo_fields:
  "io_writes (bus_demo m) = []" "bs_clear_bits (bus_demo m) = 0xffffec" "io_clock (bus_demo m) = word_of_nat"
  "io_read (bus_demo m) ws n a = push_bit 8 (ucast (bus_word pi_config (pin_view_of pi_config m ws)))"
  "wb_head (bus_demo m) = 0" "wb_tail (bus_demo m) = 0"
  by (simp_all add: bus_demo_def io_state.defs mirror.defs)

lemma pi_config_ok: "config_ok pi_config"
  by (simp add: config_ok_def pi_config_def)

lemma bus_demo_ready: "bus_ready pi_config (bus_demo m)"
proof -
  have "\<forall>i \<in> bus_pins pi_config. bit (0xffffec :: u32) i"
  proof
    fix i assume "i \<in> bus_pins pi_config"
    then have "i \<in> set ([8..<24] @ [2, 3, 6, 7])"
      by (auto simp: bus_pins_def pi_config_def simp del: upt_rec_numeral)
    then show "bit (0xffffec :: u32) i" by (auto simp: numeral_eq_Suc bit_Suc)
  qed
  moreover have "transactions_end pi_config (bus_demo m)"
    unfolding transactions_end_def
  proof (intro allI exI)
    fix ws n
    show "io_read (bus_demo m) ws (n + 0) (cf_gpio pi_config + 4 * 13) AND pin (cf_pin_txn pi_config) = 0"
      by (rule bit_word_eqI) (auto simp: bus_demo_fields pi_config_def bit_and_iff bit_push_bit_iff)
  qed
  moreover have "pins_idle pi_config (pv_pins (view pi_config x (bus_demo m)))" for x
    by (simp add: pin_view_of_def bus_demo_fields pins_idle_def)
  ultimately show ?thesis
    using pi_config_ok by (simp add: bus_ready_def bus_demo_fields)
qed

theorem bus_write_big_endian_witness:
  "\<exists>s32. ps_write_32_int pi_config 0x101 0x12345678 (bus_demo (\<lambda>_. 0)) = Some s32 \<and>
     map (bus_memory pi_config (\<lambda>_. 0) s32) [0x101, 0x102, 0x103, 0x104] = [0x12, 0x34, 0x56, 0x78]"
proof -
  have "bus_memory pi_config (\<lambda>_. 0) (bus_demo (\<lambda>_. 0)) = (\<lambda>_. 0)"
    by (simp add: bus_memory_def pin_view_of_def bus_demo_fields)
  then show ?thesis
    using bus_write_big_endian [OF bus_demo_ready [of "\<lambda>_. 0"], where a = "0x101" and d = "0x12345678" and m = "\<lambda>_. 0"]
    by (auto simp: store_be_long)
qed


end
