(* ===== verification/BusRead.thy ===== *)
theory BusRead
  imports BusSpec
begin

text \<open>
  Reads of the bus driver against the same interface: what each read returns when the bus
  answers from its memory, and the round trip of a write and a read of any alignment.
\<close>

section \<open>Delays end\<close>

text \<open>The counter comes to or passes every value: it counts, and wraps around.\<close>

definition counter_reaches :: "'a io_state_scheme \<Rightarrow> bool" where
  "counter_reaches s \<longleftrightarrow> (\<forall>n t. \<exists>k. t \<le> io_clock s (n + k))"

lemma ticks_until_steps:
  assumes "t0 \<le> io_clock s (io_n s + k)"
  shows "\<exists>j. ticks_until t0 s = Some (skip_io j s)"
  using assms
proof (induction k arbitrary: s)
  case 0
  then have "ticks_until t0 s = Some (skip_io 1 s)"
    by (subst ticks_until.simps) (simp add: read_cntvct_def leD)
  then show ?case by blast
next
  case (Suc k)
  show ?case
  proof (cases "io_clock s (io_n s) < t0")
    case False
    then have "ticks_until t0 s = Some (skip_io 1 s)"
      by (subst ticks_until.simps) (simp add: read_cntvct_def)
    then show ?thesis by blast
  next
    case True
    then have eq: "ticks_until t0 s = ticks_until t0 (skip_io 1 s)"
      by (subst ticks_until.simps) (simp add: read_cntvct_def)
    obtain j where "ticks_until t0 (skip_io 1 s) = Some (skip_io j (skip_io 1 s))"
      using Suc.IH [of "skip_io 1 s"] Suc.prems by auto
    then have "ticks_until t0 s = Some (skip_io (Suc j) s)"
      by (simp add: eq)
    then show ?thesis by blast
  qed
qed

lemma ticksleep_ends:
  assumes "counter_reaches s"
  shows "\<exists>j. ticksleep t s = Some (skip_io j s)"
proof -
  let ?t0 = "io_clock s (io_n s) + t"
  obtain k where "?t0 \<le> io_clock s (Suc (io_n s) + k)"
    using assms by (metis counter_reaches_def)
  then obtain j where "ticks_until ?t0 (skip_io 1 s) = Some (skip_io j (skip_io 1 s))"
    using ticks_until_steps [of ?t0 "skip_io 1 s" k] by auto
  then have "ticksleep t s = Some (skip_io (Suc j) s)"
    by (simp add: ticksleep_def read_cntvct_def)
  then show ?thesis by blast
qed

lemma bus_delay_ends:
  assumes "counter_reaches s"
  shows "\<exists>j. bus_delay cf a s = Some (skip_io j s)"
proof -
  let ?x = "if cf_cia_delay cf \<noteq> 0 \<and> a \<ge> 0xbf0000 \<and> a \<le> 0xbfffff then ticksleep (cf_cia_delay cf) s else Some s"
  have zero: "s = skip_io 0 s" by simp
  obtain i where i: "?x = Some (skip_io i s)"
    using ticksleep_ends [OF assms, of "cf_cia_delay cf"] zero by (metis (full_types))
  have "counter_reaches (skip_io i s)" using assms by (simp add: counter_reaches_def)
  then obtain j where j: "ticksleep (cf_chipset_delay cf) (skip_io i s) = Some (skip_io j (skip_io i s))"
    using ticksleep_ends by blast
  have "bus_delay cf a s = Some (skip_io (i + j) s) \<or> bus_delay cf a s = Some (skip_io i s)"
    unfolding bus_delay_def i using j by (simp add: add.assoc)
  then show ?thesis by blast
qed

section \<open>A bus that answers\<close>

definition read_lanes :: "ps_config \<Rightarrow> pin_view \<Rightarrow> u32 \<Rightarrow> bool" where
  "read_lanes cf V v \<longleftrightarrow>
     (let a = latched_address cf V; op = drop_bit 8 (pv_reg V (cf_reg_addr_hi cf)) in
      (op = 2 \<longrightarrow> v = push_bit 8 (ucast (pv_mem V a)) OR ucast (pv_mem V (a + 1))) \<and>
      (op = 3 \<longrightarrow> (if bit a 0 then v AND 0xff else drop_bit 8 v AND 0xff) = ucast (pv_mem V a)))"

text \<open>
  Once a transaction is seen to have ended it stays so until the next write to the
  interface, and the data pins show the byte or word of the latched address.
\<close>

definition bus_answers :: "ps_config \<Rightarrow> (u32 \<Rightarrow> u8) \<Rightarrow> 'a io_state_scheme \<Rightarrow> bool" where
  "bus_answers cf m s \<longleftrightarrow>
     (\<forall>ws n. io_read s ws n (cf_gpio cf + 4 * 13) AND pin (cf_pin_txn cf) = 0 \<longrightarrow>
        (\<forall>k. read_lanes cf (pin_view_of cf m ws) (drop_bit 8 (io_read s ws (n + k) (cf_gpio cf + 4 * 13)) AND 0xffff)))"

definition read_ready :: "ps_config \<Rightarrow> (u32 \<Rightarrow> u8) \<Rightarrow> 'a bus_state_scheme \<Rightarrow> bool" where
  "read_ready cf m s \<longleftrightarrow>
     bus_ready cf s \<and> bus_answers cf m s \<and> counter_reaches s \<and> (\<not> cf_write_buffer cf \<or> wb_tail s = wb_head s)"

lemma same_read_ready:
  assumes "bus_part t = bus_part s" and "bus_ready cf t" and "read_ready cf m s"
  shows "read_ready cf m t"
  using assms(2,3)
  by (simp add: read_ready_def bus_answers_def counter_reaches_def bus_part_same [OF assms(1)])

lemma txn_wait_low:
  assumes "io_read s (io_writes s) (io_n s + k) (cf_gpio cf + 4 * 13) AND pin (cf_pin_txn cf) = 0"
  shows "\<exists>j. txn_wait cf s = Some (skip_io (Suc j) s) \<and>
     io_read s (io_writes s) (io_n s + j) (cf_gpio cf + 4 * 13) AND pin (cf_pin_txn cf) = 0"
  using assms
proof (induction k arbitrary: s)
  case 0
  then have "txn_wait cf s = Some (skip_io (Suc 0) s)"
    by (subst txn_wait.simps) (simp add: gpio_level_def rd32le_def)
  with 0 show ?case by blast
next
  case (Suc k)
  show ?case
  proof (cases "io_read s (io_writes s) (io_n s) (cf_gpio cf + 4 * 13) AND pin (cf_pin_txn cf) = 0")
    case True
    then have "txn_wait cf s = Some (skip_io (Suc 0) s)"
      by (subst txn_wait.simps) (simp add: gpio_level_def rd32le_def)
    with True show ?thesis by (intro exI [of _ 0]) simp
  next
    case False
    then have eq: "txn_wait cf s = txn_wait cf (skip_io 1 s)"
      by (subst txn_wait.simps) (simp add: gpio_level_def rd32le_def)
    obtain j where "txn_wait cf (skip_io 1 s) = Some (skip_io (Suc j) (skip_io 1 s))"
      "io_read s (io_writes s) (io_n s + 1 + j) (cf_gpio cf + 4 * 13) AND pin (cf_pin_txn cf) = 0"
      using Suc.IH [of "skip_io 1 s"] Suc.prems by auto
    then show ?thesis
      by (intro exI [of _ "Suc j"]) (simp add: eq)
  qed
qed

lemma no_write_edge:
  assumes "\<not> bit v (cf_pin_wr cf)"
  shows "pin_step cf (cf_gpio cf + 4 * 7, v) V = V\<lparr>pv_pins := pv_pins V OR v\<rparr>"
  by (rule set_step) (use assms in auto)

text \<open>A read cycle up to its wait: the address is latched and the read pin is high.\<close>

definition read_setup :: "ps_config \<Rightarrow> u32 \<Rightarrow> u32 \<Rightarrow> 'a bus_state_scheme \<Rightarrow> 'a bus_state_scheme" where
  "read_setup cf op a s =
     (let s = bus_direction cf (bs_output s) s;
          s = bus_strobe cf (data_pins cf (a AND 0xffff) (cf_reg_addr_lo cf)) s;
          s = bus_strobe cf (data_pins cf (op OR (drop_bit 16 a AND 0x00ff)) (cf_reg_addr_hi cf)) s;
          s = bus_direction cf (bs_input s) s;
          rd = pin (cf_pin_rd cf);
          s = gpio_set cf rd (gpio_set cf (data_pins cf 0 (cf_reg_data cf)) s)
      in if pi4 s then gpio_set cf rd (gpio_set cf rd (gpio_set cf rd s)) else s)"

lemma read_cycle_setup:
  "read_cycle cf op a s =
     do { s \<leftarrow> txn_wait cf (read_setup cf op a s); (v, s) \<leftarrow> gpio_level cf s;
          let s = gpio_clear cf (bs_clear_bits s) s; Some (drop_bit 8 v AND 0xffff, s) }"
  by (simp add: read_cycle_def read_setup_def Let_def)

lemma read_setup_frame [frame]:
  "bus_part (read_setup cf op a s) = bus_part s"
  "mirror.truncate (read_setup cf op a s) = mirror.truncate s"
  by (simp_all add: read_setup_def Let_def frame)

text \<open>What the interface shows then.\<close>

definition read_view :: "ps_config \<Rightarrow> u32 \<Rightarrow> u32 \<Rightarrow> (u32 \<Rightarrow> u8) \<Rightarrow> pin_view \<Rightarrow> bool" where
  "read_view cf op a mem V \<longleftrightarrow>
     latched_address cf V = a \<and> drop_bit 8 (pv_reg V (cf_reg_addr_hi cf)) = ucast (drop_bit 8 op) \<and> pv_mem V = mem"

lemma latch_read_view:
  assumes a: "a AND 0xffffff = a" and op: "op = 0x0200 \<or> op = 0x0300"
    and lo: "pv_reg V (cf_reg_addr_lo cf) = ucast (a AND 0xffff)" and ne: "cf_reg_addr_lo cf \<noteq> cf_reg_addr_hi cf"
  shows "read_view cf op a (pv_mem V) (latch cf (cf_reg_addr_hi cf) (ucast (op OR (drop_bit 16 a AND 0x00ff))) V)"
proof -
  have op4: "op = 0 \<or> op = 0x0100 \<or> op = 0x0200 \<or> op = 0x0300" using op by blast
  note ap = address_parts [OF a op4]
  let ?W = "V\<lparr>pv_reg := (pv_reg V)(cf_reg_addr_hi cf := ucast (op OR (drop_bit 16 a AND 0x00ff)))\<rparr>"
  have hi: "drop_bit 8 (pv_reg ?W (cf_reg_addr_hi cf)) = ucast (drop_bit 8 op)" using ap(2) by simp
  have "latch cf (cf_reg_addr_hi cf) (ucast (op OR (drop_bit 16 a AND 0x00ff))) V = start_transaction cf ?W"
    by (simp add: latch_def Let_def)
  moreover have "start_transaction cf ?W = ?W"
    unfolding start_transaction_def Let_def hi using op by auto
  moreover have "latched_address cf ?W = a"
    using ap(1) ne by (simp add: latched_address_def lo)
  ultimately show ?thesis using hi by (simp add: read_view_def)
qed

lemma read_view_pins: "read_view cf op a mem (V\<lparr>pv_pins := p\<rparr>) = read_view cf op a mem V"
  by (simp add: read_view_def latched_address_def)

lemma read_setup_view:
  assumes ready: "bus_ready cf s" and a: "a AND 0xffffff = a" and op: "op = 0x0200 \<or> op = 0x0300"
  shows "read_view cf op a (bus_memory cf m s) (view cf m (read_setup cf op a s))"
proof -
  have op4: "op = 0 \<or> op = 0x0100 \<or> op = 0x0200 \<or> op = 0x0300" using op by blast
  note r = ready_parts [OF ready] and ap = address_parts [OF a op4]
  define s0 where "s0 = bus_direction cf (bs_output s) s"
  define s2 where "s2 = bus_strobe cf (data_pins cf (a AND 0xffff) (cf_reg_addr_lo cf)) s0"
  define s3 where "s3 = bus_strobe cf (data_pins cf (op OR (drop_bit 16 a AND 0x00ff)) (cf_reg_addr_hi cf)) s2"
  define s5 where "s5 = gpio_set cf (pin (cf_pin_rd cf)) (gpio_set cf (data_pins cf 0 (cf_reg_data cf))
      (bus_direction cf (bs_input s3) s3))"
  have b0: "bus_ready cf s0" unfolding s0_def by (rule direction_ready) (rule ready)
  have b2: "bus_ready cf s2" unfolding s2_def by (rule strobe_ready [OF b0 r(6) low_word_less])
  have wr: "\<not> bit (pin (cf_pin_rd cf)) (cf_pin_wr cf)" "\<not> bit (data_pins cf 0 (cf_reg_data cf)) (cf_pin_wr cf)"
    using r(1,5) by (auto simp: config_ok_def bit_data_pins)
  have su: "read_setup cf op a s = (if pi4 s5 then gpio_set cf (pin (cf_pin_rd cf)) (gpio_set cf (pin (cf_pin_rd cf))
      (gpio_set cf (pin (cf_pin_rd cf)) s5)) else s5)"
    unfolding read_setup_def Let_def by (simp only: s0_def s2_def s3_def s5_def)
  have "\<exists>q. view cf m (read_setup cf op a s) = (view cf m s3)\<lparr>pv_pins := q\<rparr>"
    by (cases "pi4 s5") (simp_all only: su s5_def view_writes view_direction no_write_edge [OF wr(1)]
        no_write_edge [OF wr(2)] if_True if_False, simp_all, blast+)
  moreover obtain p2 where v2: "view cf m s2 = (latch cf (cf_reg_addr_lo cf) (ucast (a AND 0xffff)) (view cf m s0))\<lparr>pv_pins := p2\<rparr>"
    unfolding s2_def using strobe_ready(2) [OF b0 r(6) low_word_less] by blast
  moreover obtain p3 where "view cf m s3 = (latch cf (cf_reg_addr_hi cf) (ucast (op OR (drop_bit 16 a AND 0x00ff)))
      (view cf m s2))\<lparr>pv_pins := p3\<rparr>"
    unfolding s3_def using strobe_ready(2) [OF b2 r(7) ap(3)] by blast
  moreover have "pv_reg (view cf m s2) (cf_reg_addr_lo cf) = ucast (a AND 0xffff)"
    and "pv_mem (view cf m s2) = bus_memory cf m s"
    using r(10) by (simp_all add: v2 latch_def bus_memory_def s0_def frame)
  ultimately show ?thesis
    using latch_read_view [OF a op _ r(10), of "view cf m s2"] by (auto simp: read_view_pins)
qed

text \<open>The value of a read cycle: the lanes the bus drives for its address.\<close>

lemma read_cycle_result:
  assumes rr: "read_ready cf m s" and a: "a AND 0xffffff = a" and op: "op = 0x0200 \<or> op = 0x0300"
  shows "\<exists>t v. read_cycle cf op a s = Some (v, t) \<and> read_ready cf m t \<and> bus_part t = bus_part s \<and>
     mirror.truncate t = mirror.truncate s \<and> bus_memory cf m t = bus_memory cf m s \<and>
     (op = 0x0200 \<longrightarrow> v = push_bit 8 (ucast (bus_memory cf m s a)) OR ucast (bus_memory cf m s (a + 1))) \<and>
     (op = 0x0300 \<longrightarrow> (if bit a 0 then v AND 0xff else drop_bit 8 v AND 0xff) = ucast (bus_memory cf m s a))"
proof -
  have ready: "bus_ready cf s" using rr by (simp add: read_ready_def)
  define u where "u = read_setup cf op a s"
  have part: "bus_part u = bus_part s" by (simp add: u_def frame)
  have rv: "read_view cf op a (bus_memory cf m s) (view cf m u)"
    unfolding u_def by (rule read_setup_view [OF ready a op])
  have "transactions_end cf u" using ready_parts(4) [OF ready] by (simp add: bus_part_same(5) [OF part])
  then obtain j where w: "txn_wait cf u = Some (skip_io (Suc j) u)"
    and low: "io_read u (io_writes u) (io_n u + j) (cf_gpio cf + 4 * 13) AND pin (cf_pin_txn cf) = 0"
    unfolding transactions_end_def using txn_wait_low by blast
  define v where "v = drop_bit 8 (io_read u (io_writes u) (io_n u + j + 1) (cf_gpio cf + 4 * 13)) AND 0xffff"
  define t where "t = gpio_clear cf (bs_clear_bits u) (skip_io (Suc (Suc j)) u)"
  have cyc: "read_cycle cf op a s = Some (v, t)"
    unfolding read_cycle_setup u_def [symmetric] w by (simp add: gpio_level_def rd32le_def v_def t_def)
  have partt: "bus_part t = bus_part s" using part by (simp add: t_def frame)
  have vt: "view cf x t = pin_step cf (cf_gpio cf + 4 * 10, bs_clear_bits u) (view cf x u)" for x
    unfolding t_def view_writes by simp
  have "pins_idle cf (pv_pins (view cf x t))" for x
    using ready_parts(3) [OF ready] unfolding vt clear_step bus_part_same(1) [OF part]
    by (auto simp: pins_idle_def bit_and_iff bit_not_iff)
  then have "bus_ready cf t"
    using ready by (simp add: bus_ready_def bus_part_same(1) [OF partt] bus_part_same(5) [OF partt])
  then have rrt: "read_ready cf m t" by (rule same_read_ready [OF partt _ rr])
  have "read_lanes cf (view cf m u) v"
    using rr low unfolding v_def read_ready_def bus_answers_def bus_part_same(10) [OF part] by blast
  then have "(op = 0x0200 \<longrightarrow> v = push_bit 8 (ucast (bus_memory cf m s a)) OR ucast (bus_memory cf m s (a + 1))) \<and>
     (op = 0x0300 \<longrightarrow> (if bit a 0 then v AND 0xff else drop_bit 8 v AND 0xff) = ucast (bus_memory cf m s a))"
    using rv by (auto simp: read_lanes_def read_view_def Let_def)
  moreover have "bus_memory cf m t = bus_memory cf m s"
    using rv unfolding bus_memory_def vt clear_step by (simp add: read_view_def bus_memory_def)
  moreover have "mirror.truncate t = mirror.truncate s" by (simp add: t_def u_def frame)
  ultimately show ?thesis using cyc rrt partt by blast
qed

section \<open>Reads of every width\<close>

fun load_be :: "nat \<Rightarrow> u32 \<Rightarrow> (u32 \<Rightarrow> u8) \<Rightarrow> u32" where
  "load_be 0 a m = 0"
| "load_be (Suc n) a m = push_bit (8 * n) (ucast (m (a AND 0xffffff))) OR load_be n (a + 1) m"

text \<open>A read that returns \<open>v\<close>, leaves memory and the mirror alone and can be followed by another.\<close>

definition reads ::
    "ps_config \<Rightarrow> (u32 \<Rightarrow> u8) \<Rightarrow> u32 \<Rightarrow> 'a bus_state_scheme \<Rightarrow> (u32 \<times> 'a bus_state_scheme) option \<Rightarrow> bool" where
  "reads cf m v s r \<longleftrightarrow>
     (\<exists>t. r = Some (v, t) \<and> read_ready cf m t \<and> bus_part t = bus_part s \<and>
          mirror.truncate t = mirror.truncate s \<and> bus_memory cf m t = bus_memory cf m s)"

lemma reads_bind:
  assumes "reads cf m v s r"
    and "\<And>t. read_ready cf m t \<Longrightarrow> bus_memory cf m t = bus_memory cf m s \<Longrightarrow> reads cf m w t (g (v, t))"
  shows "reads cf m w s (Option.bind r g)"
  using assms by (fastforce simp: reads_def)

lemma reads_return: "read_ready cf m s \<Longrightarrow> reads cf m v s (Some (v, s))"
  by (simp add: reads_def)

lemma waitfree: "read_ready cf m s \<Longrightarrow> wb_waitfree cf s = Some s"
  by (auto simp: read_ready_def wb_waitfree_def)

lemma reads_delay:
  assumes "read_ready cf m s" and "\<And>t. read_ready cf m t \<Longrightarrow> bus_memory cf m t = bus_memory cf m s \<Longrightarrow> reads cf m v t (g t)"
  shows "reads cf m v s (Option.bind (bus_delay cf a s) g)"
proof -
  obtain j where j: "bus_delay cf a s = Some (skip_io j s)"
    using bus_delay_ends assms(1) unfolding read_ready_def by blast
  have part: "bus_part (skip_io j s) = bus_part s" by (simp add: frame)
  have "read_ready cf m (skip_io j s)"
    by (rule same_read_ready [OF part _ assms(1)]) (rule skip_ready, use assms(1) in \<open>simp add: read_ready_def\<close>)
  then have "reads cf m v (skip_io j s) (g (skip_io j s))"
    using assms(2) by (simp add: bus_memory_def)
  then show ?thesis by (simp add: j reads_def bus_memory_def frame)
qed

lemma read_8_int_result:
  assumes "read_ready cf m s"
  shows "reads cf m (ucast (bus_memory cf m s (a AND 0xffffff))) s (ps_read_8_int cf a s)"
proof -
  let ?a = "a AND 0xffffff"
  obtain t v where t: "read_cycle cf 0x0300 ?a s = Some (v, t)" "read_ready cf m t" "bus_part t = bus_part s"
    "mirror.truncate t = mirror.truncate s" "bus_memory cf m t = bus_memory cf m s"
    "(if bit ?a 0 then v AND 0xff else drop_bit 8 v AND 0xff) = ucast (bus_memory cf m s ?a)"
    using read_cycle_result [OF assms, of ?a "0x0300"] by auto
  have "(?a AND 1 = 0) = (\<not> bit ?a 0)" by (simp only: low_bit bit_0 not_not)
  with t show ?thesis
    by (simp add: ps_read_8_int_def waitfree [OF assms] reads_def Let_def split: if_splits)
qed

lemma read_8_result:
  assumes "read_ready cf m s"
  shows "reads cf m (load_be 1 a (bus_memory cf m s)) s (ps_read_8 cf a s)"
  unfolding ps_read_8_def
  by (rule reads_bind [OF read_8_int_result [OF assms]]) (auto intro!: reads_delay reads_return)

lemma load_be_word:
  "load_be 2 a m = push_bit 8 (ucast (m (a AND 0xffffff))) OR ucast (m ((a + 1) AND 0xffffff))"
  by (simp add: numeral_2_eq_2)

lemma read_16_nowait_result:
  assumes "read_ready cf m s"
  shows "reads cf m (load_be 2 a (bus_memory cf m s)) s (ps_read_16_int_nowbwait cf a s)"
proof (cases "a AND 1 = 0")
  case True
  then show ?thesis
    using read_cycle_result [OF assms, of "a AND 0xffffff" "0x0200"]
    by (auto simp: ps_read_16_int_nowbwait_def Let_def reads_def load_be_word even_next)
next
  case False
  have one: "reads cf m (ucast (bus_memory cf m t (b AND 0xffffff))) t (ps_read_8 cf b t)"
    if "read_ready cf m t" for b and t :: "'a bus_state_scheme"
    using read_8_result [OF that, of b] by simp
  have odd: "ps_read_16_int_nowbwait cf a s =
      do { (hi, s) \<leftarrow> ps_read_8 cf (a AND 0xffffff) s; (lo, s) \<leftarrow> ps_read_8 cf ((a AND 0xffffff) + 1) s;
           Some (push_bit 8 hi OR lo, s) }"
    using False by (simp add: ps_read_16_int_nowbwait_def Let_def)
  show ?thesis
    unfolding odd
    by (rule reads_bind [OF one [OF assms]], simp only: prod.case, rule reads_bind [OF one], assumption)
      (simp add: load_be_word masked_add reads_return)
qed

lemma read_16_result:
  assumes "read_ready cf m s"
  shows "reads cf m (load_be 2 a (bus_memory cf m s)) s (ps_read_16 cf a s)"
proof -
  have "reads cf m (load_be 2 a (bus_memory cf m s)) s (ps_read_16_int cf a s)"
    using read_16_nowait_result [OF assms] by (simp add: ps_read_16_int_def waitfree [OF assms])
  then show ?thesis
    unfolding ps_read_16_def by (rule reads_bind) (auto intro!: reads_delay reads_return)
qed

lemma load_be_add:
  "load_be (i + j) a m = push_bit (8 * j) (load_be i a m) OR load_be j (a + word_of_nat i) m"
proof (induction i arbitrary: a)
  case 0
  show ?case by simp
next
  case (Suc i)
  then show ?case
    by (simp add: push_bit_or algebra_simps or.assoc)
qed

lemma read_32_result:
  assumes "read_ready cf m s"
  shows "reads cf m (load_be 4 a (bus_memory cf m s)) s (ps_read_32 cf a s)"
proof -
  have "reads cf m (load_be 4 a (bus_memory cf m s)) s (ps_read_32_int cf a s)"
  proof (cases "a AND 1 = 0")
    case True
    have e: "ps_read_32_int cf a s = do { (x, s) \<leftarrow> ps_read_16 cf a s; (y, s) \<leftarrow> ps_read_16 cf (a + 2) s;
        Some (push_bit 16 x OR y, s) }"
      using True by (simp add: ps_read_32_int_def waitfree [OF assms])
    show ?thesis
      unfolding e
      by (rule reads_bind [OF read_16_result [OF assms]], simp only: prod.case, rule reads_bind [OF read_16_result], assumption)
        (use load_be_add [of 2 2 a] in \<open>simp add: reads_return\<close>)
  next
    case False
    have e: "ps_read_32_int cf a s = do { (x, s) \<leftarrow> ps_read_8 cf a s; (y, s) \<leftarrow> ps_read_16 cf (a + 1) s;
        (z, s) \<leftarrow> ps_read_8 cf (a + 3) s; Some (push_bit 24 x OR push_bit 8 y OR z, s) }"
      using False by (simp add: ps_read_32_int_def waitfree [OF assms])
    have split: "load_be 4 a x = push_bit 24 (load_be 1 a x) OR push_bit 8 (load_be 2 (a + 1) x) OR load_be 1 (a + 3) x" for x
      using load_be_add [of 1 3 a x] load_be_add [of 2 1 "a + 1" x]
      by (simp del: load_be.simps add: add.assoc or.assoc)
    show ?thesis
      unfolding e
      by (rule reads_bind [OF read_8_result [OF assms]], simp only: prod.case, rule reads_bind [OF read_16_result], assumption,
          simp only: prod.case, rule reads_bind [OF read_8_result], assumption)
        (simp del: load_be.simps add: reads_return split)
  qed
  then show ?thesis
    unfolding ps_read_32_def by (rule reads_bind) (auto intro!: reads_delay reads_return)
qed


section \<open>Round trip\<close>

lemma byte_split:
  "push_bit 24 (ucast (ucast (drop_bit 24 d) :: u8)) OR push_bit 16 (ucast (ucast (drop_bit 16 d) :: u8))
     OR push_bit 8 (ucast (ucast (drop_bit 8 d) :: u8)) OR ucast (ucast d :: u8) = (d :: u32)"
proof (rule bit_word_eqI)
  fix n assume n: "n < LENGTH(32)"
  consider "n < 8" | "8 \<le> n" "n < 16" | "16 \<le> n" "n < 24" | "24 \<le> n" by linarith
  then show "bit (push_bit 24 (ucast (ucast (drop_bit 24 d) :: u8)) OR push_bit 16 (ucast (ucast (drop_bit 16 d) :: u8))
     OR push_bit 8 (ucast (ucast (drop_bit 8 d) :: u8)) OR ucast (ucast d :: u8) :: u32) n = bit d n"
    using n by cases (auto simp: bit_or_iff bit_push_bit_iff bit_ucast_iff bit_drop_bit_eq)
qed

text \<open>Consecutive bus addresses differ, across the wrap of the 24-bit bus too.\<close>

lemma bus_distinct:
  assumes "i < j" and "j < 16"
  shows "(a + word_of_nat i) AND 0xffffff \<noteq> (a + word_of_nat j) AND (0xffffff :: u32)"
proof
  assume e: "(a + word_of_nat i) AND 0xffffff = (a + word_of_nat j) AND (0xffffff :: u32)"
  have m: "(x :: nat) mod 2 ^ 32 mod 2 ^ 24 = x mod 2 ^ 24" for x
    by (rule mod_mod_cancel) simp
  have u: "unat ((a + word_of_nat k) AND 0xffffff) = (unat a + k) mod 2 ^ 24" if "k < 16" for k
  proof -
    have "unat ((a + word_of_nat k) AND 0xffffff) = ((unat a + k) mod 2 ^ 32) mod 2 ^ 24"
      using that by (simp add: unat_and_masks unat_word_ariths unat_of_nat)
    then show ?thesis by (simp only: m)
  qed
  have "(unat a + i) mod 2 ^ 24 = (unat a + j) mod 2 ^ 24"
    using arg_cong [OF e, of unat] assms u [of i] u [of j] by simp
  then have "2 ^ 24 dvd (unat a + j) - (unat a + i)"
    using assms mod_eq_dvd_iff_nat [of "unat a + i" "unat a + j" "2 ^ 24"] by simp
  then have "2 ^ 24 dvd j - i" by simp
  then have "2 ^ 24 \<le> j - i" by (rule dvd_imp_le) (use assms in simp)
  with assms show False by simp
qed

lemma load_be_long:
  "load_be 4 a x = push_bit 24 (ucast (x (a AND 0xffffff))) OR push_bit 16 (ucast (x ((a + 1) AND 0xffffff)))
      OR push_bit 8 (ucast (x ((a + 2) AND 0xffffff))) OR ucast (x ((a + 3) AND 0xffffff))"
proof -
  have "load_be 4 a x = load_be (Suc (Suc (Suc (Suc 0)))) a x" by (simp add: numeral_eq_Suc)
  then show ?thesis by (simp add: add.assoc or.assoc)
qed

lemma load_store_long: "load_be 4 a (store_be 4 a d m) = d"
proof -
  define p q r w where "p = a AND 0xffffff" and "q = (a + 1) AND 0xffffff" and "r = (a + 2) AND 0xffffff"
    and "w = (a + 3) AND 0xffffff"
  note pq = p_def [symmetric] q_def [symmetric] r_def [symmetric] w_def [symmetric]
  have n: "p \<noteq> q" "p \<noteq> r" "p \<noteq> w" "q \<noteq> r" "q \<noteq> w" "r \<noteq> w"
    using bus_distinct [of 0 1 a] bus_distinct [of 0 2 a] bus_distinct [of 0 3 a] bus_distinct [of 1 2 a]
      bus_distinct [of 1 3 a] bus_distinct [of 2 3 a]
    by (simp_all add: p_def q_def r_def w_def)
  show ?thesis
    unfolding load_be_long store_be_long pq using n byte_split [of d] by simp
qed

text \<open>
  A long word written through the driver is read back, for every value and every address,
  odd ones and those that wrap around the 24-bit bus included.
\<close>

theorem bus_round_trip:
  assumes "read_ready cf m s"
  shows "\<exists>t u. ps_write_32_int cf a d s = Some t \<and> ps_read_32 cf a t = Some (d, u)"
proof -
  have ready: "bus_ready cf s" using assms by (simp add: read_ready_def)
  obtain t where t: "ps_write_32_int cf a d s = Some t" "wrote cf (written a 4) (transactions_32 a d) s t"
    "\<forall>m. bus_memory cf m t = store_be 4 a d (bus_memory cf m s)"
    using write_32_result [OF ready] by blast
  have "read_ready cf m t"
    by (rule same_read_ready [OF _ _ assms]) (use t(2) in \<open>simp_all add: wrote_def\<close>)
  from read_32_result [OF this, of a] t show ?thesis
    by (auto simp: reads_def load_store_long)
qed

section \<open>An instance\<close>

lemma data_field: "drop_bit 8 (push_bit 8 (ucast (x :: u16))) AND 0xffff = (ucast x :: u32)"
  by (rule bit_word_eqI) (auto simp: bit_and_iff bit_drop_bit_eq bit_push_bit_iff bit_ucast_iff bits dest: bit_imp_le_length)

lemma bus_word_lanes: "read_lanes cf V (ucast (bus_word cf V))"
proof -
  have hi: "(ucast (push_bit 8 (ucast b) OR ucast c :: u16) :: u32) = push_bit 8 (ucast b) OR ucast c" for b c :: u8
    by (rule bit_word_eqI) (auto simp: bit_or_iff bit_push_bit_iff bit_ucast_iff dest: bit_imp_le_length)
  have lo: "(push_bit 8 (ucast b) OR ucast b) AND 0xff = (ucast b :: u32)"
    "(drop_bit 8 (push_bit 8 (ucast b)) OR drop_bit 8 (ucast b)) AND 0xff = (ucast b :: u32)" for b :: u8
    by (rule bit_word_eqI; auto simp: bit_or_iff bit_and_iff bit_push_bit_iff bit_ucast_iff bit_drop_bit_eq bits
        dest: bit_imp_le_length)+
  show ?thesis
    by (simp add: read_lanes_def bus_word_def Let_def hi lo)
qed

lemma bus_demo_read_ready: "read_ready pi_config m (bus_demo m)"
proof -
  have "counter_reaches (bus_demo m)"
    unfolding counter_reaches_def
  proof (intro allI)
    fix n and t :: u64
    show "\<exists>k. t \<le> io_clock (bus_demo m) (n + k)"
      by (rule exI [of _ "unat (t - word_of_nat n)"]) (simp add: bus_demo_fields)
  qed
  moreover have "bus_answers pi_config m (bus_demo m)"
    by (simp add: bus_answers_def bus_demo_fields data_field bus_word_lanes)
  ultimately show ?thesis
    using bus_demo_ready by (simp add: read_ready_def bus_demo_fields)
qed


theorem bus_round_trip_witness:
  "\<exists>t u. ps_write_32_int pi_config 0xffffff 0xdeadbeef (bus_demo (\<lambda>_. 0)) = Some t \<and>
     ps_read_32 pi_config 0xffffff t = Some (0xdeadbeef, u)"
  by (rule bus_round_trip [OF bus_demo_read_ready])

end
