(* ===== verification/WriteBuffer.thy ===== *)
theory WriteBuffer
  imports BusRead Ring
begin

text \<open>
  The write buffer of \<open>source/src/pistorm/ps_classic_protocol.c\<close> (build option
  \<open>PISTORM_WRITE_BUFFER\<close>) as a queue between two cores: the emulated processor pushes
  writes, \<open>wb_task\<close> on the other core carries them out. The bus sees the writes in program
  order; the full test of \<open>wb_push\<close> is not safe against the wrap-around of its counters.
\<close>

section \<open>The queue\<close>

definition wb_queue :: "nat \<Rightarrow> 'a bus_state_scheme \<Rightarrow> write_request list" where
  "wb_queue k s = ring_contents (wb_buffer s) k (wb_head s) (wb_tail s)"

definition wb_inv :: "ps_config \<Rightarrow> nat \<Rightarrow> 'a bus_state_scheme \<Rightarrow> bool" where
  "wb_inv cf k s \<longleftrightarrow>
     k < 31 \<and> cf_write_buffer_size cf = 2 ^ k \<and> wb_tail s \<le> wb_head s \<and>
     unat (wb_head s) - unat (wb_tail s) \<le> 2 ^ k"

text \<open>The counters are not near the end of their range.\<close>

definition wb_room :: "nat \<Rightarrow> 'a bus_state_scheme \<Rightarrow> bool" where
  "wb_room k s \<longleftrightarrow> unat (wb_head s) < 2 ^ 32 - 2 ^ k"

lemma pow_word: "k < 32 \<Longrightarrow> unat (2 ^ k :: u32) = 2 ^ k"
proof -
  assume "k < 32"
  then have "(2 :: nat) ^ k < 2 ^ 32" by (rule power_strict_increasing) simp
  moreover have "unat (word_of_nat (2 ^ k) :: u32) = 2 ^ k mod 2 ^ 32"
    by (simp only: unat_of_nat) simp
  ultimately show ?thesis by simp
qed

lemma wb_slot_mod:
  assumes "cf_write_buffer_size cf = 2 ^ k" and "k < 32"
  shows "wb_slot cf w = unat w mod 2 ^ k"
proof -
  have "w AND (2 ^ k - 1) = take_bit k w"
    by (simp only: take_bit_eq_mask mask_eq_exp_minus_1)
  then have "wb_slot cf w = unat (take_bit k w)"
    by (simp only: wb_slot_def assms(1))
  also have "\<dots> = take_bit k (unat w)"
    by (rule unsigned_take_bit_eq)
  finally show ?thesis by (simp only: take_bit_eq_mod)
qed

lemma unat_succ:
  assumes "unat (x :: u32) < 2 ^ 32 - 2 ^ k"
  shows "unat (x + 1) = Suc (unat x)"
proof -
  have "(1 :: nat) \<le> 2 ^ k" by simp
  then have "unat x + 1 < 2 ^ 32" using assms by linarith
  then show ?thesis by (simp add: unat_add_small)
qed

lemma wb_queue_length:
  assumes "wb_inv cf k s"
  shows "length (wb_queue k s) = unat (wb_head s) - unat (wb_tail s)"
  using assms by (simp add: wb_queue_def wb_inv_def unat_sub)

lemma wb_full:
  assumes "wb_inv cf k s" and "wb_room k s"
  shows "wb_tail s + cf_write_buffer_size cf \<le> wb_head s \<longleftrightarrow> length (wb_queue k s) = 2 ^ k"
proof -
  have k: "k < 32" "cf_write_buffer_size cf = 2 ^ k" "unat (wb_tail s) \<le> unat (wb_head s)"
    "unat (wb_head s) - unat (wb_tail s) \<le> 2 ^ k"
    using assms(1) by (simp_all add: wb_inv_def word_le_nat_alt)
  have "unat (wb_tail s) + unat (2 ^ k :: u32) < 2 ^ 32"
    using assms(2) k by (simp add: wb_room_def pow_word)
  then have "unat (wb_tail s + 2 ^ k) = unat (wb_tail s) + 2 ^ k"
    by (simp add: unat_add_small pow_word k)
  then show ?thesis
    using k by (auto simp: word_le_nat_alt wb_queue_length [OF assms(1)])
qed

lemma wb_push_result:
  assumes "wb_inv cf k s" and "wb_room k s" and "length (wb_queue k s) < 2 ^ k"
  shows "\<exists>t. wb_push cf a v n s = Some t \<and> wb_inv cf k t \<and>
     wb_queue k t = wb_queue k s @ [\<lparr>wr_addr = a, wr_value = v, wr_size = n\<rparr>] \<and>
     wb_head t = wb_head s + 1 \<and> io_writes t = io_writes s \<and> bs_clear_bits t = bs_clear_bits s \<and>
     io_read t = io_read s \<and> bs_blitwait t = bs_blitwait s"
proof -
  have k: "k < 32" "cf_write_buffer_size cf = 2 ^ k"
    using assms(1) by (simp_all add: wb_inv_def)
  let ?r = "\<lparr>wr_addr = a, wr_value = v, wr_size = n\<rparr>"
  let ?t = "s\<lparr>wb_buffer := (wb_buffer s)(wb_slot cf (wb_head s) := ?r), wb_head := wb_head s + 1\<rparr>"
  have p: "wb_push cf a v n s = Some ?t"
    using wb_full [OF assms(1,2)] assms(3) by (simp add: wb_push_def)
  have "unat (wb_head s - wb_tail s) < 2 ^ k"
    using assms(3) by (simp add: wb_queue_def)
  then have q: "wb_queue k ?t = wb_queue k s @ [?r]"
    using ring_push [OF k(1)] by (simp add: wb_queue_def wb_slot_mod k)
  have "unat (wb_head s + 1) = unat (wb_head s) + 1"
    using assms(2) by (simp add: wb_room_def unat_succ)
  then have "wb_inv cf k ?t"
    using assms(1,3) wb_queue_length [OF assms(1)] by (simp add: wb_inv_def word_le_nat_alt)
  with p q show ?thesis by simp
qed

lemma wb_pop_result:
  assumes "wb_inv cf k s" and "wb_queue k s \<noteq> []"
  shows "wb_peek cf s = Some (hd (wb_queue k s))"
    and "\<exists>t r. wb_pop cf s = Some (r, t) \<and> t = s\<lparr>wb_tail := wb_tail s + 1\<rparr> \<and> wb_inv cf k t \<and> wb_queue k t = tl (wb_queue k s)"
proof -
  have k: "k < 32" "cf_write_buffer_size cf = 2 ^ k"
    using assms(1) by (simp_all add: wb_inv_def)
  have ne: "wb_head s \<noteq> wb_tail s"
    using assms(2) by (auto simp: wb_queue_def ring_contents_empty)
  note r = ring_pop [OF k(1) ne, of "wb_buffer s"]
  show "wb_peek cf s = Some (hd (wb_queue k s))"
    using ne r by (simp add: wb_peek_def wb_queue_def wb_slot_mod k)
  have lt: "unat (wb_tail s) < unat (wb_head s)"
    using assms(1) ne by (simp add: wb_inv_def word_le_nat_alt) (metis le_neq_implies_less word_unat_eq_iff)
  then have "unat (wb_tail s + 1) = unat (wb_tail s) + 1"
    using unat_less_pow [of "wb_head s"] by (simp add: unat_add_small)
  then have "wb_inv cf k (s\<lparr>wb_tail := wb_tail s + 1\<rparr>)"
    using assms(1) lt by (auto simp: wb_inv_def word_le_nat_alt)
  then show "\<exists>t r. wb_pop cf s = Some (r, t) \<and> t = s\<lparr>wb_tail := wb_tail s + 1\<rparr> \<and> wb_inv cf k t \<and> wb_queue k t = tl (wb_queue k s)"
    using ne r by (simp add: wb_pop_def wb_queue_def)
qed

section \<open>Program order\<close>

definition store_request :: "write_request \<Rightarrow> (u32 \<Rightarrow> u8) \<Rightarrow> u32 \<Rightarrow> u8" where
  "store_request r m =
     (if wr_size r \<in> {1, 2, 4} then store_be (unat (wr_size r)) (wr_addr r) (wr_value r) m else m)"

text \<open>The memory the program has asked for: the bus memory with the pending writes applied.\<close>

definition program_memory :: "ps_config \<Rightarrow> nat \<Rightarrow> (u32 \<Rightarrow> u8) \<Rightarrow> 'a bus_state_scheme \<Rightarrow> u32 \<Rightarrow> u8" where
  "program_memory cf k m s = fold store_request (wb_queue k s) (bus_memory cf m s)"

definition wb_ready :: "ps_config \<Rightarrow> nat \<Rightarrow> 'a bus_state_scheme \<Rightarrow> bool" where
  "wb_ready cf k s \<longleftrightarrow> bus_ready cf s \<and> wb_inv cf k s \<and> counter_reaches s \<and> \<not> bs_blitwait s"

lemma wrote_part:
  assumes "wrote cf A xs s t"
  shows "bus_ready cf t" "bus_part t = bus_part s"
  using assms by (simp_all add: wrote_def)

lemma wb_dispatch_result:
  assumes "bus_ready cf s"
  shows "\<exists>t. wb_dispatch cf r s = Some t \<and> bus_ready cf t \<and> bus_part t = bus_part s \<and>
     bus_memory cf m t = store_request r (bus_memory cf m s)"
proof -
  consider "wr_size r = 1" | "wr_size r = 2" | "wr_size r = 4" | "wr_size r \<notin> {1, 2, 4}" by blast
  then show ?thesis
  proof cases
    case 1
    then show ?thesis
      using write_8_result [OF assms, of "wr_addr r" "wr_value r"] wrote_part
      by (fastforce simp: wb_dispatch_def store_request_def simp del: store_be.simps)
  next
    case 2
    then show ?thesis
      using write_16_result [OF assms, of "wr_addr r" "wr_value r"] wrote_part
      by (fastforce simp: wb_dispatch_def store_request_def)
  next
    case 3
    then show ?thesis
      using write_32_result [OF assms, of "wr_addr r" "wr_value r"] wrote_part
      by (fastforce simp: wb_dispatch_def store_request_def)
  next
    case 4
    then show ?thesis
      using assms by (simp add: wb_dispatch_def store_request_def)
  qed
qed

lemma same_wb:
  assumes "bus_part t = bus_part s"
  shows "wb_inv cf k t = wb_inv cf k s" "wb_queue k t = wb_queue k s" "counter_reaches t = counter_reaches s"
    "bs_blitwait t = bs_blitwait s" "wb_head t = wb_head s" "wb_tail t = wb_tail s"
  by (simp_all add: wb_inv_def wb_queue_def counter_reaches_def bus_part_same [OF assms])

lemma wb_turn_result:
  assumes "wb_ready cf k s" and "wb_queue k s \<noteq> []"
  shows "\<exists>t. wb_task_turn cf s = Some t \<and> wb_ready cf k t \<and> wb_head t = wb_head s \<and>
     wb_queue k t = tl (wb_queue k s) \<and> bus_memory cf m t = store_request (hd (wb_queue k s)) (bus_memory cf m s)"
proof -
  have s: "bus_ready cf s" "wb_inv cf k s" "counter_reaches s" "\<not> bs_blitwait s"
    using assms(1) by (simp_all add: wb_ready_def)
  let ?r = "hd (wb_queue k s)"
  have peek: "wb_peek cf s = Some ?r" by (rule wb_pop_result(1) [OF s(2) assms(2)])
  obtain u where u: "wb_dispatch cf ?r s = Some u" "bus_ready cf u" "bus_part u = bus_part s"
    "bus_memory cf m u = store_request ?r (bus_memory cf m s)"
    using wb_dispatch_result [OF s(1)] by blast
  note su = same_wb [OF u(3)]
  obtain j where j: "bus_delay cf (wr_addr ?r) u = Some (skip_io j u)"
    using bus_delay_ends [of u cf "wr_addr ?r"] su s(3) by auto
  let ?v = "skip_io j u"
  have part: "bus_part ?v = bus_part s" using u(3) by (simp add: frame)
  note sv = same_wb [OF part]
  have "wb_inv cf k ?v" "wb_queue k ?v \<noteq> []" using sv s(2) assms(2) by simp_all
  from wb_pop_result(2) [OF this] obtain t r where t: "wb_pop cf ?v = Some (r, t)"
    "t = ?v\<lparr>wb_tail := wb_tail ?v + 1\<rparr>" "wb_inv cf k t" "wb_queue k t = tl (wb_queue k ?v)" by blast
  have turn: "wb_task_turn cf s = Some t"
    unfolding wb_task_turn_def peek check_blit_active_def using s(4) u(1) j t(1) by simp
  have "bus_ready cf t"
    using u(2) t(2) by (simp add: bus_ready_def transactions_end_def)
  moreover have "counter_reaches t" "\<not> bs_blitwait t" "bus_memory cf m t = bus_memory cf m u" "wb_head t = wb_head s"
    using s(3,4) su by (simp_all add: t(2) counter_reaches_def bus_memory_def)
  ultimately show ?thesis
    using turn t(3,4) sv u(4) by (simp add: wb_ready_def)
qed

text \<open>The interleavings of the two cores; a step that would wait does not happen.\<close>

datatype wb_op = Push u32 u32 u8 | Turn

fun wb_step :: "ps_config \<Rightarrow> wb_op \<Rightarrow> 'a bus_state_scheme \<Rightarrow> 'a bus_state_scheme option" where
  "wb_step cf (Push a v n) s = wb_push cf a v n s"
| "wb_step cf Turn s = wb_task_turn cf s"

fun wb_run :: "ps_config \<Rightarrow> wb_op list \<Rightarrow> 'a bus_state_scheme \<Rightarrow> 'a bus_state_scheme option" where
  "wb_run cf [] s = Some s"
| "wb_run cf (x # xs) s = Option.bind (wb_step cf x s) (wb_run cf xs)"

fun pushed :: "wb_op list \<Rightarrow> write_request list" where
  "pushed [] = []"
| "pushed (Push a v n # xs) = \<lparr>wr_addr = a, wr_value = v, wr_size = n\<rparr> # pushed xs"
| "pushed (Turn # xs) = pushed xs"

lemma wb_push_ready:
  assumes "wb_ready cf k s" and "wb_room k s" and "wb_push cf a v n s = Some t"
  shows "wb_ready cf k t \<and> unat (wb_head t) = Suc (unat (wb_head s)) \<and>
     program_memory cf k m t = store_request \<lparr>wr_addr = a, wr_value = v, wr_size = n\<rparr> (program_memory cf k m s)"
proof -
  have s: "bus_ready cf s" "wb_inv cf k s" "counter_reaches s" "\<not> bs_blitwait s"
    using assms(1) by (simp_all add: wb_ready_def)
  have "length (wb_queue k s) \<noteq> 2 ^ k"
    using wb_full [OF s(2) assms(2)] assms(3) by (auto simp: wb_push_def split: if_splits)
  then have "length (wb_queue k s) < 2 ^ k"
    using wb_queue_length [OF s(2)] s(2) by (simp add: wb_inv_def)
  then have t: "wb_inv cf k t" "wb_queue k t = wb_queue k s @ [\<lparr>wr_addr = a, wr_value = v, wr_size = n\<rparr>]"
    "wb_head t = wb_head s + 1" "io_writes t = io_writes s" "bs_clear_bits t = bs_clear_bits s"
    "io_read t = io_read s" "bs_blitwait t = bs_blitwait s"
    using wb_push_result [OF s(2) assms(2), of a v n] assms(3) by auto
  have "io_clock t = io_clock s"
    using assms(3) by (auto simp: wb_push_def split: if_splits)
  then have "wb_ready cf k t"
    using s t by (simp add: wb_ready_def bus_ready_def transactions_end_def counter_reaches_def)
  moreover have "unat (wb_head t) = Suc (unat (wb_head s))"
    using assms(2) by (simp add: t(3) wb_room_def unat_succ)
  ultimately show ?thesis by (simp add: program_memory_def bus_memory_def t)
qed

lemma wb_turn_ready:
  assumes "wb_ready cf k s" and "wb_task_turn cf s = Some t"
  shows "wb_ready cf k t \<and> wb_head t = wb_head s \<and> program_memory cf k m t = program_memory cf k m s"
proof -
  have "wb_queue k s \<noteq> []"
    using assms(2) by (auto simp: wb_task_turn_def wb_peek_def wb_queue_def ring_contents_empty)
  then show ?thesis
    using wb_turn_result [OF assms(1), of m] assms(2)
    by (cases "wb_queue k s") (auto simp: program_memory_def)
qed

lemma wb_run_program_order:
  assumes "wb_ready cf k s" and "unat (wb_head s) + length (pushed ops) \<le> 2 ^ 32 - 2 ^ k" and "wb_run cf ops s = Some t"
  shows "wb_ready cf k t \<and> program_memory cf k m t = fold store_request (pushed ops) (program_memory cf k m s)"
  using assms
proof (induction ops arbitrary: s)
  case Nil
  then show ?case by simp
next
  case (Cons x ops)
  then obtain u where u: "wb_step cf x s = Some u" "wb_run cf ops u = Some t"
    by (auto split: bind_splits)
  show ?case
  proof (cases x)
    case (Push a v n)
    then have "wb_room k s" using Cons.prems(2) by (simp add: wb_room_def)
    then show ?thesis
      using wb_push_ready [OF Cons.prems(1), of a v n u m] u Push Cons.prems(2) Cons.IH [of u] by simp
  next
    case Turn
    then show ?thesis
      using wb_turn_ready [OF Cons.prems(1), of u m] u Cons.prems(2) Cons.IH [of u] by simp
  qed
qed


lemma store_be_word:
  "store_be 2 a v m = m((a AND 0xffffff) := ucast (drop_bit 8 v), ((a + 1) AND 0xffffff) := ucast v)"
  by (simp add: numeral_2_eq_2)

lemma bus_demo_wb_ready: "wb_ready pi_config 8 (bus_demo m)"
proof -
  have "wb_inv pi_config 8 (bus_demo m)"
    by (simp add: wb_inv_def bus_demo_fields pi_config_def)
  moreover have "\<not> bs_blitwait (bus_demo m)" by (simp add: bus_demo_def io_state.defs mirror.defs)
  ultimately show ?thesis
    using bus_demo_read_ready [of m] by (simp add: wb_ready_def read_ready_def)
qed


section \<open>The end of the counters' range\<close>

text \<open>
  C21: the full test of \<open>wb_push\<close> fails when its counters near the end of their range: with
  the buffer empty and both counters in the last \<open>2 ^ k\<close> values a push waits for room, the
  bus core has nothing to carry out, and neither core moves again.
\<close>

theorem write_buffer_stuck_at_wrap:
  assumes "k < 31" and "cf_write_buffer_size cf = 2 ^ k" and "wb_tail s = wb_head s"
    and "unat (wb_head s) \<ge> 2 ^ 32 - 2 ^ k"
  shows "wb_queue k s = [] \<and> wb_push cf a v n s = None \<and> wb_task_turn cf s = None"
proof -
  have lt: "(2 :: nat) ^ k < 2 ^ 32" by (rule power_strict_increasing) (use assms(1) in simp_all)
  have h: "unat (wb_head s) < 2 ^ 32" using unat_less_pow [of "wb_head s"] by simp
  have p: "unat (2 ^ k :: u32) = 2 ^ k" using assms(1) by (simp add: pow_word)
  have "unat (wb_head s + 2 ^ k) = (unat (wb_head s) + 2 ^ k) mod 2 ^ 32"
    by (simp add: unat_word_ariths p)
  also have "\<dots> = unat (wb_head s) + 2 ^ k - 2 ^ 32"
    using assms(4) h lt by (simp add: mod_if)
  also have "\<dots> \<le> unat (wb_head s)" using lt by linarith
  finally have "wb_tail s + cf_write_buffer_size cf \<le> wb_head s"
    using assms(2,3) by (simp add: word_le_nat_alt)
  then show ?thesis
    using assms(3)
    by (simp add: wb_push_def wb_queue_def ring_contents_empty wb_task_turn_def wb_peek_def)
qed

theorem write_buffer_stuck_at_wrap_witness:
  "wb_push pi_config 0x10 0xabcd 2 ((bus_demo (\<lambda>_. 0))\<lparr>wb_head := 0xffffff00, wb_tail := 0xffffff00\<rparr>) = None"
proof -
  let ?s = "(bus_demo (\<lambda>_. 0))\<lparr>wb_head := 0xffffff00, wb_tail := 0xffffff00\<rparr>"
  have "(8 :: nat) < 31" "cf_write_buffer_size pi_config = 2 ^ 8" "wb_tail ?s = wb_head ?s"
    "unat (wb_head ?s) \<ge> 2 ^ 32 - 2 ^ 8"
    by (simp_all add: pi_config_def)
  from write_buffer_stuck_at_wrap [OF this] show ?thesis by blast
qed

section \<open>Waiting for the blitter\<close>

text \<open>
  A write waits for the blitter exactly when the wait is switched on and one of its bytes
  is a blitter register, \<open>BLTCON0\<close> to \<open>BLTADAT\<close>.
\<close>

theorem blit_guard_exact:
  assumes "0 < n" and "n \<le> 4"
  shows "check_blit_active cf a n s =
     (if bs_blitwait s \<and> (\<exists>i<n. (a AND 0xffffff) + i \<in> {0xDFF040..<0xDFF076}) then blit_wait cf s else Some s)"
proof -
  let ?a = "a AND 0xffffff"
  have "unat ?a < 2 ^ 24" by (simp add: unat_and_masks)
  then have sum: "unat (?a + i) = unat ?a + unat i" if "i \<le> 4" for i
    using that by (intro unat_add_small) (simp add: word_le_nat_alt)
  have "(?a \<ge> 0xDFF076 \<or> ?a + n \<le> 0xDFF040) \<longleftrightarrow> \<not> (\<exists>i<n. ?a + i \<in> {0xDFF040..<0xDFF076})"
  proof
    assume "?a \<ge> 0xDFF076 \<or> ?a + n \<le> 0xDFF040"
    then show "\<not> (\<exists>i<n. ?a + i \<in> {0xDFF040..<0xDFF076})"
      using sum assms(2) by (auto simp: word_le_nat_alt word_less_nat_alt)
  next
    assume none: "\<not> (\<exists>i<n. ?a + i \<in> {0xDFF040..<0xDFF076})"
    show "?a \<ge> 0xDFF076 \<or> ?a + n \<le> 0xDFF040"
    proof (rule ccontr)
      assume "\<not> (?a \<ge> 0xDFF076 \<or> ?a + n \<le> 0xDFF040)"
      then have out: "unat ?a < 0xDFF076" "0xDFF040 < unat ?a + unat n"
        using sum [OF assms(2)] by (simp_all add: word_le_nat_alt not_le)
      define i where "i = (if ?a < 0xDFF040 then 0xDFF040 - ?a else 0)"
      have "i < n \<and> ?a + i \<in> {0xDFF040..<0xDFF076}"
      proof (cases "?a < 0xDFF040")
        case True
        then have "unat i = 0xDFF040 - unat ?a"
          by (simp add: i_def unat_sub word_le_nat_alt word_less_nat_alt)
        then show ?thesis using out True by (simp add: i_def word_less_nat_alt)
      next
        case False
        then show ?thesis using out assms(1) by (simp add: i_def word_less_nat_alt not_less word_le_nat_alt)
      qed
      with none show False by blast
    qed
  qed
  then have "check_blit_active cf a n s = (if \<not> bs_blitwait s then Some s
      else if \<not> (\<exists>i<n. ?a + i \<in> {0xDFF040..<0xDFF076}) then Some s else blit_wait cf s)"
    by (simp only: check_blit_active_def Let_def)
  then show ?thesis
    by (cases "bs_blitwait s"; cases "\<exists>i<n. ?a + i \<in> {0xDFF040..<0xDFF076}")
      (simp_all only: if_True if_False simp_thms)
qed

theorem blit_guard_exact_witness:
  "check_blit_active pi_config 0xdff03e 4 ((bus_demo (\<lambda>_. 0))\<lparr>bs_blitwait := True\<rparr>)
     = blit_wait pi_config ((bus_demo (\<lambda>_. 0))\<lparr>bs_blitwait := True\<rparr>)"
proof -
  have "\<exists>i<(4 :: u32). (0xdff03e AND 0xffffff) + i \<in> {0xDFF040..<0xDFF076}"
    by (rule exI [of _ 2]) simp
  then show ?thesis by (subst blit_guard_exact) simp_all
qed

end
