(* ===== verification/Serial.thy ===== *)
theory Serial
  imports BusRead
begin

text \<open>
  The debug serial output of \<open>source/src/pistorm/ps_classic_protocol.c\<close>: RS232 by bit
  banging and the clocked fast serial protocol, whose receiver samples the data line at every
  rising edge of the clock line.
\<close>

section \<open>RS232\<close>

definition txd :: "ps_config \<Rightarrow> bool \<Rightarrow> 'a io_state_scheme \<Rightarrow> 'a io_state_scheme" where
  "txd cf b s = (if b then gpio_set cf TXD_BIT s else gpio_clear cf TXD_BIT s)"

fun bitbang_bits :: "ps_config \<Rightarrow> nat \<Rightarrow> u8 \<Rightarrow> 'a bus_state_scheme \<Rightarrow> 'a bus_state_scheme option" where
  "bitbang_bits cf 0 byte s = Some s"
| "bitbang_bits cf (Suc n) byte s =
     do {
       (t0, s) \<leftarrow> read_cntvct s;
       let s = txd cf (byte AND 1 \<noteq> 0) s;
       s \<leftarrow> ticks_until (t0 + ucast (bs_bitbang_delay s)) s;
       bitbang_bits cf n (drop_bit 1 byte) s
     }"

definition bitbang_putByte :: "ps_config \<Rightarrow> u8 \<Rightarrow> 'a bus_state_scheme \<Rightarrow> 'a bus_state_scheme option" where
  "bitbang_putByte cf byte s =
     do {
       (t0, s) \<leftarrow> read_cntvct s;
       let s = txd cf False s;
       s \<leftarrow> ticks_until (t0 + ucast (bs_bitbang_delay s)) s;
       s \<leftarrow> bitbang_bits cf 8 byte s;
       (t0, s) \<leftarrow> read_cntvct s;
       let s = txd cf True s;
       ticks_until (t0 + ucast (3 * bs_bitbang_delay s div 2)) s
     }"

section \<open>Fast serial\<close>

definition FS_CLK :: u32 where "FS_CLK = push_bit 26 1"
definition FS_DO :: u32 where "FS_DO = push_bit 27 1"

definition fs_data :: "ps_config \<Rightarrow> bool \<Rightarrow> 'a io_state_scheme \<Rightarrow> 'a io_state_scheme" where
  "fs_data cf b s = (if b then gpio_set cf FS_DO s else gpio_clear cf FS_DO s)"

definition fs_clock :: "ps_config \<Rightarrow> nat \<Rightarrow> nat \<Rightarrow> 'a io_state_scheme \<Rightarrow> 'a io_state_scheme" where
  "fs_clock cf down up s = (gpio_set cf FS_CLK ^^ up) ((gpio_clear cf FS_CLK ^^ down) s)"

fun fs_bits :: "ps_config \<Rightarrow> nat \<Rightarrow> nat \<Rightarrow> u8 \<Rightarrow> 'a io_state_scheme \<Rightarrow> 'a io_state_scheme" where
  "fs_bits cf w 0 byte s = s"
| "fs_bits cf w (Suc n) byte s =
     fs_bits cf w n (drop_bit 1 byte) (fs_clock cf w w (fs_data cf (byte AND 1 \<noteq> 0) s))"

definition fastSerial_putByte_pi3 :: "ps_config \<Rightarrow> u8 \<Rightarrow> 'a io_state_scheme \<Rightarrow> 'a io_state_scheme" where
  "fastSerial_putByte_pi3 cf byte s =
     (let s = fs_clock cf 1 1 (gpio_clear cf FS_DO s);
          s = fs_bits cf 1 8 byte s;
          s = fs_clock cf 1 2 (gpio_clear cf FS_DO s)
      in gpio_set cf FS_DO (gpio_set cf FS_CLK s))"

definition fastSerial_putByte_pi4 :: "ps_config \<Rightarrow> u8 \<Rightarrow> 'a io_state_scheme \<Rightarrow> 'a io_state_scheme" where
  "fastSerial_putByte_pi4 cf byte s =
     (let s = fs_clock cf 2 2 (gpio_clear cf FS_DO s);
          s = fs_bits cf 2 8 byte s;
          s = fs_clock cf 2 2 (gpio_clear cf FS_DO s)
      in gpio_set cf FS_DO (gpio_set cf FS_CLK s))"

definition fastSerial_reset :: "ps_config \<Rightarrow> 'a io_state_scheme \<Rightarrow> 'a io_state_scheme" where
  "fastSerial_reset cf s = (fs_clock cf 2 2 ^^ 16) (gpio_set cf FS_DO (gpio_set cf FS_CLK s))"

text \<open>The function pointer \<open>fs_putByte\<close> (\<open>None\<close> is null) and the static flag.\<close>

record serial_port =
  sp_pi4 :: "bool option"
  sp_reset_pending :: bool

definition fastSerial_putByte ::
    "ps_config \<Rightarrow> u8 \<Rightarrow> serial_port \<times> 'a io_state_scheme \<Rightarrow> serial_port \<times> 'a io_state_scheme" where
  "fastSerial_putByte cf byte x =
     (let (p, s) = x;
          s = (if sp_reset_pending p then fastSerial_reset cf s else s);
          p = p\<lparr>sp_reset_pending := False\<rparr>;
          s = (case sp_pi4 p of None \<Rightarrow> s
               | Some True \<Rightarrow> fastSerial_putByte_pi4 cf byte s
               | Some False \<Rightarrow> fastSerial_putByte_pi3 cf byte s)
      in (if byte = 10 then p\<lparr>sp_reset_pending := True\<rparr> else p, s))"

definition fastSerial_init ::
    "ps_config \<Rightarrow> serial_port \<times> 'a io_state_scheme \<Rightarrow> serial_port \<times> 'a io_state_scheme" where
  "fastSerial_init cf x =
     (let (p, s) = x in (p\<lparr>sp_pi4 := Some (read_cntfrq s > 20000000)\<rparr>, fastSerial_reset cf s))"

section \<open>What a receiver sees\<close>

text \<open>The two lines and the bits sampled so far, oldest first.\<close>

record serial_line =
  sl_clk :: bool
  sl_do :: bool
  sl_bits :: "bool list"

definition line_step :: "ps_config \<Rightarrow> u64 \<times> u32 \<Rightarrow> serial_line \<Rightarrow> serial_line" where
  "line_step cf w l =
     (if fst w = cf_gpio cf + 4 * 7 then
        let d = (sl_do l \<or> bit (snd w) 27); c = (sl_clk l \<or> bit (snd w) 26)
        in \<lparr>sl_clk = c, sl_do = d, sl_bits = (if c \<and> \<not> sl_clk l then sl_bits l @ [d] else sl_bits l)\<rparr>
      else if fst w = cf_gpio cf + 4 * 10 then
        l\<lparr>sl_clk := sl_clk l \<and> \<not> bit (snd w) 26, sl_do := sl_do l \<and> \<not> bit (snd w) 27\<rparr>
      else l)"

definition line_of :: "ps_config \<Rightarrow> (u64 \<times> u32) list \<Rightarrow> serial_line" where
  "line_of cf ws = foldr (line_step cf) ws \<lparr>sl_clk = False, sl_do = False, sl_bits = []\<rparr>"

abbreviation line :: "ps_config \<Rightarrow> 'a io_state_scheme \<Rightarrow> serial_line" where
  "line cf s \<equiv> line_of cf (io_writes s)"

lemma fs_masks: "bit FS_CLK i \<longleftrightarrow> i = 26" "bit FS_DO i \<longleftrightarrow> i = 27"
  by (auto simp: FS_CLK_def FS_DO_def bits)

lemma line_writes:
  "line cf (gpio_set cf v s) = line_step cf (cf_gpio cf + 4 * 7, v) (line cf s)"
  "line cf (gpio_clear cf v s) = line_step cf (cf_gpio cf + 4 * 10, v) (line cf s)"
  by (simp_all add: line_of_def gpio_set_def gpio_clear_def wr32le_def)

lemma line_ops:
  "line cf (gpio_set cf FS_DO s) = (line cf s)\<lparr>sl_do := True\<rparr>"
  "line cf (gpio_clear cf FS_DO s) = (line cf s)\<lparr>sl_do := False\<rparr>"
  "line cf (gpio_clear cf FS_CLK s) = (line cf s)\<lparr>sl_clk := False\<rparr>"
  "line cf (gpio_set cf FS_CLK s) =
     (line cf s)\<lparr>sl_clk := True, sl_bits := sl_bits (line cf s) @ (if sl_clk (line cf s) then [] else [sl_do (line cf s)])\<rparr>"
  unfolding line_writes by (simp_all add: line_step_def fs_masks Let_def)

lemma line_clock:
  assumes "0 < down" and "0 < up"
  shows "line cf (fs_clock cf down up s) =
     (line cf s)\<lparr>sl_clk := True, sl_bits := sl_bits (line cf s) @ [sl_do (line cf s)]\<rparr>"
proof -
  have d: "line cf ((gpio_clear cf FS_CLK ^^ Suc n) s) = (line cf s)\<lparr>sl_clk := False\<rparr>" for n
    by (induction n) (simp_all add: line_ops)
  have u: "line cf ((gpio_set cf FS_CLK ^^ Suc n) t) = (line cf t)\<lparr>sl_clk := True,
      sl_bits := sl_bits (line cf t) @ [sl_do (line cf t)]\<rparr>" if "\<not> sl_clk (line cf t)" for n t
    using that by (induction n) (simp_all add: line_ops)
  obtain i j where ij: "down = Suc i" "up = Suc j"
    using assms by (metis gr0_conv_Suc)
  show ?thesis
    unfolding fs_clock_def ij by (subst u) (simp_all del: funpow.simps add: d)
qed

lemma line_data: "line cf (fs_data cf b s) = (line cf s)\<lparr>sl_do := b\<rparr>"
  by (simp add: fs_data_def line_ops)

definition byte_bits :: "u8 \<Rightarrow> bool list" where
  "byte_bits b = map (bit b) [0..<8]"

lemma line_bits:
  assumes "0 < w"
  shows "\<exists>d. line cf (fs_bits cf w n byte s) =
     (line cf s)\<lparr>sl_clk := (0 < n \<or> sl_clk (line cf s)), sl_do := d, sl_bits := sl_bits (line cf s) @ map (bit byte) [0..<n]\<rparr>"
proof (induction n arbitrary: byte s)
  case 0
  show ?case by (rule exI [of _ "sl_do (line cf s)"]) simp
next
  case (Suc n)
  have odd: "(byte AND 1 \<noteq> 0) = bit byte 0"
    by (simp add: bit_0 and_one_eq) (simp add: odd_iff_mod_2_eq_one)
  have bits: "map (bit byte) [0..<Suc n] = bit byte 0 # map (bit (drop_bit 1 byte)) [0..<n]"
    by (simp add: upt_conv_Cons map_Suc_upt [symmetric] bit_drop_bit_eq o_def del: upt_Suc)
  from Suc.IH [of "drop_bit 1 byte" "fs_clock cf w w (fs_data cf (byte AND 1 \<noteq> 0) s)"]
  show ?case
    by (auto simp: line_clock [OF assms assms] line_data odd bits simp del: upt_Suc)
qed

lemma line_put:
  "line cf (fastSerial_putByte_pi3 cf b s) = \<lparr>sl_clk = True, sl_do = True,
     sl_bits = sl_bits (line cf s) @ [False] @ byte_bits b @ [False]\<rparr>"
  "line cf (fastSerial_putByte_pi4 cf b s) = \<lparr>sl_clk = True, sl_do = True,
     sl_bits = sl_bits (line cf s) @ [False] @ byte_bits b @ [False]\<rparr>"
proof -
  let ?s1 = "fs_clock cf 1 1 (gpio_clear cf FS_DO s)" and ?s2 = "fs_clock cf 2 2 (gpio_clear cf FS_DO s)"
  obtain d where d: "line cf (fs_bits cf 1 8 b ?s1) = (line cf ?s1)\<lparr>sl_clk := True, sl_do := d,
      sl_bits := sl_bits (line cf ?s1) @ byte_bits b\<rparr>"
    using line_bits [of 1 cf 8 b ?s1] unfolding byte_bits_def by auto
  obtain e where e: "line cf (fs_bits cf 2 8 b ?s2) = (line cf ?s2)\<lparr>sl_clk := True, sl_do := e,
      sl_bits := sl_bits (line cf ?s2) @ byte_bits b\<rparr>"
    using line_bits [of 2 cf 8 b ?s2] unfolding byte_bits_def by auto
  show "line cf (fastSerial_putByte_pi3 cf b s) = \<lparr>sl_clk = True, sl_do = True,
     sl_bits = sl_bits (line cf s) @ [False] @ byte_bits b @ [False]\<rparr>"
    by (simp add: fastSerial_putByte_pi3_def Let_def line_ops line_clock d [simplified])
  show "line cf (fastSerial_putByte_pi4 cf b s) = \<lparr>sl_clk = True, sl_do = True,
     sl_bits = sl_bits (line cf s) @ [False] @ byte_bits b @ [False]\<rparr>"
    by (simp add: fastSerial_putByte_pi4_def Let_def line_ops line_clock e)
qed

lemma line_reset: "line cf (fastSerial_reset cf s) = \<lparr>sl_clk = True, sl_do = True,
    sl_bits = sl_bits (line cf (gpio_set cf FS_CLK s)) @ replicate 16 True\<rparr>"
proof -
  let ?t = "gpio_set cf FS_DO (gpio_set cf FS_CLK s)"
  have "line cf ((fs_clock cf 2 2 ^^ n) ?t) = \<lparr>sl_clk = True, sl_do = True,
      sl_bits = sl_bits (line cf ?t) @ replicate n True\<rparr>" for n
    by (induction n) (simp_all add: line_clock line_ops replicate_append_same)
  then show ?thesis by (simp add: fastSerial_reset_def line_ops)
qed

text \<open>The receiver: idle while the line is high; a low bit starts eight data bits and one more.\<close>

definition byte_of_bits :: "bool list \<Rightarrow> u8" where
  "byte_of_bits bs = horner_sum of_bool 2 bs"

fun receive :: "nat \<Rightarrow> bool list \<Rightarrow> u8 list" where
  "receive 0 bs = []"
| "receive (Suc n) [] = []"
| "receive (Suc n) (True # bs) = receive n bs"
| "receive (Suc n) (False # bs) =
     (if length bs < 9 then [] else byte_of_bits (take 8 bs) # receive n (drop 9 bs))"

definition received :: "ps_config \<Rightarrow> 'a io_state_scheme \<Rightarrow> u8 list" where
  "received cf s = receive (length (sl_bits (line cf s))) (sl_bits (line cf s))"

lemma byte_of_byte_bits: "byte_of_bits (byte_bits b) = b"
proof -
  have "byte_of_bits (byte_bits b) = take_bit 8 b"
    unfolding byte_of_bits_def byte_bits_def by (rule horner_sum_bit_eq_take_bit)
  also have "\<dots> = b"
    by (rule bit_word_eqI) (simp add: bit_take_bit_iff)
  finally show ?thesis .
qed

lemma receive_Nil [simp]: "receive n [] = []"
  by (cases n) simp_all

lemma receive_more: "length bs \<le> n \<Longrightarrow> length bs \<le> m \<Longrightarrow> receive n bs = receive m bs"
proof (induction n arbitrary: m bs)
  case 0
  then show ?case by simp
next
  case (Suc n)
  show ?case
  proof (cases bs)
    case Nil
    then show ?thesis by simp
  next
    case (Cons b cs)
    then obtain k where m: "m = Suc k" "length cs \<le> k" using Suc.prems by (cases m) auto
    have "length cs \<le> n" using Suc.prems Cons by simp
    then have "receive n cs = receive k cs" "receive n (drop 9 cs) = receive k (drop 9 cs)"
      using m(2) by (auto intro!: Suc.IH)
    then show ?thesis by (cases b) (simp_all only: Cons m receive.simps)
  qed
qed

text \<open>What the frames of a stream followed by whole frames are.\<close>

inductive framed :: "bool list \<Rightarrow> u8 list \<Rightarrow> bool" where
  framed_Nil: "framed [] []"
| framed_idle: "framed bs q \<Longrightarrow> framed (bs @ [True]) q"
| framed_byte: "framed bs q \<Longrightarrow> framed (bs @ [False] @ byte_bits b @ [False]) (q @ [b])"

lemma length_byte_bits [simp]: "length (byte_bits b) = 8"
  by (simp add: byte_bits_def)

lemma receive_frame:
  assumes "length bs + 10 \<le> n"
  shows "receive n ([False] @ byte_bits b @ [False] @ bs) = b # receive (length bs) bs"
proof -
  obtain k where k: "n = Suc k" "length bs \<le> k" using assms by (cases n) auto
  then show ?thesis
    by (simp add: byte_of_byte_bits receive_more [of bs k "length bs"])
qed

lemma receive_append:
  assumes "framed xs q"
  shows "receive (length (xs @ ys)) (xs @ ys) = q @ receive (length ys) ys"
  using assms
proof (induction arbitrary: ys rule: framed.induct)
  case framed_Nil
  show ?case by simp
next
  case (framed_idle bs q)
  have "receive (Suc (length ys)) (True # ys) = receive (length ys) ys" by simp
  with framed_idle.IH [of "True # ys"] show ?case by simp
next
  case (framed_byte bs q b)
  have "receive (length ([False] @ byte_bits b @ [False] @ ys)) ([False] @ byte_bits b @ [False] @ ys)
      = b # receive (length ys) ys"
    by (rule receive_frame) simp
  with framed_byte.IH [of "[False] @ byte_bits b @ [False] @ ys"] show ?case by simp
qed

lemma framed_received: "framed (sl_bits (line cf s)) q \<Longrightarrow> received cf s = q"
  using receive_append [of "sl_bits (line cf s)" q "[]"] by (simp add: received_def)

definition port_ready :: "ps_config \<Rightarrow> u8 list \<Rightarrow> serial_port \<times> 'a io_state_scheme \<Rightarrow> bool" where
  "port_ready cf q x \<longleftrightarrow>
     sp_pi4 (fst x) \<noteq> None \<and> sl_clk (line cf (snd x)) \<and> framed (sl_bits (line cf (snd x))) q"

lemma framed_ones: "framed bs q \<Longrightarrow> framed (bs @ replicate n True) q"
proof (induction n)
  case 0
  then show ?case by simp
next
  case (Suc n)
  then have "framed ((bs @ replicate n True) @ [True]) q" by (intro framed_idle)
  then show ?case by (simp add: replicate_append_same)
qed

lemma put_byte_ready:
  assumes "port_ready cf q x"
  shows "port_ready cf (q @ [b]) (fastSerial_putByte cf b x)"
proof -
  obtain p s where x: "x = (p, s)" by (cases x)
  define s1 where "s1 = (if sp_reset_pending p then fastSerial_reset cf s else s)"
  have "sl_clk (line cf s1)" and f: "framed (sl_bits (line cf s1)) q"
    using assms framed_ones by (simp_all add: x s1_def port_ready_def line_reset line_ops)
  obtain v where v: "sp_pi4 p = Some v" using assms by (auto simp: x port_ready_def)
  have "framed (sl_bits (line cf s1) @ [False] @ byte_bits b @ [False]) (q @ [b])"
    using f by (rule framed_byte)
  then show ?thesis
    using v by (cases v) (auto simp: x fastSerial_putByte_def port_ready_def Let_def s1_def [symmetric] line_put)
qed

lemma init_ready:
  assumes "framed (sl_bits (line cf s)) q" and "sl_clk (line cf s) \<or> sl_do (line cf s)"
  shows "port_ready cf q (fastSerial_init cf (p, s))"
proof -
  have "framed (sl_bits (line cf (gpio_set cf FS_CLK s))) q"
    using assms framed_idle [OF assms(1)] by (auto simp: line_ops)
  then show ?thesis
    using framed_ones by (auto simp: fastSerial_init_def port_ready_def line_reset)
qed

lemma put_text_ready: "port_ready cf q x \<Longrightarrow> port_ready cf (q @ bs) (fold (fastSerial_putByte cf) bs x)"
proof (induction bs arbitrary: q x)
  case Nil
  then show ?case by simp
next
  case (Cons b bs)
  from Cons.IH [OF put_byte_ready [OF Cons.prems, of b]] show ?case by simp
qed

text \<open>
  C22: after initialisation the receiver of the clocked serial line gets exactly the bytes
  written, on both machine models and across the resynchronisation that follows every newline;
  before it the line may have carried whole frames, and clock and data must not both be low.
\<close>

theorem serial_text_received:
  assumes "framed (sl_bits (line cf s)) q" and "sl_clk (line cf s) \<or> sl_do (line cf s)"
  shows "received cf (snd (fold (fastSerial_putByte cf) bytes (fastSerial_init cf (p, s)))) = q @ bytes"
  using put_text_ready [OF init_ready [OF assms]] by (auto simp: port_ready_def framed_received)

theorem serial_text_received_witness:
  "received pi_config (snd (fold (fastSerial_putByte pi_config) [0x48, 10, 0x69]
     (fastSerial_init pi_config (\<lparr>sp_pi4 = None, sp_reset_pending = False\<rparr>, gpio_set pi_config FS_DO (bus_demo (\<lambda>_. 0))))))
     = [0x48, 10, 0x69]"
proof -
  let ?s = "gpio_set pi_config FS_DO (bus_demo (\<lambda>_. 0))"
  have "line pi_config (bus_demo (\<lambda>_. 0)) = \<lparr>sl_clk = False, sl_do = False, sl_bits = []\<rparr>"
    by (simp add: line_of_def bus_demo_fields)
  then have "framed (sl_bits (line pi_config ?s)) []" "sl_clk (line pi_config ?s) \<or> sl_do (line pi_config ?s)"
    by (simp_all add: line_ops framed_Nil)
  from serial_text_received [OF this, where bytes = "[0x48, 10, 0x69]"] show ?thesis
    by (simp only: append_Nil)
qed

section \<open>The RS232 line\<close>

text \<open>The levels written to the data line, oldest first.\<close>

definition txd_levels :: "ps_config \<Rightarrow> (u64 \<times> u32) list \<Rightarrow> bool list" where
  "txd_levels cf ws =
     map (\<lambda>w. fst w = cf_gpio cf + 4 * 7) (rev (filter (\<lambda>w. bit (snd w) 26 \<and>
       (fst w = cf_gpio cf + 4 * 7 \<or> fst w = cf_gpio cf + 4 * 10)) ws))"

lemma txd_bits: "bit TXD_BIT i \<longleftrightarrow> i = 26"
  by (auto simp: TXD_BIT_def bits)

lemma txd_level [simp]: "txd_levels cf (io_writes (txd cf b s)) = txd_levels cf (io_writes s) @ [b]"
  by (simp add: txd_def txd_levels_def gpio_set_def gpio_clear_def wr32le_def txd_bits)

lemma txd_fields [simp]:
  "counter_reaches (txd cf b s) = counter_reaches s" "bs_bitbang_delay (txd cf b s) = bs_bitbang_delay s"
  "counter_reaches (s\<lparr>io_n := n\<rparr>) = counter_reaches s"
  by (simp_all add: txd_def gpio_set_def gpio_clear_def wr32le_def counter_reaches_def)

lemma ticks_until_ends: "counter_reaches s \<Longrightarrow> \<exists>j. ticks_until t s = Some (skip_io j s)"
  unfolding counter_reaches_def using ticks_until_steps by blast

lemma bitbang_bits_result:
  assumes "counter_reaches s"
  shows "\<exists>t. bitbang_bits cf n byte s = Some t \<and> counter_reaches t \<and>
     txd_levels cf (io_writes t) = txd_levels cf (io_writes s) @ map (bit byte) [0..<n]"
  using assms
proof (induction n arbitrary: byte s)
  case 0
  then show ?case by simp
next
  case (Suc n)
  have odd: "(byte AND 1 \<noteq> 0) = bit byte 0"
    by (simp add: bit_0 and_one_eq) (simp add: odd_iff_mod_2_eq_one)
  have bits: "map (bit byte) [0..<Suc n] = bit byte 0 # map (bit (drop_bit 1 byte)) [0..<n]"
    by (simp add: upt_conv_Cons map_Suc_upt [symmetric] bit_drop_bit_eq o_def del: upt_Suc)
  let ?u = "txd cf (byte AND 1 \<noteq> 0) (skip_io 1 s)"
  have u: "counter_reaches ?u" using Suc.prems by simp
  obtain j where j: "ticks_until (io_clock s (io_n s) + ucast (bs_bitbang_delay ?u)) ?u = Some (skip_io j ?u)"
    using ticks_until_ends [OF u] by blast
  obtain t where t: "bitbang_bits cf n (drop_bit 1 byte) (skip_io j ?u) = Some t" "counter_reaches t"
    "txd_levels cf (io_writes t) = txd_levels cf (io_writes (skip_io j ?u)) @ map (bit (drop_bit 1 byte)) [0..<n]"
    using Suc.IH [of "skip_io j ?u"] u by auto
  have "bitbang_bits cf (Suc n) byte s = Some t"
    using j t(1) by (simp add: read_cntvct_def Let_def)
  moreover have "txd_levels cf (io_writes t) = txd_levels cf (io_writes s) @ map (bit byte) [0..<Suc n]"
    unfolding t(3) bits using odd by simp
  ultimately show ?case using t(2) by blast
qed

text \<open>
  A byte sent by bit banging always ends, and drives the line low for the start bit, then
  through the eight data bits, least significant first, and high for the stop bit.
\<close>

theorem bitbang_frame:
  assumes "counter_reaches s"
  shows "\<exists>t. bitbang_putByte cf byte s = Some t \<and>
     txd_levels cf (io_writes t) = txd_levels cf (io_writes s) @ [False] @ map (bit byte) [0..<8] @ [True]"
proof -
  let ?u = "txd cf False (skip_io 1 s)"
  have u: "counter_reaches ?u" using assms by simp
  obtain i where i: "ticks_until (io_clock s (io_n s) + ucast (bs_bitbang_delay ?u)) ?u = Some (skip_io i ?u)"
    using ticks_until_ends [OF u] by blast
  obtain v where v: "bitbang_bits cf 8 byte (skip_io i ?u) = Some v" "counter_reaches v"
    "txd_levels cf (io_writes v) = txd_levels cf (io_writes (skip_io i ?u)) @ map (bit byte) [0..<8]"
    using bitbang_bits_result [of "skip_io i ?u" cf 8 byte] u by auto
  let ?w = "txd cf True (skip_io 1 v)"
  have "counter_reaches ?w" using v(2) by simp
  then obtain j where j: "ticks_until (io_clock v (io_n v) + ucast (3 * bs_bitbang_delay ?w div 2)) ?w = Some (skip_io j ?w)"
    using ticks_until_ends by blast
  have "bitbang_putByte cf byte s = Some (skip_io j ?w)"
    using i v(1) j by (simp add: bitbang_putByte_def read_cntvct_def Let_def)
  then show ?thesis using v(3) by simp
qed

theorem bitbang_frame_witness:
  "\<exists>t. bitbang_putByte pi_config 0x41 (bus_demo (\<lambda>_. 0)) = Some t \<and>
     txd_levels pi_config (io_writes t) = [False, True, False, False, False, False, False, True, False, True]"
proof -
  have "counter_reaches (bus_demo (\<lambda>_. 0))"
    using bus_demo_read_ready by (simp add: read_ready_def)
  moreover have "txd_levels pi_config (io_writes (bus_demo (\<lambda>_. 0))) = []"
    by (simp add: bus_demo_fields txd_levels_def)
  moreover have "map (bit (0x41 :: u8)) [0..<8] = [True, False, False, False, False, False, True, False]"
    by code_simp
  ultimately show ?thesis
    using bitbang_frame [of "bus_demo (\<lambda>_. 0)" pi_config "0x41"] by auto
qed

end
