(* ===== verification/SysBus.thy ===== *)
theory SysBus
  imports BusRead Probe
begin

text \<open>
  The address decoder of the emulated machine, the PiStorm variant in
  \<open>source/src/aarch64/vectors.c\<close>: \<open>SYSWriteValToAddr\<close> and
  \<open>SYSReadValFromAddr\<close> route an access of the JIT code to the register bank, the
  expansion boards, the ROM image or the bus, and keep the shadow of the interrupt registers.

  The build options \<open>PISTORM_CLASSIC\<close> and \<open>PAULA_PROBE_ENABLED\<close> are on. The boards'
  \<open>map\<close> functions and \<open>mmu_map\<close> are outside the repository: their calls are logged.
  Both pointers of a read are stored through on some paths only, so a result is the handled
  flag and for each pointer the word stored, if any; every caller passes a first pointer.
\<close>

section \<open>State\<close>

record expansion_board =
  is_z3 :: bool
  enabled :: bool
  map_base :: u64
  rom_file :: "nat \<Rightarrow> u8"

record sys_options =
  rom_mapped :: bool
  swap_df0_with_dfx :: nat
  move_slow_to_chip :: bool
  block_c0 :: bool
  zorro_disable :: bool
  disable_scsi :: bool
  beamcon0_pal_clear :: bool
  beamcon0_pal_set :: bool
  fast_page0 :: bool

datatype sys_call =
  Mmu_map u64 u64 u64 bool
| Board_map nat u64
| Put_char u8

record sys_state = bus_state +
  INT_shadow_INTENA :: u16
  INT_shadow_INTREQ :: u16
  INT_shadow_ARMPending :: u8
  INTF_ARM :: u8
  INTF_ARM_err :: u8
  boards :: "expansion_board list"
  options :: sys_options
  spoof_df0_id :: bool
  metrics :: "nat \<Rightarrow> u32"
  host_memory :: "u64 \<Rightarrow> u8"
  sys_log :: "sys_call list"

text \<open>The fourth field of \<open>Mmu_map\<close> says whether the mapping is read only.\<close>

abbreviation (input) CIAAPRA :: u64 where "CIAAPRA \<equiv> 0xBFE001"
abbreviation (input) CIABPRB :: u64 where "CIABPRB \<equiv> 0xBFD100"
abbreviation (input) VPOSR :: u64 where "VPOSR \<equiv> 0xDFF004"
abbreviation (input) INTENA :: u64 where "INTENA \<equiv> 0xDFF09A"
abbreviation (input) INTENAR :: u64 where "INTENAR \<equiv> 0xDFF01C"
abbreviation (input) INTREQ :: u64 where "INTREQ \<equiv> 0xDFF09C"
abbreviation (input) INTREQR :: u64 where "INTREQR \<equiv> 0xDFF01E"

text \<open>A big-endian load of \<open>n\<close> bytes.\<close>

fun load_bytes :: "nat \<Rightarrow> ('a::{one,plus} \<Rightarrow> u8) \<Rightarrow> 'a \<Rightarrow> u64" where
  "load_bytes 0 m a = 0"
| "load_bytes (Suc n) m a = push_bit (8 * n) (ucast (m a)) OR load_bytes n m (a + 1)"

lemma load_bytes_4:
  "load_bytes 4 m a = push_bit 24 (ucast (m a)) OR (push_bit 16 (ucast (m (a + 1))) OR
     (push_bit 8 (ucast (m (a + 1 + 1))) OR ucast (m (a + 1 + 1 + 1))))"
proof -
  have "load_bytes 4 m a = load_bytes (Suc (Suc (Suc (Suc 0)))) m a" by (simp add: numeral_eq_Suc)
  then show ?thesis by simp
qed

section \<open>Pieces of both directions\<close>

text \<open>One wrap around the 32-bit address space in either direction.\<close>

definition fold_address :: "u64 \<Rightarrow> u64" where
  "fold_address far =
     (if drop_bit 32 far = 1 \<or> drop_bit 32 far = 0xffffffff then far AND 0xffffffff else far)"

definition scsi_blocked :: "u64 \<Rightarrow> 'a sys_state_scheme \<Rightarrow> bool" where
  "scsi_blocked far s \<longleftrightarrow> disable_scsi (options s) \<and> 0x00da0000 \<le> far \<and> far \<le> 0x00da7fff"

definition slow_blocked :: "u64 \<Rightarrow> 'a sys_state_scheme \<Rightarrow> bool" where
  "slow_blocked far s \<longleftrightarrow> move_slow_to_chip (options s) \<and> 0xC00000 \<le> far \<and> far \<le> 0xC7FFFF"

definition c0_blocked :: "u64 \<Rightarrow> 'a sys_state_scheme \<Rightarrow> bool" where
  "c0_blocked far s \<longleftrightarrow> 0xc00000 \<le> far \<and> far \<le> 0xc7ffff \<and> block_c0 (options s)"

definition slow_address :: "u64 \<Rightarrow> 'a sys_state_scheme \<Rightarrow> u64" where
  "slow_address far s =
     (if move_slow_to_chip (options s) \<and> 0x080000 \<le> far \<and> far \<le> 0x0FFFFF then far + 0xB80000 else far)"

text \<open>The select lines of the two swapped drives.\<close>

definition swap_selects :: "nat \<Rightarrow> u64 \<Rightarrow> u64" where
  "swap_selects dfx value =
     (if drop_bit 3 value AND 1 \<noteq> drop_bit (3 + dfx) value AND 1
      then value XOR (push_bit 3 1 OR push_bit (3 + dfx) 1) else value)"

definition current_board :: "'a sys_state_scheme \<Rightarrow> expansion_board option" where
  "current_board s = (if bs_board_idx s < length (boards s) then Some (boards s ! bs_board_idx s) else None)"

section \<open>Writing\<close>

definition write_int_shadow :: "u64 \<Rightarrow> u64 \<Rightarrow> 'a sys_state_scheme \<Rightarrow> 'a sys_state_scheme" where
  "write_int_shadow value far s =
     (let s = (if far = INTENA
               then let ena = (if value AND 0x8000 \<noteq> 0 then INT_shadow_INTENA s OR ucast (value AND 0x7fff)
                               else INT_shadow_INTENA s AND NOT (ucast (value AND 0x7fff)));
                        s = s\<lparr>INT_shadow_INTENA := ena\<rparr>
                    in if INT_shadow_ARMPending s \<noteq> 0
                       then s\<lparr>INTF_ARM := (if ena AND 0x6000 = 0x6000 then 1 else 0)\<rparr> else s
               else s)
      in if far = INTREQ
         then let req = (if value AND 0x8000 \<noteq> 0 then INT_shadow_INTREQ s OR ucast (value AND 0x3fff)
                         else INT_shadow_INTREQ s AND NOT (ucast (value AND 0x3fff)));
                  s = s\<lparr>INT_shadow_INTREQ := req\<rparr>
              in if value AND 0xa000 = 0x2000
                 then s\<lparr>INTF_ARM := 0, INT_shadow_ARMPending := 0\<rparr> else s
         else s)"

definition write_overlay :: "u64 \<Rightarrow> nat \<Rightarrow> u64 \<Rightarrow> 'a sys_state_scheme \<Rightarrow> 'a sys_state_scheme" where
  "write_overlay value sz far s =
     (if far = CIAAPRA \<and> sz = 1 \<and> value AND 1 \<noteq> ucast (bs_overlay s)
      then let s = s\<lparr>bs_overlay := ucast (value AND 1)\<rparr>
           in if fast_page0 (options s)
              then s\<lparr>sys_log := (if bs_overlay s \<noteq> 0 then Mmu_map 0xf80000 0 4096 True
                                 else Mmu_map 0 0 4096 False) # sys_log s\<rparr>
              else s
      else s)"

definition write_drive_select :: "u64 \<Rightarrow> u64 \<Rightarrow> 'a sys_state_scheme \<Rightarrow> u64 \<times> 'a sys_state_scheme" where
  "write_drive_select value far s =
     (let dfx = swap_df0_with_dfx (options s)
      in if far = CIABPRB \<and> dfx \<noteq> 0
         then (swap_selects dfx value,
               s\<lparr>spoof_df0_id := (value AND (push_bit (3 + dfx) 1 OR 0x80) = 0x80)\<rparr>)
         else (value, s))"

definition map_board :: "u64 \<Rightarrow> 'a sys_state_scheme \<Rightarrow> 'a sys_state_scheme" where
  "map_board base s =
     (let i = bs_board_idx s
      in s\<lparr>boards := (boards s)[i := (boards s ! i)\<lparr>map_base := base\<rparr>],
           sys_log := Board_map i base # sys_log s, bs_board_idx := i + 1\<rparr>)"

definition write_autoconfig :: "u64 \<Rightarrow> u64 \<Rightarrow> expansion_board \<Rightarrow> 'a sys_state_scheme \<Rightarrow> 'a sys_state_scheme" where
  "write_autoconfig value far brd s =
     (let s = (if is_z3 brd
               then if far = 0xe80044 then map_board (push_bit 16 (value AND 0xffff)) s else s
               else if far = 0xe80048 then map_board (push_bit 16 (value AND 0xff)) s else s)
      in if far = 0xe8004c \<or> far = 0xe8004e then s\<lparr>bs_board_idx := bs_board_idx s + 1\<rparr> else s)"

definition bus_write_sized ::
    "ps_config \<Rightarrow> u64 \<Rightarrow> u64 \<Rightarrow> nat \<Rightarrow> u64 \<Rightarrow> 'a sys_state_scheme \<Rightarrow> 'a sys_state_scheme option" where
  "bus_write_sized cf value value2 sz far s =
     (if sz = 1 then ps_write_8 cf (ucast far) (ucast value) s
      else if sz = 2 then ps_write_16 cf (ucast far) (ucast value) s
      else if sz = 4 then ps_write_32 cf (ucast far) (ucast value) s
      else if sz = 8 then ps_write_64 cf (ucast far) value s
      else if sz = 16 then ps_write_128 cf (ucast far) (value, value2) s
      else Some s)"

definition SYSWriteValToAddr ::
    "ps_config \<Rightarrow> u64 \<Rightarrow> u64 \<Rightarrow> nat \<Rightarrow> u64 \<Rightarrow> (bool, 'a sys_state_scheme) prog" where
  "SYSWriteValToAddr cf value value2 sz far s =
     (let far = fold_address far
      in if drop_bit 32 far \<noteq> 0 then Some (False, s)
         else if scsi_blocked far s then Some (True, s)
         else
           let s = write_int_shadow value far s;
               (taken, m) = paula_probe_bus_write value sz far (metrics s);
               s = s\<lparr>metrics := m\<rparr>
           in if taken then Some (True, s)
              else if far = 0xdeadbeef \<and> sz = 1 then Some (True, s\<lparr>sys_log := Put_char (ucast value) # sys_log s\<rparr>)
              else if far \<ge> 0x1000000 then Some (True, s)
              else
                let s = write_overlay value sz far s;
                    (value, s) = write_drive_select value far s
                in if \<not> zorro_disable (options s) \<and> 0xe80000 \<le> far \<and> far \<le> 0xe8ffff \<and> current_board s \<noteq> None
                   then Some (True, write_autoconfig value far (the (current_board s)) s)
                   else if slow_blocked far s then Some (True, s)
                   else let far = slow_address far s
                        in if c0_blocked far s then Some (True, s)
                           else do { s \<leftarrow> bus_write_sized cf value value2 sz far s; Some (True, s) })"

section \<open>Reading\<close>

text \<open>What an unmapped address reads: a window on a table of four long words.\<close>

definition bad_table :: "u64 list" where
  "bad_table = [0xBAD00BAD00BAD00B, 0xAD00BAD00BAD00BA, 0x00BAD00BAD00BAD0, 0x0BAD00BAD00BAD00, 0]"

definition bad_byte :: "nat \<Rightarrow> u8" where
  "bad_byte k = ucast (drop_bit (8 * (7 - k mod 8)) (bad_table ! (k div 8)))"

definition read_unmapped :: "nat \<Rightarrow> u64 \<Rightarrow> u64 option \<times> u64 option" where
  "read_unmapped sz far =
     (let p64 = 16 - (15 - unat (far AND 15))
      in if sz = 1 \<or> sz = 2 \<or> sz = 4 \<or> sz = 8 then (Some (load_bytes sz bad_byte p64), None)
         else if sz = 16 then (Some (load_bytes 8 bad_byte p64), Some (load_bytes 8 bad_byte (p64 + 8)))
         else (None, None))"

text \<open>Boards that are not enabled are skipped.\<close>

definition skip_boards :: "'a sys_state_scheme \<Rightarrow> 'a sys_state_scheme" where
  "skip_boards s =
     s\<lparr>bs_board_idx := bs_board_idx s + length (takeWhile (\<lambda>b. \<not> enabled b) (drop (bs_board_idx s) (boards s)))\<rparr>"

definition ROM_IMAGE :: u64 where "ROM_IMAGE = 0xffffff9000e00000"

definition read_rom :: "nat \<Rightarrow> u64 \<Rightarrow> 'a sys_state_scheme \<Rightarrow> u64 option" where
  "read_rom sz far s =
     (if sz = 1 \<or> sz = 2 \<or> sz = 4 \<or> sz = 8 then Some (load_bytes sz (host_memory s) (ROM_IMAGE + far)) else None)"

definition bus_read_sized ::
    "ps_config \<Rightarrow> nat \<Rightarrow> u64 \<Rightarrow> (u64 option \<times> u64 option, 'a sys_state_scheme) prog" where
  "bus_read_sized cf sz far s =
     (if sz = 1 then do { (v, s) \<leftarrow> ps_read_8 cf (ucast far) s; Some ((Some (ucast v), None), s) }
      else if sz = 2 then do { (v, s) \<leftarrow> ps_read_16 cf (ucast far) s; Some ((Some (ucast v), None), s) }
      else if sz = 4 then do { (v, s) \<leftarrow> ps_read_32 cf (ucast far) s; Some ((Some (ucast v), None), s) }
      else if sz = 8 then do { (v, s) \<leftarrow> ps_read_64 cf (ucast far) s; Some ((Some v, None), s) }
      else if sz = 16 then do { ((hi, lo), s) \<leftarrow> ps_read_128 cf (ucast far) s; Some ((Some hi, Some lo), s) }
      else Some ((None, None), s))"

text \<open>The shadow follows what is read; the fake request bit goes into the value.\<close>

definition read_int_shadow :: "nat \<Rightarrow> u64 \<Rightarrow> u64 \<Rightarrow> 'a sys_state_scheme \<Rightarrow> u64 \<times> 'a sys_state_scheme" where
  "read_int_shadow sz far value s =
     (let even = far AND NOT 1;
          high = (\<lambda>old :: u16. old AND 0x00ff OR ucast (push_bit 8 (value AND 0xff)));
          low = (\<lambda>old :: u16. old AND 0xff00 OR ucast (value AND 0xff));
          s = (if even = INTENAR
               then s\<lparr>INT_shadow_INTENA :=
                        (if sz = 2 then ucast value
                         else if far AND 1 \<noteq> 0 then low (INT_shadow_INTENA s)
                         else high (INT_shadow_INTENA s))\<rparr>
               else s)
      in if even = INTREQR
         then if sz = 2
              then (if INT_shadow_ARMPending s \<noteq> 0 then value OR 0x2000 else value,
                    s\<lparr>INT_shadow_INTREQ := ucast value\<rparr>)
              else if far AND 1 \<noteq> 0
              then (value, s\<lparr>INT_shadow_INTREQ := low (INT_shadow_INTREQ s)\<rparr>)
              else (if INT_shadow_ARMPending s \<noteq> 0 then value OR 0x20 else value,
                    s\<lparr>INT_shadow_INTREQ := high (INT_shadow_INTREQ s)\<rparr>)
         else (value, s))"

definition read_adjust :: "nat \<Rightarrow> u64 \<Rightarrow> u64 \<Rightarrow> 'a sys_state_scheme \<Rightarrow> u64" where
  "read_adjust sz far value s =
     (let dfx = swap_df0_with_dfx (options s);
          value = (if far = CIAAPRA \<and> dfx \<noteq> 0 \<and> spoof_df0_id s then value AND 0xDF else value);
          value = (if far = CIABPRB \<and> dfx \<noteq> 0 then swap_selects dfx value else value)
      in if far = VPOSR \<and> sz = 2
         then if beamcon0_pal_set (options s) then value AND 0xef00
              else if beamcon0_pal_clear (options s) then value OR 0x1000 else value
         else value)"

text \<open>\<open>has_value2\<close>: the caller passed a second pointer, which only 16-byte reads do.\<close>

definition SYSReadValFromAddr ::
    "ps_config \<Rightarrow> bool \<Rightarrow> nat \<Rightarrow> u64 \<Rightarrow> (bool \<times> u64 option \<times> u64 option, 'a sys_state_scheme) prog" where
  "SYSReadValFromAddr cf has_value2 sz far s =
     (let (taken, v, v2) = paula_probe_bus_read (metrics s) True has_value2 sz far
      in if taken then Some ((True, v, v2), s)
         else
           let far = fold_address far
           in if drop_bit 32 far \<noteq> 0 then Some ((False, None, None), s)
              else if scsi_blocked far s
              then Some ((True, Some 0xffffffff, if has_value2 then Some 0xffffffff else None), s)
              else if far \<ge> 0x1000000 then (let (v, v2) = read_unmapped sz far in Some ((True, v, v2), s))
              else if c0_blocked far s then Some ((True, Some 0, None), s)
              else
                let zorro = (\<not> zorro_disable (options s) \<and> 0xe80000 \<le> far \<and> far \<le> 0xe8ffff \<and> sz = 1);
                    s = (if zorro then skip_boards s else s)
                in if zorro \<and> current_board s \<noteq> None
                   then Some ((True, Some (ucast (rom_file (the (current_board s)) (unat (far - 0xe80000)))), None), s)
                   else if rom_mapped (options s) \<and> bs_overlay s \<noteq> 0 \<and> far < 0x80000
                   then Some ((True, read_rom sz far s, None), s)
                   else if slow_blocked far s then Some ((True, Some 0, None), s)
                   else
                     let far = slow_address far s
                     in do {
                       ((v, v2), s) \<leftarrow> bus_read_sized cf sz far s;
                       Some (case v of
                               None \<Rightarrow> ((True, None, v2), s)
                             | Some value \<Rightarrow>
                                 let (value, s) = read_int_shadow sz far value s
                                 in ((True, Some (read_adjust sz far value s), v2), s))
                     })"

end
