(* ===== verification/SysMemory.thy ===== *)
theory SysMemory
  imports SysBus
begin

text \<open>
  Memory accesses through the address decoder: what the emulated processor stores with an
  access of any size is what it loads, through the decoder, the width dispatch, the
  splitting into bus cycles and the pins.
\<close>

section \<open>Loads and stores at other addresses\<close>

lemma store_be_other: "(\<And>j. j < k \<Longrightarrow> (b + word_of_nat j) AND 0xffffff \<noteq> x) \<Longrightarrow> store_be k b d m x = m x"
proof (induction k arbitrary: b m)
  case (Suc k)
  have "b AND 0xffffff \<noteq> x" using Suc.prems [of 0] by simp
  moreover have "(b + 1 + word_of_nat j) AND 0xffffff \<noteq> x" if "j < k" for j
    using Suc.prems [of "Suc j"] that by (simp add: algebra_simps)
  ultimately show ?case using Suc.IH [of "b + 1"] by simp
qed simp

lemma load_be_cong:
  "(\<And>i. i < n \<Longrightarrow> m ((a + word_of_nat i) AND 0xffffff) = m' ((a + word_of_nat i) AND 0xffffff)) \<Longrightarrow>
     load_be n a m = load_be n a m'"
proof (induction n arbitrary: a)
  case (Suc n)
  have "m (a AND 0xffffff) = m' (a AND 0xffffff)" using Suc.prems [of 0] by simp
  moreover have "load_be n (a + 1) m = load_be n (a + 1) m'"
  proof (rule Suc.IH)
    fix i assume "i < n"
    then show "m ((a + 1 + word_of_nat i) AND 0xffffff) = m' ((a + 1 + word_of_nat i) AND 0xffffff)"
      using Suc.prems [of "Suc i"] by (simp add: algebra_simps)
  qed
  ultimately show ?case by simp
qed simp

lemma load_store_apart:
  assumes "\<And>i j. i < n \<Longrightarrow> j < k \<Longrightarrow> (b + word_of_nat j) AND 0xffffff \<noteq> (a + word_of_nat i) AND 0xffffff"
  shows "load_be n a (store_be k b d m) = load_be n a m"
  by (rule load_be_cong) (rule store_be_other, use assms in blast)

lemma long_apart:
  assumes "p + 4 \<le> q \<or> q + 4 \<le> p" and "p \<le> 12" and "q \<le> 12"
  shows "load_be 4 (a + word_of_nat p) (store_be 4 (a + word_of_nat q) d m) = load_be 4 (a + word_of_nat p) m"
proof (rule load_store_apart)
  fix i j :: nat assume "i < 4" "j < 4"
  then show "(a + word_of_nat q + word_of_nat j) AND 0xffffff \<noteq> (a + word_of_nat p + word_of_nat i) AND 0xffffff"
    using assms bus_distinct [of "q + j" "p + i" a] bus_distinct [of "p + i" "q + j" a]
    by (cases "q + j < p + i") (auto simp: add.assoc)
qed

lemma load_store_byte: "load_be 1 a (store_be 1 a d m) = d AND 0xff"
  by (simp, rule bit_word_eqI) (auto simp: bit_ucast_iff bit_and_iff bits)

lemma load_store_word: "load_be 2 a (store_be 2 a d m) = d AND 0xffff"
proof -
  have "(a AND 0xffffff) \<noteq> (a + 1) AND 0xffffff" using bus_distinct [of 0 1 a] by simp
  then have "load_be 2 a (store_be 2 a d m) = push_bit 8 (ucast (ucast (drop_bit 8 d) :: u8)) OR ucast (ucast d :: u8)"
    by (simp add: numeral_2_eq_2)
  also have "\<dots> = d AND 0xffff"
    by (rule bit_word_eqI) (auto simp: bit_ucast_iff bit_and_iff bit_or_iff bit_push_bit_iff bit_drop_bit_eq bits)
  finally show ?thesis .
qed

section \<open>Writes of the emulated processor\<close>

definition outer_part where "outer_part s = bus_part (s\<lparr>bs_icache := []\<rparr>)"

definition stored ::
    "ps_config \<Rightarrow> (u32 \<Rightarrow> u8) \<Rightarrow> ((u32 \<Rightarrow> u8) \<Rightarrow> u32 \<Rightarrow> u8) \<Rightarrow> 'a bus_state_scheme \<Rightarrow> 'a bus_state_scheme option \<Rightarrow> bool" where
  "stored cf m F s r \<longleftrightarrow>
     (\<exists>t. r = Some t \<and> read_ready cf m t \<and> outer_part t = outer_part s \<and> bus_memory cf m t = F (bus_memory cf m s))"

lemma stored_bind:
  assumes "stored cf m F s r" and "\<And>t. read_ready cf m t \<Longrightarrow> stored cf m G t (g t)"
  shows "stored cf m (G \<circ> F) s (Option.bind r g)"
  using assms by (fastforce simp: stored_def)

lemma outer_same: "bus_part t = bus_part s \<Longrightarrow> outer_part t = outer_part s"
  by (simp add: outer_part_def bus_part_def)

lemma icache_ready: "read_ready cf m (cache_invalidate_range a n s) = read_ready cf m s"
  by (simp add: cache_invalidate_range_def read_ready_def bus_ready_def bus_answers_def counter_reaches_def
      transactions_end_def pi4_def read_cntfrq_def)

lemma stored_icache:
  assumes "stored cf m F s r"
  shows "stored cf m F s (Option.bind r (\<lambda>s. Some (cache_invalidate_range a n s)))"
  using assms
  by (auto simp: stored_def icache_ready) (simp_all add: cache_invalidate_range_def outer_part_def bus_part_def bus_memory_def)

lemma no_blit:
  assumes "\<not> bs_blitwait s \<or> a < 0xd00000" and "n \<le> 16"
  shows "check_blit_active cf a n s = Some s"
proof (cases "bs_blitwait s")
  case True
  then have "unat a < 0xd00000" "unat n \<le> 16" using assms by (simp_all add: word_less_nat_alt word_le_nat_alt)
  then have "unat (a AND 0xffffff) < 0xd00000" by (simp add: unat_and_masks)
  then have "unat ((a AND 0xffffff) + n) \<le> 0xDFF040"
    using \<open>unat n \<le> 16\<close> by (subst unat_add_small) simp_all
  then have "(a AND 0xffffff) + n \<le> 0xDFF040" by (simp add: word_le_nat_alt)
  then show ?thesis by (simp add: check_blit_active_def Let_def)
qed (simp add: check_blit_active_def)

lemma stored_write:
  assumes ready: "read_ready cf m s"
    and w: "\<exists>t A xs. r = Some t \<and> wrote cf A xs s t \<and> (\<forall>m. bus_memory cf m t = F (bus_memory cf m s))"
  shows "stored cf m F s (Option.bind r (\<lambda>t. Option.bind (bus_delay cf a t) (\<lambda>t. Some (cache_invalidate_range b n t))))"
proof -
  obtain t A xs where t: "r = Some t" "wrote cf A xs s t" "bus_memory cf m t = F (bus_memory cf m s)"
    using w by blast
  have part: "bus_part t = bus_part s" and "bus_ready cf t" using t(2) by (simp_all add: wrote_def)
  then have rt: "read_ready cf m t" by (rule same_read_ready [OF _ _ ready])
  then obtain j where j: "bus_delay cf a t = Some (skip_io j t)"
    using bus_delay_ends unfolding read_ready_def by blast
  have pj: "bus_part (skip_io j t) = bus_part s" using part by (simp add: frame)
  have "read_ready cf m (skip_io j t)"
    by (rule same_read_ready [OF pj _ ready]) (rule skip_ready, use rt in \<open>simp add: read_ready_def\<close>)
  then have "stored cf m F s (Option.bind r (bus_delay cf a))"
    using t j outer_same [OF pj] by (simp add: stored_def bus_memory_def)
  from stored_icache [OF this] show ?thesis by simp
qed

lemma ps_write_stored:
  assumes "read_ready cf m s" and "\<not> cf_write_buffer cf" and "\<not> bs_blitwait s \<or> a < 0xd00000"
  shows "stored cf m (store_be 1 a d) s (ps_write_8 cf a d s)"
    and "stored cf m (store_be 2 a d) s (ps_write_16 cf a d s)"
    and "stored cf m (store_be 4 a d) s (ps_write_32 cf a d s)"
proof -
  have ready: "bus_ready cf s" using assms(1) by (simp add: read_ready_def)
  show "stored cf m (store_be 1 a d) s (ps_write_8 cf a d s)"
    unfolding ps_write_8_def using assms(2) stored_write [OF assms(1) ] write_8_result [OF ready, of a d]
    by (simp del: store_be.simps One_nat_def) blast
  show "stored cf m (store_be 2 a d) s (ps_write_16 cf a d s)"
    unfolding ps_write_16_def using assms(2) stored_write [OF assms(1)] write_16_result [OF ready, of a d]
    by (simp add: no_blit [OF assms(3)]) blast
  show "stored cf m (store_be 4 a d) s (ps_write_32 cf a d s)"
    unfolding ps_write_32_def using assms(2) stored_write [OF assms(1)] write_32_result [OF ready, of a d]
    by (simp add: no_blit [OF assms(3)]) blast
qed

section \<open>Double long words and quads\<close>

lemma near_address: "(a :: u32) < 0xcffff0 \<Longrightarrow> k \<le> 12 \<Longrightarrow> a + k < 0xd00000"
  by (auto simp: word_less_nat_alt word_le_nat_alt unat_word_ariths)

lemma ps_write_64_stored:
  assumes "read_ready cf m s" and "\<not> cf_write_buffer cf" and "a < 0xcffff0"
  shows "stored cf m (store_be 4 (a + 4) (ucast d) \<circ> store_be 4 a (ucast (drop_bit 32 d))) s (ps_write_64 cf a d s)"
proof -
  have a: "a < 0xd00000" "a + 4 < 0xd00000" using near_address [of a 0] near_address [of a 4] assms(3) by simp_all
  have "stored cf m (store_be 4 (a + 4) (ucast d) \<circ> store_be 4 a (ucast (drop_bit 32 d))) s
      (Option.bind (ps_write_32 cf a (ucast (drop_bit 32 d)) s) (\<lambda>t. ps_write_32 cf (a + 4) (ucast d) t))"
    by (rule stored_bind) (use assms a ps_write_stored in blast)+
  from stored_icache [OF this] show ?thesis by (simp add: ps_write_64_def)
qed

lemma ps_write_128_stored:
  assumes "read_ready cf m s" and "\<not> cf_write_buffer cf" and "a < 0xcffff0"
  shows "stored cf m (store_be 4 (a + 12) (ucast lo) \<circ> store_be 4 (a + 8) (ucast (drop_bit 32 lo)) \<circ>
      store_be 4 (a + 4) (ucast hi) \<circ> store_be 4 a (ucast (drop_bit 32 hi))) s (ps_write_128 cf a (hi, lo) s)"
proof -
  have a: "a < 0xd00000" "a + 4 < 0xd00000" "a + 8 < 0xd00000" "a + 12 < 0xd00000"
    using near_address [of a 0] near_address [of a 4] near_address [of a 8] near_address [of a 12] assms(3) by simp_all
  note w = ps_write_stored(3) [OF _ assms(2) disjI2]
  have "stored cf m (((store_be 4 (a + 12) (ucast lo) \<circ> store_be 4 (a + 8) (ucast (drop_bit 32 lo))) \<circ>
      store_be 4 (a + 4) (ucast hi)) \<circ> store_be 4 a (ucast (drop_bit 32 hi))) s
      (Option.bind (ps_write_32 cf a (ucast (drop_bit 32 hi)) s) (\<lambda>t. Option.bind (ps_write_32 cf (a + 4) (ucast hi) t)
         (\<lambda>t. Option.bind (ps_write_32 cf (a + 8) (ucast (drop_bit 32 lo)) t) (\<lambda>t. ps_write_32 cf (a + 12) (ucast lo) t))))"
    by (intro stored_bind w assms(1) a) simp_all
  from stored_icache [OF this] show ?thesis by (simp add: ps_write_128_def o_assoc)
qed

lemma reads_elim:
  assumes "reads cf m v s r"
  obtains t where "r = Some (v, t)" "read_ready cf m t" "bus_memory cf m t = bus_memory cf m s"
  using assms by (auto simp: reads_def)

lemma ps_read_64_result:
  assumes "read_ready cf m s"
  defines "M \<equiv> bus_memory cf m s"
  shows "\<exists>t. ps_read_64 cf a s = Some (push_bit 32 (ucast (load_be 4 a M)) OR ucast (load_be 4 (a + 4) M), t)"
proof -
  obtain t where t: "ps_read_32 cf a s = Some (load_be 4 a M, t)" "read_ready cf m t" "bus_memory cf m t = M"
    using read_32_result [OF assms(1)] unfolding M_def by (rule reads_elim)
  obtain u where u: "ps_read_32 cf (a + 4) t = Some (load_be 4 (a + 4) M, u)"
    using read_32_result [OF t(2), of "a + 4"] using t(3) by (auto elim!: reads_elim)
  show ?thesis by (simp add: ps_read_64_def t(1) u)
qed

lemma ps_read_128_result:
  assumes "read_ready cf m s"
  defines "M \<equiv> bus_memory cf m s"
  shows "\<exists>t. ps_read_128 cf a s =
     Some ((push_bit 32 (ucast (load_be 4 a M)) OR ucast (load_be 4 (a + 4) M),
            push_bit 32 (ucast (load_be 4 (a + 8) M)) OR ucast (load_be 4 (a + 12) M)), t)"
proof -
  obtain t where t: "ps_read_32 cf a s = Some (load_be 4 a M, t)" "read_ready cf m t" "bus_memory cf m t = M"
    using read_32_result [OF assms(1)] unfolding M_def by (rule reads_elim)
  obtain u where u: "ps_read_32 cf (a + 4) t = Some (load_be 4 (a + 4) M, u)" "read_ready cf m u" "bus_memory cf m u = M"
    using read_32_result [OF t(2), of "a + 4"] using t(3) by (auto elim!: reads_elim)
  obtain v where v: "ps_read_32 cf (a + 8) u = Some (load_be 4 (a + 8) M, v)" "read_ready cf m v" "bus_memory cf m v = M"
    using read_32_result [OF u(2), of "a + 8"] using u(3) by (auto elim!: reads_elim)
  obtain w where w: "ps_read_32 cf (a + 12) v = Some (load_be 4 (a + 12) M, w)"
    using read_32_result [OF v(2), of "a + 12"] using v(3) by (auto elim!: reads_elim)
  show ?thesis by (simp add: ps_read_128_def t(1) u(1) v(1) w)
qed

lemma join_longs: "push_bit 32 (ucast (ucast (drop_bit 32 d) :: u32)) OR ucast (ucast d :: u32) = (d :: u64)"
proof (rule bit_word_eqI)
  fix n assume "n < LENGTH(64)"
  then show "bit (push_bit 32 (ucast (ucast (drop_bit 32 d) :: u32)) OR ucast (ucast d :: u32) :: u64) n = bit d n"
    by (cases "n < 32") (auto simp: bit_or_iff bit_push_bit_iff bit_ucast_iff bit_drop_bit_eq)
qed

text \<open>What the width dispatch stores and loads.\<close>

definition stored_bytes :: "nat \<Rightarrow> u32 \<Rightarrow> u64 \<Rightarrow> u64 \<Rightarrow> (u32 \<Rightarrow> u8) \<Rightarrow> u32 \<Rightarrow> u8" where
  "stored_bytes sz a v v2 =
     (if sz \<le> 4 then store_be sz a (ucast v)
      else if sz = 8 then store_be 4 (a + 4) (ucast v) \<circ> store_be 4 a (ucast (drop_bit 32 v))
      else store_be 4 (a + 12) (ucast v2) \<circ> store_be 4 (a + 8) (ucast (drop_bit 32 v2)) \<circ>
           store_be 4 (a + 4) (ucast v) \<circ> store_be 4 a (ucast (drop_bit 32 v)))"

lemma bus_write_sized_stored:
  assumes "read_ready cf m s" and "\<not> cf_write_buffer cf" and "ucast far < (0xcffff0 :: u32)" and "sz \<in> {1, 2, 4, 8, 16}"
  shows "stored cf m (stored_bytes sz (ucast far) v v2) s (bus_write_sized cf v v2 sz far s)"
proof -
  have a: "ucast far < (0xd00000 :: u32)" using near_address [OF assms(3), of 0] by simp
  note small = ps_write_stored [OF assms(1,2) disjI2 [OF a]]
  show ?thesis
    using assms(4) small ps_write_64_stored [OF assms(1-3)] ps_write_128_stored [OF assms(1-3)]
    by (auto simp: stored_bytes_def bus_write_sized_def simp del: store_be.simps)
qed

lemma bus_read_sized_stored:
  assumes "read_ready cf m s" and "sz \<in> {1, 2, 4, 8, 16}"
    and mem: "bus_memory cf m s = stored_bytes sz (ucast far) v v2 M"
  shows "\<exists>t. bus_read_sized cf sz far s =
     Some ((Some (take_bit (8 * sz) v), if sz = 16 then Some v2 else None), t)"
proof -
  let ?a = "ucast far :: u32"
  have b: "ucast (ucast v AND 0xff :: u32) = take_bit 8 v" and w: "ucast (ucast v AND 0xffff :: u32) = take_bit 16 v"
    and l: "ucast (ucast v :: u32) = take_bit 32 v"
    by (rule bit_word_eqI; auto simp: bit_ucast_iff bit_and_iff bit_take_bit_iff bits)+
  note off = long_apart [of 0 4 ?a] long_apart [of 0 8 ?a] long_apart [of 0 12 ?a] long_apart [of 4 8 ?a]
    long_apart [of 4 12 ?a] long_apart [of 8 12 ?a]
  consider "sz = 1" | "sz = 2" | "sz = 4" | "sz = 8" | "sz = 16" using assms(2) by blast
  then show ?thesis
  proof cases
    case 1
    obtain t where "ps_read_8 cf ?a s = Some (load_be 1 ?a (bus_memory cf m s), t)"
      using read_8_result [OF assms(1)] by (rule reads_elim)
    then show ?thesis
      using load_store_byte [of ?a "ucast v" M] 1 b
      by (simp add: mem stored_bytes_def bus_read_sized_def del: store_be.simps load_be.simps One_nat_def)
  next
    case 2
    obtain t where "ps_read_16 cf ?a s = Some (load_be 2 ?a (bus_memory cf m s), t)"
      using read_16_result [OF assms(1)] by (rule reads_elim)
    then show ?thesis
      using load_store_word [of ?a "ucast v" M] 2 w by (simp add: mem stored_bytes_def bus_read_sized_def)
  next
    case 3
    obtain t where "ps_read_32 cf ?a s = Some (load_be 4 ?a (bus_memory cf m s), t)"
      using read_32_result [OF assms(1)] by (rule reads_elim)
    then show ?thesis
      using load_store_long [of ?a "ucast v" M] 3 l by (simp add: mem stored_bytes_def bus_read_sized_def)
  next
    case 4
    obtain t where "ps_read_64 cf ?a s = Some (push_bit 32 (ucast (load_be 4 ?a (bus_memory cf m s)))
        OR ucast (load_be 4 (?a + 4) (bus_memory cf m s)), t)"
      using ps_read_64_result [OF assms(1)] by blast
    then show ?thesis
      using 4 off join_longs [of v] load_store_long
      by (simp add: mem stored_bytes_def bus_read_sized_def take_bit_word_eq_self)
  next
    case 5
    obtain t where "ps_read_128 cf ?a s = Some ((push_bit 32 (ucast (load_be 4 ?a (bus_memory cf m s)))
        OR ucast (load_be 4 (?a + 4) (bus_memory cf m s)), push_bit 32 (ucast (load_be 4 (?a + 8) (bus_memory cf m s)))
        OR ucast (load_be 4 (?a + 12) (bus_memory cf m s))), t)"
      using ps_read_128_result [OF assms(1)] by blast
    then show ?thesis
      using 5 off join_longs [of v] join_longs [of v2] load_store_long
      by (simp add: mem stored_bytes_def bus_read_sized_def take_bit_word_eq_self)
  qed
qed

section \<open>The round trip\<close>

lemma fold_low: "fold_address far < 0x100000000 \<Longrightarrow> far < 0x100000000 \<or> 0x100000000 \<le> far"
  by auto

lemma decoder_part:
  fixes s t :: "'a sys_state_scheme"
  assumes "outer_part t = outer_part s"
  shows "options t = options s" "bs_overlay t = bs_overlay s" "bs_board_idx t = bs_board_idx s" "metrics t = metrics s"
proof -
  have "bus_state.more t = bus_state.more s" and o: "bs_overlay t = bs_overlay s" "bs_board_idx t = bs_board_idx s"
    using assms by (simp_all add: outer_part_def bus_part_def)
  then show "options t = options s" "metrics t = metrics s"
    by (cases s; cases t; simp)+
  show "bs_overlay t = bs_overlay s" "bs_board_idx t = bs_board_idx s" by (fact o)+
qed

text \<open>
  Addresses the decoder passes to the memory on the bus: below the custom chips and the
  processor cards, not in a ROM overlay, and not moved to a blocked range.
\<close>

definition plain_address :: "u64 \<Rightarrow> 'a sys_state_scheme \<Rightarrow> bool" where
  "plain_address far s \<longleftrightarrow>
     (let f = fold_address far
      in f < 0x9ffff0 \<and> \<not> (rom_mapped (options s) \<and> bs_overlay s \<noteq> 0 \<and> f < 0x80000) \<and>
         \<not> (move_slow_to_chip (options s) \<and> block_c0 (options s) \<and> 0x80000 \<le> f \<and> f \<le> 0xfffff))"

lemma fold_not_probe:
  assumes "fold_address far < 0x1000000"
  shows "far < 0xDEADB000 \<or> 0xDEADB200 \<le> far"
proof (cases "drop_bit 32 far = 0")
  case True
  then have "fold_address far = far" by (simp add: fold_address_def)
  then show ?thesis using assms by (auto simp: word_less_nat_alt)
next
  case False
  have "0x100000000 \<le> far"
  proof (rule ccontr)
    assume "\<not> ?thesis"
    then have "unat far < 0x100000000" by (simp add: word_le_nat_alt)
    then have "unat (drop_bit 32 far) = 0" by (simp add: drop_bit_eq_div unat_div)
    then show False using False by (simp add: unat_eq_0)
  qed
  then show ?thesis by (auto simp: word_le_nat_alt)
qed

lemma low_address:
  assumes "(f :: u64) < 0x9ffff0"
  shows "drop_bit 32 f = 0" "f \<noteq> INTENA" "f \<noteq> INTREQ" "f \<noteq> 0xdeadbeef" "\<not> 0x1000000 \<le> f" "f \<noteq> CIAAPRA"
    "f \<noteq> CIABPRB" "f \<noteq> VPOSR" "\<not> 0xe80000 \<le> f" "\<not> 0xC00000 \<le> f" "\<not> 0x00da0000 \<le> f" "f < 0xDEADB000"
proof -
  have u: "unat f < 0x9ffff0" using assms by (simp add: word_less_nat_alt)
  show "drop_bit 32 f = 0"
  proof -
    have "unat (drop_bit 32 f) = 0" using u by (simp add: drop_bit_eq_div unat_div)
    then show ?thesis by (simp only: unat_eq_0)
  qed
qed (use assms in \<open>auto simp: word_le_nat_alt word_less_nat_alt\<close>)

lemma slow_moved:
  assumes "plain_address far s"
  shows "\<not> c0_blocked (slow_address (fold_address far) s) s" "\<not> slow_blocked (fold_address far) s"
    "ucast (slow_address (fold_address far) s) < (0xcffff0 :: u32)" "\<not> c0_blocked (fold_address far) s"
    "slow_address (fold_address far) s < 0xcffff0"
    "slow_address (fold_address far) s \<noteq> CIAAPRA" "slow_address (fold_address far) s \<noteq> CIABPRB"
proof -
  define f where "f = fold_address far"
  have f: "unat f < 0x9ffff0"
    and c0: "\<not> (move_slow_to_chip (options s) \<and> block_c0 (options s) \<and> 0x80000 \<le> f \<and> f \<le> 0xfffff)"
    using assms by (simp_all add: plain_address_def Let_def f_def word_less_nat_alt)
  have moved: "unat (f + 0xB80000) = unat f + 0xB80000" using f by (subst unat_add_small) simp_all
  show slow: "slow_address (fold_address far) s < 0xcffff0"
    using f moved by (auto simp: slow_address_def f_def [symmetric] word_less_nat_alt word_le_nat_alt)
  then have "unat (slow_address (fold_address far) s) < 0xcffff0" by (simp add: word_less_nat_alt)
  then show "ucast (slow_address (fold_address far) s) < (0xcffff0 :: u32)"
    by (simp add: word_less_nat_alt unsigned_ucast_eq take_bit_nat_eq_self)
  show "\<not> c0_blocked (slow_address (fold_address far) s) s"
    using f c0 moved by (auto simp: slow_address_def c0_blocked_def f_def [symmetric] word_less_nat_alt word_le_nat_alt)
  show "\<not> slow_blocked (fold_address far) s" "\<not> c0_blocked (fold_address far) s"
    using f by (simp_all add: slow_blocked_def c0_blocked_def f_def [symmetric] word_le_nat_alt)
  have "unat (slow_address (fold_address far) s) < 0x9ffff0 \<or> 0xC00000 \<le> unat (slow_address (fold_address far) s)"
    using f moved by (auto simp: slow_address_def f_def [symmetric] word_le_nat_alt)
  then show "slow_address (fold_address far) s \<noteq> CIAAPRA" "slow_address (fold_address far) s \<noteq> CIABPRB"
    by auto
qed

lemma plain_write:
  assumes "plain_address far s"
  shows "SYSWriteValToAddr cf v v2 sz far s =
     Option.bind (bus_write_sized cf v v2 sz (slow_address (fold_address far) s) s) (\<lambda>s. Some (True, s))"
proof -
  have f: "fold_address far < 0x9ffff0" using assms by (simp add: plain_address_def Let_def)
  note low = low_address [OF f]
  have probe: "paula_probe_bus_write v sz (fold_address far) (metrics s) = (False, metrics s)"
    using low(12) by (simp add: paula_probe_bus_write_def)
  have "s\<lparr>metrics := metrics s\<rparr> = s" by simp
  then show ?thesis
    unfolding SYSWriteValToAddr_def Let_def probe prod.case
    using low slow_moved [OF assms]
    by (simp only: probe write_int_shadow_def write_overlay_def write_drive_select_def Let_def if_False scsi_blocked_def
       prod.case simp_thms not_False_eq_True)
qed

lemma plain_value:
  assumes "a < 0xcffff0" and ne: "a \<noteq> CIAAPRA" "a \<noteq> CIABPRB"
  shows "read_int_shadow sz a v t = (v, t)" "read_adjust sz a v t = v"
proof -
  have u: "unat a < 0xcffff0" using assms by (simp add: word_less_nat_alt)
  have "a AND NOT 1 \<le> a" by (rule word_and_le2)
  then have "unat (a AND NOT 1) < 0xcffff0" using u by (simp add: word_le_nat_alt)
  then have "a AND NOT 1 \<noteq> INTENAR" "a AND NOT 1 \<noteq> INTREQR" by auto
  then show "read_int_shadow sz a v t = (v, t)" by (simp only: read_int_shadow_def Let_def if_False)
  have "a \<noteq> VPOSR" using u by auto
  with ne show "read_adjust sz a v t = v" by (simp add: read_adjust_def Let_def)
qed

lemma plain_read:
  assumes "plain_address far s" and b: "bus_read_sized cf sz (slow_address (fold_address far) s) s = Some ((Some v, v2), t)"
  shows "\<exists>u. SYSReadValFromAddr cf h sz far s = Some ((True, Some v, v2), u)"
proof -
  have f: "fold_address far < 0x9ffff0" using assms by (simp add: plain_address_def Let_def)
  note low = low_address [OF f]
  have probe: "paula_probe_bus_read (metrics s) True h sz far = (False, None, None)"
    using fold_not_probe [of far] low(5) by (auto simp: paula_probe_bus_read_def not_le)
  have rom: "\<not> (rom_mapped (options s) \<and> bs_overlay s \<noteq> 0 \<and> fold_address far < 0x80000)"
    using assms by (simp add: plain_address_def Let_def)
  show ?thesis
    unfolding SYSReadValFromAddr_def probe Let_def prod.case
    using low slow_moved [OF assms(1)] rom
    by (simp only: scsi_blocked_def b simp_thms if_False if_True prod.case option.case Let_def bind.bind_lunit)
      (simp add: plain_value [OF slow_moved(5-7) [OF assms(1)]])
qed

text \<open>
  C23: memory behind the address decoder: an access of 1, 2, 4, 8 or 16 bytes at a plain address,
  whatever its alignment and through either mirror of the address space, is stored on the bus
  and the same access then reads back the value (its low bytes for the narrow sizes).
\<close>

theorem sys_memory_round_trip:
  assumes "read_ready cf m s" and "\<not> cf_write_buffer cf" and "sz \<in> {1, 2, 4, 8, 16}" and "plain_address far s"
  shows "\<exists>t u. SYSWriteValToAddr cf v v2 sz far s = Some (True, t) \<and>
     SYSReadValFromAddr cf h sz far t =
       Some ((True, Some (take_bit (8 * sz) v), if sz = 16 then Some v2 else None), u)"
proof -
  let ?a = "slow_address (fold_address far) s"
  obtain t where t: "bus_write_sized cf v v2 sz ?a s = Some t" "read_ready cf m t" "outer_part t = outer_part s"
    "bus_memory cf m t = stored_bytes sz (ucast ?a) v v2 (bus_memory cf m s)"
    using bus_write_sized_stored [OF assms(1,2) slow_moved(3) [OF assms(4)] assms(3), of v v2] unfolding stored_def by blast
  note part = decoder_part [OF t(3)]
  have plain: "plain_address far t" and addr: "slow_address (fold_address far) t = ?a"
    using assms(4) part by (simp_all add: plain_address_def slow_address_def)
  obtain u where "bus_read_sized cf sz ?a t = Some ((Some (take_bit (8 * sz) v), if sz = 16 then Some v2 else None), u)"
    using bus_read_sized_stored [OF t(2) assms(3) t(4)] by blast
  then have "\<exists>u. SYSReadValFromAddr cf h sz far t =
      Some ((True, Some (take_bit (8 * sz) v), if sz = 16 then Some v2 else None), u)"
    by (intro plain_read [OF plain]) (simp only: addr)
  moreover have "SYSWriteValToAddr cf v v2 sz far s = Some (True, t)"
    by (simp add: plain_write [OF assms(4)] t(1))
  ultimately show ?thesis by blast
qed

section \<open>An instance\<close>

definition demo_options :: sys_options where
  "demo_options = \<lparr>rom_mapped = True, swap_df0_with_dfx = 1, move_slow_to_chip = True, block_c0 = False,
     zorro_disable = False, disable_scsi = True, beamcon0_pal_clear = False, beamcon0_pal_set = True, fast_page0 = True\<rparr>"

definition sys_demo :: "(u32 \<Rightarrow> u8) \<Rightarrow> sys_state" where
  "sys_demo mem = bus_state.extend (bus_demo mem)
     (sys_state.fields 0 0 0 0 0 [] demo_options False (\<lambda>_. 0) (\<lambda>_. 0) [])"

lemma read_ready_extend: "read_ready cf mem (bus_state.extend s x) = read_ready cf mem s"
  by (simp add: read_ready_def bus_ready_def bus_answers_def counter_reaches_def transactions_end_def
      bus_state.defs pi4_def read_cntfrq_def)

lemma sys_demo_ready: "read_ready pi_config mem (sys_demo mem)"
  by (simp only: sys_demo_def read_ready_extend bus_demo_read_ready)

theorem sys_memory_round_trip_witness:
  "\<exists>t u. SYSWriteValToAddr pi_config 0x1122334455667788 0 8 0x100080001 (sys_demo (\<lambda>_. 0)) = Some (True, t) \<and>
     SYSReadValFromAddr pi_config False 8 0x100080001 t = Some ((True, Some 0x1122334455667788, None), u)"
proof -
  have "plain_address 0x100080001 (sys_demo (\<lambda>_. 0))"
    by (simp add: plain_address_def fold_address_def sys_demo_def bus_state.defs sys_state.defs demo_options_def)
  then show ?thesis
    using sys_memory_round_trip [OF sys_demo_ready [of "\<lambda>_. 0"], of 8 "0x100080001" "0x1122334455667788" 0 False]
    by (simp add: pi_config_def)
qed

end
