(* ===== verification/RegFile.thy ===== *)
theory RegFile
  imports SysMemory
begin

text \<open>
  The registers an exception handler of \<open>source/src/aarch64/vectors.c\<close> works on: the frame
  saved by the vector stubs (\<open>SAVE_SHORT_CONTEXT\<close>, since \<open>FULL_CONTEXT\<close> is 0), the
  registers left live in the core, and the low part of the vector registers.

  \<open>ctx\<close> is the saved frame as the array the handlers index; an index outside it is a word
  of the stack next to it. \<open>xreg\<close> and \<open>vreg\<close> are the registers of the core.
\<close>

type_synonym u128 = "128 word"

record cpu_state = sys_state +
  ctx :: "int \<Rightarrow> u64"
  xreg :: "nat \<Rightarrow> u64"
  vreg :: "nat \<Rightarrow> u128"
  elr_el1 :: u64
  spsr_el1 :: u64
  stale :: u64

text \<open>\<open>stale\<close> is what a local variable holds that was not initialised.\<close>

section \<open>The frame\<close>

definition REGMAP :: "int list" where
  "REGMAP = [0, 1, 2, 3, 4, 5, 6, 7, 8, 9, 10, 11, 12, 13, 14, 15, 16, 17, 18,
             -1, -1, -1, -1, -1, -1, -1, -1, -1, -1, -1, 19, -1]"

text \<open>Ten pairs are stored: \<open>x0\<close> to \<open>x18\<close> and, in the last slot, \<open>x30\<close>.\<close>

definition frame_registers :: "nat list" where
  "frame_registers = [0, 1, 2, 3, 4, 5, 6, 7, 8, 9, 10, 11, 12, 13, 14, 15, 16, 17, 18, 30]"

definition SAVE_SHORT_CONTEXT :: "'a cpu_state_scheme \<Rightarrow> 'a cpu_state_scheme" where
  "SAVE_SHORT_CONTEXT s =
     s\<lparr>ctx := (\<lambda>i. if 0 \<le> i \<and> nat i < length frame_registers then xreg s (frame_registers ! nat i) else ctx s i)\<rparr>"

definition LOAD_SHORT_CONTEXT :: "'a cpu_state_scheme \<Rightarrow> 'a cpu_state_scheme" where
  "LOAD_SHORT_CONTEXT s =
     s\<lparr>xreg := (\<lambda>r. case map_of (zip frame_registers [0..<length frame_registers]) r of
                  Some i \<Rightarrow> ctx s (int i) | None \<Rightarrow> xreg s r)\<rparr>"

section \<open>Access to a register of the interrupted code\<close>

definition live_register :: "nat \<Rightarrow> bool" where
  "live_register r \<longleftrightarrow> 19 \<le> r \<and> r \<le> 29"

definition SYSPutValueToReg :: "u64 \<Rightarrow> nat \<Rightarrow> 'a cpu_state_scheme \<Rightarrow> 'a cpu_state_scheme" where
  "SYSPutValueToReg value r s =
     (if live_register r then s\<lparr>xreg := (xreg s)(r := value)\<rparr>
      else s\<lparr>ctx := (ctx s)(REGMAP ! r := value)\<rparr>)"

definition SYSGetValueFromReg :: "nat \<Rightarrow> 'a cpu_state_scheme \<Rightarrow> u64" where
  "SYSGetValueFromReg r s =
     (if live_register r then xreg s r else ctx s (REGMAP ! r))"

text \<open>The low 32 or 64 bits of the first sixteen vector registers.\<close>

definition get_fpn_as_single :: "nat \<Rightarrow> 'a cpu_state_scheme \<Rightarrow> u32" where
  "get_fpn_as_single fpn s = (if fpn < 16 then ucast (vreg s fpn) else 0)"

definition get_fpn_as_double :: "nat \<Rightarrow> 'a cpu_state_scheme \<Rightarrow> u64" where
  "get_fpn_as_double fpn s = (if fpn < 16 then ucast (vreg s fpn) else 0)"

text \<open>An insertion leaves the rest of the vector register.\<close>

definition set_fpn_as_single :: "nat \<Rightarrow> u32 \<Rightarrow> 'a cpu_state_scheme \<Rightarrow> 'a cpu_state_scheme" where
  "set_fpn_as_single fpn value s =
     (if fpn < 16 then s\<lparr>vreg := (vreg s)(fpn := push_bit 32 (drop_bit 32 (vreg s fpn)) OR ucast value)\<rparr> else s)"

definition set_fpn_as_double :: "nat \<Rightarrow> u64 \<Rightarrow> 'a cpu_state_scheme \<Rightarrow> 'a cpu_state_scheme" where
  "set_fpn_as_double fpn value s =
     (if fpn < 16 then s\<lparr>vreg := (vreg s)(fpn := push_bit 64 (drop_bit 64 (vreg s fpn)) OR ucast value)\<rparr> else s)"

section \<open>What a register file promises\<close>

locale register_file =
  fixes get :: "nat \<Rightarrow> 's \<Rightarrow> u64" and put :: "u64 \<Rightarrow> nat \<Rightarrow> 's \<Rightarrow> 's" and valid :: "nat \<Rightarrow> bool"
  assumes get_put: "valid r \<Longrightarrow> get r (put v r s) = v"
    and get_put_other: "valid r \<Longrightarrow> valid q \<Longrightarrow> r \<noteq> q \<Longrightarrow> get q (put v r s) = get q s"
begin

text \<open>After any sequence of register writes a register holds the last value written to it.\<close>

lemma get_puts:
  assumes "valid r" and "\<forall>(q, v) \<in> set ws. valid q"
  shows "get r (fold (\<lambda>(q, v). put v q) ws s) = (case map_of (rev ws) r of Some v \<Rightarrow> v | None \<Rightarrow> get r s)"
  using assms(2)
proof (induction ws rule: rev_induct)
  case Nil
  then show ?case by simp
next
  case (snoc w ws)
  obtain q v where w: "w = (q, v)" by (cases w)
  have "valid q" using snoc.prems w by auto
  then show ?case
    using snoc.IH snoc.prems assms(1) w by (cases "q = r") (auto simp: get_put get_put_other)
qed

lemma get_pair:
  assumes "valid p" and "valid q" and "p \<noteq> q"
  shows "get p (put w q (put v p s)) = v" and "get q (put w q (put v p s)) = w"
  using assms by (simp_all add: get_put get_put_other)

end

text \<open>\<open>REGMAP\<close> and the order in which the stubs store the registers agree.\<close>

lemma regmap_slots:
  assumes "r \<le> 30" and "\<not> live_register r"
  shows "0 \<le> REGMAP ! r \<and> nat (REGMAP ! r) < length frame_registers \<and> frame_registers ! nat (REGMAP ! r) = r"
proof -
  have "list_all (\<lambda>r. live_register r \<or> 0 \<le> REGMAP ! r \<and> nat (REGMAP ! r) < length frame_registers \<and>
      frame_registers ! nat (REGMAP ! r) = r) [0..<31]"
    by code_simp
  then have "\<forall>r \<in> {0..<31}. live_register r \<or> 0 \<le> REGMAP ! r \<and> nat (REGMAP ! r) < length frame_registers \<and>
      frame_registers ! nat (REGMAP ! r) = r"
    by (simp only: list_all_iff set_upt)
  from bspec [OF this, of r] show ?thesis using assms by simp
qed

lemma frame_slots:
  assumes "r \<le> 30"
  shows "map_of (zip frame_registers [0..<length frame_registers]) r =
    (if live_register r then None else Some (nat (REGMAP ! r)))"
proof -
  have "list_all (\<lambda>r. map_of (zip frame_registers [0..<length frame_registers]) r =
      (if live_register r then None else Some (nat (REGMAP ! r)))) [0..<31]"
    by code_simp
  then have "\<forall>r \<in> {0..<31}. map_of (zip frame_registers [0..<length frame_registers]) r =
      (if live_register r then None else Some (nat (REGMAP ! r)))"
    by (simp only: list_all_iff set_upt)
  moreover have "r \<in> {0..<31}" using assms by simp
  ultimately show ?thesis by (rule bspec)
qed

lemma regmap_inj:
  assumes "r \<le> 30" and "q \<le> 30" and "\<not> live_register r" and "\<not> live_register q" and "REGMAP ! r = REGMAP ! q"
  shows "r = q"
  using regmap_slots [OF assms(1,3)] regmap_slots [OF assms(2,4)] assms(5) by metis

interpretation rf: register_file
  "SYSGetValueFromReg :: nat \<Rightarrow> 'a cpu_state_scheme \<Rightarrow> u64" SYSPutValueToReg "\<lambda>r. r \<le> 30"
proof
  fix r q :: nat and v and s :: "'a cpu_state_scheme"
  assume "r \<le> 30"
  show "SYSGetValueFromReg r (SYSPutValueToReg v r s) = v"
    by (simp add: SYSGetValueFromReg_def SYSPutValueToReg_def)
  assume "q \<le> 30" "r \<noteq> q"
  then show "SYSGetValueFromReg q (SYSPutValueToReg v r s) = SYSGetValueFromReg q s"
    using regmap_inj [of r q] \<open>r \<le> 30\<close> by (auto simp: SYSGetValueFromReg_def SYSPutValueToReg_def)
qed

section \<open>From the exception to the return\<close>

lemma save_get: "r \<le> 30 \<Longrightarrow> SYSGetValueFromReg r (SAVE_SHORT_CONTEXT s) = xreg s r"
  using regmap_slots [of r] by (simp add: SYSGetValueFromReg_def SAVE_SHORT_CONTEXT_def)

lemma load_get:
  assumes "r \<le> 30"
  shows "xreg (LOAD_SHORT_CONTEXT s) r = SYSGetValueFromReg r s"
  using regmap_slots [OF assms] frame_slots [OF assms]
  by (simp add: LOAD_SHORT_CONTEXT_def SYSGetValueFromReg_def del: upt_rec_numeral)

text \<open>
  C24: the exception frame: a handler reads every register of the interrupted code as it was,
  and after any sequence of register writes by a handler the code continues with the last
  value written to each register and its own value in all others.
\<close>

theorem exception_frame_round_trip:
  assumes "r \<le> 30" and "\<forall>(q, v) \<in> set ws. q \<le> 30"
  shows "SYSGetValueFromReg r (SAVE_SHORT_CONTEXT s) = xreg s r \<and>
     xreg (LOAD_SHORT_CONTEXT (fold (\<lambda>(q, v). SYSPutValueToReg v q) ws (SAVE_SHORT_CONTEXT s))) r =
       (case map_of (rev ws) r of Some v \<Rightarrow> v | None \<Rightarrow> xreg s r)"
  by (simp only: load_get [OF assms(1)] rf.get_puts [OF assms] save_get [OF assms(1)])

section \<open>An instance\<close>

definition cpu_demo :: "(u32 \<Rightarrow> u8) \<Rightarrow> cpu_state" where
  "cpu_demo mem = sys_state.extend (sys_demo mem) (cpu_state.fields (\<lambda>_. 0) (\<lambda>r. 0x100 + word_of_nat r) (\<lambda>_. 0) 0 0 0)"

theorem exception_frame_round_trip_witness:
  "SYSGetValueFromReg 30 (SAVE_SHORT_CONTEXT (cpu_demo (\<lambda>_. 0))) = 0x11e \<and>
   xreg (LOAD_SHORT_CONTEXT (fold (\<lambda>(q, v). SYSPutValueToReg v q) [(19, 5), (30, 6), (19, 7)]
     (SAVE_SHORT_CONTEXT (cpu_demo (\<lambda>_. 0))))) 19 = 7"
proof -
  have x: "xreg (cpu_demo (\<lambda>_. 0)) r = 0x100 + word_of_nat r" for r
    by (simp add: cpu_demo_def sys_state.defs cpu_state.defs)
  show ?thesis
    using exception_frame_round_trip [of 30 "[]" "cpu_demo (\<lambda>_. 0)"]
      exception_frame_round_trip [of 19 "[(19, 5), (30, 6), (19, 7)]" "cpu_demo (\<lambda>_. 0)"]
    by (simp add: x)
qed

end
