(* ===== verification/FaultStore.thy ===== *)
theory FaultStore
  imports RegFile
begin

text \<open>
  Emulation of the stores that fault, \<open>SYSPageFaultWriteHandler\<close> of
  \<open>source/src/aarch64/vectors.c\<close>: the faulting AArch64 instruction is decoded by masks and
  carried out through \<open>SYSWriteValToAddr\<close>. The messages are left out.
\<close>

section \<open>Fields of an instruction\<close>

definition getOPsize :: "u32 \<Rightarrow> nat" where
  "getOPsize opcode =
     (let top = opcode AND 0xc0000000
      in if top = 0x00000000 then 1 else if top = 0x40000000 then 2 else if top = 0x80000000 then 4
         else if top = 0xc0000000 then 8 else 0)"

definition op_rt :: "u32 \<Rightarrow> nat" where "op_rt opcode = unat (opcode AND 31)"
definition op_rn :: "u32 \<Rightarrow> nat" where "op_rn opcode = unat (drop_bit 5 opcode AND 31)"
definition op_rt2 :: "u32 \<Rightarrow> nat" where "op_rt2 opcode = unat (drop_bit 10 opcode AND 31)"
definition op_rm :: "u32 \<Rightarrow> nat" where "op_rm opcode = unat (drop_bit 16 opcode AND 31)"

text \<open>\<open>((int16_t)(opcode >> 5)) >> 7\<close> and the scaled offset of a pair, sign extended.\<close>

definition op_imm9 :: "u32 \<Rightarrow> u64" where
  "op_imm9 opcode = scast (signed_drop_bit 7 (ucast (drop_bit 5 opcode) :: u16))"

definition op_imm7 :: "nat \<Rightarrow> u32 \<Rightarrow> u64" where
  "op_imm7 sz opcode = scast (word_of_nat sz * signed_drop_bit 9 (ucast (drop_bit 6 opcode) :: u16))"

definition op_imm12 :: "u32 \<Rightarrow> u32" where
  "op_imm12 opcode = drop_bit 10 opcode AND 0xfff"

definition op_base :: "u32 \<Rightarrow> 'a cpu_state_scheme \<Rightarrow> u64" where
  "op_base opcode s = SYSGetValueFromReg (op_rn opcode) s"

definition put_base :: "u64 \<Rightarrow> u32 \<Rightarrow> 'a cpu_state_scheme \<Rightarrow> 'a cpu_state_scheme" where
  "put_base ptr opcode s = SYSPutValueToReg ptr (op_rn opcode) s"

text \<open>The offset register after its extension.\<close>

definition op_extended :: "u32 \<Rightarrow> 'a cpu_state_scheme \<Rightarrow> u64" where
  "op_extended opcode s =
     (let option_field = drop_bit 13 opcode AND 7;
          rm = SYSGetValueFromReg (op_rm opcode) s
      in if option_field = 2 then rm AND 0xffffffff
         else if option_field = 6
         then if rm AND 0x80000000 \<noteq> 0 then rm OR 0xffffffff00000000 else rm AND 0x00000000ffffffff
         else rm)"

definition op_offset :: "u32 \<Rightarrow> nat \<Rightarrow> 'a cpu_state_scheme \<Rightarrow> u64" where
  "op_offset opcode sz s =
     (let rm = op_extended opcode s
      in if opcode AND 0x1000 = 0 then rm
         else if sz = 2 then push_bit 1 rm else if sz = 4 then push_bit 2 rm
         else if sz = 8 then push_bit 3 rm else rm)"

definition op_offset_fp :: "u32 \<Rightarrow> nat \<Rightarrow> 'a cpu_state_scheme \<Rightarrow> u64" where
  "op_offset_fp opcode sz s =
     (let rm = op_extended opcode s
      in if opcode AND 0x1000 = 0 then rm else if sz = 4 then push_bit 2 rm else push_bit 3 rm)"

text \<open>The value to store: register 31 stands for zero in integer stores.\<close>

definition op_value :: "nat \<Rightarrow> 'a cpu_state_scheme \<Rightarrow> u64" where
  "op_value r s = (if r = 31 then 0 else SYSGetValueFromReg r s)"

definition op_value_fp :: "u32 \<Rightarrow> nat \<Rightarrow> 'a cpu_state_scheme \<Rightarrow> u64" where
  "op_value_fp opcode sz s =
     (if sz = 8 then get_fpn_as_double (op_rt opcode) s else ucast (get_fpn_as_single (op_rt opcode) s))"

section \<open>Pairs\<close>

definition pair_size :: "u32 \<Rightarrow> nat" where
  "pair_size opcode = (if opcode AND 0x80000000 \<noteq> 0 then 8 else 4)"

definition store_pair :: "ps_config \<Rightarrow> u32 \<Rightarrow> u64 \<Rightarrow> (bool, 'a cpu_state_scheme) prog" where
  "store_pair cf opcode ptr s =
     (let hi = op_value (op_rt opcode) s; lo = op_value (op_rt2 opcode) s
      in if pair_size opcode = 4 then SYSWriteValToAddr cf (push_bit 32 hi OR (lo AND 0xFFFFFFFF)) 0 8 ptr s
         else SYSWriteValToAddr cf hi lo 16 ptr s)"

definition store_pairs :: "ps_config \<Rightarrow> u32 \<Rightarrow> bool \<Rightarrow> (bool, 'a cpu_state_scheme) prog" where
  "store_pairs cf opcode handled s =
     (let offset = op_imm7 (pair_size opcode) opcode; ptr = op_base opcode s
      in if opcode AND 0x7fc00000 = 0x29000000 then store_pair cf opcode (ptr + offset) s
         else if opcode AND 0x7fc00000 = 0x28800000
         then do { (handled, s) \<leftarrow> store_pair cf opcode ptr s; Some (handled, put_base (ptr + offset) opcode s) }
         else if opcode AND 0x7fc00000 = 0x29800000
         then do { (handled, s) \<leftarrow> store_pair cf opcode (ptr + offset) s; Some (handled, put_base (ptr + offset) opcode s) }
         else Some (handled, s))"

section \<open>Integer stores\<close>

text \<open>The pre- and post-indexed forms, which move the base register.\<close>

definition store_indexed :: "ps_config \<Rightarrow> u32 \<Rightarrow> u64 \<Rightarrow> nat \<Rightarrow> (bool, 'a cpu_state_scheme) prog" where
  "store_indexed cf opcode value sz s =
     (let pre_index = opcode AND 0x800 \<noteq> 0;
          ptr = op_base opcode s;
          offset = op_imm9 opcode;
          ptr = (if pre_index then ptr + offset else ptr)
      in do {
           (handled, s) \<leftarrow> SYSWriteValToAddr cf value 0 sz ptr s;
           let ptr = (if \<not> pre_index then ptr + offset else ptr);
           Some (handled, put_base ptr opcode s)
         })"

definition store_integers :: "ps_config \<Rightarrow> u32 \<Rightarrow> nat \<Rightarrow> bool \<Rightarrow> (bool, 'a cpu_state_scheme) prog" where
  "store_integers cf opcode sz handled s =
     (let value = op_value (op_rt opcode) s; ptr = op_base opcode s
      in if opcode AND 0x3fe00c00 = 0x38000000
         then SYSWriteValToAddr cf value 0 sz (ptr + op_imm9 opcode) s
         else if opcode AND 0x3fe00400 = 0x38000400
         then store_indexed cf opcode value sz s
         else if opcode AND 0x3fc00000 = 0x39000000
         then let offset = ucast (op_imm12 opcode * word_of_nat sz) :: u16
              in SYSWriteValToAddr cf value 0 sz (ptr + ucast offset) s
         else if opcode AND 0x3fe00c00 = 0x38200800
         then SYSWriteValToAddr cf value 0 sz (ptr + op_offset opcode sz s) s
         else if opcode AND 0x3fe07c00 = 0x08007c00
         then SYSWriteValToAddr cf value 0 sz ptr (SYSPutValueToReg 0 (op_rm opcode) s)
         else store_pairs cf opcode handled s)"

section \<open>Floating point stores\<close>

definition store_floats :: "ps_config \<Rightarrow> u32 \<Rightarrow> nat \<Rightarrow> bool \<Rightarrow> (bool, 'a cpu_state_scheme) prog" where
  "store_floats cf opcode sz handled s =
     (let value = op_value_fp opcode sz s; ptr = op_base opcode s
      in if opcode AND 0xbfe00c00 = 0xbc000000
         then SYSWriteValToAddr cf value 0 sz (ptr + op_imm9 opcode) s
         else if opcode AND 0xbfe00400 = 0xbc000400
         then store_indexed cf opcode value sz s
         else if opcode AND 0xbfc00000 = 0xbd000000
         then SYSWriteValToAddr cf value 0 sz (ptr + ucast (op_imm12 opcode * word_of_nat sz)) s
         else if opcode AND 0xbfe04c00 = 0xbc204800
         then SYSWriteValToAddr cf value 0 sz (ptr + op_offset_fp opcode sz s) s
         else store_integers cf opcode sz handled s)"

section \<open>The handler\<close>

definition faulting_opcode :: "u64 \<Rightarrow> 'a cpu_state_scheme \<Rightarrow> u32" where
  "faulting_opcode elr s = LE32 (ucast (load_bytes 4 (host_memory s) elr))"

text \<open>A cache flush of a mapped region counts as handled; the tests that follow still run.\<close>

definition SYSPageFaultWriteHandler :: "ps_config \<Rightarrow> u64 \<Rightarrow> (bool, 'a cpu_state_scheme) prog" where
  "SYSPageFaultWriteHandler cf elr s =
     (let opcode = faulting_opcode elr s;
          handled = (opcode AND 0xffffffe0 = 0xd50b7e20)
      in do {
           (handled, s) \<leftarrow> store_floats cf opcode (getOPsize opcode) handled s;
           Some (handled, s\<lparr>elr_el1 := elr + 4\<rparr>)
         })"

end
