(* ===== verification/A64.thy ===== *)
theory A64
  imports FaultStore
begin

text \<open>
  The load and store instructions as the architecture defines them, by the fields of their
  encoding, for comparison with the mask tests of the fault handlers.
\<close>

section \<open>Bits of an instruction word\<close>

lemma word32_eq_bits:
  "(v :: u32) = w \<longleftrightarrow> list_all (\<lambda>n. bit v n = bit w n)
     [0, 1, 2, 3, 4, 5, 6, 7, 8, 9, 10, 11, 12, 13, 14, 15, 16, 17, 18, 19, 20, 21, 22, 23, 24, 25, 26, 27, 28, 29, 30, 31]"
  (is "_ = list_all ?p ?xs")
proof -
  have xs: "?xs = [0..<32]" by code_simp
  have "v = w \<longleftrightarrow> (\<forall>n \<in> {0..<32}. bit v n = bit w n)"
    by (auto intro: bit_word_eqI)
  then show ?thesis
    unfolding xs list_all_iff set_upt .
qed

text \<open>A mask test on an instruction word is a conjunction of bits.\<close>

lemma decode_tests:
  fixes op :: u32
  shows "op AND 0xc0000000 = 0 \<longleftrightarrow> \<not> bit op 31 \<and> \<not> bit op 30"
    and "op AND 0xc0000000 = 0x40000000 \<longleftrightarrow> \<not> bit op 31 \<and> bit op 30"
    and "op AND 0xc0000000 = 0x80000000 \<longleftrightarrow> bit op 31 \<and> \<not> bit op 30"
    and "op AND 0xc0000000 = 0xc0000000 \<longleftrightarrow> bit op 31 \<and> bit op 30"
    and "op AND 0x3fe00c00 = 0x38000000 \<longleftrightarrow> bit op 29 \<and> bit op 28 \<and> bit op 27 \<and> \<not> bit op 26 \<and> \<not> bit op 25 \<and>
      \<not> bit op 24 \<and> \<not> bit op 23 \<and> \<not> bit op 22 \<and> \<not> bit op 21 \<and> \<not> bit op 11 \<and> \<not> bit op 10"
    and "op AND 0x3fe00400 = 0x38000400 \<longleftrightarrow> bit op 29 \<and> bit op 28 \<and> bit op 27 \<and> \<not> bit op 26 \<and> \<not> bit op 25 \<and>
      \<not> bit op 24 \<and> \<not> bit op 23 \<and> \<not> bit op 22 \<and> \<not> bit op 21 \<and> bit op 10"
    and "op AND 0x3fc00000 = 0x39000000 \<longleftrightarrow> bit op 29 \<and> bit op 28 \<and> bit op 27 \<and> \<not> bit op 26 \<and> \<not> bit op 25 \<and>
      bit op 24 \<and> \<not> bit op 23 \<and> \<not> bit op 22"
    and "op AND 0x3fe00c00 = 0x38200800 \<longleftrightarrow> bit op 29 \<and> bit op 28 \<and> bit op 27 \<and> \<not> bit op 26 \<and> \<not> bit op 25 \<and>
      \<not> bit op 24 \<and> \<not> bit op 23 \<and> \<not> bit op 22 \<and> bit op 21 \<and> bit op 11 \<and> \<not> bit op 10"
    and "op AND 0x3fe07c00 = 0x08007c00 \<longleftrightarrow> \<not> bit op 29 \<and> \<not> bit op 28 \<and> bit op 27 \<and> \<not> bit op 26 \<and> \<not> bit op 25 \<and>
      \<not> bit op 24 \<and> \<not> bit op 23 \<and> \<not> bit op 22 \<and> \<not> bit op 21 \<and> bit op 14 \<and> bit op 13 \<and> bit op 12 \<and> bit op 11 \<and> bit op 10"
    and "op AND 0xbfe00c00 = 0xbc000000 \<longleftrightarrow> bit op 31 \<and> bit op 29 \<and> bit op 28 \<and> bit op 27 \<and> bit op 26 \<and> \<not> bit op 25 \<and>
      \<not> bit op 24 \<and> \<not> bit op 23 \<and> \<not> bit op 22 \<and> \<not> bit op 21 \<and> \<not> bit op 11 \<and> \<not> bit op 10"
    and "op AND 0xbfe00400 = 0xbc000400 \<longleftrightarrow> bit op 31 \<and> bit op 29 \<and> bit op 28 \<and> bit op 27 \<and> bit op 26 \<and> \<not> bit op 25 \<and>
      \<not> bit op 24 \<and> \<not> bit op 23 \<and> \<not> bit op 22 \<and> \<not> bit op 21 \<and> bit op 10"
    and "op AND 0xbfc00000 = 0xbd000000 \<longleftrightarrow> bit op 31 \<and> bit op 29 \<and> bit op 28 \<and> bit op 27 \<and> bit op 26 \<and> \<not> bit op 25 \<and>
      bit op 24 \<and> \<not> bit op 23 \<and> \<not> bit op 22"
    and "op AND 0xbfe04c00 = 0xbc204800 \<longleftrightarrow> bit op 31 \<and> bit op 29 \<and> bit op 28 \<and> bit op 27 \<and> bit op 26 \<and> \<not> bit op 25 \<and>
      \<not> bit op 24 \<and> \<not> bit op 23 \<and> \<not> bit op 22 \<and> bit op 21 \<and> bit op 14 \<and> bit op 11 \<and> \<not> bit op 10"
    and "op AND 0x800 = 0 \<longleftrightarrow> \<not> bit op 11"
    and "op AND 0x1000 = 0 \<longleftrightarrow> \<not> bit op 12"
    and "op AND 0x80000000 = 0 \<longleftrightarrow> \<not> bit op 31"
  by (simp add: word32_eq_bits bit_and_iff; argo)+

lemma imm9_field: "op_imm9 op = scast (ucast (drop_bit 12 op) :: 9 word)"
  by (rule bit_word_eqI) (auto simp: op_imm9_def bit_simps)

lemma size_bits: "drop_bit 30 op = (if bit op 31 then 2 else 0) OR (if bit (op :: u32) 30 then 1 else 0)"
  by (simp add: word32_eq_bits bit_simps bits bits_beyond)

lemma size_field: "getOPsize op = 2 ^ unat (drop_bit 30 op)"
  unfolding size_bits by (simp add: getOPsize_def decode_tests)

lemma scale_field: "unat (drop_bit 30 (op :: u32)) \<le> 3"
  unfolding size_bits by simp

section \<open>The architecture\<close>

text \<open>
  Load/store register: bits 29 to 27 are ones and bit 25 is clear; bit 26 selects the vector
  registers and bits 23 and 22 the operation. \<open>a64_access\<close> gives the address and, for the
  indexed forms, the new base, from the registers \<open>x\<close> and the logarithm \<open>k\<close> of the size;
  \<open>None\<close> for the unprivileged and the unallocated forms.
\<close>

definition a64_register_class :: "u32 \<Rightarrow> bool" where
  "a64_register_class op \<longleftrightarrow> bit op 29 \<and> bit op 28 \<and> bit op 27 \<and> \<not> bit op 25"

definition a64_extend :: "u32 \<Rightarrow> u64 \<Rightarrow> u64 option" where
  "a64_extend op x =
     (case (bit op 15, bit op 14, bit op 13) of
        (False, True, False) \<Rightarrow> Some (ucast (ucast x :: u32))
      | (True, True, False) \<Rightarrow> Some (scast (ucast x :: u32))
      | (_, True, True) \<Rightarrow> Some x
      | _ \<Rightarrow> None)"

definition a64_access :: "u32 \<Rightarrow> nat \<Rightarrow> (nat \<Rightarrow> u64) \<Rightarrow> (u64 \<times> u64 option) option" where
  "a64_access op k x =
     (let base = x (op_rn op); simm9 = scast (ucast (drop_bit 12 op) :: 9 word)
      in if bit op 24 then Some (base + push_bit k (ucast (ucast (drop_bit 10 op) :: 12 word)), None)
         else if \<not> bit op 21
         then (case (bit op 11, bit op 10) of
                 (False, False) \<Rightarrow> Some (base + simm9, None)
               | (False, True) \<Rightarrow> Some (base, Some (base + simm9))
               | (True, True) \<Rightarrow> Some (base + simm9, Some (base + simm9))
               | (True, False) \<Rightarrow> None)
         else if bit op 11 \<and> \<not> bit op 10
         then map_option (\<lambda>off. (base + push_bit (if bit op 12 then k else 0) off, None)) (a64_extend op (x (op_rm op)))
         else None)"

definition a64_write_back :: "u64 option \<Rightarrow> u32 \<Rightarrow> 'a cpu_state_scheme \<Rightarrow> 'a cpu_state_scheme" where
  "a64_write_back wb op s = (case wb of None \<Rightarrow> s | Some b \<Rightarrow> SYSPutValueToReg b (op_rn op) s)"

text \<open>The register to store: register 31 is zero, a vector register gives its low part.\<close>

definition a64_stored :: "u32 \<Rightarrow> (nat \<Rightarrow> u64) \<Rightarrow> (nat \<Rightarrow> u128) \<Rightarrow> u64" where
  "a64_stored op x v =
     (if bit op 26 then (if bit op 30 then ucast (v (op_rt op)) else ucast (ucast (v (op_rt op)) :: u32))
      else if op_rt op = 31 then 0 else x (op_rt op))"

section \<open>Fields as the handlers compute them\<close>

lemma imm12_field: "(ucast (op_imm12 op) :: u64) = ucast (ucast (drop_bit 10 op) :: 12 word)"
  by (rule bit_word_eqI) (auto simp: op_imm12_def bit_simps bits)

lemma imm12_less: "unat (op_imm12 op) < 4096"
  using unat_and_le [of "drop_bit 10 op" "0xfff"] by (simp add: op_imm12_def)

lemma bit_imm12: "bit (op_imm12 op) n \<longleftrightarrow> n < 12 \<and> bit op (10 + n)"
  by (auto simp: op_imm12_def bit_simps bits)

lemma imm12_scaled:
  assumes "k \<le> 3"
  shows "ucast (op_imm12 op * 2 ^ k) = push_bit k (ucast (ucast (drop_bit 10 op) :: 12 word) :: u64)"
    and "ucast (ucast (op_imm12 op * 2 ^ k) :: u16) = push_bit k (ucast (ucast (drop_bit 10 op) :: 12 word) :: u64)"
  unfolding push_bit_eq_mult [symmetric]
  using assms by (auto intro!: bit_word_eqI simp: bit_simps bit_imm12)

lemma and_bit31: "(x :: u64) AND 0x80000000 = 0 \<longleftrightarrow> \<not> bit x 31"
proof
  assume "x AND 0x80000000 = 0"
  then have "\<not> bit (x AND 0x80000000) 31" by simp
  then show "\<not> bit x 31" by (simp add: bit_and_iff)
next
  assume "\<not> bit x 31"
  then show "x AND 0x80000000 = 0"
    by (intro bit_word_eqI) (auto simp: bit_and_iff bits)
qed

lemma bit_high_ones: "bit (0xffffffff00000000 :: int) n \<longleftrightarrow> 32 \<le> n \<and> n < 64"
  using bit_int_field [of "0xffffffff00000000" 32 32 n] by simp

lemma sign_extend_32:
  "(if rm AND 0x80000000 \<noteq> 0 then rm OR 0xffffffff00000000 else rm AND 0x00000000ffffffff) = (scast (ucast rm :: u32) :: u64)"
proof (rule bit_word_eqI)
  fix n assume n: "n < LENGTH(64)"
  show "bit (if rm AND 0x80000000 \<noteq> 0 then rm OR 0xffffffff00000000 else rm AND 0x00000000ffffffff) n
      = bit (scast (ucast rm :: u32) :: u64) n"
    using n unfolding and_bit31
    by (cases "bit rm 31"; cases "n < 31"; cases "n = 31") (auto simp: bit_simps bits bit_high_ones)
qed

lemma zero_extend_32: "rm AND 0xffffffff = (ucast (ucast rm :: u32) :: u64)"
  by (rule bit_word_eqI) (auto simp: bit_simps bits)

lemma option_tests:
  "drop_bit 13 (op :: u32) AND 7 = 2 \<longleftrightarrow> \<not> bit op 15 \<and> bit op 14 \<and> \<not> bit op 13"
  "drop_bit 13 (op :: u32) AND 7 = 6 \<longleftrightarrow> bit op 15 \<and> bit op 14 \<and> \<not> bit op 13"
  by (simp add: word32_eq_bits bit_and_iff bit_drop_bit_eq bits; argo)+

lemma extended_field:
  assumes "a64_extend op (SYSGetValueFromReg (op_rm op) s) = Some off"
  shows "op_extended op s = off"
  using assms
  unfolding op_extended_def Let_def option_tests sign_extend_32
  unfolding zero_extend_32
  by (auto simp: a64_extend_def split: bool.splits)

lemma class_bits:
  "a64_register_class op \<Longrightarrow> bit op 29" "a64_register_class op \<Longrightarrow> bit op 28"
  "a64_register_class op \<Longrightarrow> bit op 27" "a64_register_class op \<Longrightarrow> \<not> bit op 25"
  by (simp_all add: a64_register_class_def)

lemma offset_field:
  assumes "a64_extend op (SYSGetValueFromReg (op_rm op) s) = Some off" and "k = unat (drop_bit 30 op)"
  shows "op_offset op (2 ^ k) s = push_bit (if bit op 12 then k else 0) off"
    and "bit op 31 \<Longrightarrow> op_offset_fp op (2 ^ k) s = push_bit (if bit op 12 then k else 0) off"
proof -
  have "k = 0 \<or> k = 1 \<or> k = 2 \<or> k = 3" using scale_field [of op] assms(2) by arith
  then show "op_offset op (2 ^ k) s = push_bit (if bit op 12 then k else 0) off"
    by (auto simp: op_offset_def extended_field [OF assms(1)] decode_tests)
  assume "bit op 31"
  then have "k = 2 \<or> k = 3" unfolding assms(2) size_bits by simp
  then show "op_offset_fp op (2 ^ k) s = push_bit (if bit op 12 then k else 0) off"
    by (auto simp: op_offset_fp_def extended_field [OF assms(1)] decode_tests)
qed

lemma op_field_less: "op_rn op < 32" "op_rm op < 32" "op_rt op < 32" "op_rt2 op < 32"
  using unat_mask_less [of _ 5] by (simp_all add: op_rn_def op_rm_def op_rt_def op_rt2_def mask_eq_exp_minus_1)

lemma store_indexed_result:
  "store_indexed cf op v sz s =
     (let b = op_base op s + op_imm9 op
      in do { (h, t) \<leftarrow> SYSWriteValToAddr cf v 0 sz (if bit op 11 then b else op_base op s) s;
              Some (h, put_base b op t) })"
  by (simp add: store_indexed_def decode_tests Let_def)

lemma store_emulation:
  assumes "a64_register_class op" and "\<not> bit op 23" and "\<not> bit op 22"
    and "a64_access op k (\<lambda>r. SYSGetValueFromReg r s) = Some (a, wb)" and "k = unat (drop_bit 30 op)"
  shows "bit op 26 \<longrightarrow> bit op 31 \<Longrightarrow> store_floats cf op (2 ^ k) h s =
     do { (h, t) \<leftarrow> SYSWriteValToAddr cf (if bit op 26 then op_value_fp op (2 ^ k) s else op_value (op_rt op) s) 0 (2 ^ k) a s;
          Some (h, a64_write_back wb op t) }"
proof -
  have k: "k \<le> 3" using scale_field assms(5) by simp
  note c = class_bits [OF assms(1)]
  assume f: "bit op 26 \<longrightarrow> bit op 31"
  consider (uns) "bit op 24" | (unscaled) "\<not> bit op 24" "\<not> bit op 21" "\<not> bit op 10" "\<not> bit op 11"
    | (indexed) "\<not> bit op 24" "\<not> bit op 21" "bit op 10"
    | (reg) off where "\<not> bit op 24" "bit op 21" "bit op 11" "\<not> bit op 10" "a64_extend op (SYSGetValueFromReg (op_rm op) s) = Some off"
    using assms(4) by (auto simp: a64_access_def Let_def split: bool.splits if_splits)
  then show ?thesis
  proof cases
    case uns
    then show ?thesis
      using f c assms(2-4) imm12_scaled [OF k, of op]
      by (cases "bit op 26") (auto simp: store_floats_def store_integers_def decode_tests a64_access_def op_base_def
          a64_write_back_def Let_def)
  next
    case unscaled
    then show ?thesis
      using f c assms(2-4)
      by (cases "bit op 26") (auto simp: store_floats_def store_integers_def decode_tests a64_access_def op_base_def
          a64_write_back_def Let_def imm9_field)
  next
    case indexed
    then show ?thesis
      using f c assms(2-4)
      by (cases "bit op 26"; cases "bit op 11") (auto simp: store_floats_def store_integers_def decode_tests a64_access_def op_base_def
          a64_write_back_def Let_def imm9_field store_indexed_result put_base_def)
  next
    case reg
    have "bit op 14" using reg(5) by (auto simp: a64_extend_def split: bool.splits)
    then show ?thesis
      using f c assms(2-4) reg offset_field [OF reg(5) assms(5)]
      by (cases "bit op 26") (auto simp: store_floats_def store_integers_def decode_tests a64_access_def op_base_def
          a64_write_back_def Let_def)
  qed
qed

lemma access_saved:
  assumes "op_rn op \<noteq> 31" and "\<not> bit op 24 \<and> bit op 21 \<longrightarrow> op_rm op \<noteq> 31"
  shows "a64_access op k (\<lambda>r. SYSGetValueFromReg r (SAVE_SHORT_CONTEXT p)) = a64_access op k (xreg p)"
proof -
  have rn: "SYSGetValueFromReg (op_rn op) (SAVE_SHORT_CONTEXT p) = xreg p (op_rn op)"
    using op_field_less [of op] assms(1) by (simp add: save_get)
  have "SYSGetValueFromReg (op_rm op) (SAVE_SHORT_CONTEXT p) = xreg p (op_rm op)" if "\<not> bit op 24" "bit op 21"
    using op_field_less [of op] assms(2) that by (simp add: save_get)
  with rn show ?thesis
    by (cases "bit op 24"; cases "bit op 21") (simp_all add: a64_access_def Let_def)
qed


text \<open>A program that stores with \<open>str w1, [x2, #4]!\<close>.\<close>

definition program_at :: "u64 \<Rightarrow> u8 list \<Rightarrow> cpu_state" where
  "program_at pc code = (cpu_demo (\<lambda>_. 0))\<lparr>host_memory := (\<lambda>a. if unat (a - pc) < length code then code ! unat (a - pc) else 0)\<rparr>"

lemma program_xreg: "xreg (program_at pc code) r = 0x100 + word_of_nat r"
  by (simp add: program_at_def cpu_demo_def sys_state.defs cpu_state.defs)

lemma program_memory_frame: "host_memory (SAVE_SHORT_CONTEXT s) = host_memory s"
  by (simp add: SAVE_SHORT_CONTEXT_def)


end
