(* ===== verification/FaultLoad.thy ===== *)
theory FaultLoad
  imports FaultStore
begin

text \<open>
  Emulation of the loads that fault, \<open>SYSPageFaultReadHandler\<close> of
  \<open>source/src/aarch64/vectors.c\<close>. Some forms load from the fault address, the others
  compute the address again. The messages are left out.
\<close>

section \<open>Reading\<close>

text \<open>A read leaves \<open>init\<close>, what the variable held, on the paths that store nothing.\<close>

definition read_value :: "ps_config \<Rightarrow> u64 \<Rightarrow> nat \<Rightarrow> u64 \<Rightarrow> (bool \<times> u64, 'a cpu_state_scheme) prog" where
  "read_value cf init sz far s =
     do {
       ((handled, v, _), s) \<leftarrow> SYSReadValFromAddr cf False sz far s;
       Some ((handled, case v of None \<Rightarrow> init | Some v \<Rightarrow> v), s)
     }"

definition read_quad :: "ps_config \<Rightarrow> u64 \<Rightarrow> (bool \<times> u64 \<times> u64, 'a cpu_state_scheme) prog" where
  "read_quad cf far s =
     do {
       let init = stale s;
       ((handled, v, v2), s) \<leftarrow> SYSReadValFromAddr cf True 16 far s;
       Some ((handled, case v of None \<Rightarrow> init | Some v \<Rightarrow> v, case v2 of None \<Rightarrow> init | Some v2 \<Rightarrow> v2), s)
     }"

section \<open>Floating point loads\<close>

definition load_single :: "ps_config \<Rightarrow> u32 \<Rightarrow> u64 \<Rightarrow> u64 option \<Rightarrow> (bool, 'a cpu_state_scheme) prog" where
  "load_single cf opcode ptr base s =
     do {
       ((handled, value), s) \<leftarrow> read_value cf 0 4 ptr s;
       Some (handled, if handled
                      then let s = set_fpn_as_single (op_rt opcode) (ucast value) s
                           in case base of None \<Rightarrow> s | Some b \<Rightarrow> put_base b opcode s
                      else s)
     }"

definition load_double :: "ps_config \<Rightarrow> u32 \<Rightarrow> u64 \<Rightarrow> u64 option \<Rightarrow> (bool, 'a cpu_state_scheme) prog" where
  "load_double cf opcode ptr base s =
     do {
       ((handled, value), s) \<leftarrow> read_value cf 0 8 ptr s;
       Some (handled, if handled
                      then let s = set_fpn_as_double (op_rt opcode) value s
                           in case base of None \<Rightarrow> s | Some b \<Rightarrow> put_base b opcode s
                      else s)
     }"

section \<open>Pairs\<close>

definition load_pair :: "ps_config \<Rightarrow> u32 \<Rightarrow> u64 \<Rightarrow> (bool, 'a cpu_state_scheme) prog" where
  "load_pair cf opcode ptr s =
     (if pair_size opcode = 4
      then do {
        ((handled, tmp), s) \<leftarrow> read_value cf (stale s) 8 ptr s;
        Some (handled, if handled
                       then SYSPutValueToReg (tmp AND 0xffffffff) (op_rt2 opcode)
                              (SYSPutValueToReg (drop_bit 32 tmp) (op_rt opcode) s)
                       else s)
      }
      else do {
        ((handled, tmp1, tmp2), s) \<leftarrow> read_quad cf ptr s;
        Some (handled, if handled
                       then SYSPutValueToReg tmp2 (op_rt2 opcode) (SYSPutValueToReg tmp1 (op_rt opcode) s)
                       else s)
      })"

definition sign_word :: "u64 \<Rightarrow> u64" where
  "sign_word tmp = (if tmp AND 0x80000000 \<noteq> 0 then tmp OR 0xffffffff00000000 else tmp)"

definition load_pair_signed :: "ps_config \<Rightarrow> u32 \<Rightarrow> u64 \<Rightarrow> (bool, 'a cpu_state_scheme) prog" where
  "load_pair_signed cf opcode ptr s =
     do {
       ((handled, tmp), s) \<leftarrow> read_value cf (stale s) 8 ptr s;
       Some (handled, if handled
                      then SYSPutValueToReg (sign_word (tmp AND 0xffffffff)) (op_rt2 opcode)
                             (SYSPutValueToReg (sign_word (drop_bit 32 tmp)) (op_rt opcode) s)
                      else s)
     }"

text \<open>The first chain of tests: floating point loads and pairs; \<open>far\<close> is the fault address.\<close>

definition load_floats :: "ps_config \<Rightarrow> u32 \<Rightarrow> u64 \<Rightarrow> (bool, 'a cpu_state_scheme) prog" where
  "load_floats cf opcode far s =
     (let ptr = op_base opcode s; offset = op_imm9 opcode; pair = op_imm7 (pair_size opcode) opcode
      in if opcode AND 0xfee00c00 = 0xbc400000 then load_single cf opcode far None s
         else if opcode AND 0xff400000 = 0xbd400000
         then load_single cf opcode (ptr + ucast (op_imm12 opcode * 4)) None s
         else if opcode AND 0xfee00c00 = 0xbc400400 then load_single cf opcode (ptr + offset) (Some (ptr + offset)) s
         else if opcode AND 0xfee00c00 = 0xbc400c00 then load_single cf opcode ptr (Some (ptr + offset)) s
         else if opcode AND 0xfee00c00 = 0xfc400000 then load_double cf opcode far None s
         else if opcode AND 0xff400000 = 0xfd400000
         then load_double cf opcode (ptr + ucast (op_imm12 opcode * 8)) None s
         else if opcode AND 0xfee00c00 = 0xfc600800 then load_double cf opcode far None s
         else if opcode AND 0xfee00c00 = 0xfc400400 then load_double cf opcode (ptr + offset) (Some (ptr + offset)) s
         else if opcode AND 0xfee00c00 = 0xbc400c00 then load_double cf opcode ptr (Some (ptr + offset)) s
         else if opcode AND 0x7fc00000 = 0x29400000 then load_pair cf opcode (ptr + pair) s
         else if opcode AND 0x7ec00000 = 0x28c00000
         then do {
           (handled, s) \<leftarrow> load_pair cf opcode (if opcode AND 0x01000000 \<noteq> 0 then ptr + pair else ptr) s;
           Some (handled, put_base (ptr + pair) opcode s)
         }
         else Some (False, s))"

section \<open>Single registers\<close>

definition load_unsigned :: "ps_config \<Rightarrow> u32 \<Rightarrow> nat \<Rightarrow> u64 \<Rightarrow> u64 option \<Rightarrow> (bool, 'a cpu_state_scheme) prog" where
  "load_unsigned cf opcode sz ptr base s =
     do {
       ((handled, tmp), s) \<leftarrow> read_value cf 0 sz ptr s;
       Some (handled, if handled
                      then let s = SYSPutValueToReg tmp (op_rt opcode) s
                           in case base of None \<Rightarrow> s | Some b \<Rightarrow> put_base b opcode s
                      else s)
     }"

text \<open>Sign extension of a byte, half word or word to 32 bits, and to 64 when bit 22 is clear.\<close>

definition sign_loaded :: "u32 \<Rightarrow> nat \<Rightarrow> u64 \<Rightarrow> u64" where
  "sign_loaded opcode sz tmp =
     (let sext64 = (opcode AND 0x400000 = 0);
          sext = (if sz = 1 then tmp AND 0x80 \<noteq> 0 else if sz = 2 then tmp AND 0x8000 \<noteq> 0
                  else if sz = 4 then tmp AND 0x80000000 \<noteq> 0 else False);
          tmp = (if sz = 1 \<and> sext then tmp OR 0xffffff00
                 else if sz = 2 \<and> sext then tmp OR 0xffff0000 else tmp)
      in if sext \<and> sext64 then tmp OR 0xffffffff00000000 else tmp)"

definition load_signed :: "ps_config \<Rightarrow> u32 \<Rightarrow> nat \<Rightarrow> u64 \<Rightarrow> u64 option \<Rightarrow> (bool, 'a cpu_state_scheme) prog" where
  "load_signed cf opcode sz ptr base s =
     do {
       ((handled, tmp), s) \<leftarrow> read_value cf 0 sz ptr s;
       Some (handled, if handled
                      then let s = SYSPutValueToReg (sign_loaded opcode sz tmp) (op_rt opcode) s
                           in case base of None \<Rightarrow> s | Some b \<Rightarrow> put_base b opcode s
                      else s)
     }"

definition load_literal :: "ps_config \<Rightarrow> u32 \<Rightarrow> u64 \<Rightarrow> (bool, 'a cpu_state_scheme) prog" where
  "load_literal cf opcode far s =
     do {
       let sz = (if opcode AND 0x40000000 \<noteq> 0 then 8 else 4);
       let sext = (opcode AND 0x80000000 \<noteq> 0);
       ((handled, tmp), s) \<leftarrow> read_value cf (stale s) sz far s;
       Some (handled, if handled \<and> sext then SYSPutValueToReg (sign_word tmp) (op_rt opcode) s else s)
     }"

text \<open>The forms with sign extension.\<close>

definition load_signed_forms ::
    "ps_config \<Rightarrow> u32 \<Rightarrow> nat \<Rightarrow> bool \<Rightarrow> (bool, 'a cpu_state_scheme) prog" where
  "load_signed_forms cf opcode sz handled s =
     (let ptr = op_base opcode s; offset = op_imm9 opcode
      in if opcode AND 0x3fa00c00 = 0x38a00800 then load_signed cf opcode sz (ptr + op_offset opcode sz s) None s
         else if opcode AND 0x3f800000 = 0x39800000
         then load_signed cf opcode sz (ptr + ucast (op_imm12 opcode * word_of_nat sz)) None s
         else if opcode AND 0x3fa00c00 = 0x38800000 then load_signed cf opcode sz (ptr + offset) None s
         else if opcode AND 0x3fa00400 = 0x38800400
         then load_signed cf opcode sz (if opcode AND 0x800 \<noteq> 0 then ptr + offset else ptr) (Some (ptr + offset)) s
         else Some (handled, s))"

text \<open>The second chain; \<open>handled\<close> is what the first one gave.\<close>

definition load_integers ::
    "ps_config \<Rightarrow> u32 \<Rightarrow> nat \<Rightarrow> u64 \<Rightarrow> bool \<Rightarrow> (bool, 'a cpu_state_scheme) prog" where
  "load_integers cf opcode sz far handled s =
     (let ptr = op_base opcode s; offset = op_imm9 opcode; pair = op_imm7 4 opcode
      in if opcode AND 0xffc00000 = 0x69400000 then load_pair_signed cf opcode (ptr + pair) s
         else if opcode AND 0xffc00000 = 0x68c00000
         then do { (handled, s) \<leftarrow> load_pair_signed cf opcode ptr s; Some (handled, put_base (ptr + pair) opcode s) }
         else if opcode AND 0xffc00000 = 0x69c00000
         then do { (handled, s) \<leftarrow> load_pair_signed cf opcode (ptr + pair) s; Some (handled, put_base (ptr + pair) opcode s) }
         else if opcode AND 0xbf000000 = 0x18000000 \<or> opcode AND 0xff000000 = 0x98000000
         then load_literal cf opcode far s
         else if opcode AND 0x3fe00c00 = 0x38600800 then load_unsigned cf opcode sz (ptr + op_offset opcode sz s) None s
         else if opcode AND 0x3ffffc00 = 0x085f7c00 then load_unsigned cf opcode sz far None s
         else if opcode AND 0x3fc00000 = 0x39400000
         then load_unsigned cf opcode sz (ptr + ucast (op_imm12 opcode) * word_of_nat sz) None s
         else if opcode AND 0x3fe00c00 = 0x38400000 then load_unsigned cf opcode sz (ptr + offset) None s
         else if opcode AND 0x3fe00400 = 0x38400400
         then load_unsigned cf opcode sz (if opcode AND 0x800 \<noteq> 0 then ptr + offset else ptr) (Some (ptr + offset)) s
         else load_signed_forms cf opcode sz handled s)"

section \<open>The handler\<close>

definition SYSPageFaultReadHandler :: "ps_config \<Rightarrow> u64 \<Rightarrow> u64 \<Rightarrow> (bool, 'a cpu_state_scheme) prog" where
  "SYSPageFaultReadHandler cf elr far s =
     (let opcode = faulting_opcode elr s
      in do {
           (handled, s) \<leftarrow> load_floats cf opcode far s;
           (handled, s) \<leftarrow> load_integers cf opcode (getOPsize opcode) far handled s;
           Some (handled, s\<lparr>elr_el1 := elr + 4\<rparr>)
         })"

end
