(* ===== verification/A64Load.thy ===== *)
theory A64Load
  imports A64 FaultLoad
begin

text \<open>
  Faulting loads against the architecture: the register class with zero and sign extension,
  and what the handlers for the vector registers do instead.
\<close>

section \<open>The mask tests of the load handler\<close>

lemma load_tests:
  fixes op :: u32
  shows "op AND 0xfee00c00 = 0xbc400000 \<longleftrightarrow> bit op 31 \<and> \<not> bit op 30 \<and> bit op 29 \<and> bit op 28 \<and> bit op 27 \<and> bit op 26 \<and>
      \<not> bit op 25 \<and> \<not> bit op 23 \<and> bit op 22 \<and> \<not> bit op 21 \<and> \<not> bit op 11 \<and> \<not> bit op 10"
    and "op AND 0xfee00c00 = 0xbc400400 \<longleftrightarrow> bit op 31 \<and> \<not> bit op 30 \<and> bit op 29 \<and> bit op 28 \<and> bit op 27 \<and> bit op 26 \<and>
      \<not> bit op 25 \<and> \<not> bit op 23 \<and> bit op 22 \<and> \<not> bit op 21 \<and> \<not> bit op 11 \<and> bit op 10"
    and "op AND 0xfee00c00 = 0xbc400c00 \<longleftrightarrow> bit op 31 \<and> \<not> bit op 30 \<and> bit op 29 \<and> bit op 28 \<and> bit op 27 \<and> bit op 26 \<and>
      \<not> bit op 25 \<and> \<not> bit op 23 \<and> bit op 22 \<and> \<not> bit op 21 \<and> bit op 11 \<and> bit op 10"
    and "op AND 0xfee00c00 = 0xfc400000 \<longleftrightarrow> bit op 31 \<and> bit op 30 \<and> bit op 29 \<and> bit op 28 \<and> bit op 27 \<and> bit op 26 \<and>
      \<not> bit op 25 \<and> \<not> bit op 23 \<and> bit op 22 \<and> \<not> bit op 21 \<and> \<not> bit op 11 \<and> \<not> bit op 10"
    and "op AND 0xfee00c00 = 0xfc600800 \<longleftrightarrow> bit op 31 \<and> bit op 30 \<and> bit op 29 \<and> bit op 28 \<and> bit op 27 \<and> bit op 26 \<and>
      \<not> bit op 25 \<and> \<not> bit op 23 \<and> bit op 22 \<and> bit op 21 \<and> bit op 11 \<and> \<not> bit op 10"
    and "op AND 0xfee00c00 = 0xfc400400 \<longleftrightarrow> bit op 31 \<and> bit op 30 \<and> bit op 29 \<and> bit op 28 \<and> bit op 27 \<and> bit op 26 \<and>
      \<not> bit op 25 \<and> \<not> bit op 23 \<and> bit op 22 \<and> \<not> bit op 21 \<and> \<not> bit op 11 \<and> bit op 10"
    and "op AND 0xff400000 = 0xbd400000 \<longleftrightarrow> bit op 31 \<and> \<not> bit op 30 \<and> bit op 29 \<and> bit op 28 \<and> bit op 27 \<and> bit op 26 \<and>
      \<not> bit op 25 \<and> bit op 24 \<and> bit op 22"
    and "op AND 0xff400000 = 0xfd400000 \<longleftrightarrow> bit op 31 \<and> bit op 30 \<and> bit op 29 \<and> bit op 28 \<and> bit op 27 \<and> bit op 26 \<and>
      \<not> bit op 25 \<and> bit op 24 \<and> bit op 22"
    and "op AND 0x7fc00000 = 0x29400000 \<longleftrightarrow> \<not> bit op 30 \<and> bit op 29 \<and> \<not> bit op 28 \<and> bit op 27 \<and> \<not> bit op 26 \<and>
      \<not> bit op 25 \<and> bit op 24 \<and> \<not> bit op 23 \<and> bit op 22"
    and "op AND 0x7ec00000 = 0x28c00000 \<longleftrightarrow> \<not> bit op 30 \<and> bit op 29 \<and> \<not> bit op 28 \<and> bit op 27 \<and> \<not> bit op 26 \<and>
      \<not> bit op 25 \<and> bit op 23 \<and> bit op 22"
    and "op AND 0xffc00000 = 0x69400000 \<longleftrightarrow> \<not> bit op 31 \<and> bit op 30 \<and> bit op 29 \<and> \<not> bit op 28 \<and> bit op 27 \<and>
      \<not> bit op 26 \<and> \<not> bit op 25 \<and> bit op 24 \<and> \<not> bit op 23 \<and> bit op 22"
    and "op AND 0xffc00000 = 0x68c00000 \<longleftrightarrow> \<not> bit op 31 \<and> bit op 30 \<and> bit op 29 \<and> \<not> bit op 28 \<and> bit op 27 \<and>
      \<not> bit op 26 \<and> \<not> bit op 25 \<and> \<not> bit op 24 \<and> bit op 23 \<and> bit op 22"
    and "op AND 0xffc00000 = 0x69c00000 \<longleftrightarrow> \<not> bit op 31 \<and> bit op 30 \<and> bit op 29 \<and> \<not> bit op 28 \<and> bit op 27 \<and>
      \<not> bit op 26 \<and> \<not> bit op 25 \<and> bit op 24 \<and> bit op 23 \<and> bit op 22"
    and "op AND 0xbf000000 = 0x18000000 \<longleftrightarrow> \<not> bit op 31 \<and> \<not> bit op 29 \<and> bit op 28 \<and> bit op 27 \<and> \<not> bit op 26 \<and>
      \<not> bit op 25 \<and> \<not> bit op 24"
    and "op AND 0xff000000 = 0x98000000 \<longleftrightarrow> bit op 31 \<and> \<not> bit op 30 \<and> \<not> bit op 29 \<and> bit op 28 \<and> bit op 27 \<and>
      \<not> bit op 26 \<and> \<not> bit op 25 \<and> \<not> bit op 24"
    and "op AND 0x3fe00c00 = 0x38600800 \<longleftrightarrow> bit op 29 \<and> bit op 28 \<and> bit op 27 \<and> \<not> bit op 26 \<and> \<not> bit op 25 \<and>
      \<not> bit op 24 \<and> \<not> bit op 23 \<and> bit op 22 \<and> bit op 21 \<and> bit op 11 \<and> \<not> bit op 10"
    and "op AND 0x3fc00000 = 0x39400000 \<longleftrightarrow> bit op 29 \<and> bit op 28 \<and> bit op 27 \<and> \<not> bit op 26 \<and> \<not> bit op 25 \<and>
      bit op 24 \<and> \<not> bit op 23 \<and> bit op 22"
    and "op AND 0x3fe00c00 = 0x38400000 \<longleftrightarrow> bit op 29 \<and> bit op 28 \<and> bit op 27 \<and> \<not> bit op 26 \<and> \<not> bit op 25 \<and>
      \<not> bit op 24 \<and> \<not> bit op 23 \<and> bit op 22 \<and> \<not> bit op 21 \<and> \<not> bit op 11 \<and> \<not> bit op 10"
    and "op AND 0x3fe00400 = 0x38400400 \<longleftrightarrow> bit op 29 \<and> bit op 28 \<and> bit op 27 \<and> \<not> bit op 26 \<and> \<not> bit op 25 \<and>
      \<not> bit op 24 \<and> \<not> bit op 23 \<and> bit op 22 \<and> \<not> bit op 21 \<and> bit op 10"
    and "op AND 0x3fa00c00 = 0x38a00800 \<longleftrightarrow> bit op 29 \<and> bit op 28 \<and> bit op 27 \<and> \<not> bit op 26 \<and> \<not> bit op 25 \<and>
      \<not> bit op 24 \<and> bit op 23 \<and> bit op 21 \<and> bit op 11 \<and> \<not> bit op 10"
    and "op AND 0x3f800000 = 0x39800000 \<longleftrightarrow> bit op 29 \<and> bit op 28 \<and> bit op 27 \<and> \<not> bit op 26 \<and> \<not> bit op 25 \<and>
      bit op 24 \<and> bit op 23"
    and "op AND 0x3fa00c00 = 0x38800000 \<longleftrightarrow> bit op 29 \<and> bit op 28 \<and> bit op 27 \<and> \<not> bit op 26 \<and> \<not> bit op 25 \<and>
      \<not> bit op 24 \<and> bit op 23 \<and> \<not> bit op 21 \<and> \<not> bit op 11 \<and> \<not> bit op 10"
    and "op AND 0x3fa00400 = 0x38800400 \<longleftrightarrow> bit op 29 \<and> bit op 28 \<and> bit op 27 \<and> \<not> bit op 26 \<and> \<not> bit op 25 \<and>
      \<not> bit op 24 \<and> bit op 23 \<and> \<not> bit op 21 \<and> bit op 10"
    and "op AND 0x400000 = 0x0 \<longleftrightarrow> \<not> bit op 22"
    and "op AND 0x1000000 = 0x0 \<longleftrightarrow> \<not> bit op 24"
  by (simp add: word32_eq_bits bit_and_iff; argo)+

lemma exclusive_test:
  assumes "(op :: u32) AND 0x3ffffc00 = 0x085f7c00"
  shows "\<not> bit op 29"
proof -
  have "bit (op AND 0x3ffffc00) 29 = bit (0x085f7c00 :: u32) 29" by (simp only: assms)
  then show ?thesis by (simp add: bit_and_iff)
qed

section \<open>Zero and sign extension\<close>

text \<open>What the architecture loads: the low \<open>2 ^ k\<close> bytes, zero extended or, when bit 23 is
  set, sign extended to 32 bits (bit 22) or to 64.\<close>

definition a64_loaded :: "u32 \<Rightarrow> nat \<Rightarrow> u64 \<Rightarrow> u64" where
  "a64_loaded op k v =
     (if \<not> bit op 23 then v
      else let w = (if k = 0 then scast (ucast v :: u8) else if k = 1 then scast (ucast v :: u16)
                    else scast (ucast v :: u32)) :: u64
           in if bit op 22 then ucast (ucast w :: u32) else w)"

lemma bit_high_fields:
  "bit (0xffffff00 :: int) n \<longleftrightarrow> 8 \<le> n \<and> n < 32"
  "bit (0xffff0000 :: int) n \<longleftrightarrow> 16 \<le> n \<and> n < 32"
  using bit_int_field [of "0xffffff00" 24 8 n] bit_int_field [of "0xffff0000" 16 16 n] by simp_all

lemma and_bit_tests:
  "(x :: u64) AND 0x80 = 0 \<longleftrightarrow> \<not> bit x 7" "(x :: u64) AND 0x8000 = 0 \<longleftrightarrow> \<not> bit x 15"
proof -
  have "x AND 2 ^ n = 0 \<longleftrightarrow> \<not> bit x n" if "n < 64" for n
    using that by (auto simp: and_exp_eq_0_iff_not_bit)
  from this [of 7] this [of 15] show "x AND 0x80 = 0 \<longleftrightarrow> \<not> bit x 7" "x AND 0x8000 = 0 \<longleftrightarrow> \<not> bit x 15" by simp_all
qed

lemma sign_loaded_field:
  assumes "v = take_bit (8 * 2 ^ k) v" and "k \<le> 2" and "bit op 23" and "k = 2 \<longrightarrow> \<not> bit op 22"
  shows "sign_loaded op (2 ^ k) v = a64_loaded op k v"
proof (rule bit_word_eqI)
  fix n assume n: "n < LENGTH(64)"
  have hi: "bit v n \<Longrightarrow> n < 8 * 2 ^ k" for n
    using assms(1) by (metis bit_take_bit_iff)
  consider "k = 0" | "k = 1" | "k = 2" using assms(2) by linarith
  then show "bit (sign_loaded op (2 ^ k) v) n = bit (a64_loaded op k v) n"
  proof cases
    case 1
    then show ?thesis
      using n hi [of n] hi [of 7] assms(3)
      by (cases "n < 8"; cases "bit v 7"; cases "bit op 22"; cases "n = 7"; cases "n < 32")
        (auto simp: sign_loaded_def a64_loaded_def Let_def load_tests and_bit_tests bit_simps bit_high_fields bit_high_ones)
  next
    case 2
    then show ?thesis
      using n hi [of n] hi [of 15] assms(3)
      by (cases "n < 16"; cases "bit v 15"; cases "bit op 22"; cases "n = 15"; cases "n < 32")
        (auto simp: sign_loaded_def a64_loaded_def Let_def load_tests and_bit_tests bit_simps bit_high_fields bit_high_ones)
  next
    case 3
    then show ?thesis
      using n hi [of n] hi [of 31] assms(3,4)
      by (cases "n < 32"; cases "bit v 31"; cases "n = 31")
        (auto simp: sign_loaded_def a64_loaded_def Let_def load_tests and_bit31 bit_simps bit_high_ones)
  qed
qed

section \<open>Loads of the register class\<close>

text \<open>The result of a load: the register and, in the indexed forms, the base, if it was handled.\<close>

definition a64_finish ::
    "u32 \<Rightarrow> nat \<Rightarrow> u64 option \<Rightarrow> ((bool \<times> u64) \<times> 'a cpu_state_scheme) option \<Rightarrow> (bool \<times> 'a cpu_state_scheme) option" where
  "a64_finish op k wb r =
     map_option (\<lambda>((handled, v), s). (handled,
        if handled then a64_write_back wb op (SYSPutValueToReg (a64_loaded op k v) (op_rt op) s) else s)) r"

lemma load_unsigned_finish:
  "\<not> bit op 23 \<Longrightarrow> load_unsigned cf op sz a wb s = a64_finish op k wb (read_value cf 0 sz a s)"
  by (cases "read_value cf 0 sz a s")
    (auto simp: load_unsigned_def a64_finish_def a64_loaded_def a64_write_back_def put_base_def split: option.splits)

lemma load_signed_finish:
  assumes "bit op 23" and "k \<le> 2" and "k = 2 \<longrightarrow> \<not> bit op 22"
    and "\<And>v t. read_value cf 0 (2 ^ k) a s = Some ((True, v), t) \<Longrightarrow> v = take_bit (8 * 2 ^ k) v"
  shows "load_signed cf op (2 ^ k) a wb s = a64_finish op k wb (read_value cf 0 (2 ^ k) a s)"
proof (cases "read_value cf 0 (2 ^ k) a s")
  case None
  then show ?thesis by (simp add: load_signed_def a64_finish_def)
next
  case (Some r)
  obtain h v t where r: "r = ((h, v), t)" by (cases r) auto
  have "h \<Longrightarrow> sign_loaded op (2 ^ k) v = a64_loaded op k v"
    using assms(4) [of v t] Some r by (intro sign_loaded_field assms(1-3)) simp_all
  then show ?thesis
    by (cases wb) (simp_all add: load_signed_def a64_finish_def Some r a64_write_back_def put_base_def)
qed

lemma imm12_wide:
  assumes "k \<le> 3"
  shows "ucast (op_imm12 op) * 2 ^ k = push_bit k (ucast (ucast (drop_bit 10 op) :: 12 word) :: u64)"
  unfolding push_bit_eq_mult [symmetric] imm12_field ..

lemma not_pair_or_float:
  assumes "a64_register_class op" and "\<not> bit op 26"
  shows "load_floats cf op far s = Some (False, s)"
  using assms class_bits [OF assms(1)] by (simp add: load_floats_def load_tests Let_def)

lemma load_emulation:
  assumes "a64_register_class op" and "\<not> bit op 26" and "bit op 23 \<or> bit op 22"
    and "a64_access op k (\<lambda>r. SYSGetValueFromReg r s) = Some (a, wb)" and "k = unat (drop_bit 30 op)"
    and "bit op 23 \<longrightarrow> k \<le> 2 \<and> (k = 2 \<longrightarrow> \<not> bit op 22)"
    and "bit op 23 \<longrightarrow> (\<forall>v t. read_value cf 0 (2 ^ k) a s = Some ((True, v), t) \<longrightarrow> v = take_bit (8 * 2 ^ k) v)"
  shows "load_integers cf op (2 ^ k) far h s = a64_finish op k wb (read_value cf 0 (2 ^ k) a s)"
proof -
  have k: "k \<le> 3" using scale_field assms(5) by simp
  note c = class_bits [OF assms(1)]
  have ex: "op AND 0x3ffffc00 \<noteq> 0x085f7c00" using exclusive_test [of op] c by blast
  have u: "load_unsigned cf op (2 ^ k) a wb s = a64_finish op k wb (read_value cf 0 (2 ^ k) a s)" if "\<not> bit op 23"
    using that by (rule load_unsigned_finish)
  have sg: "load_signed cf op (2 ^ k) a wb s = a64_finish op k wb (read_value cf 0 (2 ^ k) a s)" if "bit op 23"
    using that assms(6,7) by (intro load_signed_finish) auto
  note defs = load_integers_def load_signed_forms_def load_tests decode_tests ex a64_access_def op_base_def Let_def
  consider (uns) "bit op 24" | (unscaled) "\<not> bit op 24" "\<not> bit op 21" "\<not> bit op 10" "\<not> bit op 11"
    | (indexed) "\<not> bit op 24" "\<not> bit op 21" "bit op 10"
    | (reg) off where "\<not> bit op 24" "bit op 21" "bit op 11" "\<not> bit op 10" "a64_extend op (SYSGetValueFromReg (op_rm op) s) = Some off"
    using assms(4) by (auto simp: a64_access_def Let_def split: bool.splits if_splits)
  then show ?thesis
  proof cases
    case uns
    then show ?thesis
      using c assms(2-4) imm12_scaled [OF k, of op] imm12_wide [OF k, of op] u sg
      by (cases "bit op 23") (auto simp: defs)
  next
    case unscaled
    then show ?thesis
      using c assms(2-4) u sg by (cases "bit op 23") (auto simp: defs imm9_field)
  next
    case indexed
    then show ?thesis
      using c assms(2-4) u sg
      by (cases "bit op 23"; cases "bit op 11") (auto simp: defs imm9_field)
  next
    case reg
    then show ?thesis
      using c assms(2-4) u sg offset_field [OF reg(5) assms(5)]
      by (cases "bit op 23") (auto simp: defs)
  qed
qed


section \<open>Indexed loads of the vector registers\<close>

text \<open>
  C27: the indexed loads of the vector registers do not follow the architecture: a post-indexed
  load (which loads at the base) is carried out at the moved base, a pre-indexed load of a
  single (which loads at the moved base) at the base, and a pre-indexed load of a double is
  not handled.
\<close>

theorem indexed_float_loads:
  assumes "op = faulting_opcode pc s" and "a64_register_class op" and "bit op 26" and "bit op 31"
    and "\<not> bit op 24" and "\<not> bit op 23" and "bit op 22" and "\<not> bit op 21" and "bit op 10"
  shows "let b = op_base op s; m = b + scast (ucast (drop_bit 12 op) :: 9 word);
      load = (\<lambda>a. do { (h, t) \<leftarrow> (if bit op 30 then load_double else load_single) cf op a (Some m) s;
                        Some (h, t\<lparr>elr_el1 := pc + 4\<rparr>) })
    in a64_access op k (\<lambda>r. SYSGetValueFromReg r s) = Some (if bit op 11 then m else b, Some m) \<and>
       SYSPageFaultReadHandler cf pc far s =
         (if \<not> bit op 11 then load m else if \<not> bit op 30 then load b else Some (False, s\<lparr>elr_el1 := pc + 4\<rparr>))"
proof -
  note c = class_bits [OF assms(2)]
  have ex: "op AND 0x3ffffc00 \<noteq> 0x085f7c00" using exclusive_test [of op] c by blast
  have ints: "load_integers cf op sz far h t = Some (h, t)" for sz h and t :: "'a cpu_state_scheme"
    using c assms(3-9) ex
    by (simp add: load_integers_def load_signed_forms_def load_tests decode_tests Let_def)
  have acc: "a64_access op k (\<lambda>r. SYSGetValueFromReg r s) =
      Some (if bit op 11 then op_base op s + op_imm9 op else op_base op s, Some (op_base op s + op_imm9 op))"
    using assms(5-9) by (simp add: a64_access_def Let_def op_base_def imm9_field)
  have "load_floats cf op far s = 
      (if \<not> bit op 11 then (if bit op 30 then load_double else load_single) cf op (op_base op s + op_imm9 op) (Some (op_base op s + op_imm9 op)) s
       else if \<not> bit op 30 then load_single cf op (op_base op s) (Some (op_base op s + op_imm9 op)) s
       else Some (False, s))"
    using c assms(3-9) by (simp add: load_floats_def load_tests Let_def)
  then show ?thesis
    unfolding SYSPageFaultReadHandler_def assms(1) [symmetric] Let_def imm9_field [symmetric] acc
    by (simp add: ints case_prod_unfold)
qed

section \<open>Instances\<close>


theorem indexed_float_loads_witness:
  "a64_access 0xbc404441 2 (\<lambda>r. SYSGetValueFromReg r (SAVE_SHORT_CONTEXT (program_at 0x80000 [0x41, 0x44, 0x40, 0xbc])))
     = Some (0x102, Some 0x106) \<and>
   SYSPageFaultReadHandler pi_config 0x80000 0x102 (SAVE_SHORT_CONTEXT (program_at 0x80000 [0x41, 0x44, 0x40, 0xbc])) =
     do { (h, t) \<leftarrow> load_single pi_config 0xbc404441 0x106 (Some 0x106)
                     (SAVE_SHORT_CONTEXT (program_at 0x80000 [0x41, 0x44, 0x40, 0xbc]));
          Some (h, t\<lparr>elr_el1 := 0x80004\<rparr>) }"
proof -
  let ?p = "program_at 0x80000 [0x41, 0x44, 0x40, 0xbc]"
  have op: "faulting_opcode 0x80000 (SAVE_SHORT_CONTEXT ?p) = 0xbc404441"
    by (simp add: faulting_opcode_def load_bytes_4 program_memory_frame program_at_def LE32_def)
  have "op_rn 0xbc404441 = 2" by (simp add: op_rn_def)
  then have "op_base 0xbc404441 (SAVE_SHORT_CONTEXT ?p) = 0x102"
    by (simp add: op_base_def save_get program_xreg)
  then show ?thesis
    using indexed_float_loads [where op = "0xbc404441" and pc = "0x80000" and s = "SAVE_SHORT_CONTEXT ?p" and k = 2 and cf = pi_config and far = "0x102"]
    by (simp add: op a64_register_class_def Let_def)
qed

end
