(* ===== verification/UnitCache.thy ===== *)
theory UnitCache
  imports Prelude
begin

text \<open>
  The set-associative cache of translated code in \<open>source/src/ExecutionLoop.c\<close>: for each
  set of ways, \<open>LRU_alloc\<close> keeps one bit per way, from the top of the word, that is set
  while the way may be replaced. The number of ways and sets are build options, arguments of
  every operation. A null code pointer is 0.
\<close>

section \<open>The cache\<close>

record lru_config =
  ways :: nat
  sets :: nat

record entry =
  m68k :: u64
  arm :: u64

record lru =
  LRU_cache :: "nat \<Rightarrow> entry"
  LRU_alloc :: "nat \<Rightarrow> u32"

definition ADDR_2_SET :: "lru_config \<Rightarrow> u32 \<Rightarrow> nat" where
  "ADDR_2_SET cfg addr = unat (drop_bit 4 addr) mod sets cfg"

definition way_index :: "lru_config \<Rightarrow> u32 \<Rightarrow> nat \<Rightarrow> nat" where
  "way_index cfg addr i = ADDR_2_SET cfg addr * ways cfg + i"

definition way_mask :: "nat \<Rightarrow> u32" where
  "way_mask i = drop_bit i 0x80000000"

text \<open>A way was used: clear its bit, and start over when no other way is left.\<close>

definition touch_way :: "lru_config \<Rightarrow> nat \<Rightarrow> u32 \<Rightarrow> u32" where
  "touch_way cfg i alloc =
     (let current = alloc AND NOT (way_mask i)
      in if drop_bit (32 - ways cfg) current = 0 then NOT (way_mask i) else current)"

definition find_way :: "lru_config \<Rightarrow> u32 \<Rightarrow> lru \<Rightarrow> nat option" where
  "find_way cfg addr c = find (\<lambda>i. m68k (LRU_cache c (way_index cfg addr i)) = ucast addr) [0..<ways cfg]"

definition LRU_FindBlock :: "lru_config \<Rightarrow> u32 \<Rightarrow> lru \<Rightarrow> u64 \<times> lru" where
  "LRU_FindBlock cfg addr c =
     (case find_way cfg addr c of
        None \<Rightarrow> (0, c)
      | Some i \<Rightarrow>
          let s = ADDR_2_SET cfg addr
          in (arm (LRU_cache c (way_index cfg addr i)),
              c\<lparr>LRU_alloc := (LRU_alloc c)(s := touch_way cfg i (LRU_alloc c s))\<rparr>))"

definition find_arm :: "lru_config \<Rightarrow> u64 \<Rightarrow> lru \<Rightarrow> nat option" where
  "find_arm cfg addr c = find (\<lambda>i. arm (LRU_cache c i) = addr) [0..<sets cfg * ways cfg]"

definition LRU_MarkForVerify :: "lru_config \<Rightarrow> u64 \<Rightarrow> lru \<Rightarrow> lru" where
  "LRU_MarkForVerify cfg addr c =
     (case find_arm cfg addr c of
        None \<Rightarrow> c
      | Some i \<Rightarrow> c\<lparr>LRU_cache := (LRU_cache c)(i := (LRU_cache c i)
                    \<lparr>arm := (addr AND 0x00ffffffffffffff) OR 0xaa00000000000000\<rparr>)\<rparr>)"

definition drop_entry :: "nat \<Rightarrow> nat \<Rightarrow> nat \<Rightarrow> lru \<Rightarrow> lru" where
  "drop_entry k s i c =
     c\<lparr>LRU_cache := (LRU_cache c)(k := \<lparr>m68k = 0xffffffff, arm = 0\<rparr>),
       LRU_alloc := (LRU_alloc c)(s := LRU_alloc c s OR way_mask i)\<rparr>"

definition LRU_InvalidateByARMAddress :: "lru_config \<Rightarrow> u64 \<Rightarrow> lru \<Rightarrow> lru" where
  "LRU_InvalidateByARMAddress cfg addr c =
     (case find_arm cfg addr c of
        None \<Rightarrow> c
      | Some i \<Rightarrow> drop_entry i (i div ways cfg) (i mod ways cfg) c)"

definition LRU_InvalidateByM68kAddress :: "lru_config \<Rightarrow> u32 \<Rightarrow> lru \<Rightarrow> lru" where
  "LRU_InvalidateByM68kAddress cfg addr c =
     (case find_way cfg addr c of
        None \<Rightarrow> c
      | Some i \<Rightarrow> drop_entry (way_index cfg addr i) (ADDR_2_SET cfg addr) i c)"

definition LRU_InvalidateAll :: "lru_config \<Rightarrow> lru \<Rightarrow> lru" where
  "LRU_InvalidateAll cfg c =
     c\<lparr>LRU_cache := (\<lambda>i. if i < sets cfg * ways cfg then \<lparr>m68k = 0xffffffff, arm = 0\<rparr> else LRU_cache c i),
       LRU_alloc := (\<lambda>i. if i < sets cfg then 0xffffffff else LRU_alloc c i)\<rparr>"

text \<open>\<open>__builtin_clz\<close>: the number of leading zeros.\<close>

definition clz :: "u32 \<Rightarrow> nat" where
  "clz x = length (takeWhile (\<lambda>i. \<not> bit x (31 - i)) [0..<32])"

definition LRU_InsertBlock :: "lru_config \<Rightarrow> u32 \<Rightarrow> u64 \<Rightarrow> lru \<Rightarrow> lru" where
  "LRU_InsertBlock cfg addr code c =
     (let s = ADDR_2_SET cfg addr; loc = clz (LRU_alloc c s)
      in c\<lparr>LRU_cache := (LRU_cache c)(way_index cfg addr loc := \<lparr>m68k = ucast addr, arm = code\<rparr>),
           LRU_alloc := (LRU_alloc c)(s := touch_way cfg loc (LRU_alloc c s))\<rparr>)"

section \<open>The replacement bits\<close>

definition lru_config_ok :: "lru_config \<Rightarrow> bool" where
  "lru_config_ok cfg \<longleftrightarrow> 2 \<le> ways cfg \<and> ways cfg \<le> 32 \<and> 0 < sets cfg"

text \<open>Some way of the set may be replaced.\<close>

definition way_free :: "lru_config \<Rightarrow> u32 \<Rightarrow> bool" where
  "way_free cfg alloc \<longleftrightarrow> (\<exists>i < ways cfg. bit alloc (31 - i))"

lemma bit_way_mask: "i < 32 \<Longrightarrow> bit (way_mask i) n \<longleftrightarrow> n = 31 - i"
  by (auto simp: way_mask_def bit_drop_bit_eq bits)

lemma top_bits:
  assumes "w \<le> 32"
  shows "drop_bit (32 - w) (x :: u32) = 0 \<longleftrightarrow> \<not> (\<exists>i < w. bit x (31 - i))"
proof
  assume z: "drop_bit (32 - w) x = 0"
  show "\<not> (\<exists>i < w. bit x (31 - i))"
  proof
    assume "\<exists>i < w. bit x (31 - i)"
    then obtain i where "i < w" "bit x (31 - i)" by blast
    then have "bit (drop_bit (32 - w) x) (w - 1 - i)" using assms by (simp add: bit_drop_bit_eq)
    with z show False by simp
  qed
next
  assume n: "\<not> (\<exists>i < w. bit x (31 - i))"
  show "drop_bit (32 - w) x = 0"
  proof (rule bit_word_eqI)
    fix k assume "k < LENGTH(32)"
    have "\<not> bit x p" if "32 - w \<le> p" "p < 32" for p
    proof -
      have "31 - p < w" "31 - (31 - p) = p" using that by simp_all
      then show ?thesis using n by (metis)
    qed
    then show "bit (drop_bit (32 - w) x) k = bit (0 :: u32) k"
      using bit_imp_le_length [of x "32 - w + k"] by (auto simp: bit_drop_bit_eq)
  qed
qed

lemma touch_way_free:
  assumes "lru_config_ok cfg" and "i < ways cfg"
  shows "way_free cfg (touch_way cfg i alloc)" and "\<not> bit (touch_way cfg i alloc) (31 - i)"
proof -
  have w: "2 \<le> ways cfg" "ways cfg \<le> 32" and i: "i < 32" using assms by (simp_all add: lru_config_ok_def)
  have "\<exists>j < ways cfg. j \<noteq> i" using w by (intro exI [of _ "if i = 0 then 1 else 0"]) auto
  then obtain j where j: "j < ways cfg" "j \<noteq> i" by blast
  have "bit (NOT (way_mask i)) (31 - j)"
    using j i w by (auto simp: bit_not_iff bit_way_mask)
  with j have n: "way_free cfg (NOT (way_mask i))" unfolding way_free_def by blast
  show "way_free cfg (touch_way cfg i alloc)"
    using n top_bits [OF w(2), of "alloc AND NOT (way_mask i)"]
    by (auto simp: touch_way_def Let_def) (simp add: way_free_def)
  show "\<not> bit (touch_way cfg i alloc) (31 - i)"
    using i by (simp add: touch_way_def Let_def bit_simps bit_way_mask)
qed

lemma takeWhile_length_less:
  assumes "i < n" and "p i"
  shows "length (takeWhile (\<lambda>i. \<not> p i) [0..<n]) < n \<and> p (length (takeWhile (\<lambda>i. \<not> p i) [0..<n])) \<and>
     length (takeWhile (\<lambda>i. \<not> p i) [0..<n]) \<le> i"
proof -
  let ?k = "length (takeWhile (\<lambda>i. \<not> p i) [0..<n])"
  have le: "?k \<le> i"
  proof (rule ccontr)
    assume "\<not> ?thesis"
    then have "i < ?k" by simp
    then have "takeWhile (\<lambda>i. \<not> p i) [0..<n] ! i \<in> set (takeWhile (\<lambda>i. \<not> p i) [0..<n])" by simp
    moreover have "takeWhile (\<lambda>i. \<not> p i) [0..<n] ! i = i"
      using \<open>i < ?k\<close> assms(1) by (simp add: takeWhile_nth)
    ultimately show False using assms(2) by (auto dest: set_takeWhileD)
  qed
  then have "?k < n" using assms(1) by simp
  then show ?thesis
    using le nth_length_takeWhile [of "\<lambda>i. \<not> p i" "[0..<n]"] by simp
qed

lemma clz_free:
  assumes "way_free cfg alloc" and "ways cfg \<le> 32"
  shows "clz alloc < ways cfg" and "bit alloc (31 - clz alloc)"
proof -
  obtain i where i: "i < ways cfg" "bit alloc (31 - i)" using assms(1) by (auto simp: way_free_def)
  have "i < 32" using i(1) assms(2) by simp
  from takeWhile_length_less [where p = "\<lambda>i. bit alloc (31 - i)", OF this i(2)] i(1)
  show "clz alloc < ways cfg" "bit alloc (31 - clz alloc)"
    by (simp_all add: clz_def del: upt_rec_numeral)
qed

section \<open>What a lookup cache promises\<close>

text \<open>
  A cache in front of a slower search. It may forget an entry but never invents one:
  \<open>store\<close> may drop other keys, \<open>use\<close> drops nothing.
\<close>

locale lookup_cache =
  fixes get :: "'k \<Rightarrow> 'c \<Rightarrow> 'v option"
    and store :: "'k \<Rightarrow> 'v \<Rightarrow> 'c \<Rightarrow> 'c"
    and use :: "'k \<Rightarrow> 'c \<Rightarrow> 'c"
    and inv :: "'c \<Rightarrow> bool"
    and good :: "'k \<Rightarrow> bool"
    and real :: "'v \<Rightarrow> bool"
  assumes inv_store: "inv c \<Longrightarrow> good k \<Longrightarrow> real v \<Longrightarrow> get k c = None \<Longrightarrow> inv (store k v c)"
    and inv_use: "inv c \<Longrightarrow> good k \<Longrightarrow> inv (use k c)"
    and get_store: "inv c \<Longrightarrow> good k \<Longrightarrow> real v \<Longrightarrow> get k c = None \<Longrightarrow> get k (store k v c) = Some v"
    and get_store_other:
      "inv c \<Longrightarrow> good k \<Longrightarrow> good q \<Longrightarrow> real v \<Longrightarrow> get k c = None \<Longrightarrow> q \<noteq> k \<Longrightarrow>
         get q (store k v c) = Some w \<Longrightarrow> get q c = Some w"
    and get_use: "inv c \<Longrightarrow> good k \<Longrightarrow> good q \<Longrightarrow> get q (use k c) = get q c"
begin

definition lookup :: "('k \<Rightarrow> 'v option) \<Rightarrow> 'k \<Rightarrow> 'c \<Rightarrow> 'v option \<times> 'c" where
  "lookup search k c =
     (case get k c of
        Some v \<Rightarrow> (Some v, use k c)
      | None \<Rightarrow> (case search k of None \<Rightarrow> (None, c) | Some v \<Rightarrow> (Some v, store k v c)))"

definition sound :: "('k \<Rightarrow> 'v option) \<Rightarrow> 'c \<Rightarrow> bool" where
  "sound search c \<longleftrightarrow> inv c \<and> (\<forall>k v. good k \<longrightarrow> get k c = Some v \<longrightarrow> search k = Some v)"

lemma lookup_transparent:
  assumes "sound search c" and "good k" and "\<And>v. search k = Some v \<Longrightarrow> real v"
  shows "fst (lookup search k c) = search k" and "sound search (snd (lookup search k c))"
proof -
  show "fst (lookup search k c) = search k"
    using assms by (auto simp: lookup_def sound_def split: option.splits)
  show "sound search (snd (lookup search k c))"
  proof (cases "get k c")
    case (Some v)
    then show ?thesis using assms(1,2) by (simp add: lookup_def sound_def inv_use get_use)
  next
    case None
    show ?thesis
    proof (cases "search k")
      case None
      then show ?thesis using \<open>get k c = None\<close> assms(1) by (simp add: lookup_def)
    next
      case (Some v)
      have "search q = Some w" if "good q" "get q (store k v c) = Some w" for q w
        using that assms Some None get_store [of c k v] get_store_other [of c k q v w]
        by (cases "q = k") (auto simp: sound_def)
      then show ?thesis
        using None Some assms inv_store [of c k v] by (simp add: lookup_def sound_def)
    qed
  qed
qed

text \<open>A key looked up before is found without a search until something else is stored.\<close>

lemma lookup_again:
  assumes "sound search c" and "good k" and "search k = Some v" and "real v"
  shows "get k (snd (lookup search k c)) = Some v"
  using assms by (auto simp: lookup_def sound_def get_store get_use split: option.splits)

end

section \<open>The cache keeps its promise\<close>

definition lru_inv :: "lru_config \<Rightarrow> lru \<Rightarrow> bool" where
  "lru_inv cfg c \<longleftrightarrow>
     (\<forall>s < sets cfg. way_free cfg (LRU_alloc c s)) \<and>
     (\<forall>k < sets cfg * ways cfg. m68k (LRU_cache c k) = 0xffffffff \<longleftrightarrow> arm (LRU_cache c k) = 0) \<and>
     (\<forall>s < sets cfg. \<forall>i < ways cfg. \<forall>j < ways cfg. i \<noteq> j \<longrightarrow>
        m68k (LRU_cache c (s * ways cfg + i)) = m68k (LRU_cache c (s * ways cfg + j)) \<longrightarrow>
        arm (LRU_cache c (s * ways cfg + i)) = 0)"

definition lru_get :: "lru_config \<Rightarrow> u32 \<Rightarrow> lru \<Rightarrow> u64 option" where
  "lru_get cfg addr c = (let code = fst (LRU_FindBlock cfg addr c) in if code = 0 then None else Some code)"

lemma slot_less: "(s :: nat) < m \<Longrightarrow> i < w \<Longrightarrow> s * w + i < m * w"
  by (metis add.commute add_strict_left_mono less_le_trans mult.commute mult_Suc_right mult_le_mono2 Suc_leI)

lemma slot_inj: "(i :: nat) < w \<Longrightarrow> j < w \<Longrightarrow> s * w + i = t * w + j \<longleftrightarrow> s = t \<and> i = j"
  by (metis add.commute div_mult_self3 div_less add_cancel_right_right mod_mult_self3 mod_less not_less_zero)

lemma set_less: "lru_config_ok cfg \<Longrightarrow> ADDR_2_SET cfg a < sets cfg"
  by (simp add: ADDR_2_SET_def lru_config_ok_def)

lemma key_eq: "(ucast (a :: u32) :: u64) = ucast b \<longleftrightarrow> a = b"
  by (metis unat_ucasts(6) word_unat_eq_iff)

lemma lru_invD:
  assumes "lru_inv cfg c" and "s < sets cfg" and "i < ways cfg" and "arm (LRU_cache c (s * ways cfg + i)) \<noteq> 0"
  shows "j < ways cfg \<Longrightarrow> m68k (LRU_cache c (s * ways cfg + j)) = m68k (LRU_cache c (s * ways cfg + i)) \<Longrightarrow> j = i"
  using assms unfolding lru_inv_def by metis

lemma lru_get_iff:
  assumes "lru_config_ok cfg" and "lru_inv cfg c" and "a \<noteq> 0xffffffff"
  shows "lru_get cfg a c = Some v \<longleftrightarrow> (\<exists>i < ways cfg. LRU_cache c (way_index cfg a i) = \<lparr>m68k = ucast a, arm = v\<rparr>)"
    (is "?l = ?r")
proof -
  note s = set_less [OF assms(1), of a]
  have key: "(ucast a :: u64) \<noteq> 0xffffffff" using assms(3) key_eq [of a "0xffffffff"] by simp
  have live: "arm (LRU_cache c (way_index cfg a i)) \<noteq> 0"
    if "i < ways cfg" "m68k (LRU_cache c (way_index cfg a i)) = ucast a" for i
    using assms(2) slot_less [OF s that(1)] that(2) key unfolding lru_inv_def way_index_def by metis
  show ?thesis
  proof
    assume ?l
    then obtain i where i: "find_way cfg a c = Some i" "arm (LRU_cache c (way_index cfg a i)) = v"
      by (auto simp: lru_get_def LRU_FindBlock_def Let_def split: option.splits if_splits)
    then have "i < ways cfg" "m68k (LRU_cache c (way_index cfg a i)) = ucast a"
      by (auto simp: find_way_def find_Some_iff)
    with i show ?r by (intro exI [of _ i]) simp
  next
    assume ?r
    then obtain i where i: "i < ways cfg" "LRU_cache c (way_index cfg a i) = \<lparr>m68k = ucast a, arm = v\<rparr>" by blast
    then obtain j where j: "find_way cfg a c = Some j"
      by (cases "find_way cfg a c") (auto simp: find_way_def find_None_iff)
    then have jj: "j < ways cfg" "m68k (LRU_cache c (way_index cfg a j)) = ucast a"
      by (auto simp: find_way_def find_Some_iff)
    have "j = i"
      using lru_invD [OF assms(2) s i(1)] live [OF i(1)] i(2) jj by (simp add: way_index_def)
    then show ?l
      using j i live [OF i(1)] by (simp add: lru_get_def LRU_FindBlock_def Let_def)
  qed
qed

lemma lru_get_none:
  assumes "lru_config_ok cfg" and "lru_inv cfg c" and "a \<noteq> 0xffffffff" and "lru_get cfg a c = None" and "i < ways cfg"
  shows "m68k (LRU_cache c (way_index cfg a i)) \<noteq> ucast a"
proof
  assume e: "m68k (LRU_cache c (way_index cfg a i)) = ucast a"
  have "LRU_cache c (way_index cfg a i) = \<lparr>m68k = ucast a, arm = arm (LRU_cache c (way_index cfg a i))\<rparr>"
    using e by simp
  then have "lru_get cfg a c = Some (arm (LRU_cache c (way_index cfg a i)))"
    using assms(5) lru_get_iff [OF assms(1-3)] by blast
  with assms(4) show False by simp
qed

lemma find_block_cache: "LRU_cache (snd (LRU_FindBlock cfg a c)) = LRU_cache c"
  by (simp add: LRU_FindBlock_def Let_def split: option.splits)

lemma lru_get_cache: "LRU_cache c = LRU_cache d \<Longrightarrow> lru_get cfg a c = lru_get cfg a d"
  by (simp add: lru_get_def LRU_FindBlock_def find_way_def Let_def split: option.splits)

lemma find_block_inv:
  assumes "lru_config_ok cfg" and "lru_inv cfg c"
  shows "lru_inv cfg (snd (LRU_FindBlock cfg a c))"
proof (cases "find_way cfg a c")
  case None
  then show ?thesis using assms by (simp add: LRU_FindBlock_def)
next
  case (Some i)
  then have "i < ways cfg" by (auto simp: find_way_def find_Some_iff)
  then have "way_free cfg (touch_way cfg i (LRU_alloc c (ADDR_2_SET cfg a)))"
    by (rule touch_way_free [OF assms(1)])
  then show ?thesis
    using Some assms(2) by (simp add: LRU_FindBlock_def Let_def lru_inv_def)
qed

lemma insert_inv:
  assumes ok: "lru_config_ok cfg" and inv: "lru_inv cfg c" and a: "a \<noteq> 0xffffffff" and v: "v \<noteq> 0"
    and none: "lru_get cfg a c = None"
  shows "lru_inv cfg (LRU_InsertBlock cfg a v c)"
proof -
  define s where "s = ADDR_2_SET cfg a"
  define loc where "loc = clz (LRU_alloc c s)"
  define d where "d = LRU_InsertBlock cfg a v c"
  have s: "s < sets cfg" using set_less [OF ok] by (simp add: s_def)
  have free: "way_free cfg (LRU_alloc c s)" using inv s by (simp add: lru_inv_def)
  have w: "ways cfg \<le> 32" using ok by (simp add: lru_config_ok_def)
  have loc: "loc < ways cfg" using clz_free(1) [OF free w] by (simp add: loc_def)
  have key: "(ucast a :: u64) \<noteq> 0xffffffff" using a key_eq [of a "0xffffffff"] by simp
  have cache: "LRU_cache d = (LRU_cache c)(s * ways cfg + loc := \<lparr>m68k = ucast a, arm = v\<rparr>)"
    and alloc: "LRU_alloc d = (LRU_alloc c)(s := touch_way cfg loc (LRU_alloc c s))"
    by (simp_all add: d_def LRU_InsertBlock_def Let_def s_def loc_def way_index_def)
  have "way_free cfg (LRU_alloc d t)" if "t < sets cfg" for t
    using inv that touch_way_free(1) [OF ok loc] by (simp add: alloc lru_inv_def)
  moreover have "m68k (LRU_cache d k) = 0xffffffff \<longleftrightarrow> arm (LRU_cache d k) = 0" if "k < sets cfg * ways cfg" for k
    using inv that key v by (simp add: cache lru_inv_def)
  moreover have "arm (LRU_cache d (t * ways cfg + i)) = 0"
    if t: "t < sets cfg" "i < ways cfg" "j < ways cfg" "i \<noteq> j"
      "m68k (LRU_cache d (t * ways cfg + i)) = m68k (LRU_cache d (t * ways cfg + j))" for t i j
  proof (cases "t = s \<and> (i = loc \<or> j = loc)")
    case True
    define k where "k = (if i = loc then j else i)"
    have "k < ways cfg" "k \<noteq> loc" using t True by (auto simp: k_def)
    moreover have "m68k (LRU_cache c (s * ways cfg + k)) = ucast a"
      using t True by (auto simp: cache k_def slot_inj loc split: if_splits)
    ultimately show ?thesis
      using lru_get_none [OF ok inv a none, of k] by (simp add: way_index_def s_def)
  next
    case False
    then have "LRU_cache d (t * ways cfg + i) = LRU_cache c (t * ways cfg + i)"
      "LRU_cache d (t * ways cfg + j) = LRU_cache c (t * ways cfg + j)"
      using t loc by (auto simp: cache slot_inj)
    then show ?thesis using inv t by (simp add: lru_inv_def)
  qed
  ultimately show ?thesis by (simp add: lru_inv_def d_def)
qed

lemma insert_get:
  assumes ok: "lru_config_ok cfg" and inv: "lru_inv cfg c" and a: "a \<noteq> 0xffffffff" and v: "v \<noteq> 0"
    and none: "lru_get cfg a c = None"
  shows "lru_get cfg a (LRU_InsertBlock cfg a v c) = Some v"
    and "q \<noteq> 0xffffffff \<Longrightarrow> q \<noteq> a \<Longrightarrow> lru_get cfg q (LRU_InsertBlock cfg a v c) = Some w \<Longrightarrow> lru_get cfg q c = Some w"
proof -
  note inv' = insert_inv [OF assms]
  have free: "way_free cfg (LRU_alloc c (ADDR_2_SET cfg a))"
    using inv set_less [OF ok] by (simp add: lru_inv_def)
  have w: "ways cfg \<le> 32" using ok by (simp add: lru_config_ok_def)
  have loc: "clz (LRU_alloc c (ADDR_2_SET cfg a)) < ways cfg" by (rule clz_free(1) [OF free w])
  show "lru_get cfg a (LRU_InsertBlock cfg a v c) = Some v"
    unfolding lru_get_iff [OF ok inv' a]
    using loc by (intro exI [of _ "clz (LRU_alloc c (ADDR_2_SET cfg a))"]) (simp add: LRU_InsertBlock_def Let_def)
  assume q: "q \<noteq> 0xffffffff" "q \<noteq> a" "lru_get cfg q (LRU_InsertBlock cfg a v c) = Some w"
  then obtain i where "i < ways cfg" "LRU_cache (LRU_InsertBlock cfg a v c) (way_index cfg q i) = \<lparr>m68k = ucast q, arm = w\<rparr>"
    using lru_get_iff [OF ok inv' q(1)] by blast
  moreover from this have "LRU_cache c (way_index cfg q i) = \<lparr>m68k = ucast q, arm = w\<rparr>"
    using q(2) key_eq [of a q] by (auto simp: LRU_InsertBlock_def Let_def split: if_splits)
  ultimately show "lru_get cfg q c = Some w"
    using lru_get_iff [OF ok inv q(1)] by blast
qed

interpretation lc: lookup_cache
  "lru_get cfg" "LRU_InsertBlock cfg" "\<lambda>a c. snd (LRU_FindBlock cfg a c)"
  "\<lambda>c. lru_config_ok cfg \<and> lru_inv cfg c" "\<lambda>a. a \<noteq> 0xffffffff" "\<lambda>v. v \<noteq> 0" for cfg
proof
  fix c k q v w
  show "lru_config_ok cfg \<and> lru_inv cfg c \<Longrightarrow> k \<noteq> 0xffffffff \<Longrightarrow> v \<noteq> 0 \<Longrightarrow> lru_get cfg k c = None \<Longrightarrow>
      lru_config_ok cfg \<and> lru_inv cfg (LRU_InsertBlock cfg k v c)"
    by (simp add: insert_inv)
  show "lru_config_ok cfg \<and> lru_inv cfg c \<Longrightarrow> k \<noteq> 0xffffffff \<Longrightarrow>
      lru_config_ok cfg \<and> lru_inv cfg (snd (LRU_FindBlock cfg k c))"
    by (simp add: find_block_inv)
  show "lru_config_ok cfg \<and> lru_inv cfg c \<Longrightarrow> k \<noteq> 0xffffffff \<Longrightarrow> v \<noteq> 0 \<Longrightarrow> lru_get cfg k c = None \<Longrightarrow>
      lru_get cfg k (LRU_InsertBlock cfg k v c) = Some v"
    by (simp add: insert_get)
  show "lru_config_ok cfg \<and> lru_inv cfg c \<Longrightarrow> k \<noteq> 0xffffffff \<Longrightarrow> q \<noteq> 0xffffffff \<Longrightarrow> v \<noteq> 0 \<Longrightarrow>
      lru_get cfg k c = None \<Longrightarrow> q \<noteq> k \<Longrightarrow> lru_get cfg q (LRU_InsertBlock cfg k v c) = Some w \<Longrightarrow> lru_get cfg q c = Some w"
    using insert_get(2) by blast
  show "lru_config_ok cfg \<and> lru_inv cfg c \<Longrightarrow> k \<noteq> 0xffffffff \<Longrightarrow> q \<noteq> 0xffffffff \<Longrightarrow>
      lru_get cfg q (snd (LRU_FindBlock cfg k c)) = lru_get cfg q c"
    by (rule lru_get_cache) (simp add: find_block_cache)
qed

lemma invalidate_all_inv:
  assumes "lru_config_ok cfg"
  shows "lru_inv cfg (LRU_InvalidateAll cfg c)" and "lru_get cfg a (LRU_InvalidateAll cfg c) = None"
proof -
  have free: "way_free cfg 0xffffffff"
    using assms by (auto simp: way_free_def lru_config_ok_def bits intro!: exI [of _ 0])
  have less: "s * ways cfg + i < sets cfg * ways cfg" if "s < sets cfg" "i < ways cfg" for s i
    using that by (rule slot_less)
  show "lru_inv cfg (LRU_InvalidateAll cfg c)"
    using free less by (simp add: lru_inv_def LRU_InvalidateAll_def)
  have "arm (LRU_cache (LRU_InvalidateAll cfg c) (way_index cfg a i)) = 0" if "i < ways cfg" for i
    using less [OF set_less [OF assms] that] by (simp add: way_index_def LRU_InvalidateAll_def)
  then show "lru_get cfg a (LRU_InvalidateAll cfg c) = None"
    by (auto simp: lru_get_def LRU_FindBlock_def Let_def find_way_def find_Some_iff split: option.splits)
qed

text \<open>Dropping an entry.\<close>

lemma drop_entry_inv:
  assumes "lru_inv cfg c" and "s < sets cfg"
  shows "lru_inv cfg (drop_entry k s i c)"
proof -
  have "way_free cfg (LRU_alloc c t OR way_mask i)" if "t < sets cfg" for t
    using assms(1) that by (auto simp: lru_inv_def way_free_def bit_or_iff)
  moreover have "arm (LRU_cache c (t * ways cfg + j)) = 0"
    if "t < sets cfg" "j < ways cfg" "m68k (LRU_cache c (t * ways cfg + j)) = 0xffffffff" for t j
    using assms(1) slot_less [OF that(1,2)] that(3) by (simp add: lru_inv_def)
  ultimately show ?thesis
    using assms(1) by (auto simp: lru_inv_def drop_entry_def)
qed

lemma invalidate_m68k:
  assumes ok: "lru_config_ok cfg" and inv: "lru_inv cfg c" and a: "a \<noteq> 0xffffffff"
  shows "lru_inv cfg (LRU_InvalidateByM68kAddress cfg a c)"
    and "lru_get cfg a (LRU_InvalidateByM68kAddress cfg a c) = None"
    and "q \<noteq> a \<Longrightarrow> q \<noteq> 0xffffffff \<Longrightarrow> lru_get cfg q (LRU_InvalidateByM68kAddress cfg a c) = lru_get cfg q c"
proof -
  let ?d = "LRU_InvalidateByM68kAddress cfg a c"
  show inv': "lru_inv cfg ?d"
    using inv drop_entry_inv [OF inv set_less [OF ok]]
    by (simp add: LRU_InvalidateByM68kAddress_def split: option.splits)
  have cache: "LRU_cache ?d = (case find_way cfg a c of None \<Rightarrow> LRU_cache c
      | Some i \<Rightarrow> (LRU_cache c)(way_index cfg a i := \<lparr>m68k = 0xffffffff, arm = 0\<rparr>))"
    by (simp add: LRU_InvalidateByM68kAddress_def drop_entry_def split: option.splits)
  have key: "(ucast b :: u64) \<noteq> 0xffffffff" if "b \<noteq> 0xffffffff" for b :: u32
    using that key_eq [of b "0xffffffff"] by simp
  show "lru_get cfg a ?d = None"
  proof (rule ccontr)
    assume "lru_get cfg a ?d \<noteq> None"
    then obtain v i where i: "i < ways cfg" "LRU_cache ?d (way_index cfg a i) = \<lparr>m68k = ucast a, arm = v\<rparr>"
      using lru_get_iff [OF ok inv' a] by auto
    then have here: "LRU_cache c (way_index cfg a i) = \<lparr>m68k = ucast a, arm = v\<rparr>"
      using key [OF a] by (auto simp: cache split: option.splits if_splits)
    then obtain j where j: "find_way cfg a c = Some j"
      using i(1) by (cases "find_way cfg a c") (auto simp: find_way_def find_None_iff)
    then have jj: "j < ways cfg" "m68k (LRU_cache c (way_index cfg a j)) = ucast a"
      by (auto simp: find_way_def find_Some_iff)
    have "v \<noteq> 0"
      using inv slot_less [OF set_less [OF ok, of a] i(1)] here key [OF a] unfolding lru_inv_def way_index_def by force
    then have "j = i"
      using lru_invD [OF inv set_less [OF ok, of a] i(1)] here jj by (simp add: way_index_def)
    then show False using i(2) key [OF a] by (simp add: cache j)
  qed
  assume q: "q \<noteq> a" "q \<noteq> 0xffffffff"
  have same: "LRU_cache ?d (way_index cfg q i) = \<lparr>m68k = ucast q, arm = v\<rparr> \<longleftrightarrow>
      LRU_cache c (way_index cfg q i) = \<lparr>m68k = ucast q, arm = v\<rparr>" for i v
  proof (cases "find_way cfg a c")
    case (Some j)
    then have "m68k (LRU_cache c (way_index cfg a j)) = ucast a" by (auto simp: find_way_def find_Some_iff)
    then show ?thesis using Some q key_eq [of a q] key [OF q(2)] by (auto simp: cache)
  qed (simp add: cache)
  have "lru_get cfg q ?d = Some v \<longleftrightarrow> lru_get cfg q c = Some v" for v
    unfolding lru_get_iff [OF ok inv' q(2)] lru_get_iff [OF ok inv q(2)] same ..
  then show "lru_get cfg q ?d = lru_get cfg q c"
    by (metis not_None_eq)
qed

text \<open>
  The replacement of the cache: the way chosen for a new block lies inside the set, and it
  is never the way that was used last, whether by a lookup that hit or by an insertion.
\<close>

theorem lru_victim:
  assumes "lru_config_ok cfg" and "lru_inv cfg c"
    and "find_way cfg a c = Some i \<and> d = snd (LRU_FindBlock cfg a c) \<or>
      i = clz (LRU_alloc c (ADDR_2_SET cfg a)) \<and> d = LRU_InsertBlock cfg a v c"
  shows "i < ways cfg \<and> clz (LRU_alloc d (ADDR_2_SET cfg a)) < ways cfg \<and> clz (LRU_alloc d (ADDR_2_SET cfg a)) \<noteq> i"
proof -
  let ?s = "ADDR_2_SET cfg a"
  have w: "ways cfg \<le> 32" using assms(1) by (simp add: lru_config_ok_def)
  have free: "way_free cfg (LRU_alloc c ?s)"
    using assms(2) set_less [OF assms(1)] by (simp add: lru_inv_def)
  have i: "i < ways cfg"
    using assms(3) clz_free(1) [OF free w] by (auto simp: find_way_def find_Some_iff)
  have d: "LRU_alloc d ?s = touch_way cfg i (LRU_alloc c ?s)"
    using assms(3) by (auto simp: LRU_FindBlock_def LRU_InsertBlock_def Let_def)
  note t = touch_way_free [OF assms(1) i, of "LRU_alloc c ?s"]
  have "clz (LRU_alloc d ?s) < ways cfg" "bit (LRU_alloc d ?s) (31 - clz (LRU_alloc d ?s))"
    using clz_free [OF t(1) w] by (simp_all add: d)
  with i t(2) show ?thesis by (auto simp: d)
qed

definition demo_lru_config :: lru_config where
  "demo_lru_config = \<lparr>ways = 2, sets = 4\<rparr>"

definition demo_lru :: lru where
  "demo_lru = LRU_InvalidateAll demo_lru_config \<lparr>LRU_cache = (\<lambda>_. \<lparr>m68k = 0, arm = 0\<rparr>), LRU_alloc = (\<lambda>_. 0)\<rparr>"

theorem lru_victim_witness:
  "clz (LRU_alloc (LRU_InsertBlock demo_lru_config 0x1000 0x9000 demo_lru) (ADDR_2_SET demo_lru_config 0x1000)) < 2 \<and>
   clz (LRU_alloc (LRU_InsertBlock demo_lru_config 0x1000 0x9000 demo_lru) (ADDR_2_SET demo_lru_config 0x1000)) \<noteq>
     clz (LRU_alloc demo_lru (ADDR_2_SET demo_lru_config 0x1000))"
proof -
  have ok: "lru_config_ok demo_lru_config" by (simp add: lru_config_ok_def demo_lru_config_def)
  moreover have "lru_inv demo_lru_config demo_lru"
    unfolding demo_lru_def by (rule invalidate_all_inv [OF ok])
  ultimately show ?thesis
    using lru_victim [of demo_lru_config demo_lru "0x1000" "clz (LRU_alloc demo_lru (ADDR_2_SET demo_lru_config 0x1000))"
        "LRU_InsertBlock demo_lru_config 0x1000 0x9000 demo_lru" "0x9000"]
    by (auto simp: demo_lru_config_def)
qed

end
