(* ===== verification/Context.thy ===== *)
theory Context
  imports RegFile UnitCache
begin

text \<open>
  The state of the 68k processor, in the registers of the core while translated code runs
  and in the structure \<open>M68KState\<close> while C code does: \<open>M68K_LoadContext\<close> and
  \<open>M68K_SaveContext\<close> of \<open>source/src/aarch64/start.c\<close>. Which register holds what is
  fixed in a header outside the repository and does not matter here.

  In the registers the carry and overflow flags of the status register are exchanged.
\<close>

section \<open>Status register\<close>

text \<open>The bits of the status and cache control registers, from \<open>M68k.h\<close>.\<close>

record sr_layout =
  SR_S :: u16
  SR_M :: u16
  SR_T0 :: u16
  SR_T1 :: u16
  SR_IPL :: u16
  SRB_IPL :: nat
  CACR_IE :: u32

definition sr_layout_ok :: "sr_layout \<Rightarrow> bool" where
  "sr_layout_ok lay \<longleftrightarrow> SR_S lay = 0x2000 \<and> SR_M lay = 0x1000 \<and> SR_T0 lay = 0x4000 \<and> SR_T1 lay = 0x8000 \<and>
     SR_IPL lay = 0x0700 \<and> SRB_IPL lay = 8"

text \<open>\<open>rbit w2, w1; bfxil w1, w2, 30, 2\<close>: the two low bits change places.\<close>

definition reverse_bits :: "u32 \<Rightarrow> u32" where
  "reverse_bits w = word_of_int (horner_sum of_bool 2 (map (\<lambda>i. bit w (31 - i)) [0..<32]))"

definition exchange_cv :: "u16 \<Rightarrow> u16" where
  "exchange_cv sr =
     (let w1 = ucast sr :: u32; w2 = reverse_bits w1
      in ucast ((w1 AND NOT 3) OR (drop_bit 30 w2 AND 3)))"

section \<open>Two homes of the processor state\<close>

record m68k_regs =
  r_D :: "nat \<Rightarrow> u32"
  r_A :: "nat \<Rightarrow> u32"
  r_FP :: "nat \<Rightarrow> u64"
  r_PC :: u32
  r_SR :: u16
  r_USP :: u32
  r_MSP :: u32
  r_ISP :: u32
  r_CACR :: u32
  r_FPSR :: u32
  r_FPIAR :: u32
  r_FPCR :: u16
  r_INSN_COUNT :: u64

record m68k_context =
  c_D :: "nat \<Rightarrow> u32"
  c_A :: "nat \<Rightarrow> u32"
  c_FP :: "nat \<Rightarrow> u64"
  c_PC :: u32
  c_SR :: u16
  c_USP :: u32
  c_MSP :: u32
  c_ISP :: u32
  c_CACR :: u32
  c_FPSR :: u32
  c_FPIAR :: u32
  c_FPCR :: u16
  c_INSN_COUNT :: u64
  c_VBR :: u32

text \<open>The stack pointer of the current mode is kept in \<open>A7\<close> and in its own register.\<close>

definition set_active_stack :: "sr_layout \<Rightarrow> u16 \<Rightarrow> u32 \<Rightarrow> m68k_regs \<Rightarrow> m68k_regs" where
  "set_active_stack lay sr a7 r =
     (if sr AND SR_S lay \<noteq> 0
      then if sr AND SR_M lay \<noteq> 0 then r\<lparr>r_MSP := a7\<rparr> else r\<lparr>r_ISP := a7\<rparr>
      else r\<lparr>r_USP := a7\<rparr>)"

definition eight :: "(nat \<Rightarrow> 'a) \<Rightarrow> (nat \<Rightarrow> 'a) \<Rightarrow> nat \<Rightarrow> 'a" where
  "eight new old = (\<lambda>i. if i < 8 then new i else old i)"

definition M68K_LoadContext :: "sr_layout \<Rightarrow> m68k_context \<Rightarrow> m68k_regs \<Rightarrow> m68k_regs" where
  "M68K_LoadContext lay c r =
     (let r = r\<lparr>r_USP := c_USP c, r_MSP := c_MSP c, r_ISP := c_ISP c, r_INSN_COUNT := c_INSN_COUNT c,
                r_CACR := c_CACR c, r_FPSR := c_FPSR c, r_FPIAR := c_FPIAR c, r_FPCR := c_FPCR c,
                r_D := eight (c_D c) (r_D r), r_A := eight (c_A c) (r_A r), r_PC := c_PC c,
                r_FP := eight (c_FP c) (r_FP r), r_SR := exchange_cv (c_SR c)\<rparr>
      in set_active_stack lay (c_SR c) (r_A r 7) r)"

definition M68K_SaveContext :: "sr_layout \<Rightarrow> m68k_regs \<Rightarrow> m68k_context \<Rightarrow> m68k_regs \<times> m68k_context" where
  "M68K_SaveContext lay r c =
     (let c = c\<lparr>c_CACR := r_CACR r, c_INSN_COUNT := r_INSN_COUNT r, c_FPSR := r_FPSR r, c_FPIAR := r_FPIAR r,
                c_FPCR := r_FPCR r, c_D := eight (r_D r) (c_D c), c_A := eight (r_A r) (c_A c), c_PC := r_PC r,
                c_FP := eight (r_FP r) (c_FP c), c_SR := exchange_cv (r_SR r)\<rparr>;
          r = set_active_stack lay (c_SR c) (r_A r 7) r
      in (r, c\<lparr>c_USP := r_USP r, c_MSP := r_MSP r, c_ISP := r_ISP r\<rparr>))"

section \<open>Round trip\<close>

lemma bit_reverse: "bit (reverse_bits w) n \<longleftrightarrow> n < 32 \<and> bit w (31 - n)"
  by (cases "n < 32")
    (simp_all add: reverse_bits_def bit_word_of_int_iff bit_horner_sum_bit_iff del: upt_rec_numeral)

lemma bit_exchange_cv: "bit (exchange_cv sr) n \<longleftrightarrow> bit sr (if n = 0 then 1 else if n = 1 then 0 else n)"
  by (auto simp: exchange_cv_def Let_def bit_simps bit_reverse bits dest: bit_imp_le_length)

lemma exchange_cv_twice: "exchange_cv (exchange_cv sr) = sr"
  by (rule bit_word_eqI) (simp add: bit_exchange_cv)

lemma exchange_cv_mode:
  assumes "sr_layout_ok lay"
  shows "exchange_cv sr AND SR_S lay = sr AND SR_S lay" and "exchange_cv sr AND SR_M lay = sr AND SR_M lay"
  using assms
  by (intro bit_word_eqI; auto simp: sr_layout_ok_def bit_simps bit_exchange_cv bits)+

lemma active_stack_same: "sr AND SR_S lay = sr' AND SR_S lay \<Longrightarrow> sr AND SR_M lay = sr' AND SR_M lay \<Longrightarrow>
    set_active_stack lay sr a r = set_active_stack lay sr' a r"
  by (simp add: set_active_stack_def)

lemma active_stack_keeps:
  "r_D (set_active_stack lay sr a r) = r_D r" "r_A (set_active_stack lay sr a r) = r_A r"
  "r_FP (set_active_stack lay sr a r) = r_FP r" "r_PC (set_active_stack lay sr a r) = r_PC r"
  "r_SR (set_active_stack lay sr a r) = r_SR r" "r_CACR (set_active_stack lay sr a r) = r_CACR r"
  by (simp_all add: set_active_stack_def)

text \<open>The stack pointer the mode selects is the one in \<open>A7\<close>.\<close>

definition stack_consistent :: "sr_layout \<Rightarrow> m68k_context \<Rightarrow> bool" where
  "stack_consistent lay c \<longleftrightarrow>
     c_A c 7 = (if c_SR c AND SR_S lay \<noteq> 0 then if c_SR c AND SR_M lay \<noteq> 0 then c_MSP c else c_ISP c else c_USP c)"

lemma eight_eight: "eight (eight f g) h = eight f h" "eight f f = f"
  by (auto simp: eight_def)


definition m68k_layout :: sr_layout where
  "m68k_layout = \<lparr>SR_S = 0x2000, SR_M = 0x1000, SR_T0 = 0x4000, SR_T1 = 0x8000, SR_IPL = 0x0700, SRB_IPL = 8,
     CACR_IE = 0x8000\<rparr>"

definition demo_context :: m68k_context where
  "demo_context = \<lparr>c_D = (\<lambda>_. 0), c_A = (\<lambda>_. 0x1000), c_FP = (\<lambda>_. 0), c_PC = 0x2000, c_SR = 0x2701, c_USP = 0, c_MSP = 0,
     c_ISP = 0x1000, c_CACR = 0x8000, c_FPSR = 0, c_FPIAR = 0, c_FPCR = 0, c_INSN_COUNT = 0, c_VBR = 0\<rparr>"

definition demo_regs :: m68k_regs where
  "demo_regs = \<lparr>r_D = (\<lambda>_. 0), r_A = (\<lambda>_. 0), r_FP = (\<lambda>_. 0), r_PC = 0, r_SR = 0, r_USP = 0, r_MSP = 0,
     r_ISP = 0, r_CACR = 0, r_FPSR = 0, r_FPIAR = 0, r_FPCR = 0, r_INSN_COUNT = 0\<rparr>"


end
