(* ===== verification/MainLoop.thy ===== *)
theory MainLoop
  imports Context
begin

text \<open>
  The loop that runs translated code, \<open>MainLoop\<close> of \<open>source/src/ExecutionLoop.c\<close> in the
  build \<open>PISTORM_CLASSIC\<close>: cache service for the renderer, interrupts, and the search for
  the code of the current program counter. One turn ends where the translated code is
  called; the code itself and the translator are outside the repository. The translator is
  the record \<open>jit_api\<close>, whose functions return a unit pointer, 0 for none, and the new
  state. The lock of the write buffer is taken to be free.
\<close>

section \<open>State\<close>

record m68k_unit =
  mt_Epoch :: u32
  mt_M68kAddress :: u32
  mt_ARMEntryPoint :: u64

record exec_state = cpu_state +
  regs :: m68k_regs
  m68k_ctx :: m68k_context
  last_PC :: u32
  ARMCode :: u64
  INTF_PPC :: u8
  unit_cache :: lru
  units :: "u64 \<Rightarrow> m68k_unit"
  ICache :: "nat \<Rightarrow> u64 list"
  EPOCH :: u32

record exec_config =
  ec_ps :: ps_config
  ec_sr :: sr_layout
  ec_lru :: lru_config
  ec_hash_shift :: nat
  ec_hash_mask :: u32

record 's jit_api =
  M68K_VerifyUnit :: "u64 \<Rightarrow> 's \<Rightarrow> u64 \<times> 's"
  M68K_VerifyUnitCRC32 :: "u64 \<Rightarrow> 's \<Rightarrow> u64 \<times> 's"
  M68K_GetTranslationUnit :: "u32 \<Rightarrow> 's \<Rightarrow> u64 \<times> 's"

abbreviation (input) pc_of :: "'a exec_state_scheme \<Rightarrow> u32" where
  "pc_of s \<equiv> r_PC (regs s)"

section \<open>Search\<close>

definition bucket_of :: "exec_config \<Rightarrow> u32 \<Rightarrow> 'a exec_state_scheme \<Rightarrow> u64 list" where
  "bucket_of ec pc s = ICache s (unat (drop_bit (ec_hash_shift ec) pc AND ec_hash_mask ec))"

definition find_unit :: "exec_config \<Rightarrow> u32 \<Rightarrow> 'a exec_state_scheme \<Rightarrow> u64 option" where
  "find_unit ec pc s =
     find (\<lambda>u. mt_Epoch (units s u) = EPOCH s \<and> mt_M68kAddress (units s u) = pc) (bucket_of ec pc s)"

definition insert_unit :: "exec_config \<Rightarrow> u64 \<Rightarrow> 'a exec_state_scheme \<Rightarrow> 'a exec_state_scheme" where
  "insert_unit ec u s =
     s\<lparr>unit_cache := LRU_InsertBlock (ec_lru ec) (mt_M68kAddress (units s u)) (mt_ARMEntryPoint (units s u)) (unit_cache s)\<rparr>"

definition FindUnitQuick :: "exec_config \<Rightarrow> 'a exec_state_scheme \<Rightarrow> u64 \<times> 'a exec_state_scheme" where
  "FindUnitQuick ec s =
     (let (code, c) = LRU_FindBlock (ec_lru ec) (pc_of s) (unit_cache s);
          s = s\<lparr>unit_cache := c\<rparr>
      in if code \<noteq> 0 then (code, s)
         else case find_unit ec (pc_of s) s of
                None \<Rightarrow> (0, s)
              | Some u \<Rightarrow> (mt_ARMEntryPoint (units s u), insert_unit ec u s))"

text \<open>Without the epoch.\<close>

definition find_address :: "exec_config \<Rightarrow> u32 \<Rightarrow> 'a exec_state_scheme \<Rightarrow> u64 option" where
  "find_address ec pc s = find (\<lambda>u. mt_M68kAddress (units s u) = pc) (bucket_of ec pc s)"

definition FindUnit :: "exec_config \<Rightarrow> 'a exec_state_scheme \<Rightarrow> u64 \<times> 'a exec_state_scheme" where
  "FindUnit ec s =
     (case find_address ec (pc_of s) s of None \<Rightarrow> (0, s) | Some u \<Rightarrow> (u, insert_unit ec u s))"

definition FindUnitNoLRU :: "exec_config \<Rightarrow> 'a exec_state_scheme \<Rightarrow> u64" where
  "FindUnitNoLRU ec s = (case find_address ec (pc_of s) s of None \<Rightarrow> 0 | Some u \<Rightarrow> u)"

section \<open>Interrupts\<close>

definition GetIPLLevel :: "ps_config \<Rightarrow> (nat, 'a io_state_scheme) prog" where
  "GetIPLLevel cf s =
     (let gpio = (\<lambda>k. 0xf2200000 + 4 * k);
          s = wr32le (gpio 7) (push_bit (cf_pin_a0 cf) (cf_reg_status cf)) s;
          s = ((wr32le (gpio 7) (pin (cf_pin_rd cf))) ^^ 4) s
      in do {
           (value, s) \<leftarrow> rd32le (gpio 13) s;
           Some (unat (drop_bit 21 value AND 7), wr32le (gpio 10) 0xffffec s)
         })"

definition interrupt_pending :: "'a exec_state_scheme \<Rightarrow> bool" where
  "interrupt_pending s \<longleftrightarrow> INTF_ARM s \<noteq> 0 \<or> INTF_ARM_err s \<noteq> 0 \<or> INTF_PPC s \<noteq> 0 \<or> bs_ipl s \<noteq> 0"

definition requested_level :: "ps_config \<Rightarrow> (nat, 'a exec_state_scheme) prog" where
  "requested_level cf s =
     (if INTF_ARM_err s \<noteq> 0 then Some (7, s\<lparr>INTF_ARM_err := 0\<rparr>)
      else
        let level = (if INTF_ARM s \<noteq> 0 then 6 else if INTF_PPC s \<noteq> 0 then 2 else 0)
        in if bs_ipl s \<noteq> 0
           then do { (ipl_level, s) \<leftarrow> GetIPLLevel cf s; Some (if ipl_level > level then ipl_level else level, s) }
           else Some (level, s))"

text \<open>A big-endian store of \<open>n\<close> bytes and the memory of the 68k.\<close>

fun store_bytes :: "nat \<Rightarrow> u64 \<Rightarrow> u64 \<Rightarrow> (u64 \<Rightarrow> u8) \<Rightarrow> u64 \<Rightarrow> u8" where
  "store_bytes 0 a v m = m"
| "store_bytes (Suc n) a v m = store_bytes n (a + 1) v (m(a := ucast (drop_bit (8 * n) v)))"

definition take_interrupt :: "sr_layout \<Rightarrow> nat \<Rightarrow> 'a exec_state_scheme \<Rightarrow> 'a exec_state_scheme" where
  "take_interrupt lay level s =
     (let r = regs s; SR = r_SR r;
          sp = ucast (r_A r 7) :: u64;
          r = (if SR AND SR_S lay = 0 then r\<lparr>r_USP := r_A r 7\<rparr> else r);
          sp = (if SR AND SR_S lay = 0
                then if SR AND SR_M lay \<noteq> 0 then ucast (r_MSP r) else ucast (r_ISP r)
                else sp);
          SRcopy = (if SR AND 3 \<noteq> 0 \<and> SR AND 3 \<noteq> 3 then SR XOR 3 else SR);
          vector = 0x60 + 4 * word_of_nat level :: u64;
          SR = SR OR SR_S lay;
          SR = SR AND NOT (SR_T0 lay OR SR_T1 lay);
          SR = SR AND NOT (SR_IPL lay);
          SR = SR OR push_bit (SRB_IPL lay) (word_of_nat level AND 7);
          sp = sp - 8;
          mem = store_bytes 2 sp (ucast SRcopy) (host_memory s);
          mem = store_bytes 4 (sp + 2) (ucast (r_PC r)) mem;
          mem = store_bytes 2 (sp + 6) vector mem
      in s\<lparr>host_memory := mem,
           regs := r\<lparr>r_A := (r_A r)(7 := ucast sp), r_SR := SR,
                     r_PC := ucast (load_bytes 4 mem (ucast (c_VBR (m68k_ctx s)) + vector))\<rparr>\<rparr>)"

definition process_interrupts :: "exec_config \<Rightarrow> 'a exec_state_scheme \<Rightarrow> 'a exec_state_scheme option" where
  "process_interrupts ec s =
     (if \<not> interrupt_pending s then Some s
      else do {
        (level, s) \<leftarrow> requested_level (ec_ps ec) s;
        let SR = r_SR (regs s);
        let IPL_mask = unat (drop_bit (SRB_IPL (ec_sr ec)) (SR AND SR_IPL (ec_sr ec)));
        Some (if level = 7 \<or> level > IPL_mask then take_interrupt (ec_sr ec) level s else s)
      })"

section \<open>A turn of the loop\<close>

definition save_context :: "sr_layout \<Rightarrow> 'a exec_state_scheme \<Rightarrow> 'a exec_state_scheme" where
  "save_context lay s = (let (r, c) = M68K_SaveContext lay (regs s) (m68k_ctx s) in s\<lparr>regs := r, m68k_ctx := c\<rparr>)"

definition load_context :: "sr_layout \<Rightarrow> 'a exec_state_scheme \<Rightarrow> 'a exec_state_scheme" where
  "load_context lay s = s\<lparr>regs := M68K_LoadContext lay (m68k_ctx s) (regs s)\<rparr>"

definition service_renderer :: "exec_config \<Rightarrow> 'a exec_state_scheme \<Rightarrow> 'a exec_state_scheme option" where
  "service_renderer ec s =
     (if paula_mirror_service_pending s
      then do {
        let saved_armcode = ARMCode s;
        s \<leftarrow> paula_mirror_service (ps_read_8_int (ec_ps ec)) (save_context (ec_sr ec) s);
        Some ((load_context (ec_sr ec) s)\<lparr>ARMCode := saved_armcode\<rparr>)
      }
      else Some s)"

text \<open>No unit with the current epoch: verify one with another epoch or translate.\<close>

definition translate_unit ::
    "'a exec_state_scheme jit_api \<Rightarrow> exec_config \<Rightarrow> 'a exec_state_scheme \<Rightarrow> 'a exec_state_scheme" where
  "translate_unit api ec s =
     (let s = save_context (ec_sr ec) s;
          copyPC = c_PC (m68k_ctx s);
          (node, s) = (case find_address ec copyPC s of None \<Rightarrow> (0, s) | Some u \<Rightarrow> M68K_VerifyUnit api u s);
          (node, s) = (if node = 0 then M68K_GetTranslationUnit api copyPC s else (node, s));
          s = insert_unit ec node s;
          s = load_context (ec_sr ec) s
      in s\<lparr>last_PC := pc_of s, ARMCode := mt_ARMEntryPoint (units s node)\<rparr>)"

definition choose_cached ::
    "'a exec_state_scheme jit_api \<Rightarrow> exec_config \<Rightarrow> u32 \<Rightarrow> 'a exec_state_scheme \<Rightarrow> 'a exec_state_scheme" where
  "choose_cached api ec LastPC s =
     (if LastPC = pc_of s then s
      else let (code, s) = FindUnitQuick ec s
           in if code \<noteq> 0 then s\<lparr>last_PC := pc_of s, ARMCode := code\<rparr>
              else translate_unit api ec s)"

definition choose_uncached ::
    "'a exec_state_scheme jit_api \<Rightarrow> exec_config \<Rightarrow> 'a exec_state_scheme \<Rightarrow> 'a exec_state_scheme" where
  "choose_uncached api ec s =
     (let s = s\<lparr>last_PC := 0xffffffff\<rparr>;
          s = save_context (ec_sr ec) s;
          node = FindUnitNoLRU ec s;
          (node, s) = (if node \<noteq> 0 then M68K_VerifyUnitCRC32 api node s else (node, s));
          (node, s) = (if node = 0 then M68K_GetTranslationUnit api (c_PC (m68k_ctx s)) s else (node, s));
          s = load_context (ec_sr ec) s
      in s\<lparr>ARMCode := mt_ARMEntryPoint (units s node)\<rparr>)"

definition main_loop_turn ::
    "'a exec_state_scheme jit_api \<Rightarrow> exec_config \<Rightarrow> 'a exec_state_scheme \<Rightarrow> 'a exec_state_scheme option" where
  "main_loop_turn api ec s =
     do {
       let LastPC = last_PC s;
       s \<leftarrow> service_renderer ec s;
       s \<leftarrow> process_interrupts ec s;
       Some (if r_CACR (regs s) AND CACR_IE (ec_sr ec) \<noteq> 0 then choose_cached api ec LastPC s
             else choose_uncached api ec s)
     }"

definition main_loop_start :: "exec_config \<Rightarrow> 'a exec_state_scheme \<Rightarrow> 'a exec_state_scheme" where
  "main_loop_start ec s =
     load_context (ec_sr ec) (s\<lparr>unit_cache := LRU_InvalidateAll (ec_lru ec) (unit_cache s)\<rparr>)"

section \<open>The cache in front of the search\<close>

definition search_entry :: "exec_config \<Rightarrow> 'a exec_state_scheme \<Rightarrow> u32 \<Rightarrow> u64 option" where
  "search_entry ec s pc = map_option (\<lambda>u. mt_ARMEntryPoint (units s u)) (find_unit ec pc s)"

text \<open>Every block in the cache is the one a search finds.\<close>

definition cache_sound :: "exec_config \<Rightarrow> 'a exec_state_scheme \<Rightarrow> bool" where
  "cache_sound ec s \<longleftrightarrow>
     lru_config_ok (ec_lru ec) \<and> lru_inv (ec_lru ec) (unit_cache s) \<and>
     (\<forall>pc code. pc \<noteq> 0xffffffff \<longrightarrow> lru_get (ec_lru ec) pc (unit_cache s) = Some code \<longrightarrow> search_entry ec s pc = Some code)"

lemma search_entry_cache: "search_entry ec (s\<lparr>unit_cache := c\<rparr>) = search_entry ec s"
  by (rule ext) (simp add: search_entry_def find_unit_def bucket_of_def)

lemma cache_sound_lookup: "cache_sound ec s \<longleftrightarrow> lc.sound (ec_lru ec) (search_entry ec s) (unit_cache s)"
  by (auto simp: cache_sound_def lc.sound_def)

lemma find_unit_address: "find_unit ec pc s = Some u \<Longrightarrow> mt_M68kAddress (units s u) = pc"
  by (auto simp: find_unit_def find_Some_iff)

lemma quick_is_lookup:
  assumes "cache_sound ec s" and "pc_of s \<noteq> 0xffffffff"
  shows "FindUnitQuick ec s =
     (case lc.lookup (ec_lru ec) (search_entry ec s) (pc_of s) (unit_cache s) of
        (r, c) \<Rightarrow> (case r of None \<Rightarrow> 0 | Some code \<Rightarrow> code, s\<lparr>unit_cache := c\<rparr>))"
proof (cases "lru_get (ec_lru ec) (pc_of s) (unit_cache s)")
  case (Some code)
  then have "fst (LRU_FindBlock (ec_lru ec) (pc_of s) (unit_cache s)) = code" "code \<noteq> 0"
    by (auto simp: lru_get_def Let_def split: if_splits)
  then show ?thesis
    by (simp add: FindUnitQuick_def lc.lookup_def Some case_prod_unfold Let_def)
next
  case None
  have same: "LRU_FindBlock (ec_lru ec) (pc_of s) (unit_cache s) = (0, unit_cache s)"
  proof (cases "find_way (ec_lru ec) (pc_of s) (unit_cache s)")
    case none: None
    then show ?thesis by (simp add: LRU_FindBlock_def)
  next
    case (Some i)
    then have "i < ways (ec_lru ec)" "m68k (LRU_cache (unit_cache s) (way_index (ec_lru ec) (pc_of s) i)) = ucast (pc_of s)"
      by (auto simp: find_way_def find_Some_iff)
    then show ?thesis
      using lru_get_none [OF _ _ assms(2) None] assms(1) by (auto simp: cache_sound_def)
  qed
  have keep: "s\<lparr>unit_cache := unit_cache s\<rparr> = s" by simp
  show ?thesis
    unfolding FindUnitQuick_def lc.lookup_def None same search_entry_def keep prod.case Let_def
    by (auto simp: insert_unit_def find_unit_address split: option.splits)
qed

text \<open>
  C30: the cache of translated blocks is transparent: a lookup through it returns the entry point
  that the search of the unit table for the program counter and the current epoch returns,
  and leaves a cache for which this holds again.
\<close>

theorem find_unit_quick_transparent:
  assumes "cache_sound ec s" and "pc_of s \<noteq> 0xffffffff" and "search_entry ec s (pc_of s) \<noteq> Some 0"
  shows "fst (FindUnitQuick ec s) = (case find_unit ec (pc_of s) s of None \<Rightarrow> 0 | Some u \<Rightarrow> mt_ARMEntryPoint (units s u)) \<and>
     cache_sound ec (snd (FindUnitQuick ec s)) \<and>
     (\<exists>c. snd (FindUnitQuick ec s) = s\<lparr>unit_cache := c\<rparr>)"
proof -
  have sound: "lc.sound (ec_lru ec) (search_entry ec s) (unit_cache s)" using assms(1) by (simp add: cache_sound_lookup)
  have real: "code \<noteq> 0" if "search_entry ec s (pc_of s) = Some code" for code
    using assms(3) that by auto
  note look = lc.lookup_transparent [OF sound assms(2) real]
  have "cache_sound ec (s\<lparr>unit_cache := snd (lc.lookup (ec_lru ec) (search_entry ec s) (pc_of s) (unit_cache s))\<rparr>)"
    using look(2) by (simp add: cache_sound_lookup search_entry_cache)
  then show ?thesis
    using look(1) unfolding quick_is_lookup [OF assms(1,2)]
    by (auto simp: case_prod_unfold search_entry_def split: option.splits)
qed

section \<open>An instance\<close>

definition loop_config :: exec_config where
  "loop_config = \<lparr>ec_ps = pi_config, ec_sr = m68k_layout, ec_lru = demo_lru_config, ec_hash_shift = 2, ec_hash_mask = 0xff\<rparr>"

definition loop_unit :: m68k_unit where
  "loop_unit = \<lparr>mt_Epoch = 5, mt_M68kAddress = 0x1000, mt_ARMEntryPoint = 0x80001000\<rparr>"

definition loop_demo :: "exec_state" where
  "loop_demo = cpu_state.extend (cpu_demo (\<lambda>a. 0))
     (exec_state.fields (demo_regs\<lparr>r_PC := 0x1000\<rparr>) demo_context 0 0 0 demo_lru (\<lambda>u. loop_unit) (\<lambda>i. [0x7000]) 5)"

lemma loop_demo_fields:
  "regs loop_demo = demo_regs\<lparr>r_PC := 0x1000\<rparr>" "unit_cache loop_demo = demo_lru" "units loop_demo = (\<lambda>u. loop_unit)"
  "ICache loop_demo = (\<lambda>i. [0x7000])" "EPOCH loop_demo = 5" "m68k_ctx loop_demo = demo_context" "INTF_PPC loop_demo = 0"
  "INTF_ARM loop_demo = 0" "INTF_ARM_err loop_demo = 0" "bs_ipl loop_demo = 0" "host_memory loop_demo = (\<lambda>_. 0)"
  by (simp_all add: loop_demo_def cpu_state.defs exec_state.defs cpu_demo_def sys_state.defs sys_demo_def bus_state.defs
      bus_demo_def io_state.defs)

theorem find_unit_quick_transparent_witness:
  "fst (FindUnitQuick loop_config loop_demo) = 0x80001000"
proof -
  have ok: "lru_config_ok demo_lru_config" by (simp add: lru_config_ok_def demo_lru_config_def)
  have search: "find_unit loop_config 0x1000 loop_demo = Some 0x7000"
    by (simp add: find_unit_def bucket_of_def loop_demo_fields loop_unit_def)
  have "cache_sound loop_config loop_demo"
    unfolding cache_sound_def loop_demo_fields loop_config_def exec_config.simps demo_lru_def
    using ok invalidate_all_inv [OF ok] by auto
  then show ?thesis
    using find_unit_quick_transparent [of loop_config loop_demo]
    by (simp add: search_entry_def search loop_demo_fields loop_unit_def)
qed

section \<open>Interrupts\<close>

lemma store_two: "store_bytes 2 a v m = m(a := ucast (drop_bit 8 v), a + 1 := ucast v)"
  by (simp add: numeral_2_eq_2)

lemma store_four:
  "store_bytes 4 a v m =
     m(a := ucast (drop_bit 24 v), a + 1 := ucast (drop_bit 16 v), a + 2 := ucast (drop_bit 8 v), a + 3 := ucast v)"
  by (simp add: numeral_eq_Suc ac_simps)

lemma load_two: "load_bytes 2 m a = push_bit 8 (ucast (m a)) OR ucast (m (a + 1))"
  by (simp add: numeral_2_eq_2)

lemma exception_frame:
  fixes a :: u64 and p :: u32 and c :: u16
  assumes def: "m' = store_bytes 2 (a + 6) v (store_bytes 4 (a + 2) (ucast p) (store_bytes 2 a (ucast c) m))"
  shows "load_bytes 2 m' a = ucast c" and "load_bytes 4 m' (a + 2) = ucast p" and "load_bytes 2 m' (a + 6) = v AND 0xffff"
    and "8 \<le> b - a \<Longrightarrow> m' b = m b"
proof -
  have m': "m' = m(a := ucast (drop_bit 8 (ucast c :: u64)), a + 1 := ucast (ucast c :: u64),
      a + 2 := ucast (drop_bit 24 (ucast p :: u64)), a + 3 := ucast (drop_bit 16 (ucast p :: u64)),
      a + 4 := ucast (drop_bit 8 (ucast p :: u64)), a + 5 := ucast (ucast p :: u64),
      a + 6 := ucast (drop_bit 8 v), a + 7 := ucast v)"
    by (simp add: def store_two store_four add.assoc)
  show "load_bytes 2 m' a = ucast c"
    by (simp add: m' load_two) (rule bit_word_eqI, auto simp: bits bit_simps not_less not_le dest: bit_imp_le_length)
  show "load_bytes 4 m' (a + 2) = ucast p"
    by (simp add: m' load_bytes_4 add.assoc) (rule bit_word_eqI, auto simp: bits bit_simps dest: bit_imp_le_length)
  show "load_bytes 2 m' (a + 6) = v AND 0xffff"
    by (simp add: m' load_two add.assoc) (rule bit_word_eqI, auto simp: bits bit_simps dest: bit_imp_le_length)
  show "m' b = m b" if "8 \<le> b - a"
    using that by (auto simp: m' fun_upd_def word_le_nat_alt)
qed

text \<open>The status register of the handler.\<close>

definition handler_sr :: "u16 \<Rightarrow> nat \<Rightarrow> u16 \<Rightarrow> bool" where
  "handler_sr sr level sr' \<longleftrightarrow>
     sr' AND 0x2000 \<noteq> 0 \<and> sr' AND 0xc000 = 0 \<and> unat (drop_bit 8 sr' AND 7) = level \<and> sr' AND 0x1800 = sr AND 0x1800 \<and>
     sr' AND 0xff = sr AND 0xff"

lemma sr_fields:
  "bit (0xc000 :: int) n \<longleftrightarrow> 14 \<le> n \<and> n < 16"
  "bit (0x700 :: int) n \<longleftrightarrow> 8 \<le> n \<and> n < 11"
  "bit (0xf8 :: int) n \<longleftrightarrow> 3 \<le> n \<and> n < 8"
  "bit (0x1800 :: int) n \<longleftrightarrow> 11 \<le> n \<and> n < 13"
  using bit_int_field [of "0x1800" 2 11 n] bit_int_field [of "0xc000" 2 14 n] bit_int_field [of "0x700" 3 8 n] bit_int_field [of "0xf8" 5 3 n] by simp_all

lemma handler_sr_new:
  assumes "level < 8"
  shows "handler_sr sr level
    (((sr OR 0x2000) AND NOT 0xc000) AND NOT 0x700 OR push_bit 8 (word_of_nat level AND 7))"
    (is "handler_sr sr level ?new")
proof -
  define l :: u16 where "l = word_of_nat level AND 7"
  have l: "n < 3" if "bit l n" for n using that by (auto simp: l_def bits bit_simps)
  let ?n = "((sr OR 0x2000) AND NOT 0xc000) AND NOT 0x700 OR push_bit 8 l"
  have "bit (?n AND 0x2000) 13" by (simp add: bit_simps bits sr_fields)
  then have s: "?n AND 0x2000 \<noteq> 0" by (metis bit_0_eq bot_apply bot_bool_def)
  have t: "?n AND 0xc000 = 0"
    by (rule bit_word_eqI) (auto simp: bit_simps bits sr_fields dest: l)
  have "drop_bit 8 ?n AND 7 = l"
    by (rule bit_word_eqI) (auto simp: bit_simps bits sr_fields dest: l)
  moreover have "unat l = level"
  proof -
    have "level = 0 \<or> level = 1 \<or> level = 2 \<or> level = 3 \<or> level = 4 \<or> level = 5 \<or> level = 6 \<or> level = 7"
      using assms by arith
    then show ?thesis by (auto simp: l_def)
  qed
  moreover have "?n AND 0x1800 = sr AND 0x1800" "?n AND 0xff = sr AND 0xff"
    by (rule bit_word_eqI; auto simp: bit_simps bits sr_fields dest: l)+
  ultimately show ?thesis
    using s t by (simp add: handler_sr_def l_def)
qed

lemma swapped_flags: "(if SR AND 3 \<noteq> 0 \<and> SR AND 3 \<noteq> 3 then SR XOR 3 else SR) = exchange_cv SR" for SR :: u16
proof -
  have b: "bit (SR AND 3) n \<longleftrightarrow> n < 2 \<and> bit SR n" for n
    by (auto simp: bit_simps bits dest: bit_imp_le_length)
  have two: "n < 2 \<Longrightarrow> n = 0 \<or> n = 1" for n :: nat by auto
  have z: "SR AND 3 = 0 \<longleftrightarrow> \<not> bit SR 0 \<and> \<not> bit SR 1"
  proof
    assume "SR AND 3 = 0" with b [of 0] b [of 1] show "\<not> bit SR 0 \<and> \<not> bit SR 1" by simp
  next
    assume "\<not> bit SR 0 \<and> \<not> bit SR 1" then show "SR AND 3 = 0" by (intro bit_word_eqI) (auto simp: b dest: two)
  qed
  have t: "SR AND 3 = 3 \<longleftrightarrow> bit SR 0 \<and> bit SR 1"
  proof
    assume "SR AND 3 = 3" with b [of 0] b [of 1] show "bit SR 0 \<and> bit SR 1" by simp
  next
    assume "bit SR 0 \<and> bit SR 1" then show "SR AND 3 = 3" by (intro bit_word_eqI) (auto simp: b bits bit_simps dest: two)
  qed
  show ?thesis
    unfolding z t by (rule bit_word_eqI) (auto simp: bit_exchange_cv bit_simps bits dest: two)
qed

text \<open>
  What entering the handler of a level means: the status word, the program counter and the
  vector offset are on the supervisor stack, from the top, and no other byte has changed.
\<close>

definition supervisor_stack :: "m68k_regs \<Rightarrow> u32" where
  "supervisor_stack r =
     (if r_SR r AND 0x2000 \<noteq> 0 then r_A r 7 else if r_SR r AND 0x1000 \<noteq> 0 then r_MSP r else r_ISP r)"

definition handler_entered :: "nat \<Rightarrow> 'a exec_state_scheme \<Rightarrow> 'a exec_state_scheme \<Rightarrow> bool" where
  "handler_entered level s t \<longleftrightarrow>
     (let r = regs s; r' = regs t; a = ucast (supervisor_stack r) - 8; vector = 0x60 + 4 * word_of_nat level
      in load_bytes 2 (host_memory t) a = ucast (exchange_cv (r_SR r)) \<and>
         load_bytes 4 (host_memory t) (a + 2) = ucast (r_PC r) \<and>
         load_bytes 2 (host_memory t) (a + 6) = vector \<and>
         (\<forall>b. 8 \<le> b - a \<longrightarrow> host_memory t b = host_memory s b) \<and>
         r_A r' = (r_A r)(7 := ucast a) \<and> r_D r' = r_D r \<and>
         r_USP r' = (if r_SR r AND 0x2000 = 0 then r_A r 7 else r_USP r) \<and>
         handler_sr (r_SR r) level (r_SR r') \<and>
         r_PC r' = ucast (load_bytes 4 (host_memory t) (ucast (c_VBR (m68k_ctx s)) + vector)))"

lemma sr_layout_values:
  "sr_layout_ok lay \<Longrightarrow> SR_S lay = 0x2000" "sr_layout_ok lay \<Longrightarrow> SR_M lay = 0x1000"
  "sr_layout_ok lay \<Longrightarrow> SR_T0 lay = 0x4000" "sr_layout_ok lay \<Longrightarrow> SR_T1 lay = 0x8000"
  "sr_layout_ok lay \<Longrightarrow> SR_IPL lay = 0x0700" "sr_layout_ok lay \<Longrightarrow> SRB_IPL lay = 8"
  by (simp_all add: sr_layout_ok_def)

lemma interrupt_vector:
  assumes "level < 8"
  shows "(0x60 + 4 * word_of_nat level :: u64) AND 0xffff = 0x60 + 4 * word_of_nat level"
proof -
  have "level = 0 \<or> level = 1 \<or> level = 2 \<or> level = 3 \<or> level = 4 \<or> level = 5 \<or> level = 6 \<or> level = 7"
    using assms by arith
  then show ?thesis by auto
qed

lemma take_interrupt_entered:
  assumes "sr_layout_ok lay" and "level < 8"
  shows "handler_entered level s (take_interrupt lay level s)"
proof -
  let ?r = "regs s" and ?v = "0x60 + 4 * word_of_nat level :: u64"
  let ?a = "ucast (supervisor_stack ?r) - 8 :: u64"
  define m where "m = store_bytes 2 (?a + 6) ?v
    (store_bytes 4 (?a + 2) (ucast (r_PC ?r)) (store_bytes 2 ?a (ucast (exchange_cv (r_SR ?r))) (host_memory s)))"
  note lay = sr_layout_values [OF assms(1)]
  have sr: "((r_SR ?r OR 0x2000) AND NOT (0x4000 OR 0x8000)) AND NOT 0x700 OR push_bit 8 (word_of_nat level AND 7) =
      ((r_SR ?r OR 0x2000) AND NOT 0xc000) AND NOT 0x700 OR push_bit 8 (word_of_nat level AND 7)" by simp
  have t: "take_interrupt lay level s = s\<lparr>host_memory := m,
      regs := (if r_SR ?r AND 0x2000 = 0 then ?r\<lparr>r_USP := r_A ?r 7\<rparr> else ?r)
        \<lparr>r_A := (r_A ?r)(7 := ucast ?a),
          r_SR := ((r_SR ?r OR 0x2000) AND NOT 0xc000) AND NOT 0x700 OR push_bit 8 (word_of_nat level AND 7),
          r_PC := ucast (load_bytes 4 m (ucast (c_VBR (m68k_ctx s)) + ?v))\<rparr>\<rparr>"
    unfolding take_interrupt_def Let_def lay swapped_flags sr m_def by (simp add: supervisor_stack_def)
  note frame = exception_frame [OF m_def]
  show ?thesis
    using frame handler_sr_new [OF assms(2)] interrupt_vector [OF assms(2)]
    by (simp add: handler_entered_def t Let_def)
qed

lemma ipl_level_read:
  obtains k w n where "k < 8" and "GetIPLLevel cf s = Some (k, s\<lparr>io_writes := w, io_n := n\<rparr>)"
proof -
  obtain v :: u32 and w n where "GetIPLLevel cf s = Some (unat (drop_bit 21 v AND 7), s\<lparr>io_writes := w, io_n := n\<rparr>)"
    by (simp add: GetIPLLevel_def wr32le_def rd32le_def Let_def numeral_eq_Suc)
  moreover have "unat (drop_bit 21 v AND 7) < 8"
    using word_and_le1 [of "drop_bit 21 v" 7] by (simp add: word_le_nat_alt)
  ultimately show thesis by (rule that [rotated])
qed

lemma requested_level_cases:
  obtains level w n e where "level < 8"
    and "requested_level cf s = Some (level, s\<lparr>io_writes := w, io_n := n, INTF_ARM_err := e\<rparr>)"
proof (cases "INTF_ARM_err s \<noteq> 0")
  case True
  then show thesis
    using that [where level = 7 and w = "io_writes s" and n = "io_n s" and e = 0] by (simp add: requested_level_def)
next
  case False
  let ?l = "if INTF_ARM s \<noteq> 0 then 6 else if INTF_PPC s \<noteq> 0 then 2 else 0 :: nat"
  show thesis
  proof (cases "bs_ipl s \<noteq> 0")
    case True
    obtain k w n where k: "k < 8" "GetIPLLevel cf s = Some (k, s\<lparr>io_writes := w, io_n := n\<rparr>)" by (rule ipl_level_read)
    then show thesis
      using that [where level = "if k > ?l then k else ?l" and w = w and n = n and e = "INTF_ARM_err s"] False True by (simp add: requested_level_def Let_def)
  next
    case none: False
    then show thesis
      using that [where level = ?l and w = "io_writes s" and n = "io_n s" and e = "INTF_ARM_err s"] False by (simp add: requested_level_def Let_def)
  qed
qed

text \<open>
  C31: an interrupt is taken exactly when its level is 7 or above the mask in the status
  register; taking it enters the handler of that level, and otherwise the turn changes nothing
  the program can see.
\<close>

theorem interrupt_entered_or_masked:
  assumes "sr_layout_ok (ec_sr ec)" and "interrupt_pending s"
  shows "\<exists>level s1. requested_level (ec_ps ec) s = Some (level, s1) \<and> level \<le> 7 \<and>
     (if level = 7 \<or> unat (drop_bit 8 (r_SR (regs s)) AND 7) < level
      then \<exists>t. process_interrupts ec s = Some t \<and> handler_entered level s t
      else process_interrupts ec s = Some s1 \<and> regs s1 = regs s \<and> host_memory s1 = host_memory s)"
proof -
  obtain level w n e where level: "level < 8"
    and req: "requested_level (ec_ps ec) s = Some (level, s\<lparr>io_writes := w, io_n := n, INTF_ARM_err := e\<rparr>)"
    by (rule requested_level_cases)
  let ?s1 = "s\<lparr>io_writes := w, io_n := n, INTF_ARM_err := e\<rparr>"
  have mask: "drop_bit 8 (sr AND 0x700) = drop_bit 8 sr AND 7" for sr :: u16
    by (rule bit_word_eqI) (auto simp: bit_simps bits sr_fields)
  have "handler_entered level ?s1 t \<Longrightarrow> handler_entered level s t" for t
    by (simp add: handler_entered_def)
  then have "handler_entered level s (take_interrupt (ec_sr ec) level ?s1)"
    using take_interrupt_entered [OF assms(1) level, of ?s1] by blast
  then show ?thesis
    using assms(2) level unfolding process_interrupts_def req sr_layout_values [OF assms(1)]
    by (auto simp: mask Let_def)
qed

theorem interrupt_entered_or_masked_witness:
  "\<exists>t. process_interrupts loop_config (loop_demo\<lparr>INTF_ARM := 6\<rparr>) = Some t \<and> handler_entered 6 (loop_demo\<lparr>INTF_ARM := 6\<rparr>) t"
proof -
  let ?s = "loop_demo\<lparr>INTF_ARM := 6\<rparr>"
  have "sr_layout_ok (ec_sr loop_config)" by (simp add: loop_config_def m68k_layout_def sr_layout_ok_def)
  moreover have "interrupt_pending ?s" by (simp add: interrupt_pending_def)
  moreover have "requested_level (ec_ps loop_config) ?s = Some (6, ?s)"
    by (simp add: requested_level_def loop_demo_fields)
  ultimately show ?thesis
    using interrupt_entered_or_masked [of loop_config ?s] by (simp add: loop_demo_fields demo_regs_def)
qed



end
