(* ===== verification/Logo.thy ===== *)
theory Logo
  imports Device "HOL-Library.Signed_Division"
begin

text \<open>
  The boot pictures of \<open>source/src/raspi/start_rpi64.c\<close>: the run length decoder
  \<open>rle_decode\<close> and \<open>draw_logo\<close>, which puts a picture on the 16-bit
  frame buffer. Memory is a function from addresses; positions in the data and in the picture
  are natural numbers, pointers and pixel counts are words.

  A malformed header or count can run through all of memory, so these loops are partial; the
  theorems show that data in the format ends them.
\<close>

section \<open>Decoding\<close>

record EmuLogo =
  el_Width :: u32
  el_Height :: u32
  el_Data :: "nat \<Rightarrow> u8"

text \<open>A number in groups of seven bits, most significant first.\<close>

partial_function (option) rle_number :: "(nat \<Rightarrow> u8) \<Rightarrow> nat \<Rightarrow> u32 \<Rightarrow> (u32 \<times> nat) option" where
  "rle_number m p w =
     (let w = push_bit 7 w OR ucast (m p AND 0x7f)
      in if m p AND 0x80 = 0 then Some (w, p + 1) else rle_number m (p + 1) w)"

partial_function (option) rle_count :: "(nat \<Rightarrow> u8) \<Rightarrow> nat \<Rightarrow> u8 \<Rightarrow> u32 \<Rightarrow> (u32 \<times> nat) option" where
  "rle_count m p c count =
     (if c AND 0x80 = 0 then Some (count, p)
      else rle_count m (p + 1) (m p) (push_bit 7 count OR ucast (m p AND 0x7f)))"

text \<open>The count is a signed number: a negative one copies nothing.\<close>

definition put_run :: "(nat \<Rightarrow> u8) \<Rightarrow> nat \<Rightarrow> nat \<Rightarrow> (nat \<Rightarrow> u8) \<Rightarrow> nat \<Rightarrow> u8" where
  "put_run f outpos n data = (\<lambda>i. if outpos \<le> i \<and> i < outpos + n then f (i - outpos) else data i)"

definition rle_segment ::
    "(nat \<Rightarrow> u8) \<Rightarrow> nat \<Rightarrow> nat \<Rightarrow> (nat \<Rightarrow> u8) \<Rightarrow> (nat \<times> nat \<times> (nat \<Rightarrow> u8)) option" where
  "rle_segment m p outpos data =
     (let c = m p; diff = (c AND 0x40 \<noteq> 0)
      in do {
           (count, p) \<leftarrow> rle_count m (p + 1) c (ucast (c AND 0x3f));
           let n = nat (sint count);
           Some (if diff then (p + n, outpos + n, put_run (\<lambda>i. m (p + i)) outpos n data)
                 else (p + 1, outpos + n, put_run (\<lambda>_. m p) outpos n data))
         })"

partial_function (option) rle_segments ::
    "(nat \<Rightarrow> u8) \<Rightarrow> nat \<Rightarrow> nat \<Rightarrow> nat \<Rightarrow> (nat \<Rightarrow> u8) \<Rightarrow> (nat \<Rightarrow> u8) option" where
  "rle_segments m stop p outpos data =
     (if p < stop
      then do { (p, outpos, data) \<leftarrow> rle_segment m p outpos data; rle_segments m stop p outpos data }
      else Some data)"

text \<open>\<open>fresh\<close> is what the allocated memory holds.\<close>

definition rle_decode :: "(nat \<Rightarrow> u8) \<Rightarrow> (nat \<Rightarrow> u8) \<Rightarrow> nat \<Rightarrow> EmuLogo option" where
  "rle_decode fresh m len =
     do {
       (w, p) \<leftarrow> rle_number m 0 0;
       (h, p) \<leftarrow> rle_number m p 0;
       data \<leftarrow> rle_segments m (p + len) p 0 fresh;
       Some \<lparr>el_Width = w, el_Height = h, el_Data = data\<rparr>
     }"

section \<open>The format\<close>

text \<open>A segment is a stretch of pixels or a run of one; \<open>k\<close> is the number of extra count bytes.\<close>

datatype segment =
  Pixels nat "u8 list"
| Repeat nat nat u8

fun septets :: "nat \<Rightarrow> nat \<Rightarrow> u8 list" where
  "septets 0 n = []"
| "septets (Suc k) n = (word_of_nat (n div 128 ^ k mod 128) OR (if k = 0 then 0 else 0x80)) # septets k n"

definition count_bytes :: "bool \<Rightarrow> nat \<Rightarrow> nat \<Rightarrow> u8 list" where
  "count_bytes diff k n =
     (word_of_nat (n div 128 ^ k) OR (if diff then 0x40 else 0) OR (if k = 0 then 0 else 0x80)) # septets k n"

fun segment_bytes :: "segment \<Rightarrow> u8 list" where
  "segment_bytes (Pixels k ps) = count_bytes True k (length ps) @ ps"
| "segment_bytes (Repeat k n p) = count_bytes False k n @ [p]"

fun segment_pixels :: "segment \<Rightarrow> u8 list" where
  "segment_pixels (Pixels k ps) = ps"
| "segment_pixels (Repeat k n p) = replicate n p"

fun segment_ok :: "segment \<Rightarrow> bool" where
  "segment_ok (Pixels k ps) \<longleftrightarrow> length ps < 64 * 128 ^ k \<and> length ps < 2 ^ 31"
| "segment_ok (Repeat k n p) \<longleftrightarrow> n < 64 * 128 ^ k \<and> n < 2 ^ 31"

definition logo_bytes :: "nat \<Rightarrow> nat \<Rightarrow> nat \<Rightarrow> nat \<Rightarrow> segment list \<Rightarrow> u8 list" where
  "logo_bytes kw w kh h segs = septets (Suc kw) w @ septets (Suc kh) h @ concat (map segment_bytes segs)"

definition holds_at :: "(nat \<Rightarrow> u8) \<Rightarrow> nat \<Rightarrow> u8 list \<Rightarrow> bool" where
  "holds_at m p bs \<longleftrightarrow> (\<forall>i < length bs. m (p + i) = bs ! i)"

lemma holds_append [simp]: "holds_at m p (xs @ ys) \<longleftrightarrow> holds_at m p xs \<and> holds_at m (p + length xs) ys"
proof -
  have "i < length xs + length ys \<longleftrightarrow> i < length xs \<or> (\<exists>j < length ys. i = length xs + j)" for i
    by presburger
  then show ?thesis by (auto simp: holds_at_def nth_append add.assoc)
qed

lemma holds_Cons [simp]: "holds_at m p (x # xs) \<longleftrightarrow> m p = x \<and> holds_at m (p + 1) xs"
  using holds_append [of m p "[x]" xs] by (simp add: holds_at_def)

lemma length_septets [simp]: "length (septets k n) = k"
  by (induction k) simp_all

lemma length_count_bytes [simp]: "length (count_bytes d k n) = Suc k"
  by (simp add: count_bytes_def)

text \<open>A group of seven bits and its continuation bit.\<close>

lemma nat_small_bits:
  fixes d :: nat
  assumes "bit d n" and "d < 2 ^ k"
  shows "n < k"
proof -
  have "take_bit k d = d" using assms(2) by (simp add: take_bit_nat_eq_self_iff)
  then have "bit (take_bit k d) n" using assms(1) by simp
  then show ?thesis by (simp add: bit_take_bit_iff)
qed

lemma septet_split:
  assumes "d < 128"
  shows "(word_of_nat d OR (if b then 0 else 0x80) :: u8) AND 0x7f = word_of_nat d"
    and "(word_of_nat d OR (if b then 0 else 0x80) :: u8) AND 0x80 = 0 \<longleftrightarrow> b"
proof -
  have d: "n < 7" if "bit d n" for n
    using nat_small_bits [OF that, of 7] assms by simp
  show "(word_of_nat d OR (if b then 0 else 0x80) :: u8) AND 0x7f = word_of_nat d"
    by (rule bit_word_eqI) (auto simp: bit_simps bits dest: d)
  have "(word_of_nat d :: u8) AND 0x80 = 0"
    by (rule bit_word_eqI) (auto simp: bit_simps bits dest: d)
  moreover have "bit ((word_of_nat d OR 0x80 :: u8) AND 0x80) 7" by (simp add: bit_simps bits)
  then have "(word_of_nat d OR 0x80 :: u8) AND 0x80 \<noteq> 0" by (metis bit_0_eq bot_apply bot_bool_def)
  ultimately show "(word_of_nat d OR (if b then 0 else 0x80) :: u8) AND 0x80 = 0 \<longleftrightarrow> b" by simp
qed

lemma push_group:
  assumes "d < 128"
  shows "push_bit 7 (word_of_nat a :: u32) OR ucast (word_of_nat d :: u8) = word_of_nat (a * 128 + d)"
proof -
  have d: "ucast (word_of_nat d :: u8) = (word_of_nat d :: u32)"
    using nat_small_bits [of d _ 8] assms by (intro bit_word_eqI) (auto simp: bit_simps)
  have "push_bit 7 (word_of_nat a :: u32) OR word_of_nat d = push_bit 7 (word_of_nat a) + word_of_nat d"
  proof (rule disjunctive_add [symmetric])
    show "\<not> bit (push_bit 7 (word_of_nat a :: u32)) n \<or> \<not> bit (word_of_nat d :: u32) n" for n
      using nat_small_bits [of d n 7] assms by (cases "n < 7") (auto simp: bit_simps)
  qed
  also have "\<dots> = word_of_nat (a * 128 + d)"
    by (simp add: push_bit_eq_mult)
  finally show ?thesis by (simp only: d)
qed

lemma group_sum: "(a * 128 + n div 128 ^ k mod 128) * 128 ^ k + n mod 128 ^ k = a * 128 ^ Suc k + n mod 128 ^ Suc k"
  for n :: nat
  by (simp only: power_Suc2 mod_mult2_eq) (simp add: algebra_simps)

lemma rle_number_septets:
  "holds_at m p (septets (Suc k) n) \<Longrightarrow>
     rle_number m p (word_of_nat a) = Some (word_of_nat (a * 128 ^ Suc k + n mod 128 ^ Suc k), p + Suc k)"
proof (induction k arbitrary: p a)
  case 0
  then show ?case
    using septet_split [of "n mod 128" True]
    by (subst rle_number.simps) (simp add: Let_def push_group)
next
  case (Suc k)
  let ?d = "n div 128 ^ Suc k mod 128"
  have d: "?d < 128" by simp
  have m: "m p = word_of_nat ?d OR (if False then 0 else 0x80)" and rest: "holds_at m (p + 1) (septets (Suc k) n)"
    using Suc.prems by (simp_all only: septets.simps holds_Cons) simp
  have "rle_number m p (word_of_nat a) = rle_number m (p + 1) (word_of_nat (a * 128 + ?d))"
    by (subst rle_number.simps)
      (simp only: m if_False septet_split [OF d, of False, unfolded if_False] push_group [OF d] Let_def)
  also have "\<dots> = Some (word_of_nat ((a * 128 + ?d) * 128 ^ Suc k + n mod 128 ^ Suc k), p + 1 + Suc k)"
    by (rule Suc.IH [OF rest])
  finally show ?case by (simp only: group_sum) simp
qed

lemma rle_count_septets:
  assumes "c AND 0x80 = 0 \<longleftrightarrow> k = 0" and "holds_at m p (septets k n)"
  shows "rle_count m p c (word_of_nat a) = Some (word_of_nat (a * 128 ^ k + n mod 128 ^ k), p + k)"
  using assms
proof (induction k arbitrary: p a c)
  case 0
  then show ?case by (subst rle_count.simps) simp
next
  case (Suc k)
  let ?d = "n div 128 ^ k mod 128"
  have d: "?d < 128" by simp
  have m: "m p = word_of_nat ?d OR (if k = 0 then 0 else 0x80)" and rest: "holds_at m (p + 1) (septets k n)"
    using Suc.prems by simp_all
  have "rle_count m p c (word_of_nat a) = rle_count m (p + 1) (m p) (word_of_nat (a * 128 + ?d))"
    using Suc.prems(1) by (subst rle_count.simps) (simp only: m septet_split [OF d] push_group [OF d], simp)
  also have "\<dots> = Some (word_of_nat ((a * 128 + ?d) * 128 ^ k + n mod 128 ^ k), p + 1 + k)"
    by (rule Suc.IH [OF _ rest]) (simp only: m septet_split [OF d])
  finally show ?case by (simp only: group_sum) simp
qed

section \<open>The decoder reads the format\<close>

lemma first_byte:
  fixes c :: u8
  assumes "q < 64" and c: "c = word_of_nat q OR (if diff then 0x40 else 0) OR (if fin then 0 else 0x80)"
  shows "c AND 0x3f = word_of_nat q" and "c AND 0x40 \<noteq> 0 \<longleftrightarrow> diff" and "c AND 0x80 = 0 \<longleftrightarrow> fin"
proof -
  have q: "n < 6" if "bit q n" for n
    using nat_small_bits [OF that, of 6] assms by simp
  have b: "bit c n \<longleftrightarrow> n < 6 \<and> bit q n \<or> n = 6 \<and> diff \<or> n = 7 \<and> \<not> fin" for n
    using bit_int_field [of 192 2 6 n] by (cases diff; cases fin; auto simp: c bit_simps bits dest: q)
  have single: "c AND w = 0 \<longleftrightarrow> \<not> bit c j" if "\<And>n. bit w n \<longleftrightarrow> n = j" for w :: u8 and j
  proof -
    have "j < 8" using bit_imp_le_length [of w j] that [of j] by simp
    then show ?thesis using that by (auto simp: bit_eq_iff [of _ 0] bit_simps)
  qed
  show "c AND 0x3f = word_of_nat q"
    by (rule bit_word_eqI) (auto simp: bit_simps bits b dest: q)
  show "c AND 0x40 \<noteq> 0 \<longleftrightarrow> diff"
  proof -
    have "bit (0x40 :: u8) n \<longleftrightarrow> n = 6" for n by (auto simp: bit_simps bits)
    from single [OF this] show ?thesis by (simp add: b)
  qed
  show "c AND 0x80 = 0 \<longleftrightarrow> fin"
  proof -
    have "bit (0x80 :: u8) n \<longleftrightarrow> n = 7" for n by (auto simp: bit_simps bits)
    from single [OF this] show ?thesis by (simp add: b)
  qed
qed

lemma count_decoded:
  assumes "n < 64 * 128 ^ k" and "holds_at m p (count_bytes diff k n)"
  shows "rle_count m (p + 1) (m p) (ucast (m p AND 0x3f)) = Some (word_of_nat n, p + Suc k)"
    and "m p AND 0x40 \<noteq> 0 \<longleftrightarrow> diff"
proof -
  let ?q = "n div 128 ^ k"
  have q: "?q < 64" using assms(1) by (simp add: div_less_iff_less_mult mult.commute)
  have c: "m p = word_of_nat ?q OR (if diff then 0x40 else 0) OR (if k = 0 then 0 else 0x80)"
    and rest: "holds_at m (p + 1) (septets k n)"
    using assms(2) by (simp_all add: count_bytes_def)
  note first = first_byte [OF q c]
  show "m p AND 0x40 \<noteq> 0 \<longleftrightarrow> diff" by (rule first)
  have "ucast (word_of_nat ?q :: u8) = (word_of_nat ?q :: u32)"
    using nat_small_bits [of ?q _ 8] q by (intro bit_word_eqI) (auto simp: bit_simps)
  then show "rle_count m (p + 1) (m p) (ucast (m p AND 0x3f)) = Some (word_of_nat n, p + Suc k)"
    using rle_count_septets [OF first(3) rest, of ?q, unfolded div_mult_mod_eq] by (simp add: first(1))
qed

lemma signed_count: "n < 2 ^ 31 \<Longrightarrow> nat (sint (word_of_nat n :: u32)) = n"
proof -
  assume n: "n < 2 ^ 31"
  then have "uint (word_of_nat n :: u32) = int n"
    by (simp add: unsigned_of_nat take_bit_nat_eq_self)
  then show "nat (sint (word_of_nat n :: u32)) = n"
    using n by (simp add: sint_uint signed_take_bit_int_eq_self)
qed

lemma put_run_cong: "(\<And>i. i < n \<Longrightarrow> f i = g i) \<Longrightarrow> put_run f q n data = put_run g q n data"
  by (rule ext) (auto simp: put_run_def)

lemma put_run_none [simp]: "put_run f q 0 data = data"
  by (rule ext) (auto simp: put_run_def)

lemma put_run_append:
  "put_run (\<lambda>i. ys ! i) (q + length xs) (length ys) (put_run (\<lambda>i. xs ! i) q (length xs) data) =
     put_run (\<lambda>i. (xs @ ys) ! i) q (length (xs @ ys)) data"
  by (rule ext) (auto simp: put_run_def nth_append)

lemma segment_decoded:
  assumes "segment_ok seg" and "holds_at m p (segment_bytes seg)"
  shows "rle_segment m p q data =
     Some (p + length (segment_bytes seg), q + length (segment_pixels seg),
       put_run (\<lambda>i. segment_pixels seg ! i) q (length (segment_pixels seg)) data)"
proof (cases seg)
  case (Pixels k ps)
  then have n: "length ps < 64 * 128 ^ k" "length ps < 2 ^ 31" and c: "holds_at m p (count_bytes True k (length ps))"
    and ps: "holds_at m (p + Suc k) ps"
    using assms by simp_all
  have "put_run (\<lambda>i. m (p + Suc k + i)) q (length ps) data = put_run (\<lambda>i. ps ! i) q (length ps) data"
    using ps by (intro put_run_cong) (simp add: holds_at_def)
  then show ?thesis
    using count_decoded [OF n(1) c] by (simp add: rle_segment_def Let_def Pixels signed_count [OF n(2)])
next
  case (Repeat k n x)
  then have n: "n < 64 * 128 ^ k" "n < 2 ^ 31" and c: "holds_at m p (count_bytes False k n)" and x: "m (p + Suc k) = x"
    using assms by simp_all
  have "put_run (\<lambda>_. x) q n data = put_run (\<lambda>i. replicate n x ! i) q n data"
    by (intro put_run_cong) simp
  then show ?thesis
    using count_decoded [OF n(1) c] x by (simp add: rle_segment_def Let_def Repeat signed_count [OF n(2)])
qed

lemma segments_decoded:
  assumes "\<forall>seg \<in> set segs. segment_ok seg" and "holds_at m p (concat (map segment_bytes segs))"
  shows "rle_segments m (p + length (concat (map segment_bytes segs))) p q data =
     Some (put_run (\<lambda>i. concat (map segment_pixels segs) ! i) q (length (concat (map segment_pixels segs))) data)"
  using assms
proof (induction segs arbitrary: p q data)
  case Nil
  then show ?case by (subst rle_segments.simps) simp
next
  case (Cons seg segs)
  have pos: "0 < length (segment_bytes seg)" by (cases seg) simp_all
  have seg: "segment_ok seg" "holds_at m p (segment_bytes seg)" using Cons.prems by simp_all
  show ?case
    using Cons.IH [of "p + length (segment_bytes seg)" "q + length (segment_pixels seg)"
        "put_run (\<lambda>i. segment_pixels seg ! i) q (length (segment_pixels seg)) data"] Cons.prems pos
    by (subst rle_segments.simps) (simp add: segment_decoded [OF seg] put_run_append add.assoc)
qed


section \<open>Drawing\<close>

text \<open>The state of the display: its memory, the bytes of a line and the two colour flags.\<close>

record display =
  vram :: "u64 \<Rightarrow> u8"
  framebuffer :: u64
  pitch :: u32
  fb_width :: u32
  fb_height :: u32
  text_x :: u32
  text_y :: u32
  purple :: bool
  black :: bool

definition store_half :: "u64 \<Rightarrow> u16 \<Rightarrow> (u64 \<Rightarrow> u8) \<Rightarrow> u64 \<Rightarrow> u8" where
  "store_half a v m = m(a := ucast (drop_bit 8 v), a + 1 := ucast v)"

definition clamp :: "int \<Rightarrow> int" where
  "clamp c = (let c = (if c < 0 then 0 else c) in if c > 255 then 255 else c)"

definition rgb565 :: "int \<Rightarrow> int \<Rightarrow> int \<Rightarrow> u16" where
  "rgb565 r g b = word_of_int (drop_bit 3 b OR push_bit 5 (drop_bit 2 g) OR push_bit 11 (drop_bit 3 r))"

definition logo_colour :: "'a display_scheme \<Rightarrow> u8 \<Rightarrow> u16" where
  "logo_colour d gray =
     (if purple d
      then let gray = uint (240 - gray);
               r = -330 + drop_bit 8 (gray * 848);
               g = -343 + drop_bit 8 (gray * 768);
               b = -91 + drop_bit 8 (gray * 341)
           in rgb565 (clamp r) (clamp g) (clamp b)
      else if black d
      then let g = clamp (((120 - uint gray) * 5) sdiv 4) in rgb565 g g g
      else rgb565 (uint gray) (uint gray) (uint gray))"

fun draw_pixels ::
    "(nat \<Rightarrow> u16) \<Rightarrow> u32 \<Rightarrow> u32 \<Rightarrow> nat \<Rightarrow> nat \<Rightarrow> u32 \<Rightarrow> u64 \<Rightarrow> (u64 \<Rightarrow> u8) \<Rightarrow> u64 \<Rightarrow> u8" where
  "draw_pixels colour width line 0 i x buff m = m"
| "draw_pixels colour width line (Suc n) i x buff m =
     (let m = store_half (buff + 2 * ucast x) (LE16 (colour i)) m; x = x + 1
      in if x \<ge> width then draw_pixels colour width line n (i + 1) 0 (buff + 2 * ucast (line div 2)) m
         else draw_pixels colour width line n (i + 1) x buff m)"

definition draw_logo :: "EmuLogo \<Rightarrow> u32 \<Rightarrow> u32 \<Rightarrow> 'a display_scheme \<Rightarrow> 'a display_scheme" where
  "draw_logo logo start_x start_y d =
     (let pix_cnt = unat (el_Width logo * el_Height logo);
          buff = framebuffer d + ucast (pitch d * start_y) + 2 * ucast start_x
      in d\<lparr>vram := draw_pixels (\<lambda>i. logo_colour d (el_Data logo i)) (el_Width logo) (pitch d) pix_cnt 0 0 buff (vram d)\<rparr>)"

section \<open>A picture lands in its rectangle\<close>

lemma widen_nat: "ucast x = (word_of_nat (unat x) :: u64)" for x :: u32
  by (rule bit_word_eqI) (simp add: bit_simps)

lemma draw_pixels_fold:
  assumes "0 < width"
  shows "draw_pixels colour width line n i (word_of_nat (i mod unat width)) (base + word_of_nat (i div unat width) * (2 * ucast (line div 2))) m =
    fold (\<lambda>j. store_half (base + word_of_nat (j div unat width) * (2 * ucast (line div 2)) + 2 * word_of_nat (j mod unat width))
                (LE16 (colour j))) [i..<i + n] m"
proof (induction n arbitrary: i m)
  case 0
  then show ?case by simp
next
  case (Suc n)
  let ?w = "unat width" and ?x = "word_of_nat (i mod unat width) :: u32"
  have w: "0 < ?w" using assms by (simp add: word_less_nat_alt)
  have xw: "i mod ?w < ?w" using w by simp
  have lt: "i mod ?w + 1 < 2 ^ 32" using xw unsigned_less [of width, where ?'a = nat] by simp
  have x: "unat ?x = i mod ?w" using lt by (simp add: unat_of_nat)
  have ux: "ucast ?x = (word_of_nat (i mod ?w) :: u64)"
    using lt by (simp add: unsigned_of_nat take_bit_nat_eq_self)
  have x1: "?x + 1 = word_of_nat (i mod ?w + 1)" by simp
  have row: "width \<le> ?x + 1 \<longleftrightarrow> ?w \<le> i mod ?w + 1"
    unfolding x1 word_le_nat_alt using lt by (simp add: unat_of_nat del: of_nat_add of_nat_Suc)
  have upt: "[i..<i + Suc n] = i # [i + 1..<(i + 1) + n]" by (simp add: upt_rec)
  note IH = Suc.IH [of "i + 1"]
  show ?case
  proof (cases "width \<le> ?x + 1")
    case True
    then have "Suc (i mod ?w) = ?w" using row xw by simp
    then have "(i + 1) mod ?w = 0" "(i + 1) div ?w = i div ?w + 1"
      by (simp_all add: mod_Suc div_Suc)
    then show ?thesis
      unfolding upt using True IH by (simp add: ux algebra_simps)
  next
    case False
    then have "Suc (i mod ?w) \<noteq> ?w" using row xw by simp
    then have "(i + 1) mod ?w = i mod ?w + 1" "(i + 1) div ?w = i div ?w"
      by (simp_all add: mod_Suc div_Suc)
    then show ?thesis
      unfolding upt using False IH by (simp add: ux algebra_simps)
  qed
qed

text \<open>Stores to places that do not overlap.\<close>

lemma store_half_apply:
  "store_half a v m b = (if b = a + 1 then ucast v else if b = a then ucast (drop_bit 8 v) else m b)"
  by (simp add: store_half_def)

lemma fold_store_half:
  assumes "\<And>i j. i < n \<Longrightarrow> j < n \<Longrightarrow> i \<noteq> j \<Longrightarrow> addr i \<noteq> addr j \<and> addr i \<noteq> addr j + 1 \<and> addr i + 1 \<noteq> addr j"
  shows "(\<forall>j < n. fold (\<lambda>j. store_half (addr j) (v j)) [0..<n] m (addr j) = ucast (drop_bit 8 (v j)) \<and>
       fold (\<lambda>j. store_half (addr j) (v j)) [0..<n] m (addr j + 1) = ucast (v j)) \<and>
     (\<forall>a. (\<forall>j < n. a \<noteq> addr j \<and> a \<noteq> addr j + 1) \<longrightarrow> fold (\<lambda>j. store_half (addr j) (v j)) [0..<n] m a = m a)"
  using assms
proof (induction n)
  case 0
  then show ?case by simp
next
  case (Suc n)
  have IH: "(\<forall>j < n. fold (\<lambda>j. store_half (addr j) (v j)) [0..<n] m (addr j) = ucast (drop_bit 8 (v j)) \<and>
       fold (\<lambda>j. store_half (addr j) (v j)) [0..<n] m (addr j + 1) = ucast (v j)) \<and>
     (\<forall>a. (\<forall>j < n. a \<noteq> addr j \<and> a \<noteq> addr j + 1) \<longrightarrow> fold (\<lambda>j. store_half (addr j) (v j)) [0..<n] m a = m a)"
    by (rule Suc.IH) (use Suc.prems in auto)
  have apart: "j < n \<Longrightarrow> addr j \<noteq> addr n \<and> addr j \<noteq> addr n + 1 \<and> addr j + 1 \<noteq> addr n" for j
    using Suc.prems [of j n] by simp
  define F where "F = fold (\<lambda>j. store_half (addr j) (v j)) [0..<n] m"
  have F: "fold (\<lambda>j. store_half (addr j) (v j)) [0..<Suc n] m = store_half (addr n) (v n) F" by (simp add: F_def)
  show ?case
    using IH [folded F_def] apart unfolding F by (auto simp: store_half_apply less_Suc_eq)
qed

definition pixel_offset :: "'a display_scheme \<Rightarrow> u32 \<Rightarrow> u32 \<Rightarrow> nat \<Rightarrow> nat \<Rightarrow> nat" where
  "pixel_offset d start_x start_y row col =
     unat (pitch d) * (unat start_y + row) + 2 * (unat start_x + col)"

definition pixel_address :: "'a display_scheme \<Rightarrow> u32 \<Rightarrow> u32 \<Rightarrow> nat \<Rightarrow> nat \<Rightarrow> u64" where
  "pixel_address d start_x start_y row col = framebuffer d + word_of_nat (pixel_offset d start_x start_y row col)"

definition fits_display :: "EmuLogo \<Rightarrow> u32 \<Rightarrow> u32 \<Rightarrow> 'a display_scheme \<Rightarrow> bool" where
  "fits_display logo start_x start_y d \<longleftrightarrow>
     0 < unat (el_Width logo) \<and> even (unat (pitch d)) \<and>
     2 * (unat start_x + unat (el_Width logo)) \<le> unat (pitch d) \<and>
     unat (pitch d) * (unat start_y + unat (el_Height logo)) < 2 ^ 32"

text \<open>
  A picture that fits the display is drawn in its rectangle, pixel by pixel in the
  colour of its byte, and no other byte of memory changes.
\<close>

theorem draw_logo_rectangle:
  assumes "fits_display logo start_x start_y d"
  defines "w \<equiv> unat (el_Width logo)" and "h \<equiv> unat (el_Height logo)" and "d' \<equiv> draw_logo logo start_x start_y d"
  shows "(\<forall>row < h. \<forall>col < w.
       vram d' (pixel_address d start_x start_y row col) =
         ucast (drop_bit 8 (LE16 (logo_colour d (el_Data logo (row * w + col))))) \<and>
       vram d' (pixel_address d start_x start_y row col + 1) =
         ucast (LE16 (logo_colour d (el_Data logo (row * w + col))))) \<and>
     (\<forall>a. (\<forall>row < h. \<forall>col < w. a \<noteq> pixel_address d start_x start_y row col \<and>
         a \<noteq> pixel_address d start_x start_y row col + 1) \<longrightarrow> vram d' a = vram d a)"
proof -
  let ?P = "unat (pitch d)" and ?X = "unat start_x" and ?Y = "unat start_y"
  let ?off = "pixel_offset d start_x start_y"
  have w: "0 < w" and even: "even ?P" and wide: "2 * (?X + w) \<le> ?P" and high: "?P * (?Y + h) < 2 ^ 32"
    using assms(1) by (simp_all add: fits_display_def w_def h_def)
  have "w * h \<le> ?P * (?Y + h)" using wide by (intro mult_mono) simp_all
  then have count: "unat (el_Width logo * el_Height logo) = w * h"
    using high by (simp add: unat_word_ariths w_def h_def)
  have "?P * ?Y < 2 ^ 32"
    using high by (rule le_less_trans [rotated]) simp
  then have base: "ucast (pitch d * start_y) = (word_of_nat (?P * ?Y) :: u64)"
    by (simp only: widen_nat) (simp add: unat_word_ariths)
  have "2 * ucast (pitch d div 2) = (word_of_nat (2 * (?P div 2)) :: u64)"
    unfolding widen_nat by (simp add: unat_div)
  then have step: "2 * ucast (pitch d div 2) = (word_of_nat ?P :: u64)"
    using even by simp
  define addr where "addr = (\<lambda>j. pixel_address d start_x start_y (j div w) (j mod w))"
  have sum: "f + word_of_nat (p * y) + 2 * word_of_nat x + word_of_nat r * word_of_nat p + 2 * word_of_nat c =
      f + word_of_nat (p * (y + r) + 2 * (x + c))" for f :: u64 and p y x r c :: nat
    by (simp add: algebra_simps)
  have addr: "framebuffer d + ucast (pitch d * start_y) + 2 * ucast start_x +
      word_of_nat (j div w) * (2 * ucast (pitch d div 2)) + 2 * word_of_nat (j mod w) = addr j" for j
    unfolding base step unfolding widen_nat addr_def pixel_address_def pixel_offset_def by (rule sum)
  define colour where "colour = (\<lambda>j. logo_colour d (el_Data logo j))"
  have drawn: "vram d' = fold (\<lambda>j. store_half (addr j) (LE16 (colour j))) [0..<w * h] (vram d)"
    using draw_pixels_fold [of "el_Width logo" colour "pitch d" "w * h" 0
        "framebuffer d + ucast (pitch d * start_y) + 2 * ucast start_x" "vram d"] w
    by (simp add: d'_def draw_logo_def Let_def count addr colour_def w_def [symmetric] word_less_nat_alt)
  have row: "?P * (?Y + r) + ?P \<le> ?P * (?Y + r')" if "r < r'" for r r'
    using that mult_le_mono2 [of "?Y + r + 1" "?Y + r'" ?P] by simp
  have apart: "?off r c + 2 \<le> ?off r' c'" if "r < r'" "c < w" for r r' c c'
    using row [OF that(1)] that(2) wide by (simp add: pixel_offset_def)
  have in_range: "?off r c + 1 < 2 ^ 32" if "r < h" "c < w" for r c
  proof -
    have "?off r c + 1 < ?P * (?Y + r) + ?P" using that(2) wide by (simp add: pixel_offset_def)
    also have "\<dots> \<le> ?P * (?Y + h)" by (rule row [OF that(1)])
    finally show ?thesis using high by simp
  qed
  have sep: "?off r c + 2 \<le> ?off r' c' \<or> ?off r' c' + 2 \<le> ?off r c" if "c < w" "c' < w" "(r, c) \<noteq> (r', c')" for r c r' c'
  proof (cases "r = r'")
    case True
    then show ?thesis using that by (auto simp: pixel_offset_def)
  next
    case False
    then show ?thesis using apart [of r r' c c'] apart [of r' r c' c] that by (auto simp: nat_neq_iff)
  qed
  have word: "(word_of_nat a :: u64) = word_of_nat b \<longleftrightarrow> a = b" if "a < 2 ^ 32" "b < 2 ^ 32" for a b
    using that by (simp add: word_of_nat_eq_iff take_bit_nat_eq_self)
  have pixel: "j div w < h" "j mod w < w" if "j < w * h" for j
    using that w by (simp_all add: div_less_iff_less_mult mult.commute)
  have distinct: "addr i \<noteq> addr j \<and> addr i \<noteq> addr j + 1 \<and> addr i + 1 \<noteq> addr j"
    if "i < w * h" "j < w * h" "i \<noteq> j" for i j
  proof -
    have "(i div w, i mod w) \<noteq> (j div w, j mod w)"
      using that(3) by (metis div_mult_mod_eq prod.inject)
    then show ?thesis
      using sep [OF pixel(2) [OF that(1)] pixel(2) [OF that(2)], of "i div w" "j div w"]
        in_range [OF pixel [OF that(1)]] in_range [OF pixel [OF that(2)]]
        word [of "?off (i div w) (i mod w)" "?off (j div w) (j mod w)"]
        word [of "?off (i div w) (i mod w)" "?off (j div w) (j mod w) + 1"]
        word [of "?off (i div w) (i mod w) + 1" "?off (j div w) (j mod w)"]
      by (auto simp: addr_def pixel_address_def add.assoc add.commute [of _ 1])
  qed
  have at: "addr (r * w + c) = pixel_address d start_x start_y r c" "r * w + c < w * h" if "r < h" "c < w" for r c
  proof -
    show "addr (r * w + c) = pixel_address d start_x start_y r c" using that(2) by (simp add: addr_def)
    have "r * w + c < Suc r * w" using that(2) by simp
    also have "\<dots> \<le> h * w" using that(1) by (intro mult_le_mono1) simp
    finally show "r * w + c < w * h" by (simp add: mult.commute)
  qed
  have stored: "(\<forall>j < w * h. vram d' (addr j) = ucast (drop_bit 8 (LE16 (colour j))) \<and>
       vram d' (addr j + 1) = ucast (LE16 (colour j))) \<and>
     (\<forall>a. (\<forall>j < w * h. a \<noteq> addr j \<and> a \<noteq> addr j + 1) \<longrightarrow> vram d' a = vram d a)"
    unfolding drawn by (rule fold_store_half, rule distinct)
  show ?thesis
  proof (intro conjI allI impI)
    fix r c assume rc: "r < h" "c < w"
    show "vram d' (pixel_address d start_x start_y r c) =
        ucast (drop_bit 8 (LE16 (logo_colour d (el_Data logo (r * w + c)))))"
      "vram d' (pixel_address d start_x start_y r c + 1) = ucast (LE16 (logo_colour d (el_Data logo (r * w + c))))"
      using stored [THEN conjunct1, rule_format, OF at(2) [OF rc]] by (simp_all add: at(1) [OF rc] colour_def)
  next
    fix a assume "\<forall>row < h. \<forall>col < w. a \<noteq> pixel_address d start_x start_y row col \<and>
      a \<noteq> pixel_address d start_x start_y row col + 1"
    then have "\<forall>j < w * h. a \<noteq> addr j \<and> a \<noteq> addr j + 1" using pixel by (simp add: addr_def)
    then show "vram d' a = vram d a" using stored [THEN conjunct2] by blast
  qed
qed

section \<open>Instances\<close>


definition demo_display :: display where
  "demo_display = \<lparr>vram = (\<lambda>_. 0), framebuffer = 0x1000, pitch = 256, fb_width = 128, fb_height = 64,
     text_x = 0, text_y = 0, purple = False, black = False\<rparr>"

definition demo_logo :: EmuLogo where
  "demo_logo = \<lparr>el_Width = 2, el_Height = 2, el_Data = (\<lambda>i. if i = 3 then 0xff else 0)\<rparr>"

theorem draw_logo_rectangle_witness:
  "vram (draw_logo demo_logo 3 2 demo_display) (pixel_address demo_display 3 2 1 1) = 0xff \<and>
   vram (draw_logo demo_logo 3 2 demo_display) 0 = 0"
proof -
  have fits: "fits_display demo_logo 3 2 demo_display"
    by (simp add: fits_display_def demo_logo_def demo_display_def)
  have white: "LE16 (logo_colour demo_display (el_Data demo_logo 3)) = 0xffff"
    by (simp add: logo_colour_def rgb565_def demo_display_def demo_logo_def LE16_def)
  have "0 \<noteq> pixel_address demo_display 3 2 row col \<and> 0 \<noteq> pixel_address demo_display 3 2 row col + 1"
    if "row < 2" "col < 2" for row col
    using that by (auto simp: pixel_address_def pixel_offset_def demo_display_def less_2_cases_iff)
  then show ?thesis
    using draw_logo_rectangle [OF fits] white by (simp add: demo_logo_def demo_display_def)
qed

end
