(* ===== verification/Splash.thy ===== *)
theory Splash
  imports Logo
begin

text \<open>
  Text on the boot screen, from \<open>source/src/raspi/start_rpi64.c\<close>: \<open>put_char\<close>,
  the boot picture with its version line, \<open>display_logo\<close>, and the diagnostic panel
  \<open>hdmi_audio_poc_splash\<close>. The font is data of another file and a parameter, as are the
  answers of the device tree and the size of the display; a string is the list of its bytes
  before the terminating zero.
\<close>

section \<open>Characters\<close>

record font =
  topaz8_charloc :: "nat \<Rightarrow> u32"
  topaz8_chardata :: "nat \<Rightarrow> u8"

definition glyph_byte :: "font \<Rightarrow> u8 \<Rightarrow> nat \<Rightarrow> u8" where
  "glyph_byte ft c y =
     topaz8_chardata ft (unat (drop_bit 3 (drop_bit 16 (topaz8_charloc ft (unat (c - 32))))) + 192 * (y div 2))"

definition draw_glyph :: "font \<Rightarrow> u8 \<Rightarrow> u16 \<Rightarrow> (nat \<Rightarrow> u64) \<Rightarrow> (u64 \<Rightarrow> u8) \<Rightarrow> u64 \<Rightarrow> u8" where
  "draw_glyph ft c colour pos m =
     fold (\<lambda>y. fold (\<lambda>x m. if glyph_byte ft c y AND drop_bit x 0x80 \<noteq> 0
                          then store_half (pos y + 2 * word_of_nat x) colour m else m) [0..<8])
       [0..<16] m"

definition text_colour :: "'a display_scheme \<Rightarrow> u16" where
  "text_colour d = (if purple d then LE16 0xed51 else if black d then LE16 0x630c else 0)"

definition put_char :: "font \<Rightarrow> u8 \<Rightarrow> 'a display_scheme \<Rightarrow> 'a display_scheme" where
  "put_char ft c d =
     (if framebuffer d \<noteq> 0 \<and> pitch d \<noteq> 0
      then let pos = framebuffer d + ucast ((text_y d * 16 + 5) * pitch d) + 2 * ucast (4 + text_x d * 8)
           in if c = 10 then d\<lparr>text_x := 0, text_y := text_y d + 1\<rparr>
              else if c \<ge> 32
              then d\<lparr>vram := draw_glyph ft c (text_colour d) (\<lambda>y. pos + word_of_nat y * (2 * ucast (pitch d div 2))) (vram d),
                     text_x := text_x d + 1\<rparr>
              else d
      else d)"

section \<open>The boot picture\<close>

definition starts_with :: "u8 list \<Rightarrow> u8 list \<Rightarrow> bool" where
  "starts_with p s \<longleftrightarrow> take (length p) s = p"

definition ascii :: "string \<Rightarrow> u8 list" where
  "ascii s = map (\<lambda>c. word_of_nat (of_char c)) s"

text \<open>What the display code finds outside: size, buffer, boot arguments and pictures.\<close>

record boot_screen =
  sz_width :: u32
  sz_height :: u32
  buffer :: u64
  line_bytes :: u32
  logo_argument :: "u8 list option"
  emu68logo :: EmuLogo
  pistormlogo :: EmuLogo
  ppclogo :: "EmuLogo option"
  version :: "u8 list"

definition background :: "'a display_scheme \<Rightarrow> u8 \<Rightarrow> u16" where
  "background d gray =
     (if \<not> purple d \<and> black d then rgb565 0 0 0 else logo_colour d gray)"

definition clear_screen :: "u16 \<Rightarrow> u32 \<Rightarrow> 'a display_scheme \<Rightarrow> 'a display_scheme" where
  "clear_screen colour n d =
     d\<lparr>vram := fold (\<lambda>i. store_half (framebuffer d + 2 * word_of_nat i) (LE16 colour)) [0..<unat n] (vram d)\<rparr>"

definition display_logo :: "font \<Rightarrow> boot_screen \<Rightarrow> 'a display_scheme \<Rightarrow> 'a display_scheme" where
  "display_logo ft bs d =
     (let d = (case logo_argument bs of
                 None \<Rightarrow> d
               | Some tok \<Rightarrow> if starts_with (ascii ''purple'') tok then d\<lparr>purple := True\<rparr>
                             else if starts_with (ascii ''black'') tok then d\<lparr>black := True\<rparr> else d);
          d = d\<lparr>fb_width := sz_width bs, fb_height := sz_height bs, framebuffer := buffer bs, pitch := line_bytes bs\<rparr>;
          start_x = (sz_width bs - el_Width (emu68logo bs)) div 2;
          start_y = (sz_height bs - el_Height (emu68logo bs)) div 2;
          d = d\<lparr>text_y := (fb_height d - 16 - 5) div 16,
                text_x := (fb_width d - word_of_nat (length (version bs)) * 8 - 1) div 8\<rparr>;
          start_y = start_y - (el_Height (pistormlogo bs) + 10) div 2;
          d = d\<lparr>text_x := text_x d - word_of_nat (length ''PiStorm Classic, '')\<rparr>;
          d = clear_screen (background d (el_Data (emu68logo bs) 0)) (sz_width bs * sz_height bs) d;
          d = draw_logo (emu68logo bs) start_x start_y d;
          d = (case ppclogo bs of
                 None \<Rightarrow> d
               | Some logo \<Rightarrow> draw_logo logo (start_x + el_Width (emu68logo bs)) (start_y + 49) d);
          start_y = start_y + (el_Height (emu68logo bs) + 10);
          d = draw_logo (pistormlogo bs) ((sz_width bs - el_Width (pistormlogo bs)) div 2) start_y d;
          d = fold (put_char ft) (ascii ''PiStorm Classic, '') d;
          d = fold (put_char ft) (version bs) d
      in d\<lparr>text_x := 0, text_y := 0\<rparr>)"

text \<open>
  The text of \<open>platform_report_stealth\<close> below the pictures, whose heights are read from the
  heads of their data.
\<close>

definition stealth_text ::
    "font \<Rightarrow> u32 \<Rightarrow> u32 \<Rightarrow> (nat \<Rightarrow> u8) \<Rightarrow> (nat \<Rightarrow> u8) \<Rightarrow> 'a display_scheme \<Rightarrow> 'a display_scheme" where
  "stealth_text ft width height logo_emu68 logo_pistorm d =
     (let last_x = text_x d; last_y = text_y d;
          logo_h = 10 + (push_bit 8 (ucast (logo_emu68 2)) + ucast (logo_emu68 3));
          logo_h = logo_h + (push_bit 8 (ucast (logo_pistorm 2)) OR ucast (logo_pistorm 3));
          start_y = (height + logo_h) div 2;
          d = d\<lparr>text_y := start_y div 16, text_x := (width - 20 * 8) div 16\<rparr>;
          d = fold (put_char ft) (ascii ''!!! STEALTH MODE !!!'') d
      in d\<lparr>text_x := last_x, text_y := last_y\<rparr>)"

section \<open>The diagnostic panel\<close>

text \<open>The footer is a buffer of 96 bytes, so at most 95 characters of the formatted line stay.\<close>

definition poc_putc :: "nat \<Rightarrow> u8 \<Rightarrow> u8 list \<Rightarrow> u8 list" where
  "poc_putc cap c text = (if length text + 1 < cap then text @ [c] else text)"

definition panel_text ::
    "u8 list list \<Rightarrow> nat \<Rightarrow> u8 list option \<Rightarrow> u8 list \<Rightarrow> nat \<Rightarrow> nat \<Rightarrow> u8 list" where
  "panel_text lines count status footer panel_rows row =
     (if row = 0 then ascii ''Emu68 HDMI AUDIO POC7 LIVE - Classic''
      else if row = panel_rows - 2 then (case status of None \<Rightarrow> [] | Some s \<Rightarrow> s)
      else if row = panel_rows - 1 then footer
      else if row - 1 < count then lines ! (row - 1) else [])"

definition panel_line :: "'a display_scheme \<Rightarrow> nat \<Rightarrow> nat \<Rightarrow> u64" where
  "panel_line d y0 y = framebuffer d + ucast (word_of_nat (y0 + y) * pitch d)"

definition panel_clear :: "nat \<Rightarrow> 'a display_scheme \<Rightarrow> 'a display_scheme" where
  "panel_clear y0 d =
     d\<lparr>vram := fold (\<lambda>y. fold (\<lambda>x. store_half (panel_line d y0 y + 2 * word_of_nat x) (LE16 0x1082)) [0..<unat (fb_width d)])
        [0..<16] (vram d)\<rparr>"

definition panel_char :: "font \<Rightarrow> nat \<Rightarrow> nat \<Rightarrow> u8 \<Rightarrow> 'a display_scheme \<Rightarrow> 'a display_scheme" where
  "panel_char ft y0 col c d =
     (let c = (if c < 32 \<or> c > 127 then 63 else c)
      in if c = 32 then d
         else d\<lparr>vram := draw_glyph ft c (LE16 0xffff) (\<lambda>y. panel_line d y0 y + 2 * word_of_nat (col * 8)) (vram d)\<rparr>)"

definition panel_row :: "font \<Rightarrow> nat \<Rightarrow> u8 list \<Rightarrow> nat \<Rightarrow> 'a display_scheme \<Rightarrow> 'a display_scheme" where
  "panel_row ft maxcols text y0 d =
     fold (\<lambda>(col, c). panel_char ft y0 col c)
       (let shown = takeWhile (\<lambda>c. c \<noteq> 0) (take maxcols text) in zip [0..<length shown] shown)
       (panel_clear y0 d)"

definition hdmi_audio_poc_splash ::
    "font \<Rightarrow> u8 list \<Rightarrow> u8 list list \<Rightarrow> nat \<Rightarrow> u8 list option \<Rightarrow> 'a display_scheme \<Rightarrow> 'a display_scheme" where
  "hdmi_audio_poc_splash ft formatted lines count status d =
     (let cols = unat (fb_width d) div 8; rows = unat (fb_height d) div 16
      in if framebuffer d = 0 \<or> pitch d = 0 \<or> fb_width d = 0 \<or> fb_height d = 0 then d
         else if cols < 12 \<or> rows < 4 then d
         else
           let panel_rows = (if rows < 15 then rows else 15);
               first = rows - panel_rows;
               maxcols = (if cols < 90 then cols else 90);
               footer = fold (poc_putc 96) formatted []
           in fold (\<lambda>row. panel_row ft maxcols (panel_text lines count status footer panel_rows row) ((first + row) * 16))
                (takeWhile (\<lambda>row. \<not> (first + row) * 16 + 16 > unat (fb_height d)) [0..<panel_rows]) d)"

section \<open>The panel stays on the screen\<close>

definition in_frame :: "'a display_scheme \<Rightarrow> u64 \<Rightarrow> bool" where
  "in_frame d a \<longleftrightarrow> unat (a - framebuffer d) < unat (pitch d) * unat (fb_height d)"

definition same_outside :: "'a display_scheme \<Rightarrow> 'a display_scheme \<Rightarrow> bool" where
  "same_outside d d' \<longleftrightarrow> (\<exists>m. d' = d\<lparr>vram := m\<rparr>) \<and> (\<forall>a. \<not> in_frame d a \<longrightarrow> vram d' a = vram d a)"

lemma fold_keeps_at: "(\<And>x m. x \<in> set xs \<Longrightarrow> f x m a = m a) \<Longrightarrow> fold f xs m a = m a"
  by (induction xs arbitrary: m) simp_all

lemma same_outside_refl: "same_outside d d"
  by (simp add: same_outside_def) (rule exI [of _ "vram d"], simp)

lemma same_outside_if:
  "(b \<Longrightarrow> same_outside d e) \<Longrightarrow> (\<not> b \<Longrightarrow> same_outside d f) \<Longrightarrow> same_outside d (if b then e else f)"
  by simp

lemma same_outside_trans: "same_outside d e \<Longrightarrow> same_outside e f \<Longrightarrow> same_outside d f"
  by (auto simp: same_outside_def in_frame_def)

lemma same_outside_fold:
  assumes "\<And>x e. x \<in> set xs \<Longrightarrow> same_outside d e \<Longrightarrow> same_outside e (f x e)"
  shows "same_outside d (fold f xs d)"
proof -
  have "same_outside d e \<Longrightarrow> same_outside d (fold f xs e)" for e
    using assms
  proof (induction xs arbitrary: e)
    case Nil
    then show ?case by simp
  next
    case (Cons x xs)
    have "same_outside d (f x e)"
      using same_outside_trans Cons.prems(1) Cons.prems(2) [of x e] by simp
    then show ?case using Cons.IH Cons.prems(2) by simp
  qed
  then show ?thesis using same_outside_refl by blast
qed

definition frame_ok :: "'a display_scheme \<Rightarrow> bool" where
  "frame_ok d \<longleftrightarrow> 2 * unat (fb_width d) \<le> unat (pitch d) \<and> unat (pitch d) * unat (fb_height d) < 2 ^ 32"

lemma pixel_in_frame:
  assumes "frame_ok d" and "y < unat (fb_height d)" and "x < unat (fb_width d)"
  defines "a \<equiv> framebuffer d + ucast (word_of_nat y * pitch d) + 2 * word_of_nat x"
  shows "in_frame d a" and "in_frame d (a + 1)"
proof -
  let ?P = "unat (pitch d)" and ?H = "unat (fb_height d)"
  have "y + 1 \<le> ?H" using assms(2) by simp
  then have "(y + 1) * ?P \<le> ?H * ?P" by (rule mult_le_mono1)
  then have le: "y * ?P + 2 * x + 1 < ?P * ?H" using assms(1,3) by (simp add: frame_ok_def mult.commute)
  then have small: "y * ?P + 2 * x + 1 < 2 ^ 32" using assms(1) by (simp add: frame_ok_def)
  have "y < 2 ^ 32" using assms(2) unsigned_less [of "fb_height d", where ?'a = nat] by simp
  then have "unat (word_of_nat y * pitch d) = y * ?P"
    using small by (simp add: unat_word_ariths unsigned_of_nat take_bit_nat_eq_self)
  then have line: "ucast (word_of_nat y * pitch d) = (word_of_nat (y * ?P) :: u64)"
    by (simp only: widen_nat)
  have a: "a - framebuffer d = word_of_nat (y * ?P + 2 * x)" "a + 1 - framebuffer d = word_of_nat (y * ?P + 2 * x + 1)"
    unfolding a_def line by simp_all
  have nat: "unat (word_of_nat n :: u64) = n" if "n < 2 ^ 32" for n
    using that by (simp add: unsigned_of_nat take_bit_nat_eq_self)
  show "in_frame d a" "in_frame d (a + 1)"
    unfolding in_frame_def a using nat small le by (simp_all del: of_nat_add of_nat_mult of_nat_Suc)
qed

lemma store_half_outside:
  "in_frame d a \<Longrightarrow> in_frame d (a + 1) \<Longrightarrow> \<not> in_frame d b \<Longrightarrow> store_half a v m b = m b"
  by (auto simp: store_half_apply)

lemma vram_update_outside:
  assumes "\<And>b. \<not> in_frame d b \<Longrightarrow> m b = vram d b"
  shows "same_outside d (d\<lparr>vram := m\<rparr>)"
  using assms by (auto simp: same_outside_def)

lemma panel_clear_outside:
  assumes "frame_ok d" and "y0 + 16 \<le> unat (fb_height d)"
  shows "same_outside d (panel_clear y0 d)"
  unfolding panel_clear_def panel_line_def
proof (rule vram_update_outside, intro fold_keeps_at)
  fix b y x and m :: "u64 \<Rightarrow> u8"
  assume b: "\<not> in_frame d b" and "y \<in> set [0..<16]" and "x \<in> set [0..<unat (fb_width d)]"
  then have "y0 + y < unat (fb_height d)" "x < unat (fb_width d)" using assms(2) by simp_all
  from store_half_outside [OF pixel_in_frame [OF assms(1) this] b]
  show "store_half (framebuffer d + ucast (word_of_nat (y0 + y) * pitch d) + 2 * word_of_nat x) (LE16 4226) m b = m b" .
qed

lemma panel_char_outside:
  assumes "frame_ok d" and "y0 + 16 \<le> unat (fb_height d)" and "col * 8 + 8 \<le> unat (fb_width d)"
  shows "same_outside d (panel_char ft y0 col c d)"
proof -
  have "draw_glyph ft c' v (\<lambda>y. panel_line d y0 y + 2 * word_of_nat (col * 8)) (vram d) b = vram d b"
    if b: "\<not> in_frame d b" for c' v b
    unfolding draw_glyph_def panel_line_def
  proof (intro fold_keeps_at)
    fix y x and m :: "u64 \<Rightarrow> u8"
    assume "y \<in> set [0..<16]" and "x \<in> set [0..<8]"
    then have "y0 + y < unat (fb_height d)" "col * 8 + x < unat (fb_width d)" using assms(2,3) by simp_all
    from store_half_outside [OF pixel_in_frame [OF assms(1) this] b]
    show "(if glyph_byte ft c' y AND drop_bit x 0x80 \<noteq> 0
        then store_half (framebuffer d + ucast (word_of_nat (y0 + y) * pitch d) + 2 * word_of_nat (col * 8) + 2 * word_of_nat x) v m
        else m) b = m b"
      by (simp add: algebra_simps)
  qed
  then show ?thesis
    by (auto simp: panel_char_def Let_def same_outside_refl intro: vram_update_outside)
qed

lemma same_outside_fields:
  assumes "same_outside d e"
  shows "frame_ok e \<longleftrightarrow> frame_ok d" and "fb_height e = fb_height d" and "fb_width e = fb_width d"
  using assms by (auto simp: same_outside_def frame_ok_def)

lemma panel_row_outside:
  assumes "frame_ok d" and "y0 + 16 \<le> unat (fb_height d)" and "maxcols \<le> unat (fb_width d) div 8"
  shows "same_outside d (panel_row ft maxcols text y0 d)"
proof -
  let ?d = "panel_clear y0 d"
  let ?shown = "takeWhile (\<lambda>c. c \<noteq> 0) (take maxcols text)"
  have clear: "same_outside d ?d" by (rule panel_clear_outside [OF assms(1,2)])
  have "length ?shown \<le> maxcols"
    by (rule order_trans [OF length_takeWhile_le]) simp
  then have col: "col * 8 + 8 \<le> unat (fb_width d)" if "(col, c) \<in> set (zip [0..<length ?shown] ?shown)" for col c
    using that assms(3) by (auto dest!: set_zip_leftD)
  have "same_outside ?d (fold (\<lambda>(col, c). panel_char ft y0 col c) (zip [0..<length ?shown] ?shown) ?d)"
  proof (rule same_outside_fold)
    fix x e assume x: "x \<in> set (zip [0..<length ?shown] ?shown)" and "same_outside ?d e"
    then have e: "same_outside d e" using clear same_outside_trans by blast
    show "same_outside e ((case x of (col, c) \<Rightarrow> panel_char ft y0 col c) e)"
      using panel_char_outside [of e y0] same_outside_fields [OF e] assms col x by (cases x) simp
  qed
  then show ?thesis
    unfolding panel_row_def Let_def using clear same_outside_trans by blast
qed

text \<open>
  The diagnostic panel writes no byte outside the frame buffer, whatever the lines, the
  status and the size of the display, and it changes nothing of the display but its memory.
\<close>

theorem splash_stays_in_frame:
  assumes "2 * unat (fb_width d) \<le> unat (pitch d)" and "unat (pitch d) * unat (fb_height d) < 2 ^ 32"
  shows "\<exists>m. hdmi_audio_poc_splash ft formatted lines count status d = d\<lparr>vram := m\<rparr> \<and>
     (\<forall>a. unat (a - framebuffer d) \<ge> unat (pitch d) * unat (fb_height d) \<longrightarrow> m a = vram d a)"
proof -
  have ok: "frame_ok d" using assms by (simp add: frame_ok_def)
  have rows: "same_outside d (fold (\<lambda>row. panel_row ft maxcols (lns row) ((first + row) * 16))
      (takeWhile (\<lambda>row. \<not> (first + row) * 16 + 16 > unat (fb_height d)) [0..<n]) d)"
    if "maxcols \<le> unat (fb_width d) div 8" for maxcols lns first n
  proof (rule same_outside_fold)
    fix row e assume "row \<in> set (takeWhile (\<lambda>row. \<not> (first + row) * 16 + 16 > unat (fb_height d)) [0..<n])" and e: "same_outside d e"
    then have "(first + row) * 16 + 16 \<le> unat (fb_height d)" by (auto dest!: set_takeWhileD)
    then show "same_outside e (panel_row ft maxcols (lns row) ((first + row) * 16) e)"
      using panel_row_outside [of e] same_outside_fields [OF e] ok that by simp
  qed
  have "same_outside d (hdmi_audio_poc_splash ft formatted lines count status d)"
    unfolding hdmi_audio_poc_splash_def Let_def by (intro same_outside_if same_outside_refl rows) simp_all
  then show ?thesis by (auto simp: same_outside_def in_frame_def)
qed

theorem splash_stays_in_frame_witness:
  "\<exists>m. hdmi_audio_poc_splash \<lparr>topaz8_charloc = (\<lambda>_. 0), topaz8_chardata = (\<lambda>_. 0xff)\<rparr> [] [[65]] 1 None demo_display =
       demo_display\<lparr>vram := m\<rparr> \<and> m 0x5000 = 0"
proof -
  have "2 * unat (fb_width demo_display) \<le> unat (pitch demo_display)"
    "unat (pitch demo_display) * unat (fb_height demo_display) < 2 ^ 32"
    by (simp_all add: demo_display_def)
  from splash_stays_in_frame [OF this, of "\<lparr>topaz8_charloc = (\<lambda>_. 0), topaz8_chardata = (\<lambda>_. 0xff)\<rparr>" "[]" "[[65]]" 1 None]
  show ?thesis by (auto simp: demo_display_def)
qed

end
