(* ===== verification/MixerPanel.thy ===== *)
theory MixerPanel
  imports SysMemory
begin

text \<open>
  The control panel for the Amiga, \<open>source/PaulaMixer.c\<close>: it shows the mixer settings and
  sends them through the register bank of \<open>Probe\<close>. The widgets belong to a system
  library; what the program gives them is kept: whether they are enabled, the levels set and
  the texts, each formatted text as its arguments. While one message is handled the bank does
  not change under the program; between messages it does.
\<close>

section \<open>State\<close>

datatype label =
  Percent u32
| Channel nat u32 bool
| No_channel nat
| Words string
| Totals u32 u32 bool

record mixer =
  bank :: metrics
  master :: u32
  stereo :: u32
  interp :: u32
  mute :: "nat \<Rightarrow> u32"
  present :: bool
  backend :: bool
  initialized :: bool
  active_slider :: nat
  requested_word :: u32
  applied_word :: u32
  remote_defaults :: u32
  controls_disabled :: bool
  shown_levels :: "u32 \<times> u32 \<times> u32"
  shown_mutes :: "nat \<Rightarrow> u32"
  master_text :: label
  stereo_text :: label
  channel_text :: "nat \<Rightarrow> label"
  status_text :: "nat \<Rightarrow> label"
  running :: bool

abbreviation (input) G_MASTER :: nat where "G_MASTER \<equiv> 1"
abbreviation (input) G_STEREO :: nat where "G_STEREO \<equiv> 2"
abbreviation (input) G_INTERP :: nat where "G_INTERP \<equiv> 3"
abbreviation (input) G_MUTE0 :: nat where "G_MUTE0 \<equiv> 4"
abbreviation (input) G_MUTE3 :: nat where "G_MUTE3 \<equiv> 7"
abbreviation (input) G_DEFAULTS :: nat where "G_DEFAULTS \<equiv> 8"
abbreviation (input) G_CLOSE :: nat where "G_CLOSE \<equiv> 9"

section \<open>The bank\<close>

text \<open>A long word access at an index of the bank is one of the firmware's bus handlers.\<close>

definition bank_address :: "nat \<Rightarrow> u64" where
  "bank_address index = PAULA_PROBE_BASE + 4 * word_of_nat index"

definition write_word :: "nat \<Rightarrow> u32 \<Rightarrow> mixer \<Rightarrow> mixer" where
  "write_word index v s = s\<lparr>bank := snd (paula_probe_bus_write (ucast v) 4 (bank_address index) (bank s))\<rparr>"

definition read_word :: "nat \<Rightarrow> mixer \<Rightarrow> u32" where
  "read_word index s =
     (case paula_probe_bus_read (bank s) True False 4 (bank_address index) of
        (_, Some v, _) \<Rightarrow> ucast v | _ \<Rightarrow> 0)"

section \<open>Settings\<close>

definition settings_word :: "mixer \<Rightarrow> u32" where
  "settings_word s =
     paula_mixer_pack (master s) (stereo s) (interp s)
       (fold (\<lambda>ch m. if mute s ch \<noteq> 0 then m OR push_bit ch 1 else m) [0..<4] 0)"

definition enable_controls :: "bool \<Rightarrow> mixer \<Rightarrow> mixer" where
  "enable_controls e s = s\<lparr>controls_disabled := \<not> e\<rparr>"

definition load_settings :: "u32 \<Rightarrow> mixer \<Rightarrow> mixer" where
  "load_settings word s =
     (if \<not> paula_mixer_valid word then s
      else
        let s = s\<lparr>master := word AND 127, stereo := drop_bit 7 word AND 127, interp := drop_bit 14 word AND 1\<rparr>;
            s = s\<lparr>shown_levels := (master s, stereo s, interp s)\<rparr>
        in fold (\<lambda>i s. s\<lparr>mute := (mute s)(i := drop_bit (15 + i) word AND 1),
                         shown_mutes := (shown_mutes s)(i := drop_bit (15 + i) word AND 1)\<rparr>) [0..<4] s)"

definition send_settings :: "mixer \<Rightarrow> mixer" where
  "send_settings s =
     (if \<not> backend s \<or> \<not> initialized s then s
      else
        let word = settings_word s
        in if \<not> paula_mixer_valid word then s
           else
             let s = write_word PM_REQUEST word s;
                 s = s\<lparr>requested_word := read_word PM_REQUEST s\<rparr>
             in if requested_word s \<noteq> word
                then enable_controls False (s\<lparr>backend := False, initialized := False, active_slider := 0\<rparr>)
                else s)"

section \<open>Refresh\<close>

definition mixer_available :: "u32 \<Rightarrow> mixer \<Rightarrow> bool" where
  "mixer_available flags s \<longleftrightarrow>
     present s \<and> flags AND (PP_FLAG_HDMI_READY OR PP_FLAG_RENDERING) = PP_FLAG_HDMI_READY OR PP_FLAG_RENDERING \<and>
     flags AND PP_FLAG_MAI_FAILED = 0 \<and>
     read_word PM_MAGIC s = PAULA_MIXER_MAGIC \<and> read_word PM_VERSION s = PAULA_MIXER_VERSION"

definition connect_backend :: "bool \<Rightarrow> mixer \<Rightarrow> mixer" where
  "connect_backend available s =
     (if available \<and> \<not> backend s
      then
        let word = read_word PM_REQUEST s; dflt = read_word PM_DEFAULTS s
        in if paula_mixer_valid word \<and> paula_mixer_valid dflt
           then
             let s = load_settings word (s\<lparr>backend := True, remote_defaults := dflt, requested_word := word\<rparr>)
             in enable_controls True (s\<lparr>initialized := True\<rparr>)
           else s
      else if \<not> available \<and> backend s
      then enable_controls False (s\<lparr>backend := False, initialized := False, active_slider := 0\<rparr>)
      else s)"

definition follow_backend :: "mixer \<Rightarrow> mixer" where
  "follow_backend s =
     (if backend s
      then
        let word = read_word PM_REQUEST s; s = s\<lparr>applied_word := read_word PM_APPLIED s\<rparr>
        in if paula_mixer_valid word
           then if word \<noteq> requested_word s \<and> active_slider s = 0
                then (load_settings word s)\<lparr>requested_word := word\<rparr> else s
           else enable_controls False (s\<lparr>backend := False, initialized := False\<rparr>)
      else s)"

definition show_channels :: "u32 \<Rightarrow> mixer \<Rightarrow> mixer" where
  "show_channels dma s =
     fold (\<lambda>ch s. s\<lparr>channel_text := (channel_text s)(ch :=
              (if present s
               then Channel (ch + 1) (read_word (PP_CHANNEL_BASE + ch * PP_CHANNEL_STRIDE + PP_CH_VOL) s)
                      (dma AND (0x0200 OR push_bit ch 1) = 0x0200 OR push_bit ch 1)
               else No_channel (ch + 1)))\<rparr>) [0..<4] s"

definition show_status :: "u32 \<Rightarrow> mixer \<Rightarrow> mixer" where
  "show_status flags s =
     (if \<not> present s
      then s\<lparr>status_text := (status_text s)(0 := Words ''Firmware: unavailable'',
                                          1 := Words ''No matching PaulaProbe v1 interface'')\<rparr>
      else s\<lparr>status_text := (status_text s)(
               0 := Words (if flags AND PP_FLAG_MAI_FAILED \<noteq> 0 then ''HDMI: FAILED''
                           else if flags AND PP_FLAG_HDMI_READY \<noteq> 0
                           then if backend s then ''HDMI: active - Mixer live''
                                else ''HDMI: active - Mixer backend unavailable''
                           else ''HDMI: initializing''),
               1 := Totals (read_word PP_DROPPED s) (read_word PP_RESYNCS s)
                      (backend s \<and> applied_word s \<noteq> requested_word s))\<rparr>)"

definition update_values :: "mixer \<Rightarrow> mixer" where
  "update_values s =
     (let s = s\<lparr>master_text := Percent (master s), stereo_text := Percent (stereo s)\<rparr>;
          s = s\<lparr>present := (read_word PP_MAGIC s = PAULA_PROBE_MAGIC \<and> read_word PP_VERSION s = PAULA_PROBE_VERSION \<and>
                          read_word PP_WORDS s = word_of_nat PAULA_PROBE_WORDS)\<rparr>;
          flags = (if present s then read_word PP_FLAGS s else 0);
          dma = (if present s then read_word PP_DMACON s else 0);
          s = connect_backend (mixer_available flags s) s;
          s = follow_backend s;
          s = show_channels dma s
      in show_status flags s)"

section \<open>Messages\<close>

datatype idcmp = CLOSEWINDOW | VANILLAKEY | REFRESHWINDOW | GADGETUP | GADGETDOWN | MOUSEMOVE | OTHER_CLASS

text \<open>Class, code and, if the message names a gadget, its number.\<close>

type_synonym message = "idcmp \<times> u16 \<times> nat option"

definition defaults :: "mixer \<Rightarrow> mixer" where
  "defaults s =
     (if \<not> backend s then s else update_values (send_settings (load_settings (remote_defaults s) s)))"

definition slider_state :: "idcmp \<Rightarrow> nat \<Rightarrow> mixer \<Rightarrow> mixer" where
  "slider_state cls g s =
     (if cls = GADGETDOWN then s\<lparr>active_slider := g\<rparr> else if cls = GADGETUP then s\<lparr>active_slider := 0\<rparr> else s)"

definition gadget_action :: "idcmp \<Rightarrow> u16 \<Rightarrow> nat \<Rightarrow> mixer \<Rightarrow> mixer" where
  "gadget_action cls code g s =
     (if g = G_MASTER \<and> backend s \<and> code \<le> 100
      then send_settings (slider_state cls G_MASTER (s\<lparr>master := ucast code\<rparr>))
      else if g = G_STEREO \<and> backend s \<and> code \<le> 100
      then send_settings (slider_state cls G_STEREO (s\<lparr>stereo := ucast code\<rparr>))
      else if g = G_INTERP \<and> backend s \<and> cls = GADGETUP
      then send_settings (s\<lparr>interp := ucast code\<rparr>)
      else if backend s \<and> G_MUTE0 \<le> g \<and> g \<le> G_MUTE3
      then send_settings (s\<lparr>mute := (mute s)(g - G_MUTE0 := if code \<noteq> 0 then 1 else 0)\<rparr>)
      else if g = G_DEFAULTS \<and> cls = GADGETUP then defaults s
      else if g = G_CLOSE \<and> cls = GADGETUP then s\<lparr>running := False\<rparr>
      else s)"

definition handle_message :: "message \<Rightarrow> mixer \<Rightarrow> mixer" where
  "handle_message msg s =
     (case msg of (cls, code, gadget) \<Rightarrow>
        let g = (if cls = MOUSEMOVE then active_slider s else case gadget of Some g \<Rightarrow> g | None \<Rightarrow> 0)
        in if cls = CLOSEWINDOW \<or> cls = VANILLAKEY \<and> code = 27 then s\<lparr>running := False\<rparr>
           else if cls = REFRESHWINDOW then update_values s
           else if cls = GADGETUP \<or> cls = GADGETDOWN \<or> cls = MOUSEMOVE \<and> active_slider s \<noteq> 0
           then update_values (gadget_action cls code g s)
           else s)"

text \<open>One pass of the loop in \<open>main\<close>: the break signal, the pending messages, the timer.\<close>

definition main_pass :: "bool \<Rightarrow> message list \<Rightarrow> bool \<Rightarrow> mixer \<Rightarrow> mixer" where
  "main_pass ctrl_c msgs timer s =
     (let s = (if ctrl_c then s\<lparr>running := False\<rparr> else s);
          s = fold handle_message msgs s
      in if timer then update_values s else s)"

definition mixer_start :: "metrics \<Rightarrow> mixer" where
  "mixer_start m =
     \<lparr>bank = m, master = 100, stereo = 100, interp = 0, mute = (\<lambda>_. 0), present = False, backend = False,
      initialized = False, active_slider = 0, requested_word = 0, applied_word = 0, remote_defaults = PM_DEFAULT,
      controls_disabled = True, shown_levels = (100, 100, 0), shown_mutes = (\<lambda>_. 0),
      master_text = Words '''', stereo_text = Words '''', channel_text = (\<lambda>i. No_channel (i + 1)),
      status_text = (\<lambda>i. Words (if i = 0 then ''HDMI: initializing'' else '''')), running = True\<rparr>"

section \<open>The bank behind the decoder\<close>

lemma narrow_widen [simp]: "ucast (ucast v :: u64) = v" for v :: u32
  by (rule bit_word_eqI) (auto simp: bit_simps)

lemma unat_bank_address: "index < 128 \<Longrightarrow> unat (bank_address index) = 0xdeadb000 + 4 * index"
  by (simp add: bank_address_def unat_word_ariths unsigned_of_nat take_bit_nat_eq_self)

lemma bank_address_fields:
  assumes "index < 128"
  shows "drop_bit 32 (bank_address index) = 0" and "fold_address (bank_address index) = bank_address index"
    and "bank_address index < 0xdeadb000 \<longleftrightarrow> False" and "0xdeadb200 \<le> bank_address index \<longleftrightarrow> False"
    and "bank_address index - 0xdeadb000 = 4 * word_of_nat index"
proof -
  note u = unat_bank_address [OF assms]
  show d: "drop_bit 32 (bank_address index) = 0"
    using assms by (simp add: word_unat_eq_iff drop_bit_eq_div unat_div u)
  show "fold_address (bank_address index) = bank_address index" by (simp add: fold_address_def d)
  show "bank_address index < 0xdeadb000 \<longleftrightarrow> False" "0xdeadb200 \<le> bank_address index \<longleftrightarrow> False"
    using assms by (simp_all add: word_less_nat_alt word_le_nat_alt u)
  show "bank_address index - 0xdeadb000 = 4 * word_of_nat index" by (simp add: bank_address_def)
qed

lemma bank_offset:
  assumes "index < 128"
  shows "unat (drop_bit 2 (ucast (4 * word_of_nat index :: u64) :: u32)) = index"
    and "ucast (4 * word_of_nat index :: u64) AND 3 = (0 :: u32)"
proof -
  have n: "unat (ucast (4 * word_of_nat index :: u64) :: u32) = 4 * index"
    using assms by (simp add: unsigned_ucast_eq unat_word_ariths unsigned_of_nat take_bit_nat_eq_self)
  then show "unat (drop_bit 2 (ucast (4 * word_of_nat index :: u64) :: u32)) = index"
    by (simp add: drop_bit_eq_div unat_div)
  have "ucast (4 * word_of_nat index :: u64) = (push_bit 2 (word_of_nat index) :: u32)"
    by (rule word_unat_eq_iff [THEN iffD2], simp only: n)
      (use assms in \<open>simp add: push_bit_eq_mult unat_word_ariths unsigned_of_nat take_bit_nat_eq_self\<close>)
  then show "ucast (4 * word_of_nat index :: u64) AND 3 = (0 :: u32)"
    by (simp only:) (rule bit_word_eqI, auto simp: bit_simps bits)
qed

lemma read_word_get: "index < 128 \<Longrightarrow> read_word index s = paula_probe_get (bank s) index"
  by (simp add: read_word_def paula_probe_bus_read_def bank_address_fields Let_def bank_offset)

lemma write_request:
  "write_word PM_REQUEST v s = (if paula_mixer_valid v then s\<lparr>bank := (bank s)(PM_REQUEST := v)\<rparr> else s)"
  using bank_address_fields [of PM_REQUEST]
  by (simp add: write_word_def paula_probe_bus_write_def)

text \<open>
  The decoder hands the accesses of the panel to the register bank: a long word write
  or read of a bank register through the address decoder has the effect the panel's model gives
  it, and reaches neither the bus nor any other part of the machine.
\<close>

theorem panel_reaches_bank:
  assumes "index < 128"
  shows "SYSWriteValToAddr cf (ucast (v :: u32)) 0 4 (bank_address index) s =
       Some (True, s\<lparr>metrics := bank (write_word index v (p\<lparr>bank := metrics s\<rparr>))\<rparr>) \<and>
     SYSReadValFromAddr cf False 4 (bank_address index) s =
       Some ((True, Some (ucast (read_word index (p\<lparr>bank := metrics s\<rparr>))), None), s)"
proof -
  note a = bank_address_fields [OF assms]
  have free: "\<not> scsi_blocked (bank_address index) s" "write_int_shadow w (bank_address index) s = s" for w
  proof -
    have "bank_address index \<noteq> INTENA" "bank_address index \<noteq> INTREQ" "\<not> bank_address index \<le> 0x00da7fff"
      using unat_bank_address [OF assms] by (auto simp: word_le_nat_alt)
    then show "\<not> scsi_blocked (bank_address index) s" "write_int_shadow w (bank_address index) s = s"
      by (simp_all add: scsi_blocked_def write_int_shadow_def)
  qed
  have wr: "paula_probe_bus_write (ucast v) 4 (bank_address index) (metrics s) =
      (True, bank (write_word index v (p\<lparr>bank := metrics s\<rparr>)))"
    by (simp add: write_word_def paula_probe_bus_write_def a)
  have rd: "paula_probe_bus_read (metrics s) True False 4 (bank_address index) =
      (True, Some (ucast (read_word index (p\<lparr>bank := metrics s\<rparr>))), None)"
    using bank_offset [OF assms] by (simp add: read_word_def paula_probe_bus_read_def a Let_def)
  have "SYSWriteValToAddr cf (ucast v) 0 4 (bank_address index) s =
      Some (True, s\<lparr>metrics := bank (write_word index v (p\<lparr>bank := metrics s\<rparr>))\<rparr>)"
    unfolding SYSWriteValToAddr_def Let_def a(2) free(2) wr prod.case
    by (subst if_not_P, simp only: a(1) simp_thms, subst if_not_P, rule free(1), subst if_P, rule TrueI, rule refl)
  moreover have "SYSReadValFromAddr cf False 4 (bank_address index) s =
      Some ((True, Some (ucast (read_word index (p\<lparr>bank := metrics s\<rparr>))), None), s)"
    by (simp add: SYSReadValFromAddr_def rd Let_def)
  ultimately show ?thesis ..
qed

theorem panel_reaches_bank_witness:
  "SYSReadValFromAddr pi_config False 4 (bank_address PP_MAGIC) (sys_demo (\<lambda>_. 0)) =
     Some ((True, Some 0x5041554c, None), sys_demo (\<lambda>_. 0))"
  using panel_reaches_bank [of PP_MAGIC pi_config 0 "sys_demo (\<lambda>_. 0)" "mixer_start (\<lambda>_. 0)"]
  by (simp add: read_word_get paula_probe_get_def)

section \<open>The panel and the firmware agree\<close>

datatype panel_event =
  Message message
| Timer
| Firmware probe_op

fun panel_step :: "panel_event \<Rightarrow> mixer \<Rightarrow> mixer" where
  "panel_step (Message msg) s = handle_message msg s"
| "panel_step Timer s = update_values s"
| "panel_step (Firmware a) s = s\<lparr>bank := probe_step a (bank s)\<rparr>"

definition panel_inv :: "mixer \<Rightarrow> bool" where
  "panel_inv s \<longleftrightarrow>
     master s \<le> 100 \<and> stereo s \<le> 100 \<and> paula_mixer_valid (bank s PM_REQUEST) \<and>
     initialized s = backend s \<and> controls_disabled s = (\<not> backend s) \<and>
     paula_mixer_valid (remote_defaults s) \<and>
     (backend s \<longrightarrow> settings_word s = requested_word s)"

lemma four: "[0..<4] = [0, 1, 2, 3 :: nat]"
  by (simp add: upt_rec)

lemma less_four: "n < 4 \<Longrightarrow> n = 0 \<or> n = 1 \<or> n = 2 \<or> n = 3" for n :: nat
  by arith

lemma settings_valid: "master s \<le> 100 \<Longrightarrow> stereo s \<le> 100 \<Longrightarrow> paula_mixer_valid (settings_word s)"
  by (simp add: settings_word_def pack_valid)

lemma mute_mask:
  fixes w :: u32
  defines "b \<equiv> \<lambda>i. drop_bit (15 + i) w AND 1"
  shows "fold (\<lambda>ch m. if b ch \<noteq> 0 then m OR push_bit ch 1 else m) [0..<4] 0 = drop_bit 15 w AND 15"
proof -
  have b: "b i \<noteq> 0 \<longleftrightarrow> bit w (15 + i)" for i
    by (simp add: b_def bit_iff_and_drop_bit_eq_1 and_one_eq odd_iff_mod_2_eq_one even_iff_mod_2_eq_zero)
  show ?thesis
    unfolding four by (rule bit_word_eqI) (auto simp: b bit_simps bits dest!: less_four)
qed

lemma load_settings_word:
  assumes "paula_mixer_valid w"
  shows "settings_word (load_settings w s) = w" and "master (load_settings w s) \<le> 100" and "stereo (load_settings w s) \<le> 100"
proof -
  have m: "mute (load_settings w s) ch = drop_bit (15 + ch) w AND 1" if "ch < 4" for ch
    using that assms by (auto simp: load_settings_def Let_def four less_Suc_eq numeral_eq_Suc)
  have f: "master (load_settings w s) = w AND 127" "stereo (load_settings w s) = drop_bit 7 w AND 127"
      "interp (load_settings w s) = drop_bit 14 w AND 1"
    using assms by (simp_all add: load_settings_def Let_def four)
  show "master (load_settings w s) \<le> 100" "stereo (load_settings w s) \<le> 100"
    using assms by (simp_all add: f paula_mixer_valid_def)
  have "fold (\<lambda>ch m. if mute (load_settings w s) ch \<noteq> 0 then m OR push_bit ch 1 else m) [0..<4] 0 = drop_bit 15 w AND 15"
    unfolding mute_mask [of w, symmetric] by (rule fold_cong) (simp_all add: m)
  then show "settings_word (load_settings w s) = w"
    using valid_is_pack [OF assms] by (simp add: settings_word_def f)
qed

lemma load_settings_frame [simp]:
  "bank (load_settings w s) = bank s" "backend (load_settings w s) = backend s"
  "initialized (load_settings w s) = initialized s" "controls_disabled (load_settings w s) = controls_disabled s"
  "requested_word (load_settings w s) = requested_word s" "remote_defaults (load_settings w s) = remote_defaults s"
  "active_slider (load_settings w s) = active_slider s" "applied_word (load_settings w s) = applied_word s"
  by (simp_all add: load_settings_def Let_def four)

lemma settings_frame [simp]:
  "settings_word (s\<lparr>bank := m\<rparr>) = settings_word s" "settings_word (s\<lparr>requested_word := r\<rparr>) = settings_word s"
  "settings_word (s\<lparr>applied_word := r\<rparr>) = settings_word s" "settings_word (s\<lparr>active_slider := i\<rparr>) = settings_word s"
  "settings_word (s\<lparr>controls_disabled := d\<rparr>) = settings_word s" "settings_word (s\<lparr>present := d\<rparr>) = settings_word s"
  "settings_word (s\<lparr>backend := d\<rparr>) = settings_word s" "settings_word (s\<lparr>initialized := d\<rparr>) = settings_word s"
  "settings_word (s\<lparr>running := d\<rparr>) = settings_word s" "settings_word (s\<lparr>status_text := f\<rparr>) = settings_word s"
  "settings_word (s\<lparr>channel_text := f\<rparr>) = settings_word s" "settings_word (s\<lparr>master_text := x\<rparr>) = settings_word s"
  "settings_word (s\<lparr>stereo_text := x\<rparr>) = settings_word s"
  by (simp_all add: settings_word_def)

lemma request_read [simp]: "read_word PM_REQUEST s = bank s PM_REQUEST"
  by (simp add: read_word_get paula_probe_get_def)

lemma send_settings_effect:
  assumes "master s \<le> 100" and "stereo s \<le> 100" and "backend s" and "initialized s"
  shows "send_settings s = s\<lparr>bank := (bank s)(PM_REQUEST := settings_word s), requested_word := settings_word s\<rparr>"
  using assms settings_valid [OF assms(1,2)] by (simp add: send_settings_def write_request Let_def)

lemma send_inv:
  assumes "master s \<le> 100" and "stereo s \<le> 100" and "backend s" and "initialized s" and "\<not> controls_disabled s"
    and "paula_mixer_valid (remote_defaults s)"
  shows "panel_inv (send_settings s)"
  using assms settings_valid [OF assms(1,2)] by (simp add: send_settings_effect panel_inv_def)

text \<open>Texts and levels shown do not matter to the invariant.\<close>

lemma connect_inv:
  assumes "panel_inv s"
  shows "panel_inv (connect_backend available s)"
  using assms
  by (auto simp: connect_backend_def panel_inv_def Let_def enable_controls_def load_settings_word)

lemma follow_inv:
  assumes "panel_inv s"
  shows "panel_inv (follow_backend s)"
    and "backend (follow_backend s) \<Longrightarrow> active_slider (follow_backend s) = 0 \<Longrightarrow>
      settings_word (follow_backend s) = bank (follow_backend s) PM_REQUEST"
  using assms
  by (auto simp: follow_backend_def panel_inv_def Let_def enable_controls_def load_settings_word split: if_splits)

lemma show_keeps:
  "\<exists>f. show_channels dma s = s\<lparr>channel_text := f\<rparr>" "\<exists>f. show_status flags s = s\<lparr>status_text := f\<rparr>"
  by (auto simp: show_channels_def show_status_def four)

lemma update_inv:
  assumes "panel_inv s"
  shows "panel_inv (update_values s)"
    and "backend (update_values s) \<Longrightarrow> active_slider (update_values s) = 0 \<Longrightarrow>
      settings_word (update_values s) = bank (update_values s) PM_REQUEST"
proof -
  obtain x y p where "update_values s = (let s = s\<lparr>master_text := x, stereo_text := y, present := p\<rparr>;
      flags = (if p then read_word PP_FLAGS s else 0); dma = (if p then read_word PP_DMACON s else 0)
    in show_status flags (show_channels dma (follow_backend (connect_backend (mixer_available flags s) s))))"
    by (simp add: update_values_def Let_def)
  moreover have "panel_inv (s\<lparr>master_text := x, stereo_text := y, present := p\<rparr>)"
    using assms by (simp add: panel_inv_def)
  ultimately obtain s' flags dma where s': "panel_inv s'"
    and u: "update_values s = show_status flags (show_channels dma (follow_backend s'))"
    unfolding Let_def using connect_inv by blast
  obtain f where f: "show_channels dma (follow_backend s') = follow_backend s'\<lparr>channel_text := f\<rparr>"
    using show_keeps(1) by blast
  obtain g where g: "update_values s = follow_backend s'\<lparr>channel_text := f, status_text := g\<rparr>"
    using show_keeps(2) [of flags "follow_backend s'\<lparr>channel_text := f\<rparr>"] u f by auto
  show "panel_inv (update_values s)" using follow_inv(1) [OF s'] by (simp add: g panel_inv_def)
  show "backend (update_values s) \<Longrightarrow> active_slider (update_values s) = 0 \<Longrightarrow>
      settings_word (update_values s) = bank (update_values s) PM_REQUEST"
    using follow_inv(2) [OF s'] by (simp add: g)
qed

lemma slider_keeps: "\<exists>i. slider_state cls g s = s\<lparr>active_slider := i\<rparr>"
  by (auto simp: slider_state_def intro: exI [of _ "active_slider s"])

lemma action_inv:
  assumes "panel_inv s"
  shows "panel_inv (gadget_action cls code g s)"
proof -
  obtain i j where i: "slider_state cls G_MASTER (s\<lparr>master := ucast code\<rparr>) = s\<lparr>master := ucast code, active_slider := i\<rparr>"
    and j: "slider_state cls G_STEREO (s\<lparr>stereo := ucast code\<rparr>) = s\<lparr>stereo := ucast code, active_slider := j\<rparr>"
    using slider_keeps by metis
  have code: "code \<le> 100 \<Longrightarrow> (ucast code :: u32) \<le> 100"
    by (simp add: word_le_nat_alt unsigned_ucast_eq)
  have f: "master s \<le> 100" "stereo s \<le> 100" "paula_mixer_valid (remote_defaults s)"
    "backend s \<Longrightarrow> initialized s" "backend s \<Longrightarrow> \<not> controls_disabled s"
    using assms by (simp_all add: panel_inv_def)
  have dflt: "panel_inv (defaults s)"
  proof (cases "backend s")
    case True
    have "panel_inv (send_settings (load_settings (remote_defaults s) s))"
      by (rule send_inv) (use f True load_settings_word [of "remote_defaults s" s] in simp_all)
    then show ?thesis using True by (simp add: defaults_def update_inv(1))
  next
    case False
    then show ?thesis using assms by (simp add: defaults_def)
  qed
  have stop: "panel_inv (s\<lparr>running := False\<rparr>)" using assms by (simp add: panel_inv_def)
  show ?thesis
    using assms unfolding gadget_action_def i j by (auto intro!: send_inv dflt stop simp: f code)
qed

lemma step_inv:
  assumes "panel_inv s"
  shows "panel_inv (panel_step e s)"
proof (cases e)
  case (Message msg)
  have stop: "panel_inv (s\<lparr>running := False\<rparr>)" using assms by (simp add: panel_inv_def)
  show ?thesis
    using assms stop by (auto simp: Message handle_message_def Let_def split: prod.split intro: update_inv(1) action_inv)
next
  case Timer
  then show ?thesis using assms by (simp add: update_inv(1))
next
  case (Firmware a)
  then show ?thesis using assms request_stays_valid [of "bank s" a] by (simp add: panel_inv_def)
qed

lemma start_inv: "paula_mixer_valid (m PM_REQUEST) \<Longrightarrow> panel_inv (mixer_start m)"
  by (simp add: panel_inv_def mixer_start_def)

lemma run_inv: "panel_inv s \<Longrightarrow> panel_inv (fold panel_step es s)"
  by (induction es arbitrary: s) (simp_all add: step_inv)

text \<open>
  C34: the panel and the firmware agree. After any sequence of user messages, timer refreshes
  and changes of the bank by the firmware or another program, a connected panel has enabled
  controls and holds the settings it last sent or read; and after a refresh with no slider held
  its settings are the request in the bank. A panel that is not connected has its controls
  disabled.
\<close>

theorem mixer_panel_agrees:
  "let s = fold panel_step es (update_values (mixer_start (paula_probe_init m))); t = update_values s
   in initialized s = backend s \<and> controls_disabled s = (\<not> backend s) \<and>
      (backend s \<longrightarrow> settings_word s = requested_word s) \<and> paula_mixer_valid (bank s PM_REQUEST) \<and>
      (backend t \<and> active_slider t = 0 \<longrightarrow> settings_word t = bank t PM_REQUEST)"
proof -
  let ?s = "fold panel_step es (update_values (mixer_start (paula_probe_init m)))"
  have "panel_inv ?s"
    by (intro run_inv update_inv(1) start_inv) (simp add: paula_probe_init_def)
  then show ?thesis
    using update_inv(2) [of ?s] by (simp add: panel_inv_def Let_def)
qed

lemma refresh_keeps [simp]:
  "bank (connect_backend a s) = bank s" "bank (follow_backend s) = bank s"
  "bank (show_channels dma s) = bank s" "bank (show_status flags s) = bank s"
  "active_slider (follow_backend s) = active_slider s"
  "active_slider (show_channels dma s) = active_slider s" "active_slider (show_status flags s) = active_slider s"
  by (simp_all add: connect_backend_def follow_backend_def enable_controls_def show_channels_def show_status_def four Let_def)

lemma connect_slider: "active_slider s = 0 \<Longrightarrow> active_slider (connect_backend a s) = 0"
  by (simp add: connect_backend_def enable_controls_def Let_def)

lemma update_keeps:
  "bank (update_values s) = bank s" "active_slider s = 0 \<Longrightarrow> active_slider (update_values s) = 0"
  by (simp_all add: update_values_def Let_def connect_slider)

lemma connects:
  assumes "panel_inv s" and "bank s PP_FLAGS = 6"
  shows "backend (update_values s)"
proof -
  have r: "read_word i s = paula_probe_get (bank s) i" if "i < 128" for i s using that by (rule read_word_get)
  show ?thesis
    using assms(1) [unfolded panel_inv_def] assms(2)
    by (simp add: update_values_def Let_def r paula_probe_get_def mixer_available_def connect_backend_def
        follow_backend_def enable_controls_def show_channels_def show_status_def four)
qed

theorem mixer_panel_agrees_witness:
  "let t = update_values (fold panel_step [Firmware (PSet PP_FLAGS 6), Timer]
      (update_values (mixer_start (paula_probe_init (\<lambda>_. 0)))))
   in backend t \<and> settings_word t = bank t PM_REQUEST"
proof -
  let ?es = "[Firmware (PSet PP_FLAGS 6), Timer]" and ?s0 = "update_values (mixer_start (paula_probe_init (\<lambda>_. 0)))"
  have inv: "panel_inv (fold panel_step ?es ?s0)"
    by (intro run_inv update_inv(1) start_inv) (simp add: paula_probe_init_def)
  have "bank (fold panel_step ?es ?s0) PP_FLAGS = 6" by (simp add: update_keeps paula_probe_set_def)
  then have b: "backend (update_values (fold panel_step ?es ?s0))" by (rule connects [OF inv])
  have "active_slider ?s0 = 0" by (rule update_keeps(2)) (simp add: mixer_start_def)
  then have "active_slider (update_values (fold panel_step ?es ?s0)) = 0" by (simp add: update_keeps(2))
  with b show ?thesis using mixer_panel_agrees [of ?es "\<lambda>_. 0"] by (simp only: Let_def simp_thms)
qed

end
