(* ===== verification/BootOptions.thy ===== *)
theory BootOptions
  imports Prelude "HOL-Library.Sublist" "HOL-Library.Monad_Syntax"
begin

text \<open>
  The boot options (\<open>parse_cmdline\<close> of \<open>source/src/aarch64/start.c\<close>) and the checksum of a ROM image
  (\<open>amiga_checksum\<close>). \<open>find_token\<close> is outside the repository and a parameter: it gives the rest
  of the command line from the token it looks for on. A command line is the list of its
  characters before the terminating zero; a read behind the zero is \<open>None\<close>.
\<close>

section \<open>Numbers on the command line\<close>

definition c_char :: "string \<Rightarrow> nat \<Rightarrow> char option" where
  "c_char tok k = (if k < length tok then Some (tok ! k) else if k = length tok then Some (CHR 0x00) else None)"

definition not_digit :: "char \<Rightarrow> bool" where
  "not_digit c \<longleftrightarrow> (of_char c :: nat) < 48 \<or> (of_char c :: nat) > 57"

text \<open>At most \<open>n\<close> digits from position \<open>k\<close> on.\<close>

fun digits :: "nat \<Rightarrow> string \<Rightarrow> nat \<Rightarrow> 'a::comm_ring_1 \<Rightarrow> 'a option" where
  "digits 0 tok k v = Some v"
| "digits (Suc n) tok k v =
     (case c_char tok k of
        None \<Rightarrow> None
      | Some c \<Rightarrow> if not_digit c then Some v else digits n tok (Suc k) (v * 10 + of_char c - 48))"

section \<open>The options\<close>

datatype pistorm_model = PISTORM_MODEL_16 | PISTORM_MODEL_32

record boot_options =
  debug_not_implemented :: bool
  ppc_enable :: bool
  enable_cache :: bool
  limit_2g :: bool
  forced_model :: "pistorm_model option"
  DisableFPU :: bool
  debug :: bool
  disasm :: bool
  emu68_icnt :: u32
  emu68_ccrd :: u32
  emu68_irng :: u32
  cs_dist :: u32
  opt_fast_page0 :: bool
  opt_zorro_disable :: bool
  chip_slowdown :: bool
  dbf_slowdown :: bool
  blitwait :: bool
  membench :: u32
  buptest :: u32
  bupiter :: u32
  vid_memory :: u32
  recalc_checksum :: bool
  rom_copy :: int

type_synonym finder = "string \<Rightarrow> string \<Rightarrow> string option"

text \<open>Switches: present or not. \<open>forced_model\<close> is the argument of \<open>force_pistorm_model\<close>, if called.\<close>

definition present :: "finder \<Rightarrow> string \<Rightarrow> string \<Rightarrow> bool" where
  "present find_token cmdline key \<longleftrightarrow> find_token cmdline key \<noteq> None"

definition parse_switches :: "finder \<Rightarrow> string \<Rightarrow> boot_options \<Rightarrow> boot_options" where
  "parse_switches ft cmdline b =
     (let b = b\<lparr>debug_not_implemented := present ft cmdline ''debug_not_implemented'',
                ppc_enable := present ft cmdline ''ppc_enable'',
                enable_cache := present ft cmdline ''enable_cache'',
                limit_2g := present ft cmdline ''limit_2g''\<rparr>;
          force_ps16 = present ft cmdline ''ps16'';
          force_ps32 = present ft cmdline ''ps32'';
          b = (if force_ps16 then b\<lparr>forced_model := Some PISTORM_MODEL_16\<rparr>
               else if force_ps32 then b\<lparr>forced_model := Some PISTORM_MODEL_32\<rparr> else b)
      in b\<lparr>DisableFPU := present ft cmdline ''nofpu'',
           debug := present ft cmdline ''debug'',
           disasm := present ft cmdline ''disassemble''\<rparr>)"

definition parse_ICNT :: "finder \<Rightarrow> string \<Rightarrow> boot_options \<Rightarrow> boot_options option" where
  "parse_ICNT ft cmdline b =
     (case ft cmdline ''ICNT='' of
        None \<Rightarrow> Some b
      | Some tok \<Rightarrow> do {
          val \<leftarrow> digits 4 tok 5 0;
          let val = (if val = 0 then 1 else val);
          let val = (if val > 256 then 256 else val);
          Some (b\<lparr>emu68_icnt := val\<rparr>)
        })"

definition parse_CCRD :: "finder \<Rightarrow> string \<Rightarrow> boot_options \<Rightarrow> boot_options option" where
  "parse_CCRD ft cmdline b =
     (case ft cmdline ''CCRD='' of
        None \<Rightarrow> Some b
      | Some tok \<Rightarrow> do {
          val \<leftarrow> digits 4 tok 5 0;
          Some (b\<lparr>emu68_ccrd := if val > 31 then 31 else val\<rparr>)
        })"

definition parse_IRNG :: "finder \<Rightarrow> string \<Rightarrow> boot_options \<Rightarrow> boot_options option" where
  "parse_IRNG ft cmdline b =
     (case ft cmdline ''IRNG='' of
        None \<Rightarrow> Some b
      | Some tok \<Rightarrow> do {
          val \<leftarrow> digits 7 tok 5 0;
          Some (b\<lparr>emu68_irng := if val > 65535 then 65535 else val\<rparr>)
        })"

text \<open>The digits start eight characters after the start of the token, for both keys.\<close>

definition parse_cs_dist :: "finder \<Rightarrow> string \<Rightarrow> boot_options \<Rightarrow> boot_options option" where
  "parse_cs_dist ft cmdline b =
     (case (case ft cmdline ''cs_dist='' of None \<Rightarrow> ft cmdline ''SCS='' | Some tok \<Rightarrow> Some tok) of
        None \<Rightarrow> Some b
      | Some tok \<Rightarrow> do {
          cs \<leftarrow> digits 4 tok 8 0;
          let cs = (if cs = 0 then 1 else cs);
          Some (b\<lparr>cs_dist := if cs > 8 then 8 else cs\<rparr>)
        })"

definition parse_pistorm_switches :: "finder \<Rightarrow> string \<Rightarrow> boot_options \<Rightarrow> boot_options" where
  "parse_pistorm_switches ft cmdline b =
     b\<lparr>opt_fast_page0 := present ft cmdline ''fast_page_zero'',
       opt_zorro_disable := present ft cmdline ''z3_disable'',
       chip_slowdown := present ft cmdline ''chip_slowdown'' \<or> present ft cmdline ''SC'',
       dbf_slowdown := present ft cmdline ''dbf_slowdown'' \<or> present ft cmdline ''DBF'',
       blitwait := present ft cmdline ''blitwait'' \<or> present ft cmdline ''BW''\<rparr>"

definition parse_membench :: "finder \<Rightarrow> string \<Rightarrow> boot_options \<Rightarrow> boot_options option" where
  "parse_membench ft cmdline b =
     (case ft cmdline ''membench='' of
        None \<Rightarrow> Some b
      | Some tok \<Rightarrow> do {
          bench \<leftarrow> digits 4 tok 9 0;
          Some (b\<lparr>membench := if bench > 2047 then 2047 else bench\<rparr>)
        })"

definition parse_buptest :: "finder \<Rightarrow> string \<Rightarrow> boot_options \<Rightarrow> boot_options option" where
  "parse_buptest ft cmdline b =
     (case ft cmdline ''buptest='' of
        None \<Rightarrow> Some b
      | Some tok \<Rightarrow> do {
          bup \<leftarrow> digits 4 tok 8 0;
          Some (b\<lparr>buptest := if bup > 2048 then 2048 else bup\<rparr>)
        })"

definition parse_bupiter :: "finder \<Rightarrow> string \<Rightarrow> boot_options \<Rightarrow> boot_options option" where
  "parse_bupiter ft cmdline b =
     (case ft cmdline ''bupiter='' of
        None \<Rightarrow> Some b
      | Some tok \<Rightarrow> do {
          iter \<leftarrow> digits 2 tok 8 0;
          Some (b\<lparr>bupiter := if iter > 9 then 9 else iter\<rparr>)
        })"

definition parse_vc4_mem :: "finder \<Rightarrow> string \<Rightarrow> boot_options \<Rightarrow> boot_options option" where
  "parse_vc4_mem ft cmdline b =
     (case ft cmdline ''vc4.mem='' of
        None \<Rightarrow> Some b
      | Some tok \<Rightarrow> do {
          vmem \<leftarrow> digits 3 tok 8 0;
          Some (if vmem \<le> 256 then b\<lparr>vid_memory := vmem AND NOT 1\<rparr> else b)
        })"

definition parse_rom :: "finder \<Rightarrow> string \<Rightarrow> boot_options \<Rightarrow> boot_options option" where
  "parse_rom ft cmdline b =
     (let b = (if present ft cmdline ''checksum_rom'' then b\<lparr>recalc_checksum := True\<rparr> else b)
      in case ft cmdline ''copy_rom='' of
           None \<Rightarrow> Some b
         | Some tok \<Rightarrow> do {
             c \<leftarrow> digits 4 tok 9 0;
             Some (if c = 256 \<or> c = 512 \<or> c = 1024 \<or> c = 2048 then b\<lparr>rom_copy := c\<rparr> else b)
           })"

definition parse_cmdline :: "finder \<Rightarrow> string \<Rightarrow> boot_options \<Rightarrow> boot_options option" where
  "parse_cmdline ft cmdline b =
     do {
       b \<leftarrow> parse_ICNT ft cmdline (parse_switches ft cmdline b);
       b \<leftarrow> parse_CCRD ft cmdline b;
       b \<leftarrow> parse_IRNG ft cmdline b;
       b \<leftarrow> parse_cs_dist ft cmdline b;
       b \<leftarrow> parse_membench ft cmdline (parse_pistorm_switches ft cmdline b);
       b \<leftarrow> parse_buptest ft cmdline b;
       b \<leftarrow> parse_bupiter ft cmdline b;
       b \<leftarrow> parse_vc4_mem ft cmdline b;
       parse_rom ft cmdline b
     }"

section \<open>The checksum of a ROM\<close>

definition long_at :: "(nat \<Rightarrow> u8) \<Rightarrow> nat \<Rightarrow> u32" where
  "long_at mem i = push_bit 24 (ucast (mem i)) + push_bit 16 (ucast (mem (i + 1))) + push_bit 8 (ucast (mem (i + 2))) + ucast (mem (i + 3))"

text \<open>The sum with end-around carry, and the checksum field met on the way.\<close>

definition checksum_step :: "(nat \<Rightarrow> u8) \<Rightarrow> nat \<Rightarrow> bool \<Rightarrow> nat \<Rightarrow> u32 \<times> u32 \<Rightarrow> u32 \<times> u32" where
  "checksum_step mem chkoff update i = (\<lambda>(oldcksum, prevck).
     let val = long_at mem i;
         (oldcksum, val) = (if update \<and> i = chkoff then (val, 0) else (oldcksum, val));
         cksum = prevck + val
     in (oldcksum, if cksum < prevck then cksum + 1 else cksum))"

definition amiga_checksum :: "(nat \<Rightarrow> u8) \<Rightarrow> nat \<Rightarrow> nat \<Rightarrow> bool \<Rightarrow> bool \<times> (nat \<Rightarrow> u8)" where
  "amiga_checksum mem bytes chkoff update =
     (let (oldcksum, cksum) = fold (\<lambda>k. checksum_step mem chkoff update (4 * k)) [0..<(bytes + 3) div 4] (0, 0);
          cksum = NOT cksum
      in if update \<and> cksum \<noteq> oldcksum
         then (True, mem(chkoff := ucast (drop_bit 24 cksum), chkoff + 1 := ucast (drop_bit 16 cksum),
                         chkoff + 2 := ucast (drop_bit 8 cksum), chkoff + 3 := ucast cksum))
         else (False, mem))"

section \<open>One's complement sums\<close>

text \<open>The representative of a number modulo \<open>2 ^ 32 - 1\<close> that is 0 for 0 only.\<close>

definition ones_rep :: "nat \<Rightarrow> nat" where
  "ones_rep n = (if n = 0 then 0 else (n - 1) mod 0xffffffff + 1)"

lemma ones_rep_le: "ones_rep n \<le> 0xffffffff"
proof -
  have "(n - 1) mod 0xffffffff < (0xffffffff :: nat)" by (rule mod_less_divisor) simp
  then show ?thesis by (cases "n = 0") (simp_all only: ones_rep_def if_True if_False, simp_all)
qed

lemma ones_rep_add: "ones_rep (ones_rep n + m) = ones_rep (n + m)"
proof (cases "n = 0")
  case False
  have "((n - 1) mod 0xffffffff + m) mod 0xffffffff = ((n - 1) + m) mod 0xffffffff" by (rule mod_add_left_eq)
  moreover have "n + m - 1 = (n - 1) + m" using False by simp
  ultimately show ?thesis using False by (simp add: ones_rep_def)
qed (simp add: ones_rep_def)

lemma ones_rep_complement: "ones_rep (n + (0xffffffff - ones_rep n)) = 0xffffffff"
proof -
  have "ones_rep (n + (0xffffffff - ones_rep n)) = ones_rep (ones_rep n + (0xffffffff - ones_rep n))"
    by (simp only: ones_rep_add)
  also have "\<dots> = ones_rep 0xffffffff" using ones_rep_le [of n] by simp
  also have "\<dots> = 0xffffffff" by (simp add: ones_rep_def)
  finally show ?thesis .
qed

lemma end_around_carry:
  fixes a v :: u32
  shows "unat (let c = a + v in if c < a then c + 1 else c) = ones_rep (unat a + unat v)"
proof -
  have bounds: "unat a \<le> 0xffffffff" "unat v \<le> 0xffffffff"
    using unsigned_less [where w = a and 'a = nat] unsigned_less [where w = v and 'a = nat] by simp_all
  have sum: "unat (a + v) = (if unat a + unat v < 4294967296 then unat a + unat v else unat a + unat v - 4294967296)"
    using bounds by (simp add: unat_word_ariths le_mod_geq)
  show ?thesis
  proof (cases "unat a + unat v < 4294967296")
    case True
    then have "\<not> a + v < a" using sum by (simp add: word_less_nat_alt)
    moreover have "ones_rep (unat a + unat v) = unat a + unat v" using True by (auto simp: ones_rep_def)
    ultimately show ?thesis using sum True by (simp add: Let_def)
  next
    case False
    then have less: "a + v < a" using sum bounds by (simp add: word_less_nat_alt)
    have "unat (a + v + 1) = unat (a + v) + 1"
      using sum bounds False by (simp add: unat_word_ariths)
    moreover have "ones_rep (unat a + unat v) = unat a + unat v - 4294967296 + 1"
      using False bounds by (simp add: ones_rep_def mod_if)
    ultimately show ?thesis using less sum False by (simp add: Let_def)
  qed
qed

text \<open>The longs of an image, with the checksum field counted as 0 where \<open>hole\<close> says so.\<close>

definition longs_sum :: "(nat \<Rightarrow> u8) \<Rightarrow> (nat \<Rightarrow> bool) \<Rightarrow> nat \<Rightarrow> nat" where
  "longs_sum mem hole n = (\<Sum>k<n. if hole k then 0 else unat (long_at mem (4 * k)))"

definition image_sum :: "(nat \<Rightarrow> u8) \<Rightarrow> nat \<Rightarrow> nat" where
  "image_sum mem n = ones_rep (longs_sum mem (\<lambda>k. False) n)"

lemma checksum_fold:
  assumes "chkoff = 4 * c"
  shows "fold (\<lambda>k. checksum_step mem chkoff True (4 * k)) [0..<n] (0, 0) =
     (if c < n then long_at mem chkoff else 0, word_of_nat (ones_rep (longs_sum mem (\<lambda>k. k = c) n)))"
proof (induction n)
  case 0
  show ?case by (simp add: longs_sum_def ones_rep_def)
next
  case (Suc n)
  define p where "p = ones_rep (longs_sum mem (\<lambda>k. k = c) n)"
  define v where "v = (if n = c then 0 else long_at mem (4 * n))"
  have up: "unat (word_of_nat p :: u32) = p"
    using ones_rep_le [of "longs_sum mem (\<lambda>k. k = c) n"] by (simp add: p_def unsigned_of_nat take_bit_nat_eq_self)
  have "ones_rep (p + unat v) = ones_rep (longs_sum mem (\<lambda>k. k = c) (Suc n))"
    by (simp add: p_def ones_rep_add longs_sum_def v_def)
  then have "(let q = word_of_nat p + v in if q < word_of_nat p then q + 1 else q) =
      word_of_nat (ones_rep (longs_sum mem (\<lambda>k. k = c) (Suc n)))"
    using end_around_carry [of "word_of_nat p" v, unfolded up] ones_rep_le [of "longs_sum mem (\<lambda>k. k = c) (Suc n)"]
    by (simp only: word_unat_eq_iff) (simp add: unsigned_of_nat take_bit_nat_eq_self)
  then show ?case
    using Suc.IH assms by (auto simp: checksum_step_def p_def [symmetric] v_def Let_def)
qed

lemma join_rom_long:
  fixes w :: u32
  shows "push_bit 24 (ucast (ucast (drop_bit 24 w) :: u8)) + push_bit 16 (ucast (ucast (drop_bit 16 w) :: u8)) +
     push_bit 8 (ucast (ucast (drop_bit 8 w) :: u8)) + ucast (ucast w :: u8) = w" (is "?a + ?b + ?c + ?d = w")
proof -
  have "?a + ?b = ?a OR ?b" by (rule disjunctive_add) (auto simp: bit_simps)
  moreover have "(?a OR ?b) + ?c = (?a OR ?b) OR ?c" by (rule disjunctive_add) (auto simp: bit_simps)
  moreover have "((?a OR ?b) OR ?c) + ?d = ((?a OR ?b) OR ?c) OR ?d" by (rule disjunctive_add) (auto simp: bit_simps)
  ultimately have "?a + ?b + ?c + ?d = ((?a OR ?b) OR ?c) OR ?d" by simp
  also have "\<dots> = w"
  proof (rule bit_word_eqI)
    fix n assume "n < LENGTH(32)"
    then show "bit (((?a OR ?b) OR ?c) OR ?d) n \<longleftrightarrow> bit w n"
      by (cases "n < 8"; cases "n < 16"; cases "n < 24") (simp_all add: bit_simps, linarith+)
  qed
  finally show ?thesis .
qed

definition put_long :: "(nat \<Rightarrow> u8) \<Rightarrow> nat \<Rightarrow> u32 \<Rightarrow> nat \<Rightarrow> u8" where
  "put_long mem a w = mem(a := ucast (drop_bit 24 w), a + 1 := ucast (drop_bit 16 w),
                          a + 2 := ucast (drop_bit 8 w), a + 3 := ucast w)"

lemma long_at_put:
  "long_at (put_long mem a w) a = w"
  "k \<noteq> c \<Longrightarrow> long_at (put_long mem (4 * c) w) (4 * k) = long_at mem (4 * k)"
proof -
  show "long_at (put_long mem a w) a = w" using join_rom_long [of w] by (simp add: long_at_def put_long_def)
  assume "k \<noteq> c"
  then have "4 * k + i \<noteq> 4 * c + j" if "i < 4" "j < 4" for i j :: nat using that by presburger
  from this [of 0 0] this [of 0 1] this [of 0 2] this [of 0 3] this [of 1 0] this [of 1 1] this [of 1 2] this [of 1 3]
    this [of 2 0] this [of 2 1] this [of 2 2] this [of 2 3] this [of 3 0] this [of 3 1] this [of 3 2] this [of 3 3]
  show "long_at (put_long mem (4 * c) w) (4 * k) = long_at mem (4 * k)"
    by (simp add: long_at_def put_long_def)
qed

lemma longs_sum_cong:
  "(\<And>k. k \<noteq> c \<Longrightarrow> long_at mem' (4 * k) = long_at mem (4 * k)) \<Longrightarrow>
   longs_sum mem' (\<lambda>k. k = c) n = longs_sum mem (\<lambda>k. k = c) n"
  by (auto simp: longs_sum_def intro!: sum.cong)

lemma longs_sum_field:
  assumes "c < n"
  shows "longs_sum mem (\<lambda>k. False) n = longs_sum mem (\<lambda>k. k = c) n + unat (long_at mem (4 * c))"
proof -
  have "(\<Sum>k<n. unat (long_at mem (4 * k))) = (\<Sum>k<n. (if k = c then 0 else unat (long_at mem (4 * k))) + (if k = c then unat (long_at mem (4 * k)) else 0))"
    by (rule sum.cong) auto
  also have "\<dots> = (\<Sum>k<n. if k = c then 0 else unat (long_at mem (4 * k))) + unat (long_at mem (4 * c))"
    using assms by (simp add: sum.distrib sum.delta)
  finally show ?thesis by (simp add: longs_sum_def)
qed

lemma unat_not: "unat (NOT (w :: u32)) = 0xffffffff - unat w"
proof -
  have "unat (- 1 - w) = unat (- 1 :: u32) - unat w" by (rule unat_sub) simp
  then show ?thesis by (simp only: not_eq_complement minus_diff_commute unsigned_minus_1_eq_mask) (simp add: mask_eq_exp_minus_1)
qed

text \<open>What an update leaves is the image with the complement of the other longs in the field.\<close>

lemma amiga_checksum_update:
  fixes mem :: "nat \<Rightarrow> u8"
  assumes "chkoff = 4 * c" and "c < n"
  defines "new \<equiv> NOT (word_of_nat (ones_rep (longs_sum mem (\<lambda>k. k = c) n)) :: u32)"
  shows "amiga_checksum mem (4 * n) chkoff True =
     (new \<noteq> long_at mem chkoff, if new \<noteq> long_at mem chkoff then put_long mem chkoff new else mem)"
proof -
  have "(4 * n + 3) div 4 = n" by simp
  then show ?thesis
    using assms(2) checksum_fold [OF assms(1), of mem n] by (simp add: amiga_checksum_def new_def put_long_def Let_def)
qed

text \<open>
  C40: updating the checksum of a ROM image makes its end-around-carry sum \<open>0xffffffff\<close>,
  changes nothing outside the checksum field, and a second update finds nothing to do.
\<close>

theorem checksum_makes_valid:
  assumes "chkoff = 4 * c" and "c < n" and "amiga_checksum mem (4 * n) chkoff True = (updated, mem')"
  shows "image_sum mem' n = 0xffffffff \<and>
     (\<forall>a. a < chkoff \<or> chkoff + 4 \<le> a \<longrightarrow> mem' a = mem a) \<and>
     amiga_checksum mem' (4 * n) chkoff True = (False, mem')"
proof -
  define s where "s = longs_sum mem (\<lambda>k. k = c) n"
  define new where "new = NOT (word_of_nat (ones_rep s) :: u32)"
  have update: "amiga_checksum mem (4 * n) chkoff True =
     (new \<noteq> long_at mem chkoff, if new \<noteq> long_at mem chkoff then put_long mem chkoff new else mem)"
    unfolding new_def s_def by (rule amiga_checksum_update [OF assms(1,2)])
  then have mem': "mem' = (if new \<noteq> long_at mem chkoff then put_long mem chkoff new else mem)" using assms(3) by simp
  then have field: "long_at mem' chkoff = new" by (simp add: long_at_put)
  have others: "longs_sum mem' (\<lambda>k. k = c) n = s"
    unfolding s_def using mem' assms(1) by (intro longs_sum_cong) (simp add: long_at_put)
  have "unat new = 0xffffffff - ones_rep s"
    using ones_rep_le [of s] by (simp add: new_def unat_not unsigned_of_nat take_bit_nat_eq_self)
  then have "image_sum mem' n = 0xffffffff"
    using ones_rep_complement [of s] field assms(1,2) others by (simp add: image_sum_def longs_sum_field)
  moreover have "amiga_checksum mem' (4 * n) chkoff True = (False, mem')"
    using amiga_checksum_update [OF assms(1,2), of mem'] others field by (simp add: new_def)
  moreover have "\<forall>a. a < chkoff \<or> chkoff + 4 \<le> a \<longrightarrow> mem' a = mem a" by (auto simp: mem' put_long_def)
  ultimately show ?thesis by blast
qed

theorem checksum_makes_valid_witness:
  "image_sum (snd (amiga_checksum (\<lambda>a. if a = 9 then 7 else 0) (4 * 4) 8 True)) 4 = 0xffffffff"
  using checksum_makes_valid [of 8 2 4 "\<lambda>a. if a = 9 then 7 else 0"
      "fst (amiga_checksum (\<lambda>a. if a = 9 then 7 else 0) (4 * 4) 8 True)"
      "snd (amiga_checksum (\<lambda>a. if a = 9 then 7 else 0) (4 * 4) 8 True)"] by simp

section \<open>Reading a number\<close>

lemma digits_defined: "k \<le> length tok \<Longrightarrow> \<exists>w. digits n tok k v = Some w"
proof (induction n arbitrary: k v)
  case (Suc n)
  show ?case
  proof (cases "k < length tok")
    case True
    then show ?thesis using Suc.IH [of "Suc k"] by (auto simp: c_char_def)
  next
    case False
    then show ?thesis using Suc.prems by (auto simp: c_char_def not_digit_def)
  qed
qed simp

text \<open>A number written in decimal.\<close>

fun decimal :: "nat \<Rightarrow> string" where
  "decimal n = (if n < 10 then [char_of (48 + n)] else decimal (n div 10) @ [char_of (48 + n mod 10)])"

declare decimal.simps [simp del]

definition digits_value :: "string \<Rightarrow> 'a::comm_ring_1 \<Rightarrow> 'a" where
  "digits_value ds v = foldl (\<lambda>v c. v * 10 + of_char c - 48) v ds"

lemma digits_run:
  assumes "\<forall>c\<in>set ds. \<not> not_digit c" and "length ds \<le> n"
  shows "digits n (pre @ ds @ rest) (length pre) v = digits (n - length ds) (pre @ ds @ rest) (length pre + length ds) (digits_value ds v)"
  using assms
proof (induction ds arbitrary: n pre v)
  case (Cons c ds)
  then obtain m where n: "n = Suc m" and m: "length ds \<le> m" by (cases n) auto
  have "c_char (pre @ (c # ds) @ rest) (length pre) = Some c" by (simp add: c_char_def nth_append)
  then have "digits n (pre @ (c # ds) @ rest) (length pre) v =
      digits m ((pre @ [c]) @ ds @ rest) (length (pre @ [c])) (v * 10 + of_char c - 48)"
    using Cons.prems by (simp add: n)
  also have "\<dots> = digits (m - length ds) ((pre @ [c]) @ ds @ rest) (length (pre @ [c]) + length ds)
      (digits_value ds (v * 10 + of_char c - 48))"
    using Cons.prems m by (intro Cons.IH) auto
  finally show ?case by (simp add: n digits_value_def)
qed (simp add: digits_value_def)

lemma decimal_digits: "\<forall>c\<in>set (decimal n). \<not> not_digit c"
proof (induction n rule: decimal.induct)
  case (1 n)
  have digit: "\<not> not_digit (char_of (48 + d))" if "d < 10" for d :: nat
    using that by (simp add: not_digit_def)
  show ?case
    using 1 digit [of "n mod 10"] digit [of n] by (subst (1) decimal.simps) auto
qed

lemma decimal_value: "digits_value (decimal n) 0 = (of_nat n :: 'a::comm_ring_1)"
proof (induction n rule: decimal.induct)
  case (1 n)
  have char: "of_char (char_of (48 + d)) - 48 = (of_nat d :: 'a)" if "d < 10" for d :: nat
  proof -
    have "(of_char (char_of (48 + d)) :: nat) = 48 + d" using that by simp
    then have "(of_char (char_of (48 + d)) :: 'a) = of_nat (48 + d)"
      by (metis of_nat_of_char)
    then show ?thesis by simp
  qed
  show ?case
  proof (cases "n < 10")
    case True
    then show ?thesis using char [of n] by (subst decimal.simps) (simp add: digits_value_def)
  next
    case False
    have "digits_value (decimal n) 0 = digits_value (decimal (n div 10)) 0 * 10 + (of_char (char_of (48 + n mod 10)) - 48 :: 'a)"
      using False by (subst decimal.simps) (simp add: digits_value_def)
    also have "\<dots> = of_nat (n div 10) * 10 + of_nat (n mod 10)"
      using 1 False char [of "n mod 10"] by simp
    also have "\<dots> = of_nat (n div 10 * 10 + n mod 10)" by (simp only: of_nat_add of_nat_mult) simp
    finally show ?thesis by simp
  qed
qed

lemma decimal_length: "n < 10 ^ k \<Longrightarrow> 0 < k \<Longrightarrow> length (decimal n) \<le> k"
proof (induction k arbitrary: n)
  case (Suc k)
  show ?case
  proof (cases "n < 10")
    case False
    then have "0 < k" using Suc.prems(1) by (cases k) auto
    moreover have "n div 10 < 10 ^ k" using Suc.prems(1) by simp
    ultimately show ?thesis using Suc.IH False by (subst decimal.simps) simp
  qed (simp add: decimal.simps)
qed simp

text \<open>A number of at most \<open>n\<close> digits that is followed by no digit is read back.\<close>

definition ends_number :: "string \<Rightarrow> bool" where
  "ends_number rest \<longleftrightarrow> (case rest of [] \<Rightarrow> True | c # cs \<Rightarrow> not_digit c)"

lemma digits_decimal:
  assumes "m < 10 ^ n" and "0 < n" and "ends_number rest" and "length key = k"
  shows "digits n (key @ decimal m @ rest) k 0 = Some (of_nat m :: 'a::comm_ring_1)"
proof -
  have stop: "digits j (key @ decimal m @ rest) (length key + length (decimal m)) v = Some v" for j and v :: 'a
    using assms(3)
    by (cases j; cases rest)
      (auto simp: c_char_def nth_append ends_number_def not_digit_def)
  show ?thesis
    using digits_run [OF decimal_digits decimal_length [OF assms(1,2)], of key rest "0 :: 'a"] stop assms(4)
    by (simp add: decimal_value)
qed

section \<open>What the options can be\<close>

definition options_ok :: "boot_options \<Rightarrow> bool" where
  "options_ok b \<longleftrightarrow> 1 \<le> emu68_icnt b \<and> emu68_icnt b \<le> 256 \<and> emu68_ccrd b \<le> 31 \<and> emu68_irng b \<le> 65535 \<and>
     1 \<le> cs_dist b \<and> cs_dist b \<le> 8 \<and> membench b \<le> 2047 \<and> buptest b \<le> 2048 \<and> bupiter b \<le> 9 \<and>
     vid_memory b \<le> 256 \<and> vid_memory b AND 1 = 0 \<and> rom_copy b \<in> {0, 256, 512, 1024, 2048}"

text \<open>What is relied on of \<open>find_token\<close>: the text it returns starts with the token.\<close>

definition finds_tokens :: "finder \<Rightarrow> string \<Rightarrow> bool" where
  "finds_tokens ft cmdline \<longleftrightarrow> (\<forall>key tok. ft cmdline key = Some tok \<longrightarrow> prefix key tok)"

definition scs_unused :: "finder \<Rightarrow> string \<Rightarrow> bool" where
  "scs_unused ft cmdline \<longleftrightarrow> ft cmdline ''cs_dist='' \<noteq> None \<or> ft cmdline ''SCS='' = None"

definition step_ok :: "(boot_options \<Rightarrow> boot_options option) \<Rightarrow> bool" where
  "step_ok f \<longleftrightarrow> (\<forall>b. options_ok b \<longrightarrow> (\<exists>b'. f b = Some b' \<and> options_ok b'))"

lemma token_number:
  assumes "finds_tokens ft cmdline" and "ft cmdline key = Some tok" and "length key = k"
  obtains v where "digits n tok k 0 = Some v"
  using assms digits_defined [of k tok n 0] prefix_length_le [of key tok] by (auto simp: finds_tokens_def)

lemma clamp_low: "v \<noteq> 0 \<Longrightarrow> (1 :: u32) \<le> v"
  by (simp add: word_le_nat_alt Suc_le_eq unat_gt_0)

lemma even_mem:
  fixes v :: u32
  shows "(v AND NOT 1) AND 1 = 0" "v \<le> 256 \<Longrightarrow> v AND NOT 1 \<le> 256"
proof -
  show "(v AND NOT 1) AND 1 = 0" by (rule bit_word_eqI) (auto simp: bit_simps)
  have "v AND NOT 1 \<le> v" by (rule word_and_le2)
  then show "v \<le> 256 \<Longrightarrow> v AND NOT 1 \<le> 256" by simp
qed

lemma parse_steps_ok:
  assumes "finds_tokens ft cmdline"
  shows "step_ok (parse_ICNT ft cmdline)" "step_ok (parse_CCRD ft cmdline)" "step_ok (parse_IRNG ft cmdline)"
    "step_ok (parse_membench ft cmdline)" "step_ok (parse_buptest ft cmdline)" "step_ok (parse_bupiter ft cmdline)"
    "step_ok (parse_vc4_mem ft cmdline)" "step_ok (parse_rom ft cmdline)"
    "scs_unused ft cmdline \<Longrightarrow> step_ok (parse_cs_dist ft cmdline)"
proof -
  note number = token_number [OF assms]
  show "step_ok (parse_ICNT ft cmdline)"
  proof (cases "ft cmdline ''ICNT=''")
    case (Some tok)
    obtain v :: u32 where "digits 4 tok 5 0 = Some v" by (rule number [OF Some, where n = 4 and k = 5]) auto
    then show ?thesis using Some by (simp add: step_ok_def options_ok_def parse_ICNT_def clamp_low not_less)
  qed (simp add: step_ok_def parse_ICNT_def)
  show "step_ok (parse_CCRD ft cmdline)"
  proof (cases "ft cmdline ''CCRD=''")
    case (Some tok)
    obtain v :: u32 where "digits 4 tok 5 0 = Some v" by (rule number [OF Some, where n = 4 and k = 5]) auto
    then show ?thesis using Some by (simp add: step_ok_def options_ok_def parse_CCRD_def not_less)
  qed (simp add: step_ok_def parse_CCRD_def)
  show "step_ok (parse_IRNG ft cmdline)"
  proof (cases "ft cmdline ''IRNG=''")
    case (Some tok)
    obtain v :: u32 where "digits 7 tok 5 0 = Some v" by (rule number [OF Some, where n = 7 and k = 5]) auto
    then show ?thesis using Some by (simp add: step_ok_def options_ok_def parse_IRNG_def not_less)
  qed (simp add: step_ok_def parse_IRNG_def)
  show "step_ok (parse_membench ft cmdline)"
  proof (cases "ft cmdline ''membench=''")
    case (Some tok)
    obtain v :: u32 where "digits 4 tok 9 0 = Some v" by (rule number [OF Some, where n = 4 and k = 9]) auto
    then show ?thesis using Some by (simp add: step_ok_def options_ok_def parse_membench_def not_less)
  qed (simp add: step_ok_def parse_membench_def)
  show "step_ok (parse_buptest ft cmdline)"
  proof (cases "ft cmdline ''buptest=''")
    case (Some tok)
    obtain v :: u32 where "digits 4 tok 8 0 = Some v" by (rule number [OF Some, where n = 4 and k = 8]) auto
    then show ?thesis using Some by (simp add: step_ok_def options_ok_def parse_buptest_def not_less)
  qed (simp add: step_ok_def parse_buptest_def)
  show "step_ok (parse_bupiter ft cmdline)"
  proof (cases "ft cmdline ''bupiter=''")
    case (Some tok)
    obtain v :: u32 where "digits 2 tok 8 0 = Some v" by (rule number [OF Some, where n = 2 and k = 8]) auto
    then show ?thesis using Some by (simp add: step_ok_def options_ok_def parse_bupiter_def not_less)
  qed (simp add: step_ok_def parse_bupiter_def)
  show "step_ok (parse_vc4_mem ft cmdline)"
  proof (cases "ft cmdline ''vc4.mem=''")
    case (Some tok)
    obtain v :: u32 where "digits 3 tok 8 0 = Some v" by (rule number [OF Some, where n = 3 and k = 8]) auto
    then show ?thesis using Some by (simp add: step_ok_def options_ok_def parse_vc4_mem_def even_mem [simplified] not_less)
  qed (simp add: step_ok_def parse_vc4_mem_def)
  show "step_ok (parse_rom ft cmdline)"
  proof (cases "ft cmdline ''copy_rom=''")
    case (Some tok)
    obtain v :: int where "digits 4 tok 9 0 = Some v" by (rule number [OF Some, where n = 4 and k = 9]) auto
    then show ?thesis using Some by (simp add: step_ok_def options_ok_def parse_rom_def Let_def)
  qed (simp add: step_ok_def options_ok_def parse_rom_def Let_def)
  show "step_ok (parse_cs_dist ft cmdline)" if "scs_unused ft cmdline"
  proof (cases "ft cmdline ''cs_dist=''")
    case None
    then show ?thesis using that by (simp add: step_ok_def parse_cs_dist_def scs_unused_def)
  next
    case (Some tok)
    obtain v :: u32 where "digits 4 tok 8 0 = Some v" by (rule number [OF Some, where n = 4 and k = 8]) auto
    then show ?thesis using Some by (simp add: step_ok_def options_ok_def parse_cs_dist_def clamp_low not_less)
  qed
qed


lemma switches_ok [simp]:
  "options_ok (parse_switches ft cmdline b) = options_ok b"
  "options_ok (parse_pistorm_switches ft cmdline b) = options_ok b"
  by (simp_all add: options_ok_def parse_switches_def parse_pistorm_switches_def Let_def)

lemma step_ok_bind:
  "step_ok f \<Longrightarrow> options_ok x \<Longrightarrow> (\<And>b. options_ok b \<Longrightarrow> \<exists>b'. g b = Some b' \<and> options_ok b') \<Longrightarrow>
   \<exists>b'. Option.bind (f x) g = Some b' \<and> options_ok b'"
  by (fastforce simp: step_ok_def)

lemma step_ok_last: "step_ok f \<Longrightarrow> options_ok x \<Longrightarrow> \<exists>b'. f x = Some b' \<and> options_ok b'"
  by (simp add: step_ok_def)

text \<open>
  C38: parsing of a command line returns, whatever numbers it holds, and leaves every option
  within its bounds, provided the distance is not given by its short name.
\<close>

theorem parse_cmdline_bounds:
  assumes "finds_tokens ft cmdline" and "scs_unused ft cmdline" and "options_ok b"
  shows "\<exists>b'. parse_cmdline ft cmdline b = Some b' \<and> options_ok b'"
proof -
  note ok = parse_steps_ok(1-8) [OF assms(1)] parse_steps_ok(9) [OF assms(1,2)]
  show ?thesis
    unfolding parse_cmdline_def
    by (intro step_ok_bind [OF ok(1)] step_ok_bind [OF ok(2)] step_ok_bind [OF ok(3)] step_ok_bind [OF ok(9)]
        step_ok_bind [OF ok(4)] step_ok_bind [OF ok(5)] step_ok_bind [OF ok(6)] step_ok_bind [OF ok(7)] step_ok_last [OF ok(8)])
      (simp_all add: assms(3))
qed

text \<open>A search for the first occurrence, as an instance of \<open>find_token\<close>.\<close>

fun first_occurrence :: "string \<Rightarrow> string \<Rightarrow> string option" where
  "first_occurrence [] key = (if key = [] then Some [] else None)"
| "first_occurrence (c # cs) key = (if prefix key (c # cs) then Some (c # cs) else first_occurrence cs key)"

lemma first_occurrence_finds: "finds_tokens first_occurrence cmdline"
  unfolding finds_tokens_def
  by (intro allI impI, induction cmdline) (auto split: if_splits)

definition default_options :: boot_options where
  "default_options =
     \<lparr>debug_not_implemented = False, ppc_enable = False, enable_cache = False, limit_2g = False, forced_model = None,
      DisableFPU = False, debug = False, disasm = False, emu68_icnt = 128, emu68_ccrd = 0, emu68_irng = 0, cs_dist = 1,
      opt_fast_page0 = False, opt_zorro_disable = False, chip_slowdown = False, dbf_slowdown = False, blitwait = False,
      membench = 0, buptest = 0, bupiter = 5, vid_memory = 16, recalc_checksum = False, rom_copy = 0\<rparr>"

theorem parse_cmdline_bounds_witness:
  "\<exists>b. parse_cmdline first_occurrence ''ICNT=9999 copy_rom=12'' default_options = Some b \<and> options_ok b"
proof (rule parse_cmdline_bounds [OF first_occurrence_finds])
  show "scs_unused first_occurrence ''ICNT=9999 copy_rom=12''" by (simp add: scs_unused_def)
  show "options_ok default_options" by (simp add: options_ok_def default_options_def)
qed

text \<open>Which steps leave the three options of the next property alone.\<close>

definition tuned :: "boot_options \<Rightarrow> u32 \<times> u32 \<times> u32" where
  "tuned b = (emu68_icnt b, emu68_irng b, cs_dist b)"

lemma tuned_kept:
  "tuned (parse_switches ft cmdline b) = tuned b" "tuned (parse_pistorm_switches ft cmdline b) = tuned b"
  "parse_CCRD ft cmdline b = Some b' \<Longrightarrow> tuned b' = tuned b"
  "parse_membench ft cmdline b = Some b' \<Longrightarrow> tuned b' = tuned b"
  "parse_buptest ft cmdline b = Some b' \<Longrightarrow> tuned b' = tuned b"
  "parse_bupiter ft cmdline b = Some b' \<Longrightarrow> tuned b' = tuned b"
  "parse_vc4_mem ft cmdline b = Some b' \<Longrightarrow> tuned b' = tuned b"
  "parse_rom ft cmdline b = Some b' \<Longrightarrow> tuned b' = tuned b"
proof -
  show "tuned (parse_switches ft cmdline b) = tuned b" "tuned (parse_pistorm_switches ft cmdline b) = tuned b"
    by (simp_all add: tuned_def parse_switches_def parse_pistorm_switches_def Let_def)
  show "parse_CCRD ft cmdline b = Some b' \<Longrightarrow> tuned b' = tuned b"
    by (auto simp: tuned_def parse_CCRD_def bind_eq_Some_conv split: option.splits)
  show "parse_membench ft cmdline b = Some b' \<Longrightarrow> tuned b' = tuned b"
    by (auto simp: tuned_def parse_membench_def bind_eq_Some_conv split: option.splits)
  show "parse_buptest ft cmdline b = Some b' \<Longrightarrow> tuned b' = tuned b"
    by (auto simp: tuned_def parse_buptest_def bind_eq_Some_conv split: option.splits)
  show "parse_bupiter ft cmdline b = Some b' \<Longrightarrow> tuned b' = tuned b"
    by (auto simp: tuned_def parse_bupiter_def bind_eq_Some_conv split: option.splits)
  show "parse_vc4_mem ft cmdline b = Some b' \<Longrightarrow> tuned b' = tuned b"
    by (auto simp: tuned_def parse_vc4_mem_def bind_eq_Some_conv split: option.splits)
  show "parse_rom ft cmdline b = Some b' \<Longrightarrow> tuned b' = tuned b"
    by (cases "ft cmdline ''copy_rom=''"; cases "digits 4 (the (ft cmdline ''copy_rom='')) 9 (0 :: int)")
      (simp_all add: tuned_def parse_rom_def Let_def split: if_split_asm, (drule sym, simp)+)
qed

definition key_value :: "finder \<Rightarrow> string \<Rightarrow> string \<Rightarrow> nat \<Rightarrow> bool" where
  "key_value ft cmdline key n \<longleftrightarrow> (\<exists>rest. ft cmdline key = Some (key @ decimal n @ rest) \<and> ends_number rest)"

lemma key_digits:
  assumes "key_value ft cmdline key m" and "m < 10 ^ n" and "0 < n" and "length key = k"
  obtains tok where "ft cmdline key = Some tok" and "digits n tok k 0 = Some (of_nat m :: u32)"
  using assms digits_decimal [of m n _ key k] unfolding key_value_def by blast

lemma clamp_number:
  fixes m :: nat
  assumes "m < 10 ^ 7" and "hi < 10 ^ 7"
  shows "(word_of_nat (min m hi) :: u32) = (if word_of_nat m > (word_of_nat hi :: u32) then word_of_nat hi else word_of_nat m)"
    and "(word_of_nat m = (0 :: u32)) = (m = 0)"
proof -
  have small: "unat (word_of_nat m :: u32) = m" "unat (word_of_nat hi :: u32) = hi"
    using assms by (simp_all add: unsigned_of_nat take_bit_nat_eq_self)
  then show "(word_of_nat (min m hi) :: u32) = (if word_of_nat m > (word_of_nat hi :: u32) then word_of_nat hi else word_of_nat m)"
    by (simp add: word_less_nat_alt min_def)
  show "(word_of_nat m = (0 :: u32)) = (m = 0)" using small(1) unat_eq_zero [of "word_of_nat m :: u32"] by simp
qed

lemma tuned_step:
  "key_value ft cmdline ''ICNT='' m \<Longrightarrow> m < 10 ^ 4 \<Longrightarrow>
     parse_ICNT ft cmdline b = Some (b\<lparr>emu68_icnt := word_of_nat (min (max m 1) 256)\<rparr>)"
  "key_value ft cmdline ''IRNG='' m \<Longrightarrow> m < 10 ^ 7 \<Longrightarrow>
     parse_IRNG ft cmdline b = Some (b\<lparr>emu68_irng := word_of_nat (min m 65535)\<rparr>)"
  "key_value ft cmdline ''cs_dist='' m \<Longrightarrow> m < 10 ^ 4 \<Longrightarrow>
     parse_cs_dist ft cmdline b = Some (b\<lparr>cs_dist := word_of_nat (min (max m 1) 8)\<rparr>)"
proof -
  assume key: "key_value ft cmdline ''ICNT='' m" and m: "m < 10 ^ 4"
  obtain tok where tok: "ft cmdline ''ICNT='' = Some tok" "digits 4 tok 5 0 = Some (of_nat m :: u32)"
    by (rule key_digits [OF key m, where k = 5]) simp_all
  show "parse_ICNT ft cmdline b = Some (b\<lparr>emu68_icnt := word_of_nat (min (max m 1) 256)\<rparr>)"
    using tok m clamp_number(2) [of m 0] by (cases "m = 0") (simp_all add: parse_ICNT_def Let_def max_absorb1 clamp_number(1) [where hi = 256, unfolded of_nat_numeral])
next
  assume key: "key_value ft cmdline ''IRNG='' m" and m: "m < 10 ^ 7"
  obtain tok where tok: "ft cmdline ''IRNG='' = Some tok" "digits 7 tok 5 0 = Some (of_nat m :: u32)"
    by (rule key_digits [OF key m, where k = 5]) simp_all
  show "parse_IRNG ft cmdline b = Some (b\<lparr>emu68_irng := word_of_nat (min m 65535)\<rparr>)"
    using tok m clamp_number(2) [of m 0] by (simp add: parse_IRNG_def clamp_number(1) [where hi = 65535, unfolded of_nat_numeral])
next
  assume key: "key_value ft cmdline ''cs_dist='' m" and m: "m < 10 ^ 4"
  obtain tok where tok: "ft cmdline ''cs_dist='' = Some tok" "digits 4 tok 8 0 = Some (of_nat m :: u32)"
    by (rule key_digits [OF key m, where k = 8]) simp_all
  show "parse_cs_dist ft cmdline b = Some (b\<lparr>cs_dist := word_of_nat (min (max m 1) 8)\<rparr>)"
    using tok m clamp_number(2) [of m 0] by (cases "m = 0") (simp_all add: parse_cs_dist_def Let_def max_absorb1 clamp_number(1) [where hi = 8, unfolded of_nat_numeral])
qed

text \<open>
  C39: numbers written in decimal after their keys are read back by the parser, limited to the
  bounds of the option: the instruction count, the range of inlined branches and the distance.
\<close>

theorem parse_cmdline_reads_back:
  assumes "key_value ft cmdline ''ICNT='' icnt" and "icnt < 10 ^ 4"
    and "key_value ft cmdline ''IRNG='' irng" and "irng < 10 ^ 7"
    and "key_value ft cmdline ''cs_dist='' dist" and "dist < 10 ^ 4"
    and "parse_cmdline ft cmdline b = Some b'"
  shows "emu68_icnt b' = word_of_nat (min (max icnt 1) 256) \<and> emu68_irng b' = word_of_nat (min irng 65535) \<and>
     cs_dist b' = word_of_nat (min (max dist 1) 8)"
proof -
  note steps = tuned_step(1) [OF assms(1,2)] tuned_step(2) [OF assms(3,4)] tuned_step(3) [OF assms(5,6)]
  have "tuned b' = (word_of_nat (min (max icnt 1) 256), word_of_nat (min irng 65535), word_of_nat (min (max dist 1) 8))"
    using assms(7) unfolding parse_cmdline_def steps
    by (auto simp: bind_eq_Some_conv dest!: tuned_kept(3-)) (simp_all add: tuned_def parse_pistorm_switches_def)
  then show ?thesis by (simp add: tuned_def)
qed

theorem parse_cmdline_reads_back_witness:
  "map_option cs_dist (parse_cmdline first_occurrence ''ICNT=20 IRNG=70000 cs_dist=4'' default_options) = Some 4"
proof -
  let ?l = "''ICNT=20 IRNG=70000 cs_dist=4''"
  have chars: "char_of (48 :: nat) = CHR ''0''" "char_of (50 :: nat) = CHR ''2''" "char_of (52 :: nat) = CHR ''4''"
      "char_of (55 :: nat) = CHR ''7''"
    by (simp_all add: char_of_eq_iff)
  have decimals: "decimal 20 = ''20''" "decimal 70000 = ''70000''" "decimal 4 = ''4''"
    by (simp_all add: decimal.simps chars)
  have keys: "key_value first_occurrence ?l ''ICNT='' 20" "key_value first_occurrence ?l ''IRNG='' 70000"
    "key_value first_occurrence ?l ''cs_dist='' 4"
    by (simp_all add: key_value_def decimals ends_number_def not_digit_def)
  obtain b where b: "parse_cmdline first_occurrence ?l default_options = Some b"
    using parse_cmdline_bounds [OF first_occurrence_finds, of ?l default_options]
    by (auto simp: scs_unused_def options_ok_def default_options_def)
  show ?thesis
    using parse_cmdline_reads_back [OF keys(1) _ keys(2) _ keys(3) _ b] b by simp
qed

text \<open>
  Given by its short name the distance is read from the wrong place: the first four
  characters after \<open>SCS=\<close> are skipped, and when fewer than four follow, the parser reads
  behind the end of the command line.
\<close>

theorem short_distance_misread:
  assumes "ft cmdline ''cs_dist='' = None" and "ft cmdline ''SCS='' = Some (''SCS='' @ rest)"
  shows "parse_cs_dist ft cmdline b =
     (if length rest < 4 then None else parse_cs_dist (\<lambda>l k. Some (''cs_dist='' @ drop 4 rest)) cmdline b)"
proof (cases "length rest < 4")
  case True
  then have "c_char (''SCS='' @ rest) 8 = None" by (simp add: c_char_def)
  then have "digits 4 (''SCS='' @ rest) 8 (0 :: u32) = None" by (simp add: numeral_eq_Suc)
  then show ?thesis using True assms by (simp add: parse_cs_dist_def)
next
  case False
  have shift: "c_char (''SCS='' @ rest) (8 + k) = c_char (''cs_dist='' @ drop 4 rest) (8 + k)" for k
    using False by (auto simp: c_char_def nth_append)
  have "digits n (''SCS='' @ rest) (8 + k) v = digits n (''cs_dist='' @ drop 4 rest) (8 + k) v" for n k and v :: u32
  proof (induction n arbitrary: k v)
    case (Suc n)
    have "digits n (''SCS='' @ rest) (Suc (8 + k)) w = digits n (''cs_dist='' @ drop 4 rest) (Suc (8 + k)) w" for w :: u32
      using Suc.IH [of "Suc k"] by (simp only: add_Suc_right)
    then show ?case by (simp only: digits.simps shift)
  qed simp
  from this [of 4 0] show ?thesis using False assms by (simp add: parse_cs_dist_def)
qed

theorem short_distance_misread_witness:
  "parse_cs_dist first_occurrence ''SCS=3'' default_options = None"
  using short_distance_misread [of first_occurrence "''SCS=3''" "''3''"] by simp

end
