(* ===== verification/Interrupts.thy ===== *)
theory Interrupts
  imports SysMemory
begin

text \<open>
  Interrupts of the emulated machine: the fast paths of the vector stubs in
  \<open>source/src/aarch64/vectors.c\<close>, which only leave a note for the main loop, together with
  the shadow of the interrupt registers kept by the address decoder.
\<close>

section \<open>The vectors of core 0\<close>

definition arm_interrupt :: "'a sys_state_scheme \<Rightarrow> 'a sys_state_scheme" where
  "arm_interrupt s =
     (let s = s\<lparr>INT_shadow_ARMPending := 1\<rparr>
      in if INT_shadow_INTENA s AND 0x6000 = 0x6000 then s\<lparr>INTF_ARM := 6\<rparr> else s)"

definition serror_interrupt :: "'a sys_state_scheme \<Rightarrow> 'a sys_state_scheme" where
  "serror_interrupt s = s\<lparr>INTF_ARM_err := 7\<rparr>"

definition M68kReportInterrupt :: "nat \<Rightarrow> 'a sys_state_scheme \<Rightarrow> 'a sys_state_scheme" where
  "M68kReportInterrupt irq s =
     (if irq = 1 then s\<lparr>INTF_ARM := 1\<rparr> else if irq = 2 then s\<lparr>INTF_ARM_err := 1\<rparr> else s)"

section \<open>Bus accesses leave the rest of the state alone\<close>

definition kept :: "'a bus_state_scheme \<Rightarrow> 'a bus_state_scheme option \<Rightarrow> bool" where
  "kept s r \<longleftrightarrow> (\<forall>t. r = Some t \<longrightarrow> bus_state.more t = bus_state.more s)"

definition kept_value :: "'a bus_state_scheme \<Rightarrow> ('v \<times> 'a bus_state_scheme) option \<Rightarrow> bool" where
  "kept_value s r \<longleftrightarrow> (\<forall>v t. r = Some (v, t) \<longrightarrow> bus_state.more t = bus_state.more s)"

named_theorems kept_rules "operations that keep what lies outside the bus driver"

lemma kept_some [kept_rules]: "bus_state.more t = bus_state.more s \<Longrightarrow> kept s (Some t)"
  "bus_state.more t = bus_state.more s \<Longrightarrow> kept_value s (Some (v, t))"
  by (simp_all add: kept_def kept_value_def)

lemma kept_bind [kept_rules]:
  "kept s r \<Longrightarrow> (\<And>t. kept t (f t)) \<Longrightarrow> kept s (Option.bind r f)"
  "kept s r \<Longrightarrow> (\<And>t. kept_value t (g t)) \<Longrightarrow> kept_value s (Option.bind r g)"
  by (cases r; fastforce simp: kept_def kept_value_def)+

lemma kept_value_bind [kept_rules]:
  "kept_value s q \<Longrightarrow> (\<And>v t. kept t (h v t)) \<Longrightarrow> kept s (Option.bind q (\<lambda>(v, t). h v t))"
  "kept_value s q \<Longrightarrow> (\<And>v t. kept_value t (k v t)) \<Longrightarrow> kept_value s (Option.bind q (\<lambda>(v, t). k v t))"
  by (cases q; fastforce simp: kept_def kept_value_def)+

lemma kept_if [kept_rules]: "(b \<Longrightarrow> kept s x) \<Longrightarrow> (\<not> b \<Longrightarrow> kept s y) \<Longrightarrow> kept s (if b then x else y)"
  "(b \<Longrightarrow> kept_value s u) \<Longrightarrow> (\<not> b \<Longrightarrow> kept_value s v) \<Longrightarrow> kept_value s (if b then u else v)"
  by simp_all

lemma kept_gpio:
  "bus_state.more (gpio_set cf v s) = bus_state.more s"
  "bus_state.more (gpio_clear cf v s) = bus_state.more s"
  "bus_state.more (bus_direction cf f s) = bus_state.more s"
  "bus_state.more (bus_strobe cf w s) = bus_state.more s"
  by (simp_all add: gpio_set_def gpio_clear_def bus_direction_def gpio_fsel_def wr32le_def bus_strobe_def Let_def)

lemma txn_wait_kept [kept_rules]: "kept s (txn_wait cf s)"
proof -
  have "bus_state.more t = bus_state.more s" if "txn_wait cf s = Some t" for t
    using txn_wait.raw_induct [where P = "\<lambda>_ s t. bus_state.more t = bus_state.more s", OF _ that]
    by (fastforce simp: gpio_level_def rd32le_def split: option.splits prod.splits if_splits)
  then show ?thesis by (simp add: kept_def)
qed

lemma ticks_until_kept [kept_rules]: "kept s (ticks_until t0 s)"
proof -
  have "bus_state.more t = bus_state.more s" if "ticks_until t0 s = Some t" for t
    using ticks_until.raw_induct [where P = "\<lambda>_ s t. bus_state.more t = bus_state.more s", OF _ that]
    by (fastforce simp: read_cntvct_def split: option.splits prod.splits if_splits)
  then show ?thesis by (simp add: kept_def)
qed

lemma kept_read [kept_rules]: "kept_value s (rd32le a s)" "kept_value s (read_cntvct s)" "kept_value s (gpio_level cf s)"
  by (simp_all add: rd32le_def read_cntvct_def gpio_level_def kept_rules)

lemma kept_from:
  "kept u r \<Longrightarrow> bus_state.more u = bus_state.more s \<Longrightarrow> kept s r"
  "kept_value u q \<Longrightarrow> bus_state.more u = bus_state.more s \<Longrightarrow> kept_value s q"
  by (simp_all add: kept_def kept_value_def)

lemma mirror_write_kept: "bus_state.more (mirror_write a v w s) = bus_state.more s"
  using mirror_write_bus(1) [of a v w s] by (simp add: bus_part_def)

lemma write_cycle_kept [kept_rules]: "kept s (write_cycle cf op a d s)"
  unfolding write_cycle_def Let_def by (rule kept_from, rule txn_wait_kept) (simp add: kept_gpio)

lemma read_cycle_kept [kept_rules]: "kept_value s (read_cycle cf op a s)"
proof -
  have "bus_state.more (read_setup cf op a s) = bus_state.more s"
    by (simp add: kept_gpio read_setup_def Let_def)
  then have "kept s (txn_wait cf (read_setup cf op a s))"
    by (rule kept_from(1) [OF txn_wait_kept])
  then show ?thesis
    unfolding read_cycle_setup Let_def
    by (intro kept_rules) (simp_all add: kept_gpio)
qed

lemma bus_delay_kept [kept_rules]: "kept s (bus_delay cf a s)"
  unfolding bus_delay_def ticksleep_def
  by (intro kept_rules) simp_all

lemma write_int_kept [kept_rules]:
  "kept s (ps_write_8_int cf a d s)"
  "kept s (ps_write_16_int cf a d s)"
  "kept s (ps_write_32_int cf a d s)"
proof -
  have b: "kept s (ps_write_8_int cf a d s)" for a d and s :: "'b bus_state_scheme"
    unfolding ps_write_8_int_def Let_def by (intro kept_rules) (simp add: mirror_write_kept)
  have w: "kept s (ps_write_16_int cf a d s)" for a d and s :: "'b bus_state_scheme"
    unfolding ps_write_16_int_def Let_def by (intro kept_rules b) (simp add: mirror_write_kept)
  show "kept s (ps_write_8_int cf a d s)" by (rule b)
  show "kept s (ps_write_16_int cf a d s)" by (rule w)
  show "kept s (ps_write_32_int cf a d s)"
    unfolding ps_write_32_int_def by (intro kept_rules b w)
qed

lemma waitfree_kept [kept_rules]: "kept s (wb_waitfree cf s)"
  by (simp add: wb_waitfree_def kept_def)

lemma read_kept [kept_rules]:
  "kept_value s (ps_read_8 cf a s)"
  "kept_value s (ps_read_16_int_nowbwait cf a s)"
  "kept_value s (ps_read_16 cf a s)"
  "kept_value s (ps_read_32 cf a s)"
proof -
  have b: "kept_value s (ps_read_8 cf a s)" for a and s :: "'b bus_state_scheme"
    unfolding ps_read_8_def ps_read_8_int_def Let_def by (intro kept_rules) simp_all
  have n: "kept_value s (ps_read_16_int_nowbwait cf a s)" for a and s :: "'b bus_state_scheme"
    unfolding ps_read_16_int_nowbwait_def Let_def by (intro kept_rules b) simp_all
  have w: "kept_value s (ps_read_16 cf a s)" for a and s :: "'b bus_state_scheme"
    unfolding ps_read_16_def ps_read_16_int_def by (intro kept_rules n) simp_all
  show "kept_value s (ps_read_8 cf a s)" by (rule b)
  show "kept_value s (ps_read_16_int_nowbwait cf a s)" by (rule n)
  show "kept_value s (ps_read_16 cf a s)" by (rule w)
  show "kept_value s (ps_read_32 cf a s)"
    unfolding ps_read_32_def ps_read_32_int_def by (intro kept_rules b w) simp_all
qed

lemma blit_wait_kept [kept_rules]: "kept s (blit_wait cf s)"
proof -
  have r: "bus_state.more t = bus_state.more s" if "ps_read_16_int_nowbwait cf a s = Some (v, t)"
    for a v and s t :: "'b bus_state_scheme" and cf
    using read_kept(2) [of s cf a] that by (simp add: kept_value_def)
  have "bus_state.more t = bus_state.more s" if "blit_wait cf s = Some t" for t
  proof (rule blit_wait.raw_induct [where P = "\<lambda>_ s t. bus_state.more t = bus_state.more s", OF _ that])
    fix f cf and s t :: "'a bus_state_scheme"
    assume IH: "\<And>cf s t. f cf s = Some t \<Longrightarrow> bus_state.more t = bus_state.more s"
      and eq: "(case ps_read_16_int_nowbwait cf 0xdff002 s of None \<Rightarrow> None
        | Some (v, s) \<Rightarrow>
            if v AND 0x4240 = 0x4240
            then (case ps_read_16_int_nowbwait cf 0x00f00000 s of None \<Rightarrow> None
                  | Some (_, s) \<Rightarrow>
                      (case ps_read_16_int_nowbwait cf 0x00f00000 s of None \<Rightarrow> None
                       | Some (_, s) \<Rightarrow> f cf s))
            else Some s) = Some t"
    obtain v u where u: "ps_read_16_int_nowbwait cf 0xdff002 s = Some (v, u)"
      using eq by (auto split: option.splits)
    show "bus_state.more t = bus_state.more s"
    proof (cases "v AND 0x4240 = 0x4240")
      case False
      then show ?thesis using eq u r [OF u] by simp
    next
      case True
      obtain x w where w: "ps_read_16_int_nowbwait cf 0x00f00000 u = Some (x, w)"
        using eq u True by (auto split: option.splits)
      obtain y z where z: "ps_read_16_int_nowbwait cf 0x00f00000 w = Some (y, z)"
        using eq u True w by (auto split: option.splits)
      have "f cf z = Some t" using eq u True w z by simp
      then show ?thesis using IH r [OF u] r [OF w] r [OF z] by metis
    qed
  qed
  then show ?thesis by (simp add: kept_def)
qed

lemma check_blit_kept [kept_rules]: "kept s (check_blit_active cf a n s)"
  unfolding check_blit_active_def Let_def by (intro kept_rules) simp_all

lemma buffered_kept [kept_rules]: "kept s (buffered_write cf a d n s)"
proof -
  have p: "kept s (wb_push cf a d n s)" by (simp add: wb_push_def kept_def)
  show ?thesis unfolding buffered_write_def by (intro kept_rules p)
qed

lemma write_kept [kept_rules]:
  "kept s (ps_write_8 cf a d s)" "kept s (ps_write_16 cf a d s)" "kept s (ps_write_32 cf a d s)"
  unfolding ps_write_8_def ps_write_16_def ps_write_32_def cache_invalidate_range_def
  by (intro kept_rules; simp)+

lemma bus_sized_kept:
  "kept s (bus_write_sized cf v v2 sz far s)" "kept_value s (bus_read_sized cf sz far s)"
  unfolding bus_write_sized_def bus_read_sized_def ps_write_64_def ps_write_128_def ps_read_64_def ps_read_128_def
    cache_invalidate_range_def Let_def
  by (intro kept_rules; simp add: kept_value_def split: prod.splits)+

section \<open>What an access does to the interrupt state\<close>

definition int_part :: "'a sys_state_scheme \<Rightarrow> u16 \<times> u16 \<times> u8 \<times> u8 \<times> u8" where
  "int_part s = (INT_shadow_INTENA s, INT_shadow_INTREQ s, INT_shadow_ARMPending s, INTF_ARM s, INTF_ARM_err s)"

lemma more_int_part:
  fixes s t :: "'a sys_state_scheme"
  shows "bus_state.more t = bus_state.more s \<Longrightarrow> int_part t = int_part s"
  by (cases s; cases t; simp add: int_part_def)

lemma int_part_frame:
  "int_part (s\<lparr>metrics := m\<rparr>) = int_part s"
  "int_part (s\<lparr>sys_log := l\<rparr>) = int_part s"
  "int_part (write_overlay v sz far s) = int_part s"
  "int_part (snd (write_drive_select v far s)) = int_part s"
  "int_part (write_autoconfig v far brd s) = int_part s"
  "int_part (skip_boards s) = int_part s"
  by (simp_all add: int_part_def write_overlay_def write_drive_select_def write_autoconfig_def map_board_def skip_boards_def Let_def)

definition decoded :: "u64 \<Rightarrow> 'a sys_state_scheme \<Rightarrow> bool" where
  "decoded far s \<longleftrightarrow> drop_bit 32 (fold_address far) = 0 \<and> \<not> scsi_blocked (fold_address far) s"

lemma sys_write_int_part:
  assumes "SYSWriteValToAddr cf v v2 sz far s = Some (h, t)"
  shows "int_part t = (if decoded far s then int_part (write_int_shadow v (fold_address far) s) else int_part s)"
proof -
  have bus: "int_part u = int_part w" if "bus_write_sized cf x v2 sz a w = Some u" for x a w u
    using bus_sized_kept(1) [of w cf x v2 sz a] that by (intro more_int_part) (simp add: kept_def)
  have sel: "int_part w = int_part u" if "write_drive_select x a u = (y, w)" for x a u y w
    using int_part_frame(4) [of x a u] that by simp
  show ?thesis
    using assms
    by (auto simp: SYSWriteValToAddr_def decoded_def Let_def int_part_frame dest!: bus sel
        split: if_splits prod.splits bind_splits)
qed

lemma sys_read_int_part:
  assumes "SYSReadValFromAddr cf h2 sz far s = Some (r, t)"
  shows "snd (snd (int_part t)) = snd (snd (int_part s))"
proof -
  have bus: "int_part u = int_part w" if "bus_read_sized cf n a w = Some (x, u)" for x n a w u
    using bus_sized_kept(2) [of w cf n a] that by (intro more_int_part) (simp add: kept_value_def)
  have shadow: "snd (snd (int_part u)) = snd (snd (int_part w))" if "read_int_shadow n a x w = (y, u)" for x n a w y u
    using that by (auto simp: read_int_shadow_def Let_def int_part_def split: if_splits)
  show ?thesis
    using assms
    by (auto simp: SYSReadValFromAddr_def Let_def int_part_frame dest!: bus shadow
        split: if_splits prod.splits bind_splits option.splits)
qed

section \<open>An interrupt is kept until it is acknowledged\<close>

datatype machine_event =
  Arm_irq
| Program_write u64 u64 nat u64
| Program_read bool nat u64

fun machine_step :: "ps_config \<Rightarrow> machine_event \<Rightarrow> 'a sys_state_scheme \<Rightarrow> 'a sys_state_scheme option" where
  "machine_step cf Arm_irq s = Some (arm_interrupt s)"
| "machine_step cf (Program_write v v2 sz far) s = map_option snd (SYSWriteValToAddr cf v v2 sz far s)"
| "machine_step cf (Program_read h2 sz far) s = map_option snd (SYSReadValFromAddr cf h2 sz far s)"

fun machine_run :: "ps_config \<Rightarrow> machine_event list \<Rightarrow> 'a sys_state_scheme \<Rightarrow> 'a sys_state_scheme option" where
  "machine_run cf [] s = Some s"
| "machine_run cf (e # es) s = Option.bind (machine_step cf e s) (machine_run cf es)"

text \<open>The program clears \<open>EXTER\<close> in the request register.\<close>

fun acknowledges :: "machine_event \<Rightarrow> bool" where
  "acknowledges (Program_write v v2 sz far) \<longleftrightarrow> fold_address far = INTREQ \<and> v AND 0xa000 = 0x2000"
| "acknowledges _ \<longleftrightarrow> False"

lemma int_part_fields:
  assumes "int_part t = int_part s"
  shows "INT_shadow_ARMPending t = INT_shadow_ARMPending s" "INTF_ARM t = INTF_ARM s"
  using assms by (simp_all add: int_part_def)

lemma pending_step:
  assumes "machine_step cf e s = Some t" and "\<not> acknowledges e" and "INT_shadow_ARMPending s \<noteq> 0"
  shows "INT_shadow_ARMPending t \<noteq> 0"
proof (cases e)
  case Arm_irq
  then show ?thesis using assms by (auto simp: arm_interrupt_def Let_def split: if_splits)
next
  case (Program_write v v2 sz far)
  then obtain h where w: "SYSWriteValToAddr cf v v2 sz far s = Some (h, t)" using assms(1) by auto
  have "INT_shadow_ARMPending (write_int_shadow v (fold_address far) s) \<noteq> 0"
    using assms(2,3) Program_write by (auto simp: write_int_shadow_def Let_def)
  then show ?thesis
    using sys_write_int_part [OF w] assms(3) int_part_fields by (metis (full_types))
next
  case (Program_read h2 sz far)
  then obtain r where "SYSReadValFromAddr cf h2 sz far s = Some (r, t)" using assms(1) by auto
  from sys_read_int_part [OF this] show ?thesis using assms(3) by (simp add: int_part_def)
qed

lemma pending_run:
  assumes "machine_run cf es s = Some t" and "\<forall>e \<in> set es. \<not> acknowledges e" and "INT_shadow_ARMPending s \<noteq> 0"
  shows "INT_shadow_ARMPending t \<noteq> 0"
  using assms
proof (induction es arbitrary: s)
  case (Cons e es)
  then obtain u where u: "machine_step cf e s = Some u" "machine_run cf es u = Some t"
    by (auto split: bind_splits)
  show ?case
    using Cons.IH [OF u(2)] pending_step [OF u(1)] Cons.prems by simp
qed simp

lemma custom_decoded: "fold_address far = INTENA \<or> fold_address far = INTREQ \<or> fold_address far = INTREQR \<Longrightarrow> decoded far s"
  by (auto simp: decoded_def scsi_blocked_def)

lemma and_eq_bit: "(v :: 'w::len word) AND m = m \<Longrightarrow> bit m n \<Longrightarrow> bit v n"
  by (metis bit_and_iff)

lemma and_bit_8000: "(x :: u64) AND 0x8000 = 0 \<longleftrightarrow> \<not> bit x 15"
  using and_exp_eq_0_iff_not_bit [of x 15] by simp

lemma bit_exter_mask: "bit (0x6000 :: int) n \<longleftrightarrow> n = 13 \<or> n = 14"
  using bit_int_field [of "0x6000" 2 13 n] by auto

lemma enable_fields:
  assumes "(v :: u64) AND 0xe000 = 0xe000"
  shows "v AND 0x8000 \<noteq> 0" and "((x :: u16) OR ucast (v AND 0x7fff)) AND 0x6000 = 0x6000"
proof -
  have b: "bit v 15" "bit v 14" "bit v 13"
    using and_eq_bit [OF assms, of 15] and_eq_bit [OF assms, of 14] and_eq_bit [OF assms, of 13] by simp_all
  show "v AND 0x8000 \<noteq> 0" using b(1) by (simp add: and_bit_8000)
  show "(x OR ucast (v AND 0x7fff)) AND 0x6000 = 0x6000"
    using b by (intro bit_word_eqI) (auto simp: bit_simps bits bit_exter_mask)
qed

lemma disable_fields:
  assumes "(v :: u64) AND 0x6000 \<noteq> 0"
  shows "((x :: u16) AND NOT (ucast (v AND 0x7fff))) AND 0x6000 \<noteq> 0x6000"
proof
  assume e: "(x AND NOT (ucast (v AND 0x7fff))) AND 0x6000 = 0x6000"
  have "bit (0x6000 :: u16) 13" "bit (0x6000 :: u16) 14" by simp_all
  then have "bit (x AND NOT (ucast (v AND 0x7fff))) 13" "bit (x AND NOT (ucast (v AND 0x7fff))) 14"
    using and_eq_bit [OF e] by blast+
  then have "\<not> bit v 13" "\<not> bit v 14" by (auto simp: bit_simps bits)
  then have "v AND 0x6000 = 0" by (intro bit_word_eqI) (auto simp: bit_simps bit_exter_mask)
  with assms show False by simp
qed

lemma read_request_bit:
  assumes "SYSReadValFromAddr cf h2 2 far s = Some (r, t)" and "fold_address far = INTREQR"
    and "INT_shadow_ARMPending s \<noteq> 0"
  shows "\<exists>x. fst (snd r) = Some x \<and> bit x 13"
proof -
  have probe: "paula_probe_bus_read (metrics s) True h2 2 far = (False, None, None)"
    using fold_not_probe [of far] assms(2) by (auto simp: paula_probe_bus_read_def)
  have slow: "slow_address INTREQR u = INTREQR" for u :: "'a sys_state_scheme"
    by (simp add: slow_address_def)
  have "SYSReadValFromAddr cf h2 2 far s =
    do { ((v, v2), s) \<leftarrow> bus_read_sized cf 2 INTREQR s;
         Some (case v of None \<Rightarrow> ((True, None, v2), s)
               | Some value \<Rightarrow> let (value, s) = read_int_shadow 2 INTREQR value s
                               in ((True, Some (read_adjust 2 INTREQR value s), v2), s)) }"
    unfolding SYSReadValFromAddr_def probe Let_def assms(2) slow
    by (simp add: scsi_blocked_def c0_blocked_def slow_blocked_def)
  moreover have "INT_shadow_ARMPending u \<noteq> 0" if "bus_read_sized cf 2 INTREQR s = Some (x, u)" for x u
    using bus_sized_kept(2) [of s cf 2 INTREQR] more_int_part [of u s] that assms(3) int_part_fields(1) [of u s]
    by (simp add: kept_value_def split_paired_all)
  ultimately show ?thesis
    using assms(1)
    by (auto simp: bus_read_sized_def read_int_shadow_def read_adjust_def Let_def bit_simps split: bind_splits)
qed


section \<open>Reading the enable register\<close>

lemma bit_second_byte: "bit (0xff00 :: int) n \<longleftrightarrow> 8 \<le> n \<and> n < 16"
  using bit_int_field [of "0xff00" 8 8 n] by simp

lemma intenar_read:
  assumes "fold_address far = INTENAR" and "bus_read_sized cf sz INTENAR s = Some ((Some v, v2), u)"
  shows "\<exists>r t. SYSReadValFromAddr cf h sz far s = Some (r, t) \<and>
     INT_shadow_INTENA t = (if sz = 2 then ucast v else INT_shadow_INTENA s AND 0x00ff OR ucast (push_bit 8 (v AND 0xff)))"
proof -
  have probe: "paula_probe_bus_read (metrics s) True h sz far = (False, None, None)"
    using fold_not_probe [of far] assms(1) by (auto simp: paula_probe_bus_read_def)
  have slow: "slow_address INTENAR w = INTENAR" for w :: "'a sys_state_scheme"
    by (simp add: slow_address_def)
  have "SYSReadValFromAddr cf h sz far s =
      Some (let (value, s) = read_int_shadow sz INTENAR v u in ((True, Some (read_adjust sz INTENAR value s), v2), s))"
    unfolding SYSReadValFromAddr_def probe Let_def assms(1) slow
    by (simp add: scsi_blocked_def c0_blocked_def slow_blocked_def assms(2))
  moreover have "INT_shadow_INTENA u = INT_shadow_INTENA s"
    using bus_sized_kept(2) [of s cf sz INTENAR] more_int_part [of u s] assms(2)
    by (simp add: kept_value_def int_part_def)
  moreover have "snd (read_int_shadow sz INTENAR v u) = u\<lparr>INT_shadow_INTENA :=
      (if sz = 2 then ucast v else INT_shadow_INTENA u AND 0x00ff OR ucast (push_bit 8 (v AND 0xff)))\<rparr>"
    by (simp add: read_int_shadow_def Let_def cong: if_cong)
  ultimately show ?thesis
    by (auto simp: case_prod_unfold)
qed

text \<open>
  The shadow of the enable register after the program has read the register: a word read
  makes it what the hardware holds and a byte read its upper half; but a long read, which
  returns the request register in its low half, puts the low byte of the request register
  into the upper half of the shadow.
\<close>

theorem intenar_reads:
  assumes "read_ready cf m s" and "fold_address far = INTENAR"
  shows "let M = bus_memory cf m s; low = INT_shadow_INTENA s AND 0x00ff in
    \<exists>r1 r2 r4 t1 t2 t4.
      SYSReadValFromAddr cf h 2 far s = Some (r2, t2) \<and>
      INT_shadow_INTENA t2 = push_bit 8 (ucast (M 0xdff01c)) OR ucast (M 0xdff01d) \<and>
      SYSReadValFromAddr cf h 1 far s = Some (r1, t1) \<and>
      INT_shadow_INTENA t1 = low OR push_bit 8 (ucast (M 0xdff01c)) \<and>
      SYSReadValFromAddr cf h 4 far s = Some (r4, t4) \<and>
      INT_shadow_INTENA t4 = low OR push_bit 8 (ucast (M 0xdff01f))"
proof -
  define M where "M = bus_memory cf m s"
  obtain u1 where u1: "ps_read_8 cf 0xdff01c s = Some (load_be 1 0xdff01c M, u1)"
    using read_8_result [OF assms(1)] unfolding M_def by (rule reads_elim)
  obtain u2 where u2: "ps_read_16 cf 0xdff01c s = Some (load_be 2 0xdff01c M, u2)"
    using read_16_result [OF assms(1)] unfolding M_def by (rule reads_elim)
  obtain u4 where u4: "ps_read_32 cf 0xdff01c s = Some (load_be 4 0xdff01c M, u4)"
    using read_32_result [OF assms(1)] unfolding M_def by (rule reads_elim)
  have b: "bus_read_sized cf 1 INTENAR s = Some ((Some (ucast (load_be 1 0xdff01c M)), None), u1)"
    "bus_read_sized cf 2 INTENAR s = Some ((Some (ucast (load_be 2 0xdff01c M)), None), u2)"
    "bus_read_sized cf 4 INTENAR s = Some ((Some (ucast (load_be 4 0xdff01c M)), None), u4)"
    using u1 u2 u4 by (simp_all add: bus_read_sized_def del: load_be.simps)
  have bytes: "(ucast (ucast (load_be 2 0xdff01c M) :: u64) :: u16) = push_bit 8 (ucast (M 0xdff01c)) OR ucast (M 0xdff01d)"
    "(ucast (push_bit 8 (ucast (load_be 1 0xdff01c M) AND 0xff :: u64)) :: u16) = push_bit 8 (ucast (M 0xdff01c))"
    "(ucast (push_bit 8 (ucast (load_be 4 0xdff01c M) AND 0xff :: u64)) :: u16) = push_bit 8 (ucast (M 0xdff01f))"
    by (rule bit_word_eqI; auto simp: load_be_word load_be_long bit_simps bits bit_second_byte dest: bit_imp_le_length)+
  show ?thesis
    using intenar_read [OF assms(2) b(1), of h] intenar_read [OF assms(2) b(2), of h] intenar_read [OF assms(2) b(3), of h]
    unfolding M_def [symmetric] Let_def bytes by (simp add: bytes) blast
qed

section \<open>Instances\<close>

lemma int_updates_ready:
  "read_ready cf m (s\<lparr>INT_shadow_INTENA := a\<rparr>) = read_ready cf m s"
  "read_ready cf m (s\<lparr>INT_shadow_ARMPending := b\<rparr>) = read_ready cf m s"
  "read_ready cf m (s\<lparr>INTF_ARM := c\<rparr>) = read_ready cf m s"
  by (simp_all add: read_ready_def bus_ready_def bus_answers_def counter_reaches_def transactions_end_def
      pi4_def read_cntfrq_def)


theorem intenar_reads_witness:
  "\<exists>r t. SYSReadValFromAddr pi_config False 4 0xdff01c (sys_demo (\<lambda>a. if a = 0xdff01f then 0xff else 0)) = Some (r, t) \<and>
     INT_shadow_INTENA t = 0xff00"
proof -
  let ?m = "\<lambda>a :: u32. if a = 0xdff01f then 0xff else (0 :: u8)"
  have mem: "bus_memory pi_config ?m (sys_demo ?m) = ?m"
    by (simp add: bus_memory_def pin_view_of_def sys_demo_def bus_state.defs bus_demo_fields)
  have "INT_shadow_INTENA (sys_demo ?m) = 0" by (simp add: sys_demo_def bus_state.defs sys_state.defs)
  then show ?thesis
    using intenar_reads [OF sys_demo_ready [of ?m], of "0xdff01c" False]
    by (auto simp: mem fold_address_def Let_def)
qed

end
