(* ===== verification/Exceptions.thy ===== *)
theory Exceptions
  imports MainLoop FaultLoad Interrupts
begin

text \<open>
  The exception handlers of \<open>source/src/aarch64/vectors.c\<close>: \<open>SYSHandler\<close> for synchronous
  exceptions, with \<open>SYSValidateUnit\<close> for a jump to a block that has to be verified, and
  \<open>IRQHandler\<close>. The system registers are fields of the state. Console output is left out; the
  interrupt controller (\<open>gic_*\<close>) and \<open>PPCReportInterrupt\<close> are outside the repository: their
  calls are logged, and the number the controller returns is a parameter. The translator is
  the \<open>jit_api\<close> of the main loop; \<open>code_offset\<close> is the offset of \<open>mt_ARMCode\<close> in a unit.
\<close>

section \<open>State\<close>

datatype irq_call =
  Gic_read_iar u32
| Gic_write_eoir u32
| Ppc_report_interrupt nat

record core_state = exec_state +
  mpidr_el1 :: u64
  esr_el1 :: u64
  far_el1 :: u64
  cntp_ctl :: u64
  irq_log :: "irq_call list"

datatype 's outcome =
  Resumed 's
| Parked 's

section \<open>Synchronous exceptions\<close>

text \<open>The unit of a block: the top byte restored, the bit of the executable alias cleared.\<close>

definition corrected_far :: "u64 \<Rightarrow> u64" where
  "corrected_far far = far OR 0xff00000000000000"

definition unit_of_block :: "u64 \<Rightarrow> u64 \<Rightarrow> u64" where
  "unit_of_block code_offset far = (corrected_far far AND NOT 0x0000001000000000) - code_offset"

definition SYSValidateUnit ::
    "'a core_state_scheme jit_api \<Rightarrow> u64 \<Rightarrow> u64 \<Rightarrow> 'a core_state_scheme \<Rightarrow> bool \<times> 'a core_state_scheme" where
  "SYSValidateUnit api code_offset far s =
     (let unit = unit_of_block code_offset far;
          m68k_pc = mt_M68kAddress (units s unit);
          (unit, s) = M68K_VerifyUnit api unit s
      in if unit \<noteq> 0
         then (True, s\<lparr>units := (units s)(unit := (units s unit)\<lparr>mt_ARMEntryPoint := corrected_far far\<rparr>),
                       elr_el1 := corrected_far far\<rparr>)
         else let (unit, s) = M68K_GetTranslationUnit api m68k_pc s
              in if unit \<noteq> 0
                 then (True, s\<lparr>elr_el1 := mt_ARMEntryPoint (units s unit), last_PC := 0xffffffff\<rparr>)
                 else (False, s))"

definition finish_exception :: "bool \<times> 's \<Rightarrow> 's outcome" where
  "finish_exception = (\<lambda>(handled, s). if handled then Resumed s else Parked s)"

text \<open>The memory dumps skip their two arguments behind the \<open>svc\<close>.\<close>

definition debug_call :: "u64 \<Rightarrow> 'a core_state_scheme \<Rightarrow> 'a core_state_scheme" where
  "debug_call esr s =
     (let elr = elr_el1 s
      in if esr AND 0xffff = 0x102 \<or> esr AND 0xffff = 0x103 then s\<lparr>elr_el1 := elr + 8\<rparr> else s)"

definition SYSHandler ::
    "'a core_state_scheme jit_api \<Rightarrow> ps_config \<Rightarrow> u64 \<Rightarrow> u32 \<Rightarrow> 'a core_state_scheme \<Rightarrow> 'a core_state_scheme outcome option" where
  "SYSHandler api cf code_offset vector s =
     (let elr = elr_el1 s; esr = esr_el1 s; far = far_el1 s
      in if vector AND 0x1ff = 0 \<and> esr AND 0xf8000000 = 0x90000000
         then map_option finish_exception
                (if esr AND 0x40 \<noteq> 0 then SYSPageFaultWriteHandler cf elr s else SYSPageFaultReadHandler cf elr far s)
         else if vector AND 0x1ff = 0 \<and> esr AND 0xf8000000 = 0x80000000
         then Some (finish_exception (if drop_bit 56 far = 0xaa then SYSValidateUnit api code_offset far s else (False, s)))
         else if esr AND NOT 0xffff = 0x56000000 then Some (Resumed (debug_call esr s))
         else Some (Parked s))"

text \<open>The entries of the vector table that call it, with their exit.\<close>

definition exit_outcome :: "'a core_state_scheme outcome \<Rightarrow> 'a core_state_scheme outcome" where
  "exit_outcome r = (case r of Resumed s \<Rightarrow> Resumed (LOAD_SHORT_CONTEXT s) | Parked s \<Rightarrow> Parked s)"

definition exception_entry ::
    "'a core_state_scheme jit_api \<Rightarrow> ps_config \<Rightarrow> u64 \<Rightarrow> u32 \<Rightarrow> 'a core_state_scheme \<Rightarrow> 'a core_state_scheme outcome option" where
  "exception_entry api cf code_offset vector s =
     map_option exit_outcome (SYSHandler api cf code_offset vector (SAVE_SHORT_CONTEXT s))"

section \<open>Interrupts\<close>

definition log_irq :: "bool \<Rightarrow> irq_call \<Rightarrow> 'a core_state_scheme \<Rightarrow> 'a core_state_scheme" where
  "log_irq gic c s = (if gic then s\<lparr>irq_log := irq_log s @ [c]\<rparr> else s)"

text \<open>\<open>gic\<close> says whether there is a controller, \<open>iar\<close> is the number it returns.\<close>

definition IRQHandler :: "bool \<Rightarrow> u32 \<Rightarrow> 'a core_state_scheme \<Rightarrow> 'a core_state_scheme" where
  "IRQHandler gic iar s =
     (let cpu_id = mpidr_el1 s AND 3; id = (if gic then iar else 0)
      in if cpu_id = 3
         then let s = log_irq gic (Gic_read_iar id) s; tmp = cntp_ctl s
              in if tmp AND 4 \<noteq> 0
                 then let s = s\<lparr>cntp_ctl := 3\<rparr>;
                          s = s\<lparr>irq_log := irq_log s @ [Ppc_report_interrupt 0x900]\<rparr>
                      in log_irq gic (Gic_write_eoir id) s
                 else s
         else if cpu_id = 0
         then let s = log_irq gic (Gic_read_iar id) s;
                  s = M68kReportInterrupt 1 s
              in log_irq gic (Gic_write_eoir id) s
         else s)"

text \<open>The IRQ and FIQ entries: core 0 raises its interrupt without calling C.\<close>

definition irq_entry :: "bool \<Rightarrow> u32 \<Rightarrow> 'a core_state_scheme \<Rightarrow> 'a core_state_scheme" where
  "irq_entry gic iar s =
     (if mpidr_el1 s AND 3 \<noteq> 0 then LOAD_SHORT_CONTEXT (IRQHandler gic iar (SAVE_SHORT_CONTEXT s)) else arm_interrupt s)"

section \<open>Where the interrupted code continues\<close>

lemma fault_handlers_step:
  "SYSPageFaultWriteHandler cf elr s = Some (h, t) \<Longrightarrow> elr_el1 t = elr + 4"
  "SYSPageFaultReadHandler cf elr far s = Some (h, t) \<Longrightarrow> elr_el1 t = elr + 4"
  by (auto simp: SYSPageFaultWriteHandler_def SYSPageFaultReadHandler_def Let_def bind_eq_Some_conv)

lemma finished [simp]: "finish_exception r = Resumed t \<longleftrightarrow> r = (True, t)" "finish_exception r = Parked t \<longleftrightarrow> r = (False, t)"
  by (auto simp: finish_exception_def split: prod.splits)

lemma validate_resumes:
  "SYSValidateUnit api code_offset far s = (True, t) \<Longrightarrow>
   elr_el1 t = corrected_far far \<and> mt_ARMEntryPoint (units t (fst (M68K_VerifyUnit api (unit_of_block code_offset far) s))) = corrected_far far \<or>
   last_PC t = 0xffffffff"
  by (auto simp: SYSValidateUnit_def Let_def split: prod.splits if_splits)


section \<open>Blocks marked for verification\<close>

lemma marked_address:
  fixes code :: u64
  defines "marked \<equiv> (code AND 0x00ffffffffffffff) OR 0xaa00000000000000"
  assumes "drop_bit 56 code = 0xff"
  shows "drop_bit 56 marked = 0xaa" and "corrected_far marked = code"
proof -
  have bits56: "bit (0x00ffffffffffffff :: int) n \<longleftrightarrow> n < 56" "bit (0xff00000000000000 :: int) n \<longleftrightarrow> 56 \<le> n \<and> n < 64" for n
    using bit_int_mask [of "0x00ffffffffffffff" 56 n] bit_int_field [of "0xff00000000000000" 8 56 n] by simp_all
  have top: "drop_bit 56 (code AND 0x00ffffffffffffff) = 0"
    by (rule bit_word_eqI) (auto simp: bit_simps bits56)
  have "drop_bit 56 marked = drop_bit 56 (code AND 0x00ffffffffffffff) OR drop_bit 56 0xaa00000000000000"
    unfolding marked_def by (rule drop_bit_or)
  then show "drop_bit 56 marked = 0xaa" by (simp add: top)
  have high: "bit code n" if "56 \<le> n" "n < 64" for n
  proof -
    have "bit (drop_bit 56 code) (n - 56)" using that unfolding assms(2) by (simp add: bits bit_simps) arith
    then show ?thesis using that by (simp add: bit_simps)
  qed
  have "0xaa00000000000000 OR 0xff00000000000000 = (0xff00000000000000 :: u64)" by simp
  then have "corrected_far marked = (code AND 0x00ffffffffffffff) OR 0xff00000000000000"
    by (simp add: corrected_far_def marked_def or.assoc)
  also have "\<dots> = code"
    by (rule bit_word_eqI) (auto simp: bit_simps bits56 intro: high)
  finally show "corrected_far marked = code" .
qed

text \<open>
  C36: a block of the cache that is marked for verification faults when it is entered, and the
  fault resumes it at its own address when the unit still verifies; when it does not, the
  code of a fresh translation runs and the main loop is made to search again; when there is
  none the core is parked.
\<close>

theorem marked_block_runs:
  assumes "find_arm cfg code c = Some i" and "drop_bit 56 code = 0xff"
    and "far_el1 s = arm (LRU_cache (LRU_MarkForVerify cfg code c) i)"
    and "vector AND 0x1ff = 0" and "esr_el1 s AND 0xf8000000 = 0x80000000"
    and "M68K_VerifyUnit api ((code AND NOT 0x1000000000) - code_offset) s = (u, s1)"
    and "M68K_GetTranslationUnit api (mt_M68kAddress (units s ((code AND NOT 0x1000000000) - code_offset))) s1 = (n, s2)"
  shows "drop_bit 56 (far_el1 s) = 0xaa \<and>
     SYSHandler api cf code_offset vector s =
       (if u \<noteq> 0 then Some (Resumed (s1\<lparr>units := (units s1)(u := (units s1 u)\<lparr>mt_ARMEntryPoint := code\<rparr>), elr_el1 := code\<rparr>))
        else if n \<noteq> 0 then Some (Resumed (s2\<lparr>elr_el1 := mt_ARMEntryPoint (units s2 n), last_PC := 0xffffffff\<rparr>))
        else Some (Parked s2))"
proof -
  have far: "far_el1 s = (code AND 0x00ffffffffffffff) OR 0xaa00000000000000"
    using assms(1,3) by (simp add: LRU_MarkForVerify_def)
  note marked = marked_address [OF assms(2), folded far]
  have block: "unit_of_block code_offset (far_el1 s) = (code AND NOT 0x1000000000) - code_offset"
    by (simp add: unit_of_block_def marked(2))
  show ?thesis
    unfolding SYSHandler_def SYSValidateUnit_def block marked Let_def assms(5,6,7) prod.case
    by (simp add: assms(4,7) finish_exception_def)
qed

section \<open>The interrupt of the timer\<close>

fun timer_calls :: "irq_call list \<Rightarrow> u32 list \<times> u32 list \<times> nat" where
  "timer_calls [] = ([], [], 0)"
| "timer_calls (c # cs) =
     (let (reads, acks, ppc) = timer_calls cs
      in case c of Gic_read_iar i \<Rightarrow> (i # reads, acks, ppc) | Gic_write_eoir i \<Rightarrow> (reads, i # acks, ppc)
         | Ppc_report_interrupt v \<Rightarrow> (reads, acks, if v = 0x900 then Suc ppc else ppc))"

lemma timer_calls_append:
  "timer_calls (a @ b) =
     (case timer_calls a of (r, k, n) \<Rightarrow> case timer_calls b of (r', k', n') \<Rightarrow> (r @ r', k @ k', n + n'))"
  by (induction a) (auto simp: Let_def split: prod.splits irq_call.splits)

text \<open>A sequence of interrupts: the number the controller gives and the state of the timer.\<close>

definition irq_run :: "(u32 \<times> u64) list \<Rightarrow> 'a core_state_scheme \<Rightarrow> 'a core_state_scheme" where
  "irq_run es s = fold (\<lambda>(iar, timer) s. irq_entry True iar (s\<lparr>cntp_ctl := timer\<rparr>)) es s"

lemma frame_identity:
  fixes s :: "'a core_state_scheme"
  assumes "ctx t = ctx (SAVE_SHORT_CONTEXT s)" and "xreg t = xreg s" and "r \<le> 30"
  shows "xreg (LOAD_SHORT_CONTEXT t) r = xreg s r"
proof -
  have "SYSGetValueFromReg r t = SYSGetValueFromReg r (SAVE_SHORT_CONTEXT s)"
    using assms(1,2) by (simp add: SYSGetValueFromReg_def SAVE_SHORT_CONTEXT_def)
  then show ?thesis using load_get [OF assms(3), of t] save_get [OF assms(3), of s] by simp
qed

lemma frame_others:
  "mpidr_el1 (SAVE_SHORT_CONTEXT s) = mpidr_el1 s" "cntp_ctl (SAVE_SHORT_CONTEXT s) = cntp_ctl s"
  "irq_log (SAVE_SHORT_CONTEXT s) = irq_log s" "xreg (SAVE_SHORT_CONTEXT s) = xreg s"
  "mpidr_el1 (LOAD_SHORT_CONTEXT s) = mpidr_el1 s" "irq_log (LOAD_SHORT_CONTEXT s) = irq_log s"
  by (simp_all add: SAVE_SHORT_CONTEXT_def LOAD_SHORT_CONTEXT_def)

lemma irq_entry_core3:
  assumes "mpidr_el1 s AND 3 = 3"
  shows "mpidr_el1 (irq_entry True iar s) = mpidr_el1 s"
    and "irq_log (irq_entry True iar s) = irq_log s @ [Gic_read_iar iar] @
       (if cntp_ctl s AND 4 \<noteq> 0 then [Ppc_report_interrupt 0x900, Gic_write_eoir iar] else [])"
    and "r \<le> 30 \<Longrightarrow> xreg (irq_entry True iar s) r = xreg s r"
proof -
  have e: "irq_entry True iar s = LOAD_SHORT_CONTEXT (IRQHandler True iar (SAVE_SHORT_CONTEXT s))"
    using assms by (simp add: irq_entry_def)
  show "mpidr_el1 (irq_entry True iar s) = mpidr_el1 s"
    "irq_log (irq_entry True iar s) = irq_log s @ [Gic_read_iar iar] @
       (if cntp_ctl s AND 4 \<noteq> 0 then [Ppc_report_interrupt 0x900, Gic_write_eoir iar] else [])"
    unfolding e using assms by (simp_all add: frame_others IRQHandler_def log_irq_def Let_def)
  show "xreg (irq_entry True iar s) r = xreg s r" if "r \<le> 30"
    unfolding e by (rule frame_identity [OF _ _ that])
      (simp_all add: IRQHandler_def log_irq_def Let_def frame_others assms)
qed

text \<open>
  C37: interrupts on core 3: over any sequence of them each timer interrupt is reported to the PPC
  once and acknowledged with the number that was read, no register of the interrupted code
  changes, and the number of an interrupt that is not the timer's is read and never
  acknowledged.
\<close>

theorem core3_interrupts:
  assumes "mpidr_el1 s AND 3 = 3" and "r \<le> 30"
  shows "xreg (irq_run es s) r = xreg s r \<and>
     (\<exists>log. irq_log (irq_run es s) = irq_log s @ log \<and>
        timer_calls log = (map fst es, map fst (filter (\<lambda>(i, t). t AND 4 \<noteq> 0) es), length (filter (\<lambda>(i, t). t AND 4 \<noteq> 0) es)))"
  using assms(1)
proof (induction es arbitrary: s)
  case Nil
  then show ?case by (simp add: irq_run_def)
next
  case (Cons e es)
  obtain i t where e: "e = (i, t)" by (cases e)
  let ?s = "s\<lparr>cntp_ctl := t\<rparr>"
  have m: "mpidr_el1 ?s AND 3 = 3" using Cons.prems by simp
  note step = irq_entry_core3 [OF m, where iar = i]
  have run: "irq_run (e # es) s = irq_run es (irq_entry True i ?s)" by (simp add: irq_run_def e)
  obtain log where log: "irq_log (irq_run es (irq_entry True i ?s)) = irq_log (irq_entry True i ?s) @ log"
      "timer_calls log = (map fst es, map fst (filter (\<lambda>(i, t). t AND 4 \<noteq> 0) es), length (filter (\<lambda>(i, t). t AND 4 \<noteq> 0) es))"
    and x: "xreg (irq_run es (irq_entry True i ?s)) r = xreg (irq_entry True i ?s) r"
    using Cons.IH [of "irq_entry True i ?s"] step(1) m by auto
  define new where "new = [Gic_read_iar i] @ (if t AND 4 \<noteq> 0 then [Ppc_report_interrupt 0x900, Gic_write_eoir i] else [])"
  have "irq_log (irq_run (e # es) s) = irq_log s @ (new @ log)"
    unfolding run log(1) step(2) by (simp add: new_def)
  moreover have "timer_calls (new @ log) = (map fst (e # es), map fst (filter (\<lambda>(i, t). t AND 4 \<noteq> 0) (e # es)),
      length (filter (\<lambda>(i, t). t AND 4 \<noteq> 0) (e # es)))"
    by (simp add: timer_calls_append log(2) new_def e)
  moreover have "xreg (irq_run (e # es) s) r = xreg s r"
    unfolding run x using step(3) [OF assms(2)] by simp
  ultimately show ?case by blast
qed

section \<open>Instances\<close>

definition demo_api :: "core_state jit_api" where
  "demo_api = \<lparr>M68K_VerifyUnit = (\<lambda>u s. (u, s)), M68K_VerifyUnitCRC32 = (\<lambda>u s. (u, s)), M68K_GetTranslationUnit = (\<lambda>pc s. (0, s))\<rparr>"

definition core_demo :: "u64 \<Rightarrow> u64 \<Rightarrow> u64 \<Rightarrow> core_state" where
  "core_demo cpu esr far = exec_state.extend loop_demo (core_state.fields cpu esr far 0 [])"

lemma core_demo_fields:
  "esr_el1 (core_demo cpu esr far) = esr" "far_el1 (core_demo cpu esr far) = far" "mpidr_el1 (core_demo cpu esr far) = cpu"
  "irq_log (core_demo cpu esr far) = []" "units (core_demo cpu esr far) = (\<lambda>u. loop_unit)"
  by (simp_all add: core_demo_def exec_state.defs core_state.defs loop_demo_def cpu_state.defs)


theorem marked_block_runs_witness:
  "\<exists>t. SYSHandler demo_api pi_config 0x40 0x400 (core_demo 0 0x82000000 0xaaffff9000001040) = Some (Resumed t) \<and>
     elr_el1 t = 0xffffff9000001040"
proof -
  let ?s = "core_demo 0 0x82000000 0xaaffff9000001040"
  let ?c = "demo_lru\<lparr>LRU_cache := (\<lambda>i. \<lparr>m68k = 0x1000, arm = 0xffffff9000001040\<rparr>)\<rparr>"
  have "find_arm demo_lru_config 0xffffff9000001040 ?c = Some 0"
    by (simp add: find_arm_def demo_lru_config_def upt_rec)
  then show ?thesis
    using marked_block_runs [of demo_lru_config "0xffffff9000001040" ?c 0 ?s "0x400" demo_api "0x40" "0xffffff8000001000" ?s 0 ?s]
    by (simp add: core_demo_fields demo_api_def LRU_MarkForVerify_def)
qed

theorem core3_interrupts_witness:
  "\<exists>log. irq_log (irq_run [(30, 7), (31, 1)] (core_demo 0x83 0 0)) = log \<and> timer_calls log = ([30, 31], [30], 1)"
  using core3_interrupts [of "core_demo 0x83 0 0" 0 "[(30, 7), (31, 1)]"] by (simp add: core_demo_fields)

end
