(* ===== verification/Unicam.thy ===== *)
theory Unicam
  imports PsBus
begin

text \<open>
  The camera interface of \<open>source/src/raspi/start_rpi64.c\<close>: the clock setup, the access to registers
  and their fields, and \<open>unicam_run\<close>, as straight sequences of register accesses on the
  devices of \<open>Device\<close>. The register map is that of the branch without \<open>__BCM2708A0__\<close>.
  \<open>enable_unicam_domain\<close> is outside the repository and a parameter; \<open>usleep\<close> is the same code
  as in the bus driver.
\<close>

section \<open>Registers and masks\<close>

abbreviation (input) UNICAM_CTRL :: u32 where "UNICAM_CTRL \<equiv> 0x0"
abbreviation (input) UNICAM_STA :: u32 where "UNICAM_STA \<equiv> 0x4"
abbreviation (input) UNICAM_ANA :: u32 where "UNICAM_ANA \<equiv> 0x8"
abbreviation (input) UNICAM_PRI :: u32 where "UNICAM_PRI \<equiv> 0xc"
abbreviation (input) UNICAM_CLK :: u32 where "UNICAM_CLK \<equiv> 0x10"
abbreviation (input) UNICAM_CLT :: u32 where "UNICAM_CLT \<equiv> 0x14"
abbreviation (input) UNICAM_DAT0 :: u32 where "UNICAM_DAT0 \<equiv> 0x18"
abbreviation (input) UNICAM_DAT1 :: u32 where "UNICAM_DAT1 \<equiv> 0x1c"
abbreviation (input) UNICAM_DLT :: u32 where "UNICAM_DLT \<equiv> 0x28"
abbreviation (input) UNICAM_CMP0 :: u32 where "UNICAM_CMP0 \<equiv> 0x2c"
abbreviation (input) UNICAM_ICTL :: u32 where "UNICAM_ICTL \<equiv> 0x100"
abbreviation (input) UNICAM_ISTA :: u32 where "UNICAM_ISTA \<equiv> 0x104"
abbreviation (input) UNICAM_IDI0 :: u32 where "UNICAM_IDI0 \<equiv> 0x108"
abbreviation (input) UNICAM_IPIPE :: u32 where "UNICAM_IPIPE \<equiv> 0x10c"
abbreviation (input) UNICAM_IBSA0 :: u32 where "UNICAM_IBSA0 \<equiv> 0x110"
abbreviation (input) UNICAM_IBEA0 :: u32 where "UNICAM_IBEA0 \<equiv> 0x114"
abbreviation (input) UNICAM_IBLS :: u32 where "UNICAM_IBLS \<equiv> 0x118"
abbreviation (input) UNICAM_IHWIN :: u32 where "UNICAM_IHWIN \<equiv> 0x120"
abbreviation (input) UNICAM_IVWIN :: u32 where "UNICAM_IVWIN \<equiv> 0x128"
abbreviation (input) UNICAM_DCS :: u32 where "UNICAM_DCS \<equiv> 0x200"
abbreviation (input) UNICAM_MISC :: u32 where "UNICAM_MISC \<equiv> 0x400"

definition BIT :: "nat \<Rightarrow> u32" where
  "BIT n = push_bit n 1"

text \<open>\<open>~0\<close> is an \<open>int\<close>, so the shift to the right is arithmetic.\<close>

definition GENMASK :: "nat \<Rightarrow> nat \<Rightarrow> u32" where
  "GENMASK h l = (NOT 0 - push_bit l 1 + 1) AND signed_drop_bit (32 - 1 - h) (NOT 0)"

definition CSI1_BASE :: u64 where "CSI1_BASE = 0xf2801000"
definition CSI1_CLKGATE :: u64 where "CSI1_CLKGATE = 0xf2802004"
definition CM_CAM1CTL :: u64 where "CM_CAM1CTL = 0xf2101048"
definition CM_CAM1DIV :: u64 where "CM_CAM1DIV = 0xf210104c"
definition CM_PASSWD :: u32 where "CM_PASSWD = push_bit 24 0x5a"

partial_function (option) cam_wait :: "bool \<Rightarrow> 'a io_state_scheme \<Rightarrow> 'a io_state_scheme option" where
  "cam_wait busy s =
     (case rd32le CM_CAM1CTL s of None \<Rightarrow> None
      | Some (v, s) \<Rightarrow> if (v AND 0x80 \<noteq> 0) = busy then cam_wait busy s else Some s)"

definition setup_csiclk :: "'a io_state_scheme \<Rightarrow> 'a io_state_scheme option" where
  "setup_csiclk s =
     do {
       s \<leftarrow> usleep 100 (wr32le CM_CAM1CTL (CM_PASSWD OR push_bit 5 1) s);
       s \<leftarrow> cam_wait True s;
       s \<leftarrow> usleep 100 s;
       s \<leftarrow> usleep 100 (wr32le CM_CAM1DIV (CM_PASSWD OR push_bit 12 4) s);
       s \<leftarrow> usleep 100 (wr32le CM_CAM1CTL (CM_PASSWD OR 6 OR push_bit 4 1) s);
       s \<leftarrow> cam_wait False s;
       usleep 100 s
     }"

definition ClockWrite :: "u32 \<Rightarrow> 'a io_state_scheme \<Rightarrow> 'a io_state_scheme" where
  "ClockWrite nValue s = wr32le CSI1_CLKGATE (CM_PASSWD OR nValue) s"

text \<open>The loop does not end for an empty mask.\<close>

partial_function (option) shift_to_mask :: "u32 \<Rightarrow> u32 \<Rightarrow> u32 option" where
  "shift_to_mask nTempMask nValue =
     (if nTempMask AND 1 = 0 then shift_to_mask (drop_bit 1 nTempMask) (push_bit 1 nValue) else Some nValue)"

definition SetField :: "u32 \<Rightarrow> u32 \<Rightarrow> u32 \<Rightarrow> u32 option" where
  "SetField pValue nValue nMask =
     do { nValue \<leftarrow> shift_to_mask nMask nValue; Some ((pValue AND NOT nMask) OR nValue) }"

definition ReadReg :: "u32 \<Rightarrow> (u32, 'a io_state_scheme) prog" where
  "ReadReg nOffset s = rd32le (CSI1_BASE + ucast nOffset) s"

definition WriteReg :: "u32 \<Rightarrow> u32 \<Rightarrow> 'a io_state_scheme \<Rightarrow> 'a io_state_scheme" where
  "WriteReg nOffset nValue s = wr32le (CSI1_BASE + ucast nOffset) nValue s"

definition WriteRegField :: "u32 \<Rightarrow> u32 \<Rightarrow> u32 \<Rightarrow> 'a io_state_scheme \<Rightarrow> 'a io_state_scheme option" where
  "WriteRegField nOffset nValue nMask s =
     do {
       (nBuffer, s) \<leftarrow> ReadReg nOffset s;
       nBuffer \<leftarrow> SetField nBuffer nValue nMask;
       Some (WriteReg nOffset nBuffer s)
     }"

section \<open>The sequence\<close>

definition unicam_reset :: "'a io_state_scheme \<Rightarrow> 'a io_state_scheme option" where
  "unicam_reset s =
     do {
       let s = WriteReg UNICAM_CTRL (BIT 1) (ClockWrite 0x15 s);
       nValue \<leftarrow> SetField (BIT 2) 7 (GENMASK 7 4);
       nValue \<leftarrow> SetField nValue 7 (GENMASK 11 8);
       s \<leftarrow> usleep 1000 (WriteReg UNICAM_ANA nValue s);
       s \<leftarrow> WriteRegField UNICAM_ANA 0 (BIT 2) s;
       s \<leftarrow> WriteRegField UNICAM_CTRL 1 (BIT 2) s;
       s \<leftarrow> WriteRegField UNICAM_CTRL 0 (BIT 2) s;
       WriteRegField UNICAM_CTRL 0 (BIT 0) s
     }"

definition unicam_receiver :: "'a io_state_scheme \<Rightarrow> 'a io_state_scheme option" where
  "unicam_receiver s =
     do {
       (nValue, s) \<leftarrow> ReadReg UNICAM_CTRL s;
       nValue \<leftarrow> SetField nValue 0 (GENMASK 3 3);
       nValue \<leftarrow> SetField nValue 0 (GENMASK 5 5);
       nValue \<leftarrow> SetField nValue 0xf (GENMASK 11 8);
       nValue \<leftarrow> SetField nValue 128 (GENMASK 20 12);
       let s = WriteReg UNICAM_CTRL nValue s;
       let s = WriteReg UNICAM_IHWIN 0 s;
       Some (WriteReg UNICAM_IVWIN 0 s)
     }"

definition unicam_priority :: "'a io_state_scheme \<Rightarrow> 'a io_state_scheme option" where
  "unicam_priority s =
     do {
       (nValue, s) \<leftarrow> ReadReg UNICAM_PRI s;
       nValue \<leftarrow> SetField nValue 0 (GENMASK 17 16);
       nValue \<leftarrow> SetField nValue 0 (GENMASK 15 12);
       nValue \<leftarrow> SetField nValue 0xe (GENMASK 11 8);
       nValue \<leftarrow> SetField nValue 8 (GENMASK 7 4);
       nValue \<leftarrow> SetField nValue 2 (GENMASK 2 1);
       nValue \<leftarrow> SetField nValue 1 (BIT 0);
       let s = WriteReg UNICAM_PRI nValue s;
       WriteRegField UNICAM_ANA 0 (BIT 3) s
     }"

definition unicam_interrupts :: "u32 \<Rightarrow> 'a io_state_scheme \<Rightarrow> 'a io_state_scheme option" where
  "unicam_interrupts height s =
     do {
       let nLineIntFreq = drop_bit 2 height;
       nValue \<leftarrow> SetField (BIT 0 OR BIT 1 OR BIT 2) (if nLineIntFreq \<ge> 128 then nLineIntFreq else 128) (GENMASK 28 16);
       let s = WriteReg UNICAM_ICTL nValue s;
       let s = WriteReg UNICAM_STA (BIT 12 + BIT 2 + BIT 3 + BIT 4 + BIT 5 + BIT 6 + BIT 7 + BIT 9 + BIT 10 + BIT 13 + BIT 15 + BIT 16) s;
       Some (WriteReg UNICAM_ISTA (BIT 0 + BIT 1 + BIT 2) s)
     }"

definition unicam_timing :: "'a io_state_scheme \<Rightarrow> 'a io_state_scheme option" where
  "unicam_timing s =
     do {
       s \<leftarrow> WriteRegField UNICAM_CLT 2 (GENMASK 7 0) s;
       s \<leftarrow> WriteRegField UNICAM_CLT 6 (GENMASK 15 8) s;
       s \<leftarrow> WriteRegField UNICAM_DLT 2 (GENMASK 7 0) s;
       s \<leftarrow> WriteRegField UNICAM_DLT 6 (GENMASK 15 8) s;
       s \<leftarrow> WriteRegField UNICAM_DLT 0 (GENMASK 23 16) s;
       WriteRegField UNICAM_CTRL 0 (BIT 4) s
     }"

definition unicam_compare :: "'a io_state_scheme \<Rightarrow> 'a io_state_scheme option" where
  "unicam_compare s =
     do {
       nValue \<leftarrow> SetField 0 1 (BIT 31);
       nValue \<leftarrow> SetField nValue 1 (BIT 9);
       nValue \<leftarrow> SetField nValue 1 (BIT 8);
       nValue \<leftarrow> SetField nValue 0 (GENMASK 7 6);
       nValue \<leftarrow> SetField nValue 1 (GENMASK 5 0);
       Some (WriteReg UNICAM_CMP0 nValue s)
     }"

definition unicam_lanes :: "u8 \<Rightarrow> 'a io_state_scheme \<Rightarrow> 'a io_state_scheme option" where
  "unicam_lanes lanes s =
     do {
       nValue \<leftarrow> SetField 0 1 (BIT 0);
       nValue \<leftarrow> SetField nValue 1 (BIT 2);
       let s = WriteReg UNICAM_CLK nValue s;
       nValue \<leftarrow> SetField 0 1 (BIT 0);
       nValue \<leftarrow> SetField nValue 1 (BIT 2);
       let s = WriteReg UNICAM_DAT0 nValue s;
       let s = (if lanes = 1 then WriteReg UNICAM_DAT1 0 s else s);
       Some (if lanes = 2 then WriteReg UNICAM_DAT1 nValue s else s)
     }"

definition bus_address :: "u64 \<Rightarrow> u32" where
  "bus_address a = (ucast a AND NOT 0xC0000000) OR 0xC0000000"

definition unicam_buffer :: "u64 \<Rightarrow> u32 \<Rightarrow> u32 \<Rightarrow> u8 \<Rightarrow> 'a io_state_scheme \<Rightarrow> 'a io_state_scheme" where
  "unicam_buffer address width height bbp s =
     (let s = WriteReg UNICAM_IBLS (width * ucast (bbp div 8)) s;
          s = WriteReg UNICAM_IBSA0 (bus_address address) s
      in WriteReg UNICAM_IBEA0 (bus_address (address + ucast (width * height * ucast (bbp div 8)))) s)"

definition unicam_start :: "u8 \<Rightarrow> 'a io_state_scheme \<Rightarrow> 'a io_state_scheme option" where
  "unicam_start datatype' s =
     do {
       nValue \<leftarrow> SetField 0 0 (GENMASK 2 0);
       nValue \<leftarrow> SetField nValue 0 (GENMASK 9 7);
       let s = WriteReg UNICAM_IPIPE nValue s;
       let s = WriteReg UNICAM_IDI0 (ucast datatype') s;
       (nValue, s) \<leftarrow> ReadReg UNICAM_MISC s;
       nValue \<leftarrow> SetField nValue 1 (BIT 6);
       nValue \<leftarrow> SetField nValue 1 (BIT 9);
       let s = WriteReg UNICAM_MISC nValue s;
       let s = WriteReg UNICAM_DCS 0 s;
       s \<leftarrow> WriteRegField UNICAM_CTRL 1 (BIT 0) s;
       WriteRegField UNICAM_ICTL 1 (GENMASK 6 5) s
     }"

definition unicam_run ::
    "('a io_state_scheme \<Rightarrow> 'a io_state_scheme option) \<Rightarrow> u64 \<Rightarrow> u8 \<Rightarrow> u8 \<Rightarrow> u32 \<Rightarrow> u32 \<Rightarrow> u8 \<Rightarrow>
     'a io_state_scheme \<Rightarrow> 'a io_state_scheme option" where
  "unicam_run enable_unicam_domain address lanes datatype' width height bbp s =
     do {
       s \<leftarrow> enable_unicam_domain s;
       s \<leftarrow> setup_csiclk s;
       s \<leftarrow> unicam_reset s;
       s \<leftarrow> unicam_receiver s;
       s \<leftarrow> unicam_priority s;
       s \<leftarrow> unicam_interrupts height s;
       s \<leftarrow> unicam_timing s;
       s \<leftarrow> unicam_compare s;
       s \<leftarrow> unicam_lanes lanes s;
       unicam_start datatype' (unicam_buffer address width height bbp s)
     }"

section \<open>Fields\<close>

lemma genmask_open: "GENMASK h l = NOT (mask l)"
  by (simp add: GENMASK_def not_eq_complement mask_eq_exp_minus_1)

lemma and_one_bit: "m AND 1 = 0 \<longleftrightarrow> \<not> bit (m :: u32) 0"
  by (simp add: and_one_eq bit_0 flip: even_iff_mod_2_eq_zero)

lemma shift_to_mask_result:
  "bit m k \<Longrightarrow> (\<forall>j<k. \<not> bit m j) \<Longrightarrow> shift_to_mask m v = Some (push_bit k v)"
proof (induction k arbitrary: m v)
  case 0
  have "m AND 1 \<noteq> 0" using "0.prems" by (simp add: and_one_bit)
  then show ?case by (subst shift_to_mask.simps) simp
next
  case (Suc k)
  have "\<not> bit m 0" using Suc.prems(2) by simp
  then have "m AND 1 = 0" by (simp add: and_one_bit)
  then have "shift_to_mask m v = shift_to_mask (drop_bit 1 m) (push_bit 1 v)" by (subst shift_to_mask.simps) simp
  also have "\<dots> = Some (push_bit k (push_bit 1 v))"
    using Suc.prems by (intro Suc.IH) (simp_all add: bit_simps)
  finally show ?case by simp
qed

lemma set_field_result:
  "bit m k \<Longrightarrow> (\<forall>j<k. \<not> bit m j) \<Longrightarrow> SetField v n m = Some ((v AND NOT m) OR push_bit k n)"
  by (simp add: SetField_def shift_to_mask_result)

lemma set_bit_field: "k < 32 \<Longrightarrow> SetField v n (BIT k) = Some ((v AND NOT (BIT k)) OR push_bit k n)"
  by (rule set_field_result) (auto simp: BIT_def bit_simps)

lemma set_mask_field: "l < 32 \<Longrightarrow> SetField v n (GENMASK h l) = Some (take_bit l v OR push_bit l n)"
  by (simp add: set_field_result [of _ l] genmask_open bit_simps take_bit_eq_mask)

section \<open>Delays end\<close>

lemma unat_wide: "unat (ucast (a :: u32) :: u64) = unat a"
proof -
  have "unat a < 2 ^ 32" using unsigned_less [where w = a and 'a = nat] by simp
  then have "unat a < 2 ^ 64" by simp
  then show ?thesis by (simp add: unsigned_ucast_eq take_bit_nat_eq_self)
qed

lemma wide_eq: "(ucast (a :: u32) :: u64) = ucast b \<longleftrightarrow> a = b"
  by (simp add: word_unat_eq_iff unat_wide)

definition timer_runs :: "(nat \<Rightarrow> u64) \<Rightarrow> 'a io_state_scheme \<Rightarrow> bool" where
  "timer_runs T s \<longleftrightarrow> (\<forall>m n. m \<le> n \<longrightarrow> T m \<le> T n) \<and> (\<forall>t. \<exists>n. t \<le> T n) \<and>
     (\<forall>ws n. io_read s ws n SYSTIMER_HI = ucast (drop_bit 32 (T n)) \<and> io_read s ws n SYSTIMER_LO = ucast (T n))"

lemma timer_value:
  assumes "timer_runs T s" and "t \<le> T (io_n s)"
  shows "\<exists>v j. read_systimer s = Some (v, skip_io j s) \<and> t \<le> v"
proof -
  have io: "io_read s ws n SYSTIMER_HI = ucast (drop_bit 32 (T n))" "io_read s ws n SYSTIMER_LO = ucast (T n)" for ws n
    using assms(1) by (auto simp: timer_runs_def)
  have mono: "T m \<le> T n" if "m \<le> n" for m n using assms(1) that by (auto simp: timer_runs_def)
  let ?n = "io_n s"
  define hi where "hi = (\<lambda>n. ucast (drop_bit 32 (T n)) :: u32)"
  have hi: "unat (hi n) = unat (T n) div 2 ^ 32" for n
  proof -
    have "unat (T n) < 2 ^ 64" using unsigned_less [where w = "T n" and 'a = nat] by simp
    then have "unat (T n) div 2 ^ 32 < 2 ^ 32" by (simp add: less_mult_imp_div_less)
    then show ?thesis
      by (simp add: hi_def unsigned_ucast_eq unsigned_drop_bit_eq drop_bit_eq_div unat_div take_bit_nat_eq_self)
  qed
  have join: "unat (push_bit 32 (ucast a) OR ucast b :: u64) = unat a * 2 ^ 32 + unat b" for a b :: u32
  proof -
    have "(push_bit 32 (ucast a) OR ucast b :: u64) = push_bit 32 (ucast a) + ucast b"
      by (rule disjunctive_add [symmetric]) (auto simp: bit_simps dest: bit_imp_le_length)
    moreover have "unat (push_bit 32 (ucast a) :: u64) = unat a * 2 ^ 32"
      using unsigned_less [where w = a and 'a = nat]
      by (simp add: push_bit_eq_mult unat_word_ariths unat_wide)
    moreover have "unat (ucast b :: u64) = unat b" by (rule unat_wide)
    ultimately show ?thesis
      using unsigned_less [where w = a and 'a = nat] unsigned_less [where w = b and 'a = nat]
      by (simp add: unat_word_ariths)
  qed
  have lo: "unat (ucast (T n) :: u32) = unat (T n) mod 2 ^ 32" for n
    by (simp add: unsigned_ucast_eq take_bit_eq_mod)
  have later: "unat t \<le> unat (T (?n + j))" for j
    using assms(2) mono [of ?n "?n + j"] by (simp add: word_le_nat_alt)
  have div: "unat t div 2 ^ 32 \<le> unat (T (?n + j)) div 2 ^ 32" for j
    using later [of j] by (rule div_le_mono)
  show ?thesis
  proof (cases "hi ?n = hi (Suc (Suc ?n))")
    case True
    have "read_systimer s = Some (push_bit 32 (ucast (hi ?n)) OR ucast (ucast (T (?n + 1)) :: u32), skip_io 3 s)"
      using True by (simp add: read_systimer_def rd32le_def io hi_def numeral_eq_Suc)
    moreover have "unat (hi ?n) = unat (T (?n + 1)) div 2 ^ 32"
    proof -
      have "unat (T ?n) div 2 ^ 32 \<le> unat (T (?n + 1)) div 2 ^ 32"
        "unat (T (?n + 1)) div 2 ^ 32 \<le> unat (T (Suc (Suc ?n))) div 2 ^ 32"
        using mono [of ?n "?n + 1"] mono [of "?n + 1" "Suc (Suc ?n)"] by (auto simp: word_le_nat_alt intro: div_le_mono)
      then show ?thesis using True hi [of ?n] hi [of "Suc (Suc ?n)"] by simp
    qed
    moreover have "t \<le> push_bit 32 (ucast (hi ?n)) OR ucast (ucast (T (?n + 1)) :: u32)"
      using later [of 1] calculation(2) unfolding word_le_nat_alt join lo by (simp add: div_mult_mod_eq)
    ultimately show ?thesis by blast
  next
    case False
    have "read_systimer s = Some (push_bit 32 (ucast (hi (?n + 3))) OR ucast (ucast (T (?n + 4)) :: u32), skip_io 5 s)"
      using False by (simp add: read_systimer_def rd32le_def io hi_def numeral_eq_Suc)
    moreover have "unat t < (unat (hi (?n + 3))) * 2 ^ 32"
    proof -
      have "unat (hi ?n) \<le> unat (hi (Suc (Suc ?n)))" "unat (hi (Suc (Suc ?n))) \<le> unat (hi (?n + 3))"
        using mono [of ?n "Suc (Suc ?n)"] mono [of "Suc (Suc ?n)" "?n + 3"] unfolding hi
        by (auto simp: word_le_nat_alt intro: div_le_mono)
      moreover have "unat (hi ?n) \<noteq> unat (hi (Suc (Suc ?n)))" using False by (simp add: word_unat_eq_iff)
      ultimately have "unat t div 2 ^ 32 < unat (hi (?n + 3))" using div [of 0] hi [of ?n] by simp
      then show ?thesis by (simp add: div_less_iff_less_mult)
    qed
    then have "t \<le> push_bit 32 (ucast (hi (?n + 3))) OR ucast (ucast (T (?n + 4)) :: u32)"
      unfolding word_le_nat_alt join by simp
    ultimately show ?thesis by blast
  qed
qed

lemma read_systimer_steps: "\<exists>v j. read_systimer s = Some (v, skip_io j s) \<and> 0 < j"
proof (cases "io_read s (io_writes s) (io_n s) SYSTIMER_HI = io_read s (io_writes s) (Suc (Suc (io_n s))) SYSTIMER_HI")
  case True
  then have "\<exists>v. read_systimer s = Some (v, skip_io 3 s)" by (simp add: read_systimer_def rd32le_def numeral_eq_Suc)
  then show ?thesis by force
next
  case False
  then have "\<exists>v. read_systimer s = Some (v, skip_io 5 s)" by (simp add: read_systimer_def rd32le_def numeral_eq_Suc)
  then show ?thesis by force
qed

lemma usleep_loop_steps:
  assumes "timer_runs T s" and "t \<le> T (io_n s + k)"
  shows "\<exists>j. usleep_loop t s = Some (skip_io j s)"
  using assms
proof (induction k arbitrary: s rule: less_induct)
  case (less k)
  obtain v j where v: "read_systimer s = Some (v, skip_io j s)" "0 < j"
    using read_systimer_steps by blast
  show ?case
  proof (cases "v < t")
    case False
    then have "usleep_loop t s = Some (skip_io j s)" by (subst usleep_loop.simps) (simp add: v)
    then show ?thesis by blast
  next
    case True
    then have k: "0 < k"
    proof (rule contrapos_pp)
      assume "\<not> 0 < k"
      then have "t \<le> T (io_n s)" using less.prems(2) by simp
      then have "t \<le> v" using timer_value [OF less.prems(1)] v(1) by fastforce
      then show "\<not> v < t" by (simp add: not_less)
    qed
    have run: "usleep_loop t s = usleep_loop t (skip_io j s)" using True by (subst usleep_loop.simps) (simp add: v)
    have ready: "timer_runs T (skip_io j s)" using less.prems(1) by (simp add: timer_runs_def)
    have "io_n s + k \<le> io_n s + j + (k - 1)" using k v(2) by simp
    then have "T (io_n s + k) \<le> T (io_n (skip_io j s) + (k - 1))"
      using less.prems(1) by (simp add: timer_runs_def)
    then have "t \<le> T (io_n (skip_io j s) + (k - 1))" using less.prems(2) by simp
    then obtain i where "usleep_loop t (skip_io j s) = Some (skip_io i (skip_io j s))"
      using less.IH [of "k - 1" "skip_io j s"] k ready by auto
    then show ?thesis unfolding run by (auto simp: add.assoc)
  qed
qed

lemma usleep_ends:
  assumes "timer_runs T s"
  shows "\<exists>j. usleep d s = Some (skip_io j s)"
proof -
  obtain v j where v: "read_systimer s = Some (v, skip_io j s)" using read_systimer_steps by blast
  have ready: "timer_runs T (skip_io j s)" using assms by (simp add: timer_runs_def)
  obtain n where n: "v + d \<le> T n" using assms unfolding timer_runs_def by blast
  then have "v + d \<le> T (io_n (skip_io j s) + n)"
    using assms by (auto simp: timer_runs_def intro: order_trans)
  then obtain i where "usleep_loop (v + d) (skip_io j s) = Some (skip_io i (skip_io j s))"
    using usleep_loop_steps [OF ready] by blast
  then show ?thesis by (auto simp: usleep_def v add.assoc)
qed

section \<open>The register bank\<close>

text \<open>
  The registers hold what was written last, and before that \<open>r0\<close>; the clock generator
  reports itself busy some time after it was enabled and not busy some time after it was
  disabled.
\<close>

definition csi_reg :: "(u32 \<Rightarrow> u32) \<Rightarrow> (u64 \<times> u32) list \<Rightarrow> u32 \<Rightarrow> u32" where
  "csi_reg r0 ws off =
     (case (if off < 0x800 then map_of ws (CSI1_BASE + ucast off) else None) of Some v \<Rightarrow> v | None \<Rightarrow> r0 off)"

definition cam_enabled :: "(u64 \<times> u32) list \<Rightarrow> bool" where
  "cam_enabled ws = (case map_of ws CM_CAM1CTL of Some v \<Rightarrow> bit v 4 | None \<Rightarrow> False)"

definition csi_ready :: "(u32 \<Rightarrow> u32) \<Rightarrow> 'a io_state_scheme \<Rightarrow> bool" where
  "csi_ready r0 s \<longleftrightarrow> (\<exists>T. timer_runs T s) \<and>
     (\<forall>ws n off. off < 0x800 \<longrightarrow> io_read s ws n (CSI1_BASE + ucast off) = csi_reg r0 ws off) \<and>
     (\<forall>ws n. \<exists>k. bit (io_read s ws (n + k) CM_CAM1CTL) 7 = cam_enabled ws)"

definition does :: "(u32 \<Rightarrow> u32) \<Rightarrow> ('a io_state_scheme \<Rightarrow> 'a io_state_scheme option) \<Rightarrow> ((u32 \<Rightarrow> u32) \<Rightarrow> u32 \<Rightarrow> u32) \<Rightarrow> bool" where
  "does r0 p f \<longleftrightarrow> (\<forall>s. csi_ready r0 s \<longrightarrow>
     (\<exists>t. p s = Some t \<and> csi_ready r0 t \<and> csi_reg r0 (io_writes t) = f (csi_reg r0 (io_writes s))))"

lemma csi_ready_frame [simp]:
  "csi_ready r0 (s\<lparr>io_n := n\<rparr>) = csi_ready r0 s" "csi_ready r0 (s\<lparr>io_writes := w\<rparr>) = csi_ready r0 s"
  "csi_ready r0 (wr32le a v s) = csi_ready r0 s"
  by (simp_all add: csi_ready_def timer_runs_def wr32le_def)

lemma csi_other: "CSI1_BASE + ucast (a :: u32) \<noteq> CM_CAM1CTL"
  "CSI1_BASE + ucast (a :: u32) \<noteq> CM_CAM1DIV" 
proof -
  have small: "unat (ucast a :: u64) < 4294967296"
    using unsigned_less [where w = a and 'a = nat] by (simp add: unat_wide)
  then have "unat (CSI1_BASE + ucast a) = unat CSI1_BASE + unat (ucast a :: u64)"
    by (simp add: CSI1_BASE_def unat_word_ariths)
  then have "0xf2801000 \<le> unat (CSI1_BASE + ucast a)" by (simp add: CSI1_BASE_def)
  then show "CSI1_BASE + ucast a \<noteq> CM_CAM1CTL" "CSI1_BASE + ucast a \<noteq> CM_CAM1DIV"
    by (auto simp: CM_CAM1CTL_def CM_CAM1DIV_def)
qed

lemma csi_reg_write: "off < 0x800 \<Longrightarrow> csi_reg r0 (io_writes (WriteReg off v s)) = (csi_reg r0 (io_writes s))(off := v)"
  by (rule ext) (simp add: WriteReg_def wr32le_def csi_reg_def wide_eq)

subsection \<open>Rules\<close>

text \<open>\<open>turns\<close> is the same for steps that cannot fail, which stand before a partial one.\<close>

definition turns :: "(u32 \<Rightarrow> u32) \<Rightarrow> ('a io_state_scheme \<Rightarrow> 'a io_state_scheme) \<Rightarrow> ((u32 \<Rightarrow> u32) \<Rightarrow> u32 \<Rightarrow> u32) \<Rightarrow> bool" where
  "turns r0 f g \<longleftrightarrow> (\<forall>s. csi_ready r0 s \<longrightarrow> csi_ready r0 (f s) \<and> csi_reg r0 (io_writes (f s)) = g (csi_reg r0 (io_writes s)))"

lemma turns_same: "turns r0 (\<lambda>s. s) (\<lambda>r. r)"
  by (simp add: turns_def)

lemma turns_write: "turns r0 f g \<Longrightarrow> off < 0x800 \<Longrightarrow> turns r0 (\<lambda>s. WriteReg off v (f s)) (\<lambda>r. (g r)(off := v))"
  by (simp add: turns_def csi_reg_write) (simp add: WriteReg_def)

lemma turns_if:
  "turns r0 f g \<Longrightarrow> turns r0 f' g' \<Longrightarrow> turns r0 (\<lambda>s. if b then f s else f' s) (\<lambda>r. if b then g r else g' r)"
  by (simp add: turns_def)

lemma does_eq: "does r0 p f \<Longrightarrow> (\<And>r. f r = g r) \<Longrightarrow> does r0 p g"
  by (simp add: does_def)

lemma does_some: "turns r0 f g \<Longrightarrow> does r0 (\<lambda>s. Some (f s)) g"
  by (simp add: does_def turns_def)

lemma does_seq: "does r0 p f \<Longrightarrow> does r0 q g \<Longrightarrow> does r0 (\<lambda>s. Option.bind (p s) q) (\<lambda>r. g (f r))"
  unfolding does_def by (metis bind.bind_lunit)

lemma read_reg:
  "csi_ready r0 s \<Longrightarrow> off < 0x800 \<Longrightarrow> ReadReg off s = Some (csi_reg r0 (io_writes s) off, skip_io 1 s)"
  by (simp add: ReadReg_def rd32le_def csi_ready_def)

lemma does_read:
  assumes "turns r0 f h" and "off < 0x800" and "\<And>v. does r0 (q v) (g v)"
  shows "does r0 (\<lambda>s. Option.bind (ReadReg off (f s)) (\<lambda>(v, s). q v s)) (\<lambda>r. g (h r off) (h r))"
  unfolding does_def
proof (intro allI impI)
  fix s :: "'a io_state_scheme"
  assume "csi_ready r0 s"
  then have f: "csi_ready r0 (f s)" "csi_reg r0 (io_writes (f s)) = h (csi_reg r0 (io_writes s))"
    using assms(1) by (simp_all add: turns_def)
  let ?v = "h (csi_reg r0 (io_writes s)) off" and ?s = "skip_io 1 (f s)"
  have "csi_ready r0 ?s" using f(1) by simp
  then obtain t where "q ?v ?s = Some t" "csi_ready r0 t" "csi_reg r0 (io_writes t) = g ?v (csi_reg r0 (io_writes ?s))"
    using assms(3) [of ?v] unfolding does_def by blast
  then show "\<exists>t. Option.bind (ReadReg off (f s)) (\<lambda>(v, s). q v s) = Some t \<and> csi_ready r0 t \<and>
      csi_reg r0 (io_writes t) = g (h (csi_reg r0 (io_writes s)) off) (h (csi_reg r0 (io_writes s)))"
    using read_reg [OF f(1) assms(2)] f(2) by simp
qed

lemma does_field:
  assumes "\<And>v. SetField v n m = Some (f v)" and "turns r0 k h" and "off < 0x800"
  shows "does r0 (\<lambda>s. WriteRegField off n m (k s)) (\<lambda>r. (h r)(off := f (h r off)))"
proof -
  have "\<exists>t. WriteRegField off n m s = Some t \<and> csi_ready r0 t \<and>
      csi_reg r0 (io_writes t) = (csi_reg r0 (io_writes s))(off := f (csi_reg r0 (io_writes s) off))"
    if s: "csi_ready r0 s" for s :: "'a io_state_scheme"
    using read_reg [OF s assms(3)] s assms(3)
    by (simp add: WriteRegField_def assms(1) csi_reg_write) (simp add: WriteReg_def)
  then show ?thesis using assms(2) by (fastforce simp: does_def turns_def)
qed

lemma does_mask_field:
  "turns r0 k h \<Longrightarrow> off < 0x800 \<Longrightarrow> l < 32 \<Longrightarrow>
   does r0 (\<lambda>s. WriteRegField off n (GENMASK u l) (k s)) (\<lambda>r. (h r)(off := take_bit l (h r off) OR push_bit l n))"
  by (rule does_field) (simp_all add: set_mask_field)

lemma does_bit_field:
  "turns r0 k h \<Longrightarrow> off < 0x800 \<Longrightarrow> b < 32 \<Longrightarrow>
   does r0 (\<lambda>s. WriteRegField off n (BIT b) (k s)) (\<lambda>r. (h r)(off := (h r off AND NOT (BIT b)) OR push_bit b n))"
  by (rule does_field) (simp_all add: set_bit_field)

lemma does_sleep:
  assumes "turns r0 f g"
  shows "does r0 (\<lambda>s. usleep d (f s)) g"
proof -
  have "\<exists>t. usleep d s = Some t \<and> csi_ready r0 t \<and> csi_reg r0 (io_writes t) = csi_reg r0 (io_writes s)"
    if s: "csi_ready r0 s" for s :: "'a io_state_scheme"
  proof -
    obtain T where "timer_runs T s" using s by (auto simp: csi_ready_def)
    then obtain j where "usleep d s = Some (skip_io j s)" using usleep_ends by blast
    then show ?thesis using s by simp
  qed
  then show ?thesis using assms by (fastforce simp: does_def turns_def)
qed

lemma busy_test: "(v :: u32) AND 0x80 \<noteq> 0 \<longleftrightarrow> bit v 7"
proof
  assume "v AND 0x80 \<noteq> 0"
  then obtain n where "bit (v AND 0x80) n" by (metis bit_eqI bit_0_eq bot_apply bot_bool_def)
  then show "bit v 7" by (auto simp: bit_and_iff bits)
next
  assume "bit v 7"
  then have "bit (v AND 0x80) 7" by (simp add: bit_and_iff)
  then show "v AND 0x80 \<noteq> 0" by auto
qed

lemma cam_wait_steps:
  assumes "bit (io_read s (io_writes s) (io_n s + k) CM_CAM1CTL) 7 \<noteq> busy"
  shows "\<exists>j. cam_wait busy s = Some (skip_io j s)"
  using assms
proof (induction k arbitrary: s)
  case 0
  then have "cam_wait busy s = Some (skip_io 1 s)"
    by (subst cam_wait.simps) (auto simp: rd32le_def busy_test)
  then show ?case by blast
next
  case (Suc k)
  show ?case
  proof (cases "bit (io_read s (io_writes s) (io_n s) CM_CAM1CTL) 7 = busy")
    case True
    then have run: "cam_wait busy s = cam_wait busy (skip_io 1 s)"
      by (subst cam_wait.simps) (auto simp: rd32le_def busy_test)
    obtain j where "cam_wait busy (skip_io 1 s) = Some (skip_io j (skip_io 1 s))"
      using Suc.IH [of "skip_io 1 s"] Suc.prems by auto
    then have "cam_wait busy s = Some (skip_io (Suc j) s)" by (simp add: run)
    then show ?thesis by blast
  next
    case False
    then have "cam_wait busy s = Some (skip_io 1 s)"
      by (subst cam_wait.simps) (auto simp: rd32le_def busy_test)
    then show ?thesis by blast
  qed
qed

lemma cam_wait_ends:
  assumes "csi_ready r0 s" and "cam_enabled (io_writes s) \<noteq> busy"
  shows "\<exists>j. cam_wait busy s = Some (skip_io j s)"
proof -
  obtain k where "bit (io_read s (io_writes s) (io_n s + k) CM_CAM1CTL) 7 = cam_enabled (io_writes s)"
    using assms(1) unfolding csi_ready_def by blast
  then show ?thesis using cam_wait_steps assms(2) by blast
qed

lemma ready_sleep:
  assumes "csi_ready r0 s"
  obtains j where "usleep d s = Some (skip_io j s)"
proof -
  obtain T where "timer_runs T s" using assms by (auto simp: csi_ready_def)
  then show thesis using usleep_ends that by blast
qed

lemma does_setup: "does r0 setup_csiclk (\<lambda>r. r)"
  unfolding does_def
proof (intro allI impI)
  fix s :: "'a io_state_scheme"
  assume s: "csi_ready r0 s"
  let ?off = "CM_PASSWD OR push_bit 5 1" and ?on = "CM_PASSWD OR 6 OR push_bit 4 1"
  let ?w1 = "wr32le CM_CAM1CTL ?off s"
  obtain a where a: "usleep 100 ?w1 = Some (skip_io a ?w1)" by (rule ready_sleep [of r0 ?w1]) (simp add: s)
  have "cam_enabled (io_writes (skip_io a ?w1)) \<noteq> True"
    by (simp add: cam_enabled_def wr32le_def CM_PASSWD_def bit_simps)
  then obtain b where b: "cam_wait True (skip_io a ?w1) = Some (skip_io b (skip_io a ?w1))"
    using cam_wait_ends [of r0 "skip_io a ?w1" True] s by auto
  let ?s2 = "skip_io b (skip_io a ?w1)"
  obtain c where c: "usleep 100 ?s2 = Some (skip_io c ?s2)" by (rule ready_sleep [of r0 ?s2]) (simp add: s)
  let ?w3 = "wr32le CM_CAM1DIV (CM_PASSWD OR push_bit 12 4) (skip_io c ?s2)"
  obtain d where d: "usleep 100 ?w3 = Some (skip_io d ?w3)" by (rule ready_sleep [of r0 ?w3]) (simp add: s)
  let ?w4 = "wr32le CM_CAM1CTL ?on (skip_io d ?w3)"
  obtain e where e: "usleep 100 ?w4 = Some (skip_io e ?w4)" by (rule ready_sleep [of r0 ?w4]) (simp add: s)
  have "cam_enabled (io_writes (skip_io e ?w4)) \<noteq> False"
    by (simp add: cam_enabled_def wr32le_def bit_simps)
  then obtain f where f: "cam_wait False (skip_io e ?w4) = Some (skip_io f (skip_io e ?w4))"
    using cam_wait_ends [of r0 "skip_io e ?w4" False] s by auto
  let ?s5 = "skip_io f (skip_io e ?w4)"
  obtain g where g: "usleep 100 ?s5 = Some (skip_io g ?s5)" by (rule ready_sleep [of r0 ?s5]) (simp add: s)
  have run: "setup_csiclk s = Some (skip_io g ?s5)"
    unfolding setup_csiclk_def Let_def a b c d e f g bind.bind_lunit ..
  have "csi_reg r0 (io_writes (skip_io g ?s5)) = csi_reg r0 (io_writes s)"
    by (rule ext) (auto simp: csi_reg_def wr32le_def csi_other)
  then show "\<exists>t. setup_csiclk s = Some t \<and> csi_ready r0 t \<and> csi_reg r0 (io_writes t) = csi_reg r0 (io_writes s)"
    using run s by simp
qed

lemma turns_clock:
  assumes "turns r0 f g"
  shows "turns r0 (\<lambda>s. ClockWrite v (f s)) g"
proof -
  have other: "CSI1_BASE + ucast a \<noteq> CSI1_CLKGATE" if "a < 0x800" for a :: u32
  proof
    assume "CSI1_BASE + ucast a = CSI1_CLKGATE"
    then have "(ucast a :: u64) = CSI1_CLKGATE - CSI1_BASE" by (simp add: algebra_simps)
    then have "unat a = 0x1004" by (simp add: unat_wide [symmetric] CSI1_BASE_def CSI1_CLKGATE_def)
    then show False using that by (simp add: word_less_nat_alt)
  qed
  have "csi_reg r0 (io_writes (ClockWrite v s)) = csi_reg r0 (io_writes s)" for s :: "'a io_state_scheme"
    by (rule ext) (auto simp: csi_reg_def ClockWrite_def wr32le_def dest: other)
  then show ?thesis using assms by (simp add: turns_def) (simp add: ClockWrite_def)
qed

lemma BIT_values: "BIT 0 = 1" "BIT 1 = 2" "BIT 2 = 4" "BIT 3 = 8" "BIT 4 = 16" "BIT 6 = 64" "BIT 8 = 256" "BIT 9 = 512" "BIT 31 = 0x80000000"
  by (simp_all add: BIT_def)

lemmas turns_rules = turns_same turns_if turns_write turns_clock
lemmas does_rules = does_seq does_sleep does_mask_field does_bit_field does_read does_some

section \<open>The parts of the sequence\<close>

lemma does_reset:
  "does r0 unicam_reset (\<lambda>r. r(UNICAM_CTRL := 2, UNICAM_ANA := 0x770))"
proof -
  have fields: "SetField (BIT 2) 7 (GENMASK 7 4) = Some 0x74" "SetField 0x74 7 (GENMASK 11 8) = Some 0x774"
    by (simp_all add: set_mask_field BIT_values)
  show ?thesis
    unfolding unicam_reset_def Let_def fields bind.bind_lunit
    by (rule does_eq) (rule does_rules turns_rules | (simp; fail) | (rule ext, simp add: BIT_def; fail))+
qed

lemmas set_masks = set_mask_field [of 0, simplified] set_mask_field [of "Suc 0", simplified] set_mask_field [of 3, simplified]
  set_mask_field [of 4, simplified] set_mask_field [of 5, simplified] set_mask_field [of 6, simplified]
  set_mask_field [of 7, simplified] set_mask_field [of 8, simplified] set_mask_field [of 12, simplified] set_mask_field [of 16, simplified]

lemmas set_bits = set_bit_field [of 0, simplified] set_bit_field [of 2, simplified] set_bit_field [of 6, simplified]
  set_bit_field [of 8, simplified] set_bit_field [of 9, simplified] set_bit_field [of 31, simplified]

lemma does_receiver:
  "does r0 unicam_receiver (\<lambda>r. r(UNICAM_CTRL := take_bit 3 (r UNICAM_CTRL) OR 0x80f00, UNICAM_IHWIN := 0, UNICAM_IVWIN := 0))"
  unfolding unicam_receiver_def Let_def One_nat_def set_masks set_bits bind.bind_lunit
  by (rule does_eq) (rule does_rules turns_rules | (simp; fail) | (rule ext, simp add: BIT_def or.assoc; fail))+

lemma priority_bits: "((take_bit 1 v OR 4) AND NOT 1) OR 1 = (5 :: u32)"
proof -
  have five: "bit (5 :: int) n \<longleftrightarrow> n = 0 \<or> n = 2" for n
    using bit_or_iff [of "1 :: int" 4 n] by (simp add: bits)
  show ?thesis by (rule bit_word_eqI) (auto simp: bit_simps bits five)
qed

lemma does_priority:
  "does r0 unicam_priority (\<lambda>r. r(UNICAM_PRI := 5, UNICAM_ANA := r UNICAM_ANA AND NOT 8))"
  unfolding unicam_priority_def Let_def One_nat_def set_masks set_bits bind.bind_lunit
  by (rule does_eq) (rule does_rules turns_rules | (simp; fail) | (rule ext, simp add: BIT_def priority_bits [simplified]; fail))+

lemma does_interrupts:
  "does r0 (unicam_interrupts height) (\<lambda>r. r(UNICAM_ICTL := take_bit 16 7 OR push_bit 16 (if drop_bit 2 height \<ge> 128 then drop_bit 2 height else 128), UNICAM_STA := 0x1b6fc, UNICAM_ISTA := 7))"
  unfolding unicam_interrupts_def Let_def One_nat_def set_masks set_bits bind.bind_lunit
  by (rule does_eq) (rule does_rules turns_rules | (simp; fail) | (rule ext, simp add: BIT_def; fail))+

lemma does_timing:
  "does r0 unicam_timing (\<lambda>r. r(UNICAM_CLT := 0x602, UNICAM_DLT := 0x602, UNICAM_CTRL := r UNICAM_CTRL AND NOT 16))"
  unfolding unicam_timing_def Let_def One_nat_def set_masks set_bits bind.bind_lunit
  by (rule does_eq) (rule does_rules turns_rules | (simp; fail) | (rule ext, simp add: BIT_def; fail))+

lemma does_compare:
  "does r0 unicam_compare (\<lambda>r. r(UNICAM_CMP0 := 1))"
  unfolding unicam_compare_def Let_def One_nat_def set_masks set_bits bind.bind_lunit
  by (rule does_eq) (rule does_rules turns_rules | (simp; fail) | (rule ext, simp add: BIT_def; fail))+

lemma does_lanes:
  "does r0 (unicam_lanes lanes) (\<lambda>r. (if lanes = 1 then (\<lambda>r. r(UNICAM_DAT1 := 0)) else if lanes = 2 then (\<lambda>r. r(UNICAM_DAT1 := 5)) else id) (r(UNICAM_CLK := 5, UNICAM_DAT0 := 5)))"
  unfolding unicam_lanes_def Let_def One_nat_def set_masks set_bits bind.bind_lunit
  by (rule does_eq) (rule does_rules turns_rules | (simp; fail) | (rule ext, simp add: BIT_def; fail))+

lemma does_buffer:
  "turns r0 (unicam_buffer address width height bbp) (\<lambda>r. r(UNICAM_IBLS := width * ucast (bbp div 8),
     UNICAM_IBSA0 := bus_address address, UNICAM_IBEA0 := bus_address (address + ucast (width * height * ucast (bbp div 8)))))"
  unfolding unicam_buffer_def Let_def by (rule turns_rules | (simp; fail))+

lemma does_start:
  "does r0 (unicam_start datatype') (\<lambda>r. r(UNICAM_IPIPE := 0, UNICAM_IDI0 := ucast datatype',
     UNICAM_MISC := (((r UNICAM_MISC AND NOT 64) OR 64) AND NOT 512) OR 512, UNICAM_DCS := 0,
     UNICAM_CTRL := (r UNICAM_CTRL AND NOT 1) OR 1, UNICAM_ICTL := take_bit 5 (r UNICAM_ICTL) OR 0x20))"
  unfolding unicam_start_def Let_def set_masks set_bits bind.bind_lunit
  by (rule does_eq) (rule does_rules turns_rules | (simp; fail) | (rule ext, simp add: BIT_def; fail))+

lemma does_after: "turns r0 f g \<Longrightarrow> does r0 p h \<Longrightarrow> does r0 (\<lambda>s. p (f s)) (\<lambda>r. h (g r))"
  unfolding does_def turns_def by metis

text \<open>
  The field masks have no upper end: setting a field through a mask also clears every bit
  above it, whatever end the mask was given.
\<close>

theorem field_mask_unbounded:
  assumes "l < 32"
  shows "SetField v n (GENMASK h l) = Some (take_bit l v OR push_bit l n)"
  using assms by (rule set_mask_field)

text \<open>
  Bringing up the camera interface ends, on a machine whose timer and clock run, with a
  receiver that is enabled with its timing and buffer set up; but the fields written in
  descending order erase each other: the priority register is left at 5, the packet compare
  register, set up to catch frame ends, at 1, and the line interrupt count is lost.
\<close>

theorem unicam_registers:
  assumes "csi_ready r0 s0" and "enable s = Some s0"
  shows "\<exists>t. unicam_run enable address lanes datatype' width height bbp s = Some t \<and>
     (let r = csi_reg r0 (io_writes t)
      in r UNICAM_CTRL = 0x80f03 \<and> r UNICAM_ANA = 0x770 \<and> r UNICAM_CLT = 0x602 \<and> r UNICAM_DLT = 0x602 \<and>
         r UNICAM_IBSA0 = bus_address address \<and>
         r UNICAM_IBEA0 = bus_address (address + ucast (width * height * ucast (bbp div 8))) \<and>
         r UNICAM_PRI = 5 \<and> r UNICAM_CMP0 = 1 \<and> r UNICAM_ICTL = 0x27)"
proof -
  let ?p = "\<lambda>s. do { s \<leftarrow> setup_csiclk s; s \<leftarrow> unicam_reset s; s \<leftarrow> unicam_receiver s; s \<leftarrow> unicam_priority s;
       s \<leftarrow> unicam_interrupts height s; s \<leftarrow> unicam_timing s; s \<leftarrow> unicam_compare s; s \<leftarrow> unicam_lanes lanes s;
       unicam_start datatype' (unicam_buffer address width height bbp s) }"
  have run: "unicam_run enable address lanes datatype' width height bbp s = ?p s0"
    by (simp add: unicam_run_def assms(2))
  note prog = does_seq [OF does_setup does_seq [OF does_reset does_seq [OF does_receiver does_seq [OF does_priority
    does_seq [OF does_interrupts [where height = height] does_seq [OF does_timing does_seq [OF does_compare does_seq [OF does_lanes [where lanes = lanes]
    does_after [OF does_buffer [where address = address and width = width and height = height and bbp = bbp]
      does_start [where datatype' = datatype']]]]]]]]]]
  from prog [of r0, unfolded does_def, rule_format, OF assms(1)]
  obtain t where t: "?p s0 = Some t" and r: "csi_reg r0 (io_writes t) UNICAM_CTRL = 0x80f03 \<and>
      csi_reg r0 (io_writes t) UNICAM_ANA = 0x770 \<and> csi_reg r0 (io_writes t) UNICAM_CLT = 0x602 \<and>
      csi_reg r0 (io_writes t) UNICAM_DLT = 0x602 \<and> csi_reg r0 (io_writes t) UNICAM_IBSA0 = bus_address address \<and>
      csi_reg r0 (io_writes t) UNICAM_IBEA0 = bus_address (address + ucast (width * height * ucast (bbp div 8))) \<and>
      csi_reg r0 (io_writes t) UNICAM_PRI = 5 \<and> csi_reg r0 (io_writes t) UNICAM_CMP0 = 1 \<and>
      csi_reg r0 (io_writes t) UNICAM_ICTL = take_bit 5 (7 OR push_bit 16 (if 128 \<le> drop_bit 2 height then drop_bit 2 height else 128)) OR 0x20"
    by (elim exE conjE) (cases "lanes = 1"; cases "lanes = 2"; simp)
  have "take_bit 5 (7 OR push_bit 16 k) = (7 :: u32)" for k
    by (rule bit_word_eqI) (auto simp: bit_simps bits)
  then show ?thesis using t r by (simp add: run Let_def)
qed

section \<open>An instance\<close>

definition demo_time :: "nat \<Rightarrow> u64" where
  "demo_time n = word_of_nat (min n (2 ^ 64 - 1))"

definition unicam_demo :: io_state where
  "unicam_demo = mirror.extend mirror_bss
     \<lparr>io_read = (\<lambda>ws n a. if a = SYSTIMER_HI then ucast (drop_bit 32 (demo_time n))
                          else if a = SYSTIMER_LO then ucast (demo_time n)
                          else if a = CM_CAM1CTL then (if cam_enabled ws then 0x80 else 0)
                          else csi_reg (\<lambda>_. 0) ws (ucast (a - CSI1_BASE))),
      io_clock = word_of_nat, io_freq = 19200000, io_held = (\<lambda>_. False), io_n = 0, io_writes = []\<rparr>"

lemma demo_time_value: "unat (demo_time n) = min n (2 ^ 64 - 1)"
  by (simp add: demo_time_def unsigned_of_nat take_bit_nat_eq_self min_less_iff_disj)

lemma unicam_demo_ready: "csi_ready (\<lambda>_. 0) unicam_demo"
proof -
  have top: "unat t \<le> 2 ^ 64 - 1" for t :: u64
    using unsigned_less [where w = t and 'a = nat] by simp
  have timer: "timer_runs demo_time unicam_demo"
    unfolding timer_runs_def
  proof (intro conjI allI impI)
    show "demo_time m \<le> demo_time n" if "m \<le> n" for m n
      using that by (simp add: word_le_nat_alt demo_time_value)
    show "\<exists>n. t \<le> demo_time n" for t
      using top [of t] by (intro exI [of _ "2 ^ 64 - 1"]) (simp add: word_le_nat_alt demo_time_value)
  qed (simp_all add: unicam_demo_def mirror.defs io_state.defs SYSTIMER_HI_def SYSTIMER_LO_def)
  have low: "CSI1_BASE + ucast off \<noteq> SYSTIMER_HI \<and> CSI1_BASE + ucast off \<noteq> SYSTIMER_LO" for off :: u32
  proof -
    have "unat (CSI1_BASE + ucast off) = unat CSI1_BASE + unat off"
      using unsigned_less [where w = off and 'a = nat] by (simp add: CSI1_BASE_def unat_word_ariths unat_wide)
    then have "0xf2801000 \<le> unat (CSI1_BASE + ucast off)" by (simp add: CSI1_BASE_def)
    then show ?thesis by (auto simp: SYSTIMER_HI_def SYSTIMER_LO_def)
  qed
  have busy: "bit (0x80 :: u32) 7" by simp
  have "(ucast (ucast off :: u64) :: u32) = off" for off :: u32
    by (rule bit_word_eqI) (auto simp: bit_simps)
  then have bank: "io_read unicam_demo ws n (CSI1_BASE + ucast off) = csi_reg (\<lambda>_. 0) ws off" for ws n and off :: u32
    using low [of off] csi_other(1) [of off] by (simp add: unicam_demo_def mirror.defs io_state.defs)
  have "CM_CAM1CTL \<noteq> SYSTIMER_HI" "CM_CAM1CTL \<noteq> SYSTIMER_LO"
    by (simp_all add: CM_CAM1CTL_def SYSTIMER_HI_def SYSTIMER_LO_def)
  then have "bit (io_read unicam_demo ws n CM_CAM1CTL) 7 = cam_enabled ws" for ws n
    using busy by (simp add: unicam_demo_def mirror.defs io_state.defs)
  then show ?thesis using timer bank unfolding csi_ready_def by blast
qed

theorem unicam_registers_witness:
  "\<exists>t. unicam_run Some 0x3c000000 1 0x22 720 576 16 unicam_demo = Some t \<and> csi_reg (\<lambda>_. 0) (io_writes t) UNICAM_PRI = 5"
  using unicam_registers [of "\<lambda>_. 0" unicam_demo Some unicam_demo "0x3c000000" 1 "0x22" 720 576 16] unicam_demo_ready
  by (auto simp: Let_def)

theorem field_mask_unbounded_witness: "SetField 0xe00 8 (GENMASK 7 4) = Some 0x80"
  using field_mask_unbounded [of 4 "0xe00" 8 7] by simp

end
