(* ===== verification/Platform.thy ===== *)
theory Platform
  imports PsBus
begin

text \<open>
  The platform setup of \<open>source/src/raspi/start_rpi64.c\<close>: the windows of the peripherals
  (\<open>map_peripheral_ranges\<close>, \<open>map_pcie_mmio_window\<close>, \<open>platform_init\<close>) and the probe of the
  machine behind the bus (\<open>platform_post_init\<close>). A node of the device tree is what the code
  reads of it: the cells of its \<open>ranges\<close> and its cell counts; \<open>BE32\<close> is the identity on the
  big-endian core. Calls of \<open>mmu_map\<close> are recorded. A cell outside the property is \<open>None\<close>.
\<close>

section \<open>State\<close>

record bus_node =
  op_value :: "u32 list"
  op_length :: int
  parent_cells :: int
  address_cells :: int
  size_cells :: int

type_synonym window = "u64 \<times> u64 \<times> u64"

text \<open>Physical address, virtual address and length of each mapping, in order.\<close>

record window_state =
  start_map :: u32
  mapped :: "window list"
  local_intc_base :: u64
  pci_mmio :: "(u64 \<times> u32 \<times> u32) option"

definition cell :: "u32 list \<Rightarrow> int \<Rightarrow> u32 option" where
  "cell cs i = (if 0 \<le> i \<and> i < int (length cs) then Some (cs ! nat i) else None)"

definition put_cell :: "u32 list \<Rightarrow> int \<Rightarrow> u32 \<Rightarrow> u32 list option" where
  "put_cell cs i v = (if 0 \<le> i \<and> i < int (length cs) then Some (cs[nat i := v]) else None)"

section \<open>The windows of the buses\<close>

definition map_range :: "bool \<Rightarrow> int \<Rightarrow> int \<Rightarrow> int \<Rightarrow> int \<Rightarrow> u32 list \<times> window_state \<Rightarrow> (u32 list \<times> window_state) option" where
  "map_range is_scb pos_abus pos_acpu pos_sbus ranges = (\<lambda>(cs, w). do {
     addr_bus \<leftarrow> cell cs (ranges + pos_abus);
     addr_cpu \<leftarrow> cell cs (ranges + pos_acpu);
     addr_len \<leftarrow> cell cs (ranges + pos_sbus);
     if is_scb \<and> addr_bus = addr_cpu then Some (cs, w)
     else do {
       let virt = push_bit 21 (start_map w);
       let w = w\<lparr>mapped := mapped w @ [(ucast addr_cpu, ucast virt, ucast addr_len)]\<rparr>;
       cs \<leftarrow> put_cell cs (ranges + pos_acpu) virt;
       let w = (if addr_bus = 0x40000000 then w\<lparr>local_intc_base := ucast virt\<rparr> else w);
       let addend = drop_bit 21 (addr_len + push_bit 21 1 - 1);
       Some (cs, w\<lparr>start_map := start_map w + addend\<rparr>)
     }
   })"

partial_function (option) range_loop ::
    "(int \<Rightarrow> u32 list \<times> window_state \<Rightarrow> (u32 list \<times> window_state) option) \<Rightarrow> int \<Rightarrow> int \<Rightarrow> int \<Rightarrow>
     u32 list \<times> window_state \<Rightarrow> (u32 list \<times> window_state) option" where
  "range_loop f entry ranges len s =
     (if len > 0 then do { s \<leftarrow> f ranges s; range_loop f entry (ranges + entry) (len - 4 * entry) s } else Some s)"

text \<open>\<open>None\<close> for the node: no such node, or no \<open>ranges\<close>.\<close>

definition map_peripheral_ranges ::
    "bool \<Rightarrow> bus_node option \<Rightarrow> window_state \<Rightarrow> (bus_node option \<times> window_state) option" where
  "map_peripheral_ranges is_scb node w =
     (case node of
        None \<Rightarrow> Some (None, w)
      | Some n \<Rightarrow> do {
          let pos_abus = address_cells n - 1;
          let pos_acpu = pos_abus + parent_cells n;
          let pos_sbus = pos_acpu + size_cells n;
          (cs, w) \<leftarrow> range_loop (map_range is_scb pos_abus pos_acpu pos_sbus)
                      (address_cells n + parent_cells n + size_cells n) 0 (op_length n) (op_value n, w);
          Some (Some (n\<lparr>op_value := cs\<rparr>), w)
        })"

section \<open>The window of PCIe\<close>

definition pcie_phys :: "bus_node \<Rightarrow> int \<Rightarrow> u32 list \<Rightarrow> u64 option option" where
  "pcie_phys n ranges cs =
     (if parent_cells n \<ge> 2
      then do {
        high \<leftarrow> cell cs (ranges + (address_cells n + parent_cells n - 2));
        low \<leftarrow> cell cs (ranges + (address_cells n + parent_cells n - 1));
        Some (Some (push_bit 32 (ucast high) OR ucast low))
      }
      else if parent_cells n = 1
      then do { low \<leftarrow> cell cs (ranges + (address_cells n + parent_cells n - 1)); Some (Some (ucast low)) }
      else Some None)"

definition map_pcie_range :: "bus_node \<Rightarrow> int \<Rightarrow> u64 \<Rightarrow> u32 list \<times> window_state \<Rightarrow> (u32 list \<times> window_state) option" where
  "map_pcie_range n ranges phys = (\<lambda>(cs, w). do {
     let map_size = (0x04000000 :: u32);
     let size_end = ranges + (address_cells n + parent_cells n + size_cells n);
     cs \<leftarrow> (if size_cells n \<ge> 2 then put_cell cs (size_end - 2) 0 else Some cs);
     cs \<leftarrow> put_cell cs (size_end - 1) map_size;
     if start_map w + drop_bit 21 map_size \<ge> 0xff0 div 2 then Some (cs, w)
     else do {
       let virt = push_bit 21 (start_map w);
       let w = w\<lparr>start_map := start_map w + drop_bit 21 map_size\<rparr>;
       let w = w\<lparr>mapped := mapped w @ [(phys, ucast virt, ucast map_size)]\<rparr>;
       Some (cs, w\<lparr>pci_mmio := Some (phys, virt, map_size)\<rparr>)
     }
   })"

partial_function (option) pcie_loop ::
    "bus_node \<Rightarrow> int \<Rightarrow> int \<Rightarrow> u32 list \<times> window_state \<Rightarrow> (u32 list \<times> window_state) option" where
  "pcie_loop n ranges len s =
     (if len > 0
      then do {
        space_code \<leftarrow> cell (fst s) ranges;
        if space_code AND 0x03000000 = 0x02000000 \<and> space_code AND 0x40000000 = 0
        then do {
          phys \<leftarrow> pcie_phys n ranges (fst s);
          case phys of None \<Rightarrow> Some s | Some phys \<Rightarrow> map_pcie_range n ranges phys s
        }
        else
          let entry = address_cells n + parent_cells n + size_cells n
          in pcie_loop n (ranges + entry) (len - 4 * entry) s
      }
      else Some s)"

definition map_pcie_mmio_window :: "bus_node option \<Rightarrow> window_state \<Rightarrow> (bus_node option \<times> window_state) option" where
  "map_pcie_mmio_window pcie w =
     (case pcie of
        None \<Rightarrow> Some (None, w)
      | Some n \<Rightarrow> do { (cs, w) \<leftarrow> pcie_loop n 0 (op_length n) (op_value n, w); Some (Some (n\<lparr>op_value := cs\<rparr>), w) })"

definition platform_init ::
    "bus_node option \<Rightarrow> bus_node option \<Rightarrow> bus_node option \<Rightarrow> window_state \<Rightarrow>
     (bus_node option \<times> bus_node option \<times> bus_node option \<times> window_state) option" where
  "platform_init soc scb pcie w =
     do {
       let w = w\<lparr>start_map := 0xf20 div 2\<rparr>;
       (soc, w) \<leftarrow> map_peripheral_ranges False soc w;
       (scb, w) \<leftarrow> map_peripheral_ranges True scb w;
       (pcie, w) \<leftarrow> map_pcie_mmio_window pcie w;
       Some (soc, scb, pcie, w)
     }"

section \<open>Windows in a row\<close>

fun laid :: "u32 \<Rightarrow> window list \<Rightarrow> u32 \<Rightarrow> bool" where
  "laid a [] b \<longleftrightarrow> a = b"
| "laid a ((p, v, l) # ws) b \<longleftrightarrow>
     v = ucast (push_bit 21 a :: u32) \<and> l = ucast (ucast l :: u32) \<and> laid (a + drop_bit 21 (ucast l + 0x1fffff)) ws b"

lemma laid_append: "laid a (ws @ vs) c \<longleftrightarrow> (\<exists>b. laid a ws b \<and> laid b vs c)"
  by (induction ws arbitrary: a) auto

definition lays :: "window_state \<Rightarrow> window_state \<Rightarrow> bool" where
  "lays w w' \<longleftrightarrow> (\<exists>ws. mapped w' = mapped w @ ws \<and> laid (start_map w) ws (start_map w'))"

lemma lays_same: "lays w w"
  by (simp add: lays_def)

lemma lays_trans: "lays u v \<Longrightarrow> lays v w \<Longrightarrow> lays u w"
  unfolding lays_def by (metis append_assoc laid_append)

lemma narrow_wide: "(ucast (ucast (x :: u32) :: u64) :: u32) = x"
  by (rule bit_word_eqI) (auto simp: bit_simps)

lemma map_range_lays:
  assumes "map_range is_scb pa pc ps r (cs, w) = Some (cs', w')"
  shows "lays w w'"
  using assms
  by (auto simp: map_range_def Let_def bind_eq_Some_conv lays_def narrow_wide add.commute [of 2097151] split: if_splits)

lemma range_loop_lays:
  assumes "range_loop f entry r len s = Some s'" and "\<forall>r s t. f r s = Some t \<longrightarrow> lays (snd s) (snd t)"
  shows "lays (snd s) (snd s')"
  using assms
proof (induction rule: range_loop.raw_induct [rotated, consumes 1, case_names step])
  case (step loop f entry r len s s')
  show ?case
  proof (cases "len > 0")
    case True
    then obtain t where "f r s = Some t" "loop f entry (r + entry) (len - 4 * entry) t = Some s'"
      using step(2) by (auto simp: bind_eq_Some_conv)
    then show ?thesis using step(1) [OF _ step(3)] step(3) lays_trans by blast
  next
    case False
    then show ?thesis using step(2) lays_same by auto
  qed
qed

lemma map_peripheral_ranges_lays:
  "map_peripheral_ranges is_scb node w = Some (node', w') \<Longrightarrow> lays w w'"
  using lays_same map_range_lays range_loop_lays
  by (fastforce simp: map_peripheral_ranges_def Let_def bind_eq_Some_conv split: option.splits)

lemma map_pcie_range_lays: "map_pcie_range n r phys (cs, w) = Some (cs', w') \<Longrightarrow> lays w w'"
  by (auto simp: map_pcie_range_def Let_def bind_eq_Some_conv lays_def split: if_splits)

lemma pcie_loop_lays:
  assumes "pcie_loop n r len s = Some s'"
  shows "lays (snd s) (snd s')"
  using assms
proof (induction rule: pcie_loop.raw_induct [rotated, consumes 1, case_names step])
  case (step loop n r len s s')
  show ?case
  proof (cases "s' = s")
    case False
    then have "(\<exists>r' len'. loop n r' len' s = Some s') \<or> (\<exists>phys. map_pcie_range n r phys s = Some s')"
      using step(2) by (auto simp: bind_eq_Some_conv Let_def split: if_splits option.splits)
    then consider r' len' where "loop n r' len' s = Some s'" | phys where "map_pcie_range n r phys s = Some s'" by blast
    then show ?thesis
    proof cases
      case 1
      then show ?thesis by (rule step(1))
    next
      case (2 phys)
      then show ?thesis using map_pcie_range_lays [of n r phys "fst s" "snd s" "fst s'" "snd s'"] by simp
    qed
  qed (simp add: lays_same)
qed

lemma map_pcie_mmio_window_lays: "map_pcie_mmio_window pcie w = Some (pcie', w') \<Longrightarrow> lays w w'"
  using lays_same pcie_loop_lays by (fastforce simp: map_pcie_mmio_window_def bind_eq_Some_conv split: option.splits)

definition blocks :: "window \<Rightarrow> nat" where
  "blocks = (\<lambda>(p, v, l). (unat l + (2 ^ 21 - 1)) div 2 ^ 21)"

definition before :: "window \<Rightarrow> window \<Rightarrow> bool" where
  "before = (\<lambda>(p, v, l) (p', v', l'). unat v + unat l \<le> unat v')"

definition within :: "nat \<Rightarrow> nat \<Rightarrow> window \<Rightarrow> bool" where
  "within lo hi = (\<lambda>(p, v, l). lo \<le> unat v \<and> unat v + unat l \<le> hi)"

lemma block_address:
  fixes a :: u32
  assumes "unat a < 2 ^ 11"
  shows "unat (ucast (push_bit 21 a) :: u64) = unat a * 2 ^ 21"
proof -
  have "unat (push_bit 21 a) = unat a * 2 ^ 21"
    using assms by (simp add: push_bit_eq_mult unat_word_ariths)
  moreover have "unat (ucast b :: u64) = unat b" for b :: u32
  proof -
    have "unat b < 2 ^ 64" using unsigned_less [where w = b and 'a = nat] by simp
    then show ?thesis by (simp add: unsigned_ucast_eq take_bit_nat_eq_self)
  qed
  ultimately show ?thesis by simp
qed

lemma block_count:
  fixes l :: u64
  assumes "unat l \<le> 0xffe00000"
  shows "unat (drop_bit 21 (ucast l + 0x1fffff) :: u32) = (unat l + (2 ^ 21 - 1)) div 2 ^ 21"
proof -
  have "unat (ucast l :: u32) = unat l" using assms by (simp add: unsigned_ucast_eq take_bit_nat_eq_self)
  then have "unat (ucast l + 0x1fffff :: u32) = unat l + 0x1fffff" using assms by (simp add: unat_word_ariths)
  then show ?thesis by (simp add: unsigned_drop_bit_eq drop_bit_eq_div unat_div)
qed

lemma laid_windows:
  assumes "laid a ws b" and "\<forall>(p, v, l) \<in> set ws. unat l \<le> 0xffe00000" and "unat a + sum_list (map blocks ws) < 0x800"
  shows "sorted_wrt before ws \<and> (\<forall>w \<in> set ws. within (unat a * 2 ^ 21) ((unat a + sum_list (map blocks ws)) * 2 ^ 21) w)"
  using assms
proof (induction ws arbitrary: a)
  case (Cons w ws)
  obtain p v l where w: "w = (p, v, l)" by (cases w)
  let ?n = "blocks w"
  have l: "unat l \<le> 0xffe00000" using Cons.prems(2) by (simp add: w)
  have size: "unat l \<le> ?n * 2 ^ 21"
    using div_mult_mod_eq [of "unat l + 2097151" 2097152] mod_less_divisor [of 2097152 "unat l + 2097151"]
    by (simp add: w blocks_def)
  let ?a = "a + drop_bit 21 (ucast l + 0x1fffff) :: u32"
  have sum: "unat a + ?n + sum_list (map blocks ws) < 0x800" using Cons.prems(3) by simp
  have "unat (drop_bit 21 (ucast l + 0x1fffff) :: u32) = ?n" using block_count [OF l] by (simp add: w blocks_def)
  then have a: "unat ?a = unat a + ?n" using sum by (simp add: unat_word_ariths)
  have v: "unat v = unat a * 2 ^ 21" using Cons.prems(1) sum block_address [of a] by (simp add: w)
  have ih: "sorted_wrt before ws" "\<forall>u \<in> set ws. within (unat ?a * 2 ^ 21) ((unat ?a + sum_list (map blocks ws)) * 2 ^ 21) u"
    using Cons.IH [of ?a] Cons.prems(1,2) sum by (auto simp: w a)
  have end_w: "unat v + unat l \<le> (unat a + ?n) * 2 ^ 21" using v size by (simp add: algebra_simps)
  have "\<forall>u \<in> set ws. before w u"
    using ih(2) end_w by (fastforce simp: before_def within_def w a)
  moreover have "within (unat a * 2 ^ 21) ((unat a + sum_list (map blocks (w # ws))) * 2 ^ 21) w"
    using v end_w by (simp add: within_def w algebra_simps)
  moreover have "within (unat a * 2 ^ 21) ((unat a + sum_list (map blocks (w # ws))) * 2 ^ 21) u" if "u \<in> set ws" for u
    using ih(2) that a by (fastforce simp: within_def algebra_simps)
  ultimately show ?case using ih(1) by simp
qed simp

text \<open>
  The windows of the peripherals lie one behind the other from \<open>0xf2000000\<close> on and below
  4 GB, and no two of them overlap, as long as all of them together fit there.
\<close>

theorem platform_windows_disjoint:
  assumes "platform_init soc scb pcie w = Some (soc', scb', pcie', w')" and "mapped w = []"
    and "\<forall>(p, v, l) \<in> set (mapped w'). unat l \<le> 0xffe00000"
    and "0x790 + sum_list (map blocks (mapped w')) < 0x800"
  shows "sorted_wrt before (mapped w') \<and> (\<forall>u \<in> set (mapped w'). within 0xf2000000 (2 ^ 32) u)"
proof -
  let ?w = "w\<lparr>start_map := 0x790\<rparr>"
  obtain w1 w2 where "map_peripheral_ranges False soc ?w = Some (soc', w1)" "map_peripheral_ranges True scb w1 = Some (scb', w2)"
    "map_pcie_mmio_window pcie w2 = Some (pcie', w')"
    using assms(1) by (auto simp: platform_init_def bind_eq_Some_conv)
  then have "lays ?w w1" "lays w1 w2" "lays w2 w'"
    by (blast intro: map_peripheral_ranges_lays map_pcie_mmio_window_lays)+
  then have "lays ?w w'" by (blast intro: lays_trans)
  then have laid: "laid 0x790 (mapped w') (start_map w')" using assms(2) by (simp add: lays_def)
  have "sorted_wrt before (mapped w') \<and>
      (\<forall>u \<in> set (mapped w'). within (0x790 * 2 ^ 21) ((0x790 + sum_list (map blocks (mapped w'))) * 2 ^ 21) u)"
    using laid_windows [OF laid assms(3)] assms(4) by simp
  then show ?thesis using assms(4) by (fastforce simp: within_def)
qed

definition demo_soc :: bus_node where
  "demo_soc = \<lparr>op_value = [0x7e000000, 0x3f000000, 0x01000000, 0x40000000, 0x40000000, 0x00001000], op_length = 24,
     parent_cells = 1, address_cells = 1, size_cells = 1\<rparr>"

definition demo_windows :: window_state where
  "demo_windows = \<lparr>start_map = 0, mapped = [], local_intc_base = 0, pci_mmio = None\<rparr>"

lemma demo_platform:
  "platform_init (Some demo_soc) None None demo_windows =
     Some (Some (demo_soc\<lparr>op_value := [0x7e000000, 0xf2000000, 0x01000000, 0x40000000, 0xf3000000, 0x00001000]\<rparr>), None, None,
       \<lparr>start_map = 0x799, mapped = [(0x3f000000, 0xf2000000, 0x01000000), (0x40000000, 0xf3000000, 0x1000)],
        local_intc_base = 0xf3000000, pci_mmio = None\<rparr>)"
  by (simp add: platform_init_def map_peripheral_ranges_def map_pcie_mmio_window_def demo_soc_def demo_windows_def Let_def
      range_loop.simps map_range_def cell_def put_cell_def)

theorem platform_windows_disjoint_witness:
  "sorted_wrt before [(0x3f000000, 0xf2000000, 0x01000000), (0x40000000, 0xf3000000, 0x1000)]"
  using platform_windows_disjoint [OF demo_platform] by (simp add: demo_windows_def blocks_def)

section \<open>Complete tables\<close>

text \<open>A table of \<open>k\<close> whole entries, each with at least one cell for the bus address.\<close>

definition entry_cells :: "bus_node \<Rightarrow> int" where
  "entry_cells n = address_cells n + parent_cells n + size_cells n"

definition complete_table :: "bus_node \<Rightarrow> nat \<Rightarrow> bool" where
  "complete_table n k \<longleftrightarrow> address_cells n \<ge> 1 \<and> parent_cells n \<ge> 0 \<and> size_cells n \<ge> 0 \<and>
     op_length n = 4 * entry_cells n * int k \<and> int (length (op_value n)) = entry_cells n * int k"

lemma map_range_returns:
  assumes "complete_table n k" and "length cs = length (op_value n)" and "i < k"
  shows "\<exists>cs' w'. map_range is_scb (address_cells n - 1) (address_cells n - 1 + parent_cells n)
     (address_cells n - 1 + parent_cells n + size_cells n) (entry_cells n * int i) (cs, w) = Some (cs', w') \<and>
     length cs' = length (op_value n)"
proof -
  let ?e = "entry_cells n"
  have cells: "address_cells n \<ge> 1" "parent_cells n \<ge> 0" "size_cells n \<ge> 0" "int (length cs) = ?e * int k"
    using assms by (auto simp: complete_table_def)
  then have "?e \<ge> 0" by (simp add: entry_cells_def)
  then have "?e * (int i + 1) \<le> ?e * int k" using assms(3) by (intro mult_left_mono) auto
  then have "?e * int i + ?e \<le> int (length cs)" using cells(4) by (simp add: algebra_simps)
  moreover have "0 \<le> ?e * int i" using \<open>?e \<ge> 0\<close> by simp
  ultimately have pos: "0 \<le> ?e * int i + p" "?e * int i + p < int (length cs)" if "0 \<le> p" "p < ?e" for p
    using that by auto
  have p: "0 \<le> address_cells n - 1" "address_cells n - 1 < ?e"
    "0 \<le> address_cells n - 1 + parent_cells n" "address_cells n - 1 + parent_cells n < ?e"
    "0 \<le> address_cells n - 1 + parent_cells n + size_cells n" "address_cells n - 1 + parent_cells n + size_cells n < ?e"
    using cells by (auto simp: entry_cells_def)
  note in_range = pos [OF p(1,2)] pos [OF p(3,4)] pos [OF p(5,6)]
  show ?thesis
    using in_range assms(2) by (auto simp: map_range_def cell_def put_cell_def Let_def)
qed

lemma range_loop_returns:
  assumes "complete_table n k" and "length cs = length (op_value n)" and "i \<le> k"
  shows "\<exists>s'. range_loop (map_range is_scb (address_cells n - 1) (address_cells n - 1 + parent_cells n)
     (address_cells n - 1 + parent_cells n + size_cells n)) (entry_cells n) (entry_cells n * int i)
     (op_length n - 4 * entry_cells n * int i) (cs, w) = Some s'"
  using assms(2,3)
proof (induction "k - i" arbitrary: i cs w)
  case 0
  then have "i = k" by simp
  then show ?case using assms(1) by (subst range_loop.simps) (simp add: complete_table_def)
next
  case (Suc d)
  then have i: "i < k" "d = k - Suc i" by auto
  obtain cs' w' where step: "map_range is_scb (address_cells n - 1) (address_cells n - 1 + parent_cells n)
     (address_cells n - 1 + parent_cells n + size_cells n) (entry_cells n * int i) (cs, w) = Some (cs', w')"
    and len: "length cs' = length (op_value n)"
    using map_range_returns [OF assms(1) Suc.prems(1) i(1)] by blast
  have next_entry: "entry_cells n * int i + entry_cells n = entry_cells n * int (Suc i)"
    "op_length n - 4 * entry_cells n * int i - 4 * entry_cells n = op_length n - 4 * entry_cells n * int (Suc i)"
    by (simp_all add: algebra_simps)
  have "\<exists>s'. range_loop (map_range is_scb (address_cells n - 1) (address_cells n - 1 + parent_cells n)
     (address_cells n - 1 + parent_cells n + size_cells n)) (entry_cells n) (entry_cells n * int (Suc i))
     (op_length n - 4 * entry_cells n * int (Suc i)) (cs', w') = Some s'"
    by (rule Suc.hyps(1) [OF i(2) len]) (use i in simp)
  then show ?case
    by (subst range_loop.simps) (simp add: step next_entry)
qed

text \<open>
  A table of whole entries is processed to its end, however many entries it has, and no
  cell outside it is touched.
\<close>

theorem map_peripheral_ranges_returns:
  assumes "complete_table n k"
  shows "\<exists>n' w'. map_peripheral_ranges is_scb (Some n) w = Some (Some n', w')"
proof -
  obtain s' where "range_loop (map_range is_scb (address_cells n - 1) (address_cells n - 1 + parent_cells n)
     (address_cells n - 1 + parent_cells n + size_cells n)) (entry_cells n) 0 (op_length n) (op_value n, w) = Some s'"
    using range_loop_returns [OF assms refl le0, of is_scb w] by auto
  then show ?thesis
    by (cases s') (simp add: map_peripheral_ranges_def Let_def entry_cells_def)
qed

theorem map_peripheral_ranges_returns_witness:
  "\<exists>n' w'. map_peripheral_ranges True (Some demo_soc) demo_windows = Some (Some n', w')"
  by (rule map_peripheral_ranges_returns [of _ 2]) (simp add: complete_table_def entry_cells_def demo_soc_def)

section \<open>The machine behind the bus\<close>

text \<open>Four reads of the identification of Gayle, which must give one, one, zero, one.\<close>

definition gayle_bit :: "ps_config \<Rightarrow> (bool, 'a bus_state_scheme) prog" where
  "gayle_bit cf s = do { (v, s) \<leftarrow> ps_read_8_int cf 0xde1000 s; Some (v AND 0x80 \<noteq> 0, s) }"

definition detect_gayle :: "ps_config \<Rightarrow> (bool, 'a bus_state_scheme) prog" where
  "detect_gayle cf s =
     do {
       s \<leftarrow> ps_write_8_int cf 0xde1000 0 s;
       (b, s) \<leftarrow> gayle_bit cf s;
       if b
       then do {
         (b, s) \<leftarrow> gayle_bit cf s;
         if b
         then do {
           (b, s) \<leftarrow> gayle_bit cf s;
           if \<not> b then gayle_bit cf s else Some (False, s)
         }
         else Some (False, s)
       }
       else Some (False, s)
     }"

definition set_beamcon :: "ps_config \<Rightarrow> bool \<Rightarrow> bool \<Rightarrow> 'a bus_state_scheme \<Rightarrow> 'a bus_state_scheme option" where
  "set_beamcon cf pal_clear pal_set s =
     (if pal_clear then ps_write_16_int cf 0xdff1dc 0x00 s
      else if pal_set then ps_write_16_int cf 0xdff1dc 0x20 s
      else Some s)"

text \<open>The result is \<open>block_c0\<close>; \<open>pal\<close> are the two properties of the node \<open>/emu68\<close>, if there is one.\<close>

definition platform_bus_setup :: "ps_config \<Rightarrow> (bool \<times> bool) option \<Rightarrow> (bool, 'a bus_state_scheme) prog" where
  "platform_bus_setup cf pal s =
     do {
       s \<leftarrow> ps_pulse_reset cf s;
       (block_c0, s) \<leftarrow> detect_gayle cf s;
       s \<leftarrow> (case pal of None \<Rightarrow> Some s | Some (off, on) \<Rightarrow> set_beamcon cf off on s);
       Some (block_c0, s)
     }"

end
