(* ===== verification/Spec2Isabelle.thy ===== *)
theory Spec2Isabelle
  imports Probe CacheSteps PaulaAhead PaulaResync WriteBuffer Serial A64Load MainLoop Splash MixerPanel BootOptions
    Exceptions Unicam Platform
begin

text \<open>
  A verification development for Paulastorm: the C code of an accelerator firmware for the Amiga
  that runs on a Raspberry Pi in the processor socket (\<open>source/\<close> in the repository), with its
  addition, the replay of the Paula sound chip over HDMI.

  \<^bold>\<open>The program\<close>

  Four cores share the work. Core 0 runs the translated 68k code: the main loop finds or
  translates a block, enters it, and looks for interrupts between blocks; an access that the
  MMU does not map faults, and the handler decodes the faulting AArch64 instruction and carries
  it out on the machine's bus. Core 1 renders the sound: it takes the writes to the audio
  registers that the bus driver has captured, replays them with their time stamps into a
  model of Paula, and feeds the samples to the HDMI encoder. Core 2 drains the write buffer
  and watches the reset line, core 3 runs the PPC emulation and its timer. An
  Amiga program, the mixer panel, talks to the renderer through a bank of registers in the address space.

  \<^bold>\<open>Theories and sources\<close>, in the order they build on each other

  \<^item> \<open>Prelude\<close>: C integer types as words, byte order, set/clear registers, bit lemmas (the
    collections \<open>bits\<close> and \<open>frame\<close>).
  \<^item> \<open>Probe\<close>: \<open>paula_probe.c\<close>, \<open>paula_probe.h\<close>, the register bank.
  \<^item> \<open>Ring\<close>: the interface \<open>bounded_fifo\<close> of rings with free-running counters; \<open>Mirror\<close> and
    \<open>PageCache\<close> (\<open>paula_mirror.c\<close>, \<open>paula_mirror.h\<close>) interpret it for the ring of captured
    register writes and for the ring of page requests.
  \<^item> \<open>CacheSteps\<close>: the sample cache of \<open>paula_mirror.c\<close> as a step relation of renderer, bus
    writer and worker, cut at the atomic accesses.
  \<^item> \<open>Replay\<close>: \<open>paula_replay.h\<close>, the clock of audio frames.
  \<^item> \<open>Device\<close>, \<open>Mailbox\<close>, \<open>HdmiClock\<close>, \<open>HdmiInit\<close>, \<open>HdmiLive\<close>, \<open>HdmiRun\<close>:
    \<open>hdmi_audio_poc.c\<close> and \<open>paula_live.cpp\<close>, from the device accesses and the log to the
    initialisation, the replay with its resynchronisation, and the loop of the renderer. They take
    the sound chip as an argument.
  \<^item> \<open>Paula\<close>, \<open>PaulaMix\<close>: \<open>paula.cpp\<close>, \<open>paula.h\<close>, the sound chip: registers, sample DMA and mixer;
    the interface \<open>render_simulation\<close> compares two runs of the mixer and is interpreted for output
    settings, for a core over the sample cache against one over memory, and for the register bank.
  \<^item> \<open>PaulaLive\<close>, \<open>PaulaAhead\<close>, \<open>PaulaBank\<close>, \<open>PaulaResync\<close>: the rest of \<open>paula_live.cpp\<close> with this
    core: the speculative frame and its rollback, the lookahead, the bank the Amiga reads, and the
    core after a resynchronisation.
  \<^item> \<open>PsBus\<close>, \<open>BusSpec\<close>, \<open>BusRead\<close>, \<open>WriteBuffer\<close>, \<open>Serial\<close>:
    \<open>ps_classic_protocol.c\<close>; \<open>BusSpec\<close> states what the pins mean to the other side, so that
    the driver can be compared with a byte-addressed memory.
  \<^item> \<open>SysBus\<close>, \<open>SysMemory\<close>, \<open>RegFile\<close>, \<open>FaultStore\<close>, \<open>A64\<close>, \<open>FaultLoad\<close>, \<open>A64Load\<close>,
    \<open>Interrupts\<close>, \<open>Exceptions\<close>: \<open>vectors.c\<close>, the address decoder, the register frame
    (interface \<open>register_file\<close>), the emulation of faulting stores and loads against the
    encoding tables of the architecture, the interrupt notes, and the handlers that dispatch.
  \<^item> \<open>UnitCache\<close>, \<open>MainLoop\<close>: \<open>ExecutionLoop.c\<close>, the cache of translated blocks (interface
    \<open>lookup_cache\<close>), the search and a turn of the loop; \<open>Context\<close>: loading and saving of the processor
    state in \<open>start.c\<close>.
  \<^item> \<open>BootOptions\<close>: the command line and the ROM checksum of \<open>start.c\<close>.
  \<^item> \<open>Logo\<close>, \<open>Splash\<close>, \<open>Platform\<close>, \<open>Unicam\<close>: \<open>start_rpi64.c\<close>, the boot pictures and
    the text screen, the peripheral windows and the probe of the machine, and the camera interface.
  \<^item> \<open>MixerPanel\<close>: \<open>PaulaMixer.c\<close>, the state of the Amiga program.

  \<^bold>\<open>State and operations\<close>

  Static variables and structures are records, extended along the calls: \<open>mirror\<close>, \<open>io_state\<close>,
  \<open>bus_state\<close>, \<open>sys_state\<close>, \<open>cpu_state\<close>, \<open>exec_state\<close> and \<open>core_state\<close> each add the state of a
  layer, and an operation of a lower layer works on every extension. A function of the source is a
  definition of the same name from a state to a state, or to an \<open>option\<close> where it can hang; larger
  functions are split at their branches, with the lines in the manifest. C arrays are
  functions from the index. An error result or a dropped request is a value, not \<open>None\<close>.

  Hardware is not modelled by a fixed behaviour: \<open>io_read\<close>, \<open>io_clock\<close> and \<open>io_held\<close> give, for every
  access, what a device, the counter or a contended lock answers, and a theorem holds for all
  such functions that meet its hypotheses. The hypotheses are named: a counter that advances
  (\<open>clock_advances\<close>, \<open>counter_reaches\<close>, \<open>timer_runs\<close>), a bus that ends its transactions
  (\<open>transactions_end\<close>, \<open>bus_ready\<close>), registers that hold what is written (\<open>csi_ready\<close>). Each
  has an instance in the witnesses.

  Floating point is treated in the same way: the libraries used here have no theory of it, so
  \<open>double\<close> and \<open>float\<close> are types of any kind and the operations of the source on them are the
  fields of \<open>float_unit\<close>, applied in the order of the source. What is proved of the mixer holds for every
  rounding; the one hypothesis, where a theorem says that rendering returns, is that counting down by
  one falls below one (\<open>counts_down\<close>). The witnesses use exact rational numbers.

  \<^bold>\<open>What the theorems show\<close>

  Sound: in every interleaving of the cores a sample is either the byte of Chip RAM or
  flagged as missing, and a missing one is delivered later; the event ring is a bounded FIFO; the
  register shadow is the history of all writes, so a resynchronisation leaves in the core what replay
  would have left; the frame clock does not drift; the initialisation and every frame end, whatever the hardware does.
  A started channel plays its sample and then its loop, byte by byte; a missing sample only
  delays the sound, and what the DMA reads next has been requested; the output settings never reach
  the DMA; the bank of registers shows what the core uses.
  Bus: every access of the driver is a big-endian access of memory and ends; each write
  reaches the mirror once; buffered writes arrive in program order; the serial line can be
  decoded. Processor: a faulting load or store does what the architecture says, through the address
  decoder and back; the exception frame loses no register; interrupted code continues in
  three places only; an interrupt is entered exactly when its level passes the mask, not
  twice, and none of the ARM side is lost; the block cache is transparent, also for
  blocks marked for verification. Boot: every option keeps its bounds and numbers are read
  back; the ROM checksum is made valid; pictures are decoded and stay on the screen; windows of
  peripherals do not overlap. Panel: what it shows is what the firmware was sent.

  Where the code does something else than it means to, the theorem states what it does: the write
  buffer near the wrap of its counter, the indexed loads of vector registers, the long read of the
  interrupt enable register, the field masks of the camera interface, the short name of the
  distance option, the mute that is not smooth. The manifest lists them.

  \<^bold>\<open>Loops\<close>

  Loops over fixed bounds are folds or recursion on the bound. Loops that wait for hardware or
  run over data of unknown length are \<open>partial_function (option)\<close>, so no fuel is chosen
  anywhere: not ending is \<open>None\<close>, and that they end is proved where a property depends on it.

  \<^bold>\<open>Not modelled\<close>

  \<^item> The start code, page tables and call order of \<open>boot\<close> and \<open>M68K_StartEmu\<close> in \<open>start.c\<close>, the start of
    secondary cores, and clock, CPLD and memory calls in \<open>start_rpi64.c\<close>: work of code outside the repository.
  \<^item> \<open>PaulaProbe.c\<close> and the window of \<open>PaulaMixer.c\<close>: calls of Amiga libraries.
  \<^item> The bus and memory tests, \<open>ps_send_reset\<close> and the bus lock of \<open>ps_classic_protocol.c\<close>, the decoder
    of a build without a bus and console output.
  \<^item> The translator: \<open>jit_api\<close> stands for it, and the theorems on blocks hold for every translator.

  The build options are those of the classic board with the probe enabled.
\<close>

end
